(* ===== verification/Prelude.thy ===== *)
theory Prelude
  imports Complex_Main "HOL-Library.Char_ord" "HOL-Library.List_Lexorder"
    "HOL-Library.Product_Lexorder" "HOL-Library.Sublist" "HOL-Library.Multiset"
begin

text \<open>
  What every component of the model shares: the JSON values the workflow specs carry, the
  assoc-list view of a Python dict, a loop that may stop early (\<open>break\<close>), order-preserving
  de-duplication, decimal rendering of counters, and the fact collections the component
  theories extend.

  Conventions of the whole development. A Python \<open>int\<close> is an \<open>int\<close>, or a \<open>nat\<close> where the code
  never lets it go below zero. A Python \<open>float\<close> (a clock reading, a score, a metric) is a \<open>rat\<close>:
  every finite float is a rational, comparisons are exact, and only the rounding of additions
  and subtractions is abstracted. A Python \<open>dict\<close> whose order matters is an association list.
\<close>

named_theorems room_facts \<open>what the room-store operations do to a record\<close>
named_theorems tick_facts \<open>branch equations of the loop decision\<close>
named_theorems state_facts \<open>membership in the terminal and success state sets\<close>
named_theorems lease_facts \<open>branch equations of the lease decision\<close>
named_theorems queue_facts \<open>what the local-model queue operations do\<close>

section \<open>JSON values\<close>

datatype json =
    JNull
  | JBool bool
  | JInt int
  | JFloat rat
  | JStr string
  | JList "json list"
  | JObj "(string \<times> json) list"

type_synonym config = "(string \<times> json) list"

text \<open>\<open>cfg.get(key)\<close>: the value, or \<open>None\<close> when the key is absent (a stored \<open>null\<close> reads alike).\<close>

definition cfg_get :: "config \<Rightarrow> string \<Rightarrow> json" where
  "cfg_get cfg k = (case map_of cfg k of None \<Rightarrow> JNull | Some v \<Rightarrow> v)"

text \<open>Python truthiness, as \<open>x or default\<close> reads it.\<close>

fun truthy :: "json \<Rightarrow> bool" where
  "truthy JNull = False"
| "truthy (JBool b) = b"
| "truthy (JInt i) = (i \<noteq> 0)"
| "truthy (JFloat r) = (r \<noteq> 0)"
| "truthy (JStr s) = (s \<noteq> [])"
| "truthy (JList xs) = (xs \<noteq> [])"
| "truthy (JObj kvs) = (kvs \<noteq> [])"

text \<open>
  \<open>isinstance(v, int)\<close>: a Python \<open>bool\<close> IS an \<open>int\<close>, with \<open>True == 1\<close>. Code that wants to
  keep booleans out says so, so the model has both readings.
\<close>

fun as_int :: "json \<Rightarrow> int option" where
  "as_int (JInt i) = Some i"
| "as_int (JBool b) = Some (if b then 1 else 0)"
| "as_int _ = None"

fun as_true_int :: "json \<Rightarrow> int option" where
  "as_true_int (JInt i) = Some i"
| "as_true_int _ = None"

section \<open>Loops that may stop early\<close>

text \<open>
  \<open>for x in xs: ... break\<close>. The body returns the new state and whether the loop goes on.
  The congruence rule lets a recursive function call itself from the body of such a loop.
\<close>

fun scan :: "('x \<Rightarrow> 's \<Rightarrow> 's \<times> bool) \<Rightarrow> 'x list \<Rightarrow> 's \<Rightarrow> 's" where
  "scan f [] s = s"
| "scan f (x # xs) s = (case f x s of (s', go) \<Rightarrow> if go then scan f xs s' else s')"

lemma scan_cong [fundef_cong]:
  assumes "xs = ys" and "s = t" and "\<And>x u. x \<in> set ys \<Longrightarrow> f x u = g x u"
  shows "scan f xs s = scan g ys t"
  using assms(3) unfolding assms(1,2)
  by (induction ys arbitrary: t) (auto split: prod.splits)

lemma scan_preserves:
  assumes "P s" and "\<And>x u. x \<in> set xs \<Longrightarrow> P u \<Longrightarrow> P (fst (f x u))"
  shows "P (scan f xs s)"
  using assms
proof (induction xs arbitrary: s)
  case Nil
  then show ?case by simp
next
  case (Cons x xs)
  obtain s' go where step: "f x s = (s', go)" by (cases "f x s")
  have "P (fst (f x s))" using Cons.prems by simp
  then have "P s'" by (simp add: step)
  moreover have "P (scan f xs s')" using \<open>P s'\<close> Cons.prems(2) by (intro Cons.IH) auto
  ultimately show ?case by (simp add: step)
qed

lemma fold_preserves:
  assumes "P s" and "\<And>x u. x \<in> set xs \<Longrightarrow> P u \<Longrightarrow> P (f x u)"
  shows "P (fold f xs s)"
  using assms by (induction xs arbitrary: s) auto

text \<open>What a loop leaves under one key, when a round touches only the key of its element.\<close>

lemma fold_at_key:
  assumes "\<And>x s. key x \<noteq> k \<Longrightarrow> view (f x s) = view s" and "\<And>x s. key x = k \<Longrightarrow> view (f x s) = h x (view s)"
  shows "view (fold f xs s) = fold h (filter (\<lambda>x. key x = k) xs) (view s)"
  by (induction xs arbitrary: s) (simp_all add: assms)

section \<open>Order-preserving de-duplication\<close>

text \<open>\<open>if x not in out: out.append(x)\<close>, for one name and for a list of them.\<close>

definition push_new :: "'a \<Rightarrow> 'a list \<Rightarrow> 'a list" where
  "push_new x xs = (if x \<in> set xs then xs else xs @ [x])"

definition push_all :: "'a list \<Rightarrow> 'a list \<Rightarrow> 'a list" where
  "push_all ys xs = fold push_new ys xs"

lemma push_new_set [simp]: "set (push_new x xs) = insert x (set xs)"
  by (auto simp: push_new_def)

lemma push_new_distinct [simp]: "distinct (push_new x xs) = distinct xs"
  by (auto simp: push_new_def)

lemma push_all_Nil [simp]: "push_all [] xs = xs"
  by (simp add: push_all_def)

lemma push_all_Cons [simp]: "push_all (y # ys) xs = push_all ys (push_new y xs)"
  by (simp add: push_all_def)

lemma push_all_set [simp]: "set (push_all ys xs) = set xs \<union> set ys"
  by (induction ys arbitrary: xs) auto

lemma push_all_distinct [simp]: "distinct (push_all ys xs) = distinct xs"
  by (induction ys arbitrary: xs) auto

lemma push_all_prefix: "prefix xs (push_all ys xs)"
proof (induction ys arbitrary: xs)
  case (Cons y ys)
  have "prefix xs (push_new y xs)" by (auto simp: push_new_def)
  also have "prefix \<dots> (push_all ys (push_new y xs))" by (rule Cons.IH)
  finally show ?case by simp
qed simp

lemma push_all_noop: "set ys \<subseteq> set xs \<Longrightarrow> push_all ys xs = xs"
  by (induction ys) (auto simp: push_new_def)

lemma push_all_eq_filter: "distinct ys \<Longrightarrow> push_all ys xs = xs @ filter (\<lambda>y. y \<notin> set xs) ys"
proof (induction ys arbitrary: xs)
  case (Cons y ys)
  then have "filter (\<lambda>z. z \<noteq> y \<and> z \<notin> set xs) ys = filter (\<lambda>z. z \<notin> set xs) ys"
    by (intro filter_cong) auto
  with Cons show ?case by (auto simp: push_new_def)
qed simp

lemma push_all_append: "push_all (ys @ zs) xs = push_all zs (push_all ys xs)"
  by (simp add: push_all_def)

section \<open>Dicts\<close>

text \<open>\<open>d[k] = v\<close>, where an existing key keeps its place, \<open>d.update(e)\<close>, and \<open>d.pop(k, None)\<close>.\<close>

fun dict_set :: "('k \<times> 'v) list \<Rightarrow> 'k \<Rightarrow> 'v \<Rightarrow> ('k \<times> 'v) list" where
  "dict_set [] k v = [(k, v)]"
| "dict_set ((k', v') # d) k v = (if k' = k then (k, v) # d else (k', v') # dict_set d k v)"

definition dict_update :: "('k \<times> 'v) list \<Rightarrow> ('k \<times> 'v) list \<Rightarrow> ('k \<times> 'v) list" where
  "dict_update d e = fold (\<lambda>(k, v) d. dict_set d k v) e d"

definition dict_del :: "('k \<times> 'v) list \<Rightarrow> 'k \<Rightarrow> ('k \<times> 'v) list" where
  "dict_del d k = filter (\<lambda>(k', v). k' \<noteq> k) d"

lemma dict_set_lookup [simp]: "map_of (dict_set d k v) = (map_of d)(k \<mapsto> v)"
  by (induction d) (auto simp: fun_eq_iff)

lemma dict_set_keys: "map fst (dict_set d k v) = push_new k (map fst d)"
  by (induction d) (force simp: push_new_def)+

lemma dict_set_distinct [simp]: "distinct (map fst (dict_set d k v)) = distinct (map fst d)"
  by (simp add: dict_set_keys)

lemma dict_del_lookup [simp]: "map_of (dict_del d k) = (map_of d)(k := None)"
  by (induction d) (auto simp: dict_del_def fun_eq_iff)

lemma dict_set_same: "map_of d k = Some v \<Longrightarrow> dict_set d k v = d"
  by (induction d) auto

lemma dict_del_absent: "map_of d k = None \<Longrightarrow> dict_del d k = d"
  unfolding dict_del_def by (rule filter_True) (force simp: map_of_eq_None_iff)

lemma dict_set_fresh: "k \<notin> set (map fst d) \<Longrightarrow> dict_set d k v = d @ [(k, v)]"
  by (induction d) auto

lemma dict_update_fresh:
  "distinct (map fst e) \<Longrightarrow> set (map fst e) \<inter> set (map fst d) = {} \<Longrightarrow> dict_update d e = d @ e"
proof (induction e arbitrary: d)
  case (Cons kv e)
  obtain k v where kv: "kv = (k, v)" by (cases kv)
  have "dict_update d (kv # e) = dict_update (d @ [(k, v)]) e"
    using Cons.prems kv dict_set_fresh [of k d v] by (simp add: dict_update_def)
  also have "\<dots> = (d @ [(k, v)]) @ e" using Cons.prems kv by (intro Cons.IH) auto
  finally show ?case by (simp add: kv)
qed (simp add: dict_update_def)

lemma dict_update_at:
  "map_of (dict_update d e) k = (case map_of (rev e) k of Some v \<Rightarrow> Some v | None \<Rightarrow> map_of d k)"
  unfolding dict_update_def
  by (induction e rule: rev_induct) (auto simp: case_prod_beta)

lemma map_of_rev: "distinct (map fst e) \<Longrightarrow> map_of (rev e) = map_of e"
proof (induction e)
  case (Cons x e)
  then have "map_of e (fst x) = None" by (simp add: map_of_eq_None_iff)
  then show ?case using Cons by (auto simp: map_add_def fun_eq_iff split: option.split)
qed simp

section \<open>Equality of JSON values\<close>

text \<open>
  Python's \<open>==\<close>: \<open>True == 1 == 1.0\<close>, a list element by element, a dict whatever the order of its keys.
\<close>

fun number_of :: "json \<Rightarrow> rat option" where
  "number_of (JBool b) = Some (if b then 1 else 0)"
| "number_of (JInt i) = Some (of_int i)"
| "number_of (JFloat q) = Some q"
| "number_of _ = None"

lemma zip_size [termination_simp]: "(x, y) \<in> set (zip xs ys) \<Longrightarrow> size x < Suc (size_list size xs)"
  by (drule set_zip_leftD) (auto dest: size_list_estimation' [where f = size, OF _ order_refl])

fun json_eq :: "json \<Rightarrow> json \<Rightarrow> bool" where
  "json_eq (JList xs) w = (case w of
     JList ys \<Rightarrow> length xs = length ys \<and> list_all (\<lambda>(x, y). json_eq x y) (zip xs ys) | _ \<Rightarrow> False)"
| "json_eq (JObj a) w = (case w of
     JObj b \<Rightarrow> length a = length b \<and>
       list_all (\<lambda>(k, v). case map_of b k of None \<Rightarrow> False | Some u \<Rightarrow> json_eq v u) a
   | _ \<Rightarrow> False)"
| "json_eq (JStr s) w = (w = JStr s)"
| "json_eq JNull w = (w = JNull)"
| "json_eq v w = (number_of w = number_of v)"

section \<open>Progress arguments\<close>

text \<open>
  A step function that either has stopped or raises a bounded rank stops within the bound: how the
  liveness claims about retried decisions are proved.
\<close>

lemma bounded_progress:
  fixes rank :: "'s \<Rightarrow> nat"
  assumes "Inv s"
    and "\<And>u. Inv u \<Longrightarrow> \<not> stop u \<Longrightarrow> Inv (f u) \<and> rank u < rank (f u) \<and> rank (f u) \<le> B"
  shows "\<exists>n \<le> B - rank s. stop ((f ^^ n) s)"
  using assms(1)
proof (induction "B - rank s" arbitrary: s rule: less_induct)
  case less
  show ?case
  proof (cases "stop s")
    case True
    then show ?thesis by (intro exI [of _ 0]) simp
  next
    case False
    with assms(2) less.prems have next_state:
      "Inv (f s)" "rank s < rank (f s)" "rank (f s) \<le> B" by blast+
    then have "B - rank (f s) < B - rank s" by linarith
    with less.hyps next_state obtain n where
      n: "n \<le> B - rank (f s)" "stop ((f ^^ n) (f s))" by blast
    with next_state have "Suc n \<le> B - rank s" by linarith
    with n show ?thesis by (intro exI [of _ "Suc n"]) (simp add: funpow_swap1)
  qed
qed

lemma funpow_preserves: "P s \<Longrightarrow> (\<And>u. P u \<Longrightarrow> P (f u)) \<Longrightarrow> P ((f ^^ n) s)"
  by (induction n) auto

section \<open>Stripping white space\<close>

text \<open>\<open>str.strip()\<close>, over the ASCII white space.\<close>

definition is_space :: "char \<Rightarrow> bool" where
  "is_space c = (c \<in> set ([CHR '' '', CHR 0x09, CHR 0x0A, CHR 0x0B, CHR 0x0C, CHR 0x0D,
     CHR 0x1C, CHR 0x1D, CHR 0x1E, CHR 0x1F]))"

definition strip :: "string \<Rightarrow> string" where
  "strip s = rev (dropWhile is_space (rev (dropWhile is_space s)))"

lemma strip_Nil [simp]: "strip [] = []"
  by (simp add: strip_def)

section \<open>Reading stored JSON\<close>

text \<open>
  How a tolerant reader's parse fails: a \<open>ValueError\<close>, a \<open>TypeError\<close> (iterating a number, \<open>int()\<close> of a
  list), or an \<open>AttributeError\<close> (\<open>.get\<close> of what is no dict).
\<close>

datatype decode_error = ValueError | TypeError | AttributeError

text \<open>
  \<open>data.get(key, default)\<close> with the default a missing key takes; \<open>py_str\<close> is \<open>str()\<close> of what is not a
  string, \<open>int_text\<close> is \<open>int()\<close> of a string.
\<close>

definition get_or :: "config \<Rightarrow> string \<Rightarrow> json \<Rightarrow> json" where
  "get_or d k dflt = (case map_of d k of None \<Rightarrow> dflt | Some v \<Rightarrow> v)"

fun text_of :: "(json \<Rightarrow> string) \<Rightarrow> json \<Rightarrow> string" where
  "text_of py_str (JStr s) = s"
| "text_of py_str v = py_str v"

fun rat_trunc :: "rat \<Rightarrow> int" where
  "rat_trunc q = (if q < 0 then - \<lfloor>- q\<rfloor> else \<lfloor>q\<rfloor>)"

definition int_of_field :: "(string \<Rightarrow> int option) \<Rightarrow> json \<Rightarrow> decode_error + int" where
  "int_of_field int_text v =
     (if \<not> truthy v then Inr 0
      else case v of
             JInt i \<Rightarrow> Inr i
           | JBool b \<Rightarrow> Inr 1
           | JFloat q \<Rightarrow> Inr (rat_trunc q)
           | JStr s \<Rightarrow> (case int_text s of None \<Rightarrow> Inl ValueError | Some i \<Rightarrow> Inr i)
           | _ \<Rightarrow> Inl TypeError)"

text \<open>\<open>float(v or 0.0)\<close>; \<open>float_text\<close> is \<open>float()\<close> of a string.\<close>

definition float_of_field :: "(string \<Rightarrow> rat option) \<Rightarrow> json \<Rightarrow> decode_error + rat" where
  "float_of_field float_text v =
     (if \<not> truthy v then Inr 0
      else case v of
             JInt i \<Rightarrow> Inr (of_int i)
           | JBool b \<Rightarrow> Inr 1
           | JFloat q \<Rightarrow> Inr q
           | JStr s \<Rightarrow> (case float_text s of None \<Rightarrow> Inl ValueError | Some q \<Rightarrow> Inr q)
           | _ \<Rightarrow> Inl TypeError)"

text \<open>\<open>for x in (v or [])\<close>: a list's elements, a dict's keys, a string's characters.\<close>

definition iter_of :: "json \<Rightarrow> decode_error + json list" where
  "iter_of v =
     (if \<not> truthy v then Inr []
      else case v of
             JList xs \<Rightarrow> Inr xs
           | JObj kvs \<Rightarrow> Inr (map (JStr \<circ> fst) kvs)
           | JStr s \<Rightarrow> Inr (map (\<lambda>c. JStr [c]) s)
           | _ \<Rightarrow> Inl TypeError)"

definition BOOL_TRUE_WORDS :: "string list" where
  "BOOL_TRUE_WORDS = [''true'', ''yes'', ''on'', ''1'', ''y'']"

definition ascii_lower :: "char \<Rightarrow> char" where
  "ascii_lower c = (if CHR ''A'' \<le> c \<and> c \<le> CHR ''Z'' then char_of (of_char c + (32 :: nat)) else c)"

text \<open>\<open>safety_flags.strict_bool\<close> with the default \<open>False\<close>.\<close>

fun strict_bool :: "json \<Rightarrow> bool" where
  "strict_bool (JBool b) = b"
| "strict_bool (JStr s) = (map ascii_lower (strip s) \<in> set BOOL_TRUE_WORDS)"
| "strict_bool (JInt i) = (i \<noteq> 0)"
| "strict_bool (JFloat q) = (q \<noteq> 0)"
| "strict_bool _ = False"

definition BOOL_FALSE_WORDS :: "string list" where
  "BOOL_FALSE_WORDS = [''false'', ''no'', ''off'', ''0'', ''n'', []]"

text \<open>\<open>safety_flags.yes_or_no\<close>.\<close>

definition yes_or_no :: "json \<Rightarrow> bool option" where
  "yes_or_no v =
     (case v of
        JBool b \<Rightarrow> Some b
      | JStr s \<Rightarrow>
          (let word = map ascii_lower (strip s) in
           if word \<noteq> [] \<and> word \<in> set BOOL_TRUE_WORDS then Some True
           else if word \<noteq> [] \<and> word \<in> set BOOL_FALSE_WORDS then Some False
           else None)
      | _ \<Rightarrow> None)"

fun map_result :: "('a \<Rightarrow> 'e + 'b) \<Rightarrow> 'a list \<Rightarrow> 'e + 'b list" where
  "map_result f [] = Inr []"
| "map_result f (x # xs) =
     (case f x of Inl e \<Rightarrow> Inl e
      | Inr y \<Rightarrow> (case map_result f xs of Inl e \<Rightarrow> Inl e | Inr ys \<Rightarrow> Inr (y # ys)))"

lemma map_result_inverse:
  "(\<And>x. x \<in> set xs \<Longrightarrow> f (g x) = Inr x) \<Longrightarrow> map_result f (map g xs) = Inr xs"
  by (induction xs) auto

section \<open>Decimal rendering\<close>

text \<open>\<open>f"{n}"\<close> of a counter: most significant digit first.\<close>

fun nat_str :: "nat \<Rightarrow> string" where
  "nat_str n = (if n < 10 then [char_of (48 + n)] else nat_str (n div 10) @ [char_of (48 + n mod 10)])"

declare nat_str.simps [simp del]

lemma nat_str_nonempty [simp]: "nat_str n \<noteq> []"
  by (subst nat_str.simps) simp

section \<open>Counting\<close>

lemma count_list_append [simp]: "count_list (xs @ ys) x = count_list xs x + count_list ys x"
  by (induction xs) auto

lemma list_all_filter_id: "list_all P xs \<Longrightarrow> filter P xs = xs"
  by (induction xs) auto

lemma filter_one_key: "distinct (map f xs) \<Longrightarrow> x \<in> set xs \<Longrightarrow> filter (\<lambda>y. f y = f x) xs = [x]"
  by (induction xs) (auto simp: filter_empty_conv rev_image_eqI)

text \<open>Blocks with different keys share nothing, so their concatenation is distinct.\<close>

lemma distinct_blocks:
  assumes "distinct (map key xs)"
    and "\<And>x. x \<in> set xs \<Longrightarrow> distinct (f x)"
    and "\<And>x y q. x \<in> set xs \<Longrightarrow> y \<in> set xs \<Longrightarrow> q \<in> set (f x) \<Longrightarrow> q \<in> set (f y) \<Longrightarrow> key x = key y"
  shows "distinct (concat (map f xs))"
  using assms
proof (induction xs)
  case (Cons x xs)
  have "set (f x) \<inter> set (concat (map f xs)) = {}"
    using Cons.prems(1,3) by (fastforce simp: image_iff)
  moreover have "distinct (concat (map f xs))" using Cons by (intro Cons.IH) auto
  ultimately show ?case using Cons.prems(2) [of x] by simp
qed simp

end
