(* ===== verification/LoopMiddleware.thy ===== *)
theory LoopMiddleware
  imports Prelude
begin

text \<open>
  \<^verbatim>\<open>workflows/loop_middleware.py\<close>: the failure taxonomy, the escalation ladder's vocabulary, the
  corrective instructions and the steering queue the loop decision (theory \<open>LoopTick\<close>) reads.
\<close>

section \<open>Failure classification\<close>

datatype failure_class =
    MALFORMED_OUTPUT
  | WRONG_WORK
  | RATE_LIMIT
  | TRANSIENT
  | CONTEXT_OVERFLOW
  | ENVIRONMENT
  | GAVE_UP
  | UNKNOWN

fun fc_value :: "failure_class \<Rightarrow> string" where
  "fc_value MALFORMED_OUTPUT = ''malformed_output''"
| "fc_value WRONG_WORK = ''wrong_work''"
| "fc_value RATE_LIMIT = ''rate_limit''"
| "fc_value TRANSIENT = ''transient''"
| "fc_value CONTEXT_OVERFLOW = ''context_overflow''"
| "fc_value ENVIRONMENT = ''environment''"
| "fc_value GAVE_UP = ''gave_up''"
| "fc_value UNKNOWN = ''unknown''"

definition all_failure_classes :: "failure_class list" where
  "all_failure_classes = [MALFORMED_OUTPUT, WRONG_WORK, RATE_LIMIT, TRANSIENT, CONTEXT_OVERFLOW,
     ENVIRONMENT, GAVE_UP, UNKNOWN]"

text \<open>\<open>FailureClass(value)\<close>; \<open>None\<close> is the \<open>ValueError\<close>.\<close>

definition fc_of :: "string \<Rightarrow> failure_class option" where
  "fc_of s = find (\<lambda>c. fc_value c = s) all_failure_classes"

lemma fc_of_value [simp]: "fc_of (fc_value c) = Some c"
  by (cases c) (simp_all add: fc_of_def all_failure_classes_def)

definition RECOVERABLE :: "failure_class list" where
  "RECOVERABLE = [RATE_LIMIT, TRANSIENT]"

definition RECOVERABLE_HEADROOM :: nat where
  "RECOVERABLE_HEADROOM = 3"

text \<open>
  The patterns of \<open>_CLASS_PATTERNS\<close>. Each alternative is a list of character classes (one string
  of allowed characters per position), with an optional word boundary after it; the optional
  characters of the regular expressions are written out as separate alternatives. Every pattern
  begins at a word boundary, and the text is lower-cased ASCII.
\<close>

type_synonym alternative = "string list \<times> bool"

definition lit :: "string \<Rightarrow> alternative" where
  "lit s = (map (\<lambda>c. [c]) s, False)"

definition digit_chars :: string where
  "digit_chars = ''0123456789''"

definition word_chars :: string where
  "word_chars = ''abcdefghijklmnopqrstuvwxyzABCDEFGHIJKLMNOPQRSTUVWXYZ0123456789_''"

definition CLASS_PATTERNS :: "(failure_class \<times> alternative list) list" where
  "CLASS_PATTERNS =
    [(RATE_LIMIT, map lit
        [''429'', ''rate limit'', ''ratelimit'', ''too many requests'', ''throttl'']),
     (CONTEXT_OVERFLOW, map lit
        [''context_length_exceeded'', ''prompt is too long'', ''prompt_too_long'',
         ''maximum context'', ''context window exceeded'', ''context window full'']),
     (ENVIRONMENT, map lit
        [''command not found'', ''no such file or directory'', ''permission denied'',
         ''modulenotfounderror'', ''executable not found'']),
     (TRANSIENT, ([''5'', digit_chars, digit_chars], True) # map lit
        [''timed out'', ''timedout'', ''time out'', ''timeout'', ''connection reset'',
         ''connection refused'', ''connection aborted'', ''temporarily unavailable'',
         ''service unavailable'', ''econnreset'']),
     (MALFORMED_OUTPUT, map lit
        [''json decode'', ''jsondecode'', ''invalid json'', ''schema error'', ''schema failed'',
         ''schema validation error'', ''schema validation failed'', ''failed to parse'',
         ''unexpected token'', ''validationerror'', ''parse error'']),
     (GAVE_UP, map lit
        [''i could not'', ''i couldnot'', ''i couldn't'', ''i could n't'', ''i couldnt'', ''i could nt'',
         ''i was unable to'',
         ''give up'', ''giving up'', ''need human'', ''needs human''])]"

definition word_at :: "string \<Rightarrow> nat \<Rightarrow> bool" where
  "word_at s i = (i < length s \<and> s ! i \<in> set word_chars)"

text \<open>\<open>\b\<close> at position \<open>i\<close>: the characters on its two sides differ in being word characters.\<close>

definition boundary_at :: "string \<Rightarrow> nat \<Rightarrow> bool" where
  "boundary_at s i = ((0 < i \<and> word_at s (i - 1)) \<noteq> word_at s i)"

definition alternative_at :: "string \<Rightarrow> nat \<Rightarrow> alternative \<Rightarrow> bool" where
  "alternative_at s i alt =
     (case alt of (classes, edge) \<Rightarrow>
        i + length classes \<le> length s
        \<and> list_all (\<lambda>(c, cls). c \<in> set cls) (zip (drop i s) classes)
        \<and> (edge \<longrightarrow> boundary_at s (i + length classes)))"

definition search :: "alternative list \<Rightarrow> string \<Rightarrow> bool" where
  "search alts s =
     list_ex (\<lambda>i. boundary_at s i \<and> list_ex (alternative_at s i) alts) [0..<length s]"

definition lower_char :: "char \<Rightarrow> char" where
  "lower_char c = (if CHR ''A'' \<le> c \<and> c \<le> CHR ''Z'' then char_of (of_char c + (32 :: nat)) else c)"

definition classify_failure :: "string \<Rightarrow> string \<Rightarrow> failure_class" where
  "classify_failure text hint =
     (case (if hint = [] then None else fc_of hint) of
        Some c \<Rightarrow> c
      | None \<Rightarrow>
          (let lowered = map lower_char text in
           case find (\<lambda>(c, alts). search alts lowered) CLASS_PATTERNS of
             Some (c, _) \<Rightarrow> c
           | None \<Rightarrow> UNKNOWN))"

section \<open>The ladder\<close>

datatype rung = CLASSIFIED_RETRY | FRESH_SESSION | MODEL_SWITCH | RESTART_FROM_SCRATCH | SURFACE

fun rung_value :: "rung \<Rightarrow> string" where
  "rung_value CLASSIFIED_RETRY = ''classified_retry''"
| "rung_value FRESH_SESSION = ''fresh_session''"
| "rung_value MODEL_SWITCH = ''model_switch''"
| "rung_value RESTART_FROM_SCRATCH = ''restart_from_scratch''"
| "rung_value SURFACE = ''surface''"

definition DEFAULT_LADDER :: "rung list" where
  "DEFAULT_LADDER = [CLASSIFIED_RETRY, FRESH_SESSION, MODEL_SWITCH, RESTART_FROM_SCRATCH, SURFACE]"

definition rung_of :: "string \<Rightarrow> rung option" where
  "rung_of s = find (\<lambda>r. rung_value r = s) DEFAULT_LADDER"

text \<open>The order of the ladder: each rung is more expensive than the last.\<close>

fun rung_cost :: "rung \<Rightarrow> nat" where
  "rung_cost CLASSIFIED_RETRY = 0"
| "rung_cost FRESH_SESSION = 1"
| "rung_cost MODEL_SWITCH = 2"
| "rung_cost RESTART_FROM_SCRATCH = 3"
| "rung_cost SURFACE = 4"

instantiation rung :: linorder
begin

definition less_eq_rung :: "rung \<Rightarrow> rung \<Rightarrow> bool" where
  "less_eq_rung a b = (rung_cost a \<le> rung_cost b)"

definition less_rung :: "rung \<Rightarrow> rung \<Rightarrow> bool" where
  "less_rung a b = (rung_cost a < rung_cost b)"

instance
proof
  fix a b c :: rung
  show "a < b \<longleftrightarrow> a \<le> b \<and> \<not> b \<le> a" by (auto simp: less_eq_rung_def less_rung_def)
  show "a \<le> a" by (simp add: less_eq_rung_def)
  show "a \<le> b \<Longrightarrow> b \<le> c \<Longrightarrow> a \<le> c" by (simp add: less_eq_rung_def)
  show "a \<le> b \<Longrightarrow> b \<le> a \<Longrightarrow> a = b" by (cases a; cases b) (simp_all add: less_eq_rung_def)
  show "a \<le> b \<or> b \<le> a" by (auto simp: less_eq_rung_def)
qed

end

lemma rung_of_value [simp]: "rung_of (rung_value r) = Some r"
  by (cases r) (simp_all add: rung_of_def DEFAULT_LADDER_def)

lemma rung_le_SURFACE [simp]: "r \<le> SURFACE"
  by (cases r) (simp_all add: less_eq_rung_def)

text \<open>\<open>CLASS_ENTRY_RUNG.get(cls, CLASSIFIED_RETRY)\<close>.\<close>

fun CLASS_ENTRY_RUNG :: "failure_class \<Rightarrow> rung" where
  "CLASS_ENTRY_RUNG MALFORMED_OUTPUT = CLASSIFIED_RETRY"
| "CLASS_ENTRY_RUNG WRONG_WORK = FRESH_SESSION"
| "CLASS_ENTRY_RUNG CONTEXT_OVERFLOW = FRESH_SESSION"
| "CLASS_ENTRY_RUNG GAVE_UP = FRESH_SESSION"
| "CLASS_ENTRY_RUNG ENVIRONMENT = SURFACE"
| "CLASS_ENTRY_RUNG UNKNOWN = CLASSIFIED_RETRY"
| "CLASS_ENTRY_RUNG RATE_LIMIT = CLASSIFIED_RETRY"
| "CLASS_ENTRY_RUNG TRANSIENT = CLASSIFIED_RETRY"

definition DEFAULT_NO_PROGRESS_STOP :: nat where "DEFAULT_NO_PROGRESS_STOP = 5"
definition DEFAULT_HYPOTHESIS_ABANDON :: nat where "DEFAULT_HYPOTHESIS_ABANDON = 3"
definition DEFAULT_FINGERPRINT_WINDOW :: nat where "DEFAULT_FINGERPRINT_WINDOW = 3"

text \<open>
  \<open>_resolve_ladder\<close>: \<open>Rung(str(item))\<close> per item of a declared list; \<open>str\<close> of a value that is
  not a string is never a rung's name, so only string items can name one.
\<close>

fun rung_item :: "json \<Rightarrow> rung option" where
  "rung_item (JStr s) = rung_of s"
| "rung_item _ = None"

definition resolve_ladder :: "config \<Rightarrow> rung list" where
  "resolve_ladder esc =
     (case cfg_get esc ''ladder'' of
        JList raw \<Rightarrow>
          (let rungs = List.map_filter rung_item raw in
           if rungs = [] then DEFAULT_LADDER
           else if last rungs \<noteq> SURFACE then rungs @ [SURFACE]
           else rungs)
      | _ \<Rightarrow> DEFAULT_LADDER)"

lemma DEFAULT_LADDER_ends [simp]: "DEFAULT_LADDER \<noteq> []" "last DEFAULT_LADDER = SURFACE"
  by (simp_all add: DEFAULT_LADDER_def)

lemma resolve_ladder_ends: "resolve_ladder esc \<noteq> [] \<and> last (resolve_ladder esc) = SURFACE"
  by (simp add: resolve_ladder_def Let_def split: json.split)

section \<open>Steering: the interrupt queue\<close>

record interrupt =
  int_id :: nat
  int_text :: string
  created_ts :: rat
  consumed_ts :: rat

record interrupt_queue =
  iq_items :: "interrupt list"
  iq_seq :: nat

definition consumed :: "interrupt \<Rightarrow> bool" where
  "consumed i = (consumed_ts i > 0)"

text \<open>\<open>push\<close>: an instruction that is empty after \<open>strip()\<close> is not queued; \<open>now=None\<close> stamps 0.\<close>

definition iq_push :: "interrupt_queue \<Rightarrow> string \<Rightarrow> rat option \<Rightarrow> interrupt_queue \<times> interrupt option" where
  "iq_push q txt now =
     (if strip txt = [] then (q, None)
      else let n = Suc (iq_seq q);
               item = \<lparr>int_id = n, int_text = strip txt,
                       created_ts = (case now of Some t \<Rightarrow> t | None \<Rightarrow> 0), consumed_ts = 0\<rparr>
           in (q\<lparr>iq_items := iq_items q @ [item], iq_seq := n\<rparr>, Some item))"

definition iq_pending :: "interrupt_queue \<Rightarrow> interrupt list" where
  "iq_pending q = filter (\<lambda>i. \<not> consumed i) (iq_items q)"

text \<open>
  \<open>consume(now)\<close>: the clock reading is the argument; a zero reading stamps 1.0 (\<open>stamp or 1.0\<close>),
  which is what keeps the consumption visible. The code hands out the records it just stamped.
\<close>

definition iq_consume :: "interrupt_queue \<Rightarrow> rat \<Rightarrow> interrupt_queue \<times> interrupt list" where
  "iq_consume q now =
     (let stamp = (if now = 0 then 1 else now);
          mark = (\<lambda>i. if consumed i then i else i\<lparr>consumed_ts := stamp\<rparr>)
      in (q\<lparr>iq_items := map mark (iq_items q)\<rparr>, map mark (iq_pending q)))"

lemma iq_consume_pending:
  assumes "0 \<le> now"
  shows "iq_pending (fst (iq_consume q now)) = []"
  using assms by (auto simp: iq_consume_def iq_pending_def consumed_def Let_def filter_empty_conv)

lemma iq_consume_texts:
  "map int_text (snd (iq_consume q now)) = map int_text (iq_pending q)"
  by (simp add: iq_consume_def Let_def)

end
