(* ===== verification/LoopTick.thy ===== *)
theory LoopTick
  imports LoopMiddleware
begin

text \<open>
  \<^verbatim>\<open>loop/tick.py\<close>: the pure per-tick decision of a stepwise loop (\<open>evaluate\<close>), the escalation
  ladder derived from persisted counters (\<open>stall_response\<close>), the write half that advances those
  counters (\<open>applied\<close>), the zero-wait collapse and the parsers of a plan phase.

  A decision's \<open>reason\<close> and \<open>detail\<close> are kept as the sentence's template and its arguments rather
  than as formatted text; a nudge is kept as the source it was taken from, with \<open>None\<close> for \<open>""\<close>.
\<close>

section \<open>Decisions, configuration, state\<close>

datatype action = EXECUTE | WAITING | HOLD | ADVANCE | ROLLBACK | COMPLETE | ESCALATE | REPLAN

datatype tick_reason =
    CycleBudgetReached
  | AllStepsComplete
  | AllStepsCollapsed
  | WorkerTurnInFlight
  | RecoverableExhausted
  | RecoverableWait
  | EnvironmentBroken
  | PlanCritique
  | StallReason string
  | RollbackCapHit int int
  | MetricRegressed rat rat
  | BakeNotElapsed
  | GatheringEvidence int int
  | StepGatePassed int
  | MetricMarginal rat rat
  | ContinueStep

datatype tick_detail =
    NoDetail
  | ConsecutiveRecoverable nat
  | WaitingRatherThanEscalating failure_class
  | NoRetryFixesEnvironment
  | ReplanFromCritique nat int
  | StallConfirmedBy string
  | SameFailingCall nat
  | SameFixFailed nat
  | NoImprovementOn nat rat
  | LadderExhausted tick_detail

datatype nudge =
    NudgeSpecific string
  | NudgeForClass failure_class
  | NudgeForStall string
  | NudgeGeneric tick_detail

text \<open>
  \<open>nudge_for\<close>: the template's own instruction, then the failure class's, then the stall shape's,
  then the generic sentence. An empty instruction is no instruction (\<open>if specific\<close>).
\<close>

definition nudge_for ::
  "failure_class \<Rightarrow> (string \<times> string) list \<Rightarrow> tick_detail \<Rightarrow> string \<Rightarrow> nudge" where
  "nudge_for cls mutations detail stall =
     (case map_of mutations (fc_value cls) of
        Some (ch # chs) \<Rightarrow> NudgeSpecific (ch # chs)
      | _ \<Rightarrow>
          if cls \<in> set [MALFORMED_OUTPUT, WRONG_WORK, GAVE_UP, CONTEXT_OVERFLOW] then NudgeForClass cls
          else if stall \<in> set [''identical_call'', ''hypothesis_exhausted'', ''no_progress'']
          then NudgeForStall stall
          else NudgeGeneric detail)"

record decision =
  d_action :: action
  d_step_index :: int
  d_reason :: tick_reason
  d_metric :: "rat option"
  d_rung :: "rung option"
  d_detail :: tick_detail
  d_failure_class :: failure_class
  d_nudge_text :: "nudge option"
  d_wait_secs :: rat
  d_consumed_rung :: bool
  d_replan_directive :: string

text \<open>The positional constructor with the neutral convergence fields.\<close>

definition Decision :: "action \<Rightarrow> int \<Rightarrow> tick_reason \<Rightarrow> rat option \<Rightarrow> decision" where
  "Decision a i r m =
     \<lparr>d_action = a, d_step_index = i, d_reason = r, d_metric = m, d_rung = None,
      d_detail = NoDetail, d_failure_class = UNKNOWN, d_nudge_text = None, d_wait_secs = 0,
      d_consumed_rung = True, d_replan_directive = []\<rparr>"

lemma Decision_sel [simp]:
  "d_action (Decision a i r m) = a" "d_step_index (Decision a i r m) = i"
  "d_reason (Decision a i r m) = r" "d_metric (Decision a i r m) = m"
  "d_rung (Decision a i r m) = None" "d_detail (Decision a i r m) = NoDetail"
  "d_failure_class (Decision a i r m) = UNKNOWN" "d_nudge_text (Decision a i r m) = None"
  "d_wait_secs (Decision a i r m) = 0" "d_consumed_rung (Decision a i r m) = True"
  "d_replan_directive (Decision a i r m) = []"
  by (simp_all add: Decision_def)

definition surfaced :: "decision \<Rightarrow> bool" where
  "surfaced d = (d_rung d = Some SURFACE)"

record step_config =
  min_dwell_secs :: rat
  min_findings :: int
  metric_pass :: "rat option"
  metric_hold :: "rat option"

definition StepConfig :: step_config where
  "StepConfig = \<lparr>min_dwell_secs = 0, min_findings = 0, metric_pass = None, metric_hold = None\<rparr>"

text \<open>The windows are kept as the raw values a template declares: \<open>_window\<close> normalises them.\<close>

record tick_config =
  steps :: "step_config list"
  max_cycles :: int
  rollback_cap :: int
  ladder :: "rung list"
  failure_mutations :: "(string \<times> string) list"
  fingerprint_window :: json
  hypothesis_abandon_after :: json
  no_progress_stop :: json
  attempt_cap :: json
  replan_cap :: int

definition DEFAULT_ATTEMPT_CAP :: nat where "DEFAULT_ATTEMPT_CAP = 3"
definition DEFAULT_REPLAN_CAP :: nat where "DEFAULT_REPLAN_CAP = 2"

definition TickConfig :: tick_config where
  "TickConfig =
     \<lparr>steps = [], max_cycles = 0, rollback_cap = 3, ladder = DEFAULT_LADDER, failure_mutations = [],
      fingerprint_window = JInt (int DEFAULT_FINGERPRINT_WINDOW),
      hypothesis_abandon_after = JInt (int DEFAULT_HYPOTHESIS_ABANDON),
      no_progress_stop = JInt (int DEFAULT_NO_PROGRESS_STOP),
      attempt_cap = JInt (int DEFAULT_ATTEMPT_CAP), replan_cap = int DEFAULT_REPLAN_CAP\<rparr>"

text \<open>\<open>TickConfig.step(i)\<close>: the i-th step, or the neutral one out of range.\<close>

definition step_at :: "tick_config \<Rightarrow> int \<Rightarrow> step_config" where
  "step_at cfg i = (if 0 \<le> i \<and> i < int (length (steps cfg)) then steps cfg ! nat i else StepConfig)"

text \<open>\<open>TickConfig.rungs()\<close>: the ladder, never empty and always ending in \<open>SURFACE\<close>.\<close>

definition rungs :: "tick_config \<Rightarrow> rung list" where
  "rungs cfg =
     (if ladder cfg = [] then DEFAULT_LADDER
      else if last (ladder cfg) \<noteq> SURFACE then ladder cfg @ [SURFACE]
      else ladder cfg)"

lemma rungs_ends [simp]: "rungs cfg \<noteq> []" "last (rungs cfg) = SURFACE"
  by (auto simp: rungs_def)

lemma rungs_length [simp]: "0 < length (rungs cfg)"
  using rungs_ends(1) by blast

record tick_state =
  step_index :: int
  step_started_at :: rat
  findings_in_step :: int
  gate_passed :: bool
  metric :: "rat option"
  worker_in_flight :: bool
  prior_step_floor :: "rat option"
  rollbacks_on_step :: int
  total_cycles :: int
  iterations :: nat
  call_fingerprints :: "string list"
  failure_classes :: "string list"
  progress_marks :: "rat list"
  fix_fingerprints :: "string list"
  escalations_taken :: nat
  attempts_at_rung :: nat
  nudges_issued :: nat
  recoverable_waits :: nat
  stall_confirmed :: string
  plan_critique :: string
  replans_taken :: nat

definition TickState :: "int \<Rightarrow> rat \<Rightarrow> tick_state" where
  "TickState i t =
     \<lparr>step_index = i, step_started_at = t, findings_in_step = 0, gate_passed = False, metric = None,
      worker_in_flight = False, prior_step_floor = None, rollbacks_on_step = 0, total_cycles = 0,
      iterations = 0, call_fingerprints = [], failure_classes = [], progress_marks = [],
      fix_fingerprints = [], escalations_taken = 0, attempts_at_rung = 0, nudges_issued = 0,
      recoverable_waits = 0, stall_confirmed = [], plan_critique = [], replans_taken = 0\<rparr>"

definition last_failure_class :: "tick_state \<Rightarrow> failure_class" where
  "last_failure_class s =
     (if failure_classes s = [] then UNKNOWN
      else case fc_of (last (failure_classes s)) of Some c \<Rightarrow> c | None \<Rightarrow> UNKNOWN)"

section \<open>The stall ladder\<close>

text \<open>\<open>_window\<close>: a true integer of at least one, else the default.\<close>

definition window :: "json \<Rightarrow> nat \<Rightarrow> nat" where
  "window v dflt = (case as_true_int v of Some i \<Rightarrow> if i < 1 then dflt else nat i | None \<Rightarrow> dflt)"

text \<open>\<open>xs[-n:]\<close> for a positive n, and \<open>len(set(xs)) == 1\<close>.\<close>

definition take_last :: "nat \<Rightarrow> 'a list \<Rightarrow> 'a list" where
  "take_last n xs = drop (length xs - n) xs"

definition all_same :: "'a list \<Rightarrow> bool" where
  "all_same xs = (length (remdups xs) = 1)"

definition is_recoverable :: "string \<Rightarrow> bool" where
  "is_recoverable v = (case fc_of v of Some c \<Rightarrow> c \<in> set RECOVERABLE | None \<Rightarrow> False)"

text \<open>\<open>ladder.index(r)\<close>: the first position, or \<open>None\<close> for the \<open>ValueError\<close>.\<close>

fun index_of :: "'a \<Rightarrow> 'a list \<Rightarrow> nat option" where
  "index_of x [] = None"
| "index_of x (y # ys) = (if x = y then Some 0 else map_option Suc (index_of x ys))"

text \<open>Where on the ladder a stall with this state stands.\<close>

definition stall_index :: "tick_config \<Rightarrow> tick_state \<Rightarrow> failure_class \<Rightarrow> nat" where
  "stall_index cfg s cls =
     (let l = rungs cfg;
          entry_index = (case index_of (CLASS_ENTRY_RUNG cls) l of Some i \<Rightarrow> i | None \<Rightarrow> 0);
          index = max (escalations_taken s) entry_index;
          cap = window (attempt_cap cfg) DEFAULT_ATTEMPT_CAP
      in if attempts_at_rung s \<ge> cap then min (index + 1) (length l - 1) else index)"

definition stall_response ::
  "tick_config \<Rightarrow> tick_state \<Rightarrow> failure_class \<Rightarrow> string \<Rightarrow> tick_detail \<Rightarrow> decision" where
  "stall_response cfg s cls reason detail =
     (if nudges_issued s < 1 then
        (Decision EXECUTE (step_index s) (StallReason reason) (metric s))
          \<lparr>d_detail := detail, d_failure_class := cls,
           d_nudge_text := Some (nudge_for cls (failure_mutations cfg) detail reason)\<rparr>
      else
        let l = rungs cfg; index = stall_index cfg s cls in
        if index \<ge> length l - 1 then
          (Decision ESCALATE (step_index s) (StallReason reason) (metric s))
            \<lparr>d_rung := Some SURFACE, d_detail := LadderExhausted detail, d_failure_class := cls\<rparr>
        else
          let r = l ! index in
          (Decision (if r = CLASSIFIED_RETRY then EXECUTE else ESCALATE)
              (step_index s) (StallReason reason) (metric s))
            \<lparr>d_rung := Some r, d_detail := detail, d_failure_class := cls,
             d_nudge_text := Some (nudge_for cls (failure_mutations cfg) detail reason)\<rparr>)"

text \<open>The stall detectors of branch 7, cheapest first: what stalled, if anything did.\<close>

definition detect_stall :: "tick_config \<Rightarrow> tick_state \<Rightarrow> (string \<times> tick_detail) option" where
  "detect_stall cfg s =
     (if stall_confirmed s \<noteq> [] then Some (stall_confirmed s, StallConfirmedBy (stall_confirmed s))
      else
        let w = window (fingerprint_window cfg) DEFAULT_FINGERPRINT_WINDOW;
            abandon = window (hypothesis_abandon_after cfg) DEFAULT_HYPOTHESIS_ABANDON;
            stop = window (no_progress_stop cfg) DEFAULT_NO_PROGRESS_STOP;
            recent = take_last stop (progress_marks s)
        in if length (call_fingerprints s) \<ge> w \<and> all_same (take_last w (call_fingerprints s))
           then Some (''identical_call'', SameFailingCall w)
           else if length (fix_fingerprints s) \<ge> abandon
                   \<and> all_same (take_last abandon (fix_fingerprints s))
           then Some (''hypothesis_exhausted'', SameFixFailed abandon)
           else if length (progress_marks s) \<ge> stop \<and> Max (set recent) \<le> hd recent
           then Some (''no_progress'', NoImprovementOn stop (hd recent))
           else None)"

definition converge :: "tick_config \<Rightarrow> tick_state \<Rightarrow> decision option" where
  "converge cfg s =
     (let cls = last_failure_class s in
      if cls \<in> set RECOVERABLE then
        let headroom = window (fingerprint_window cfg) DEFAULT_FINGERPRINT_WINDOW
                         * RECOVERABLE_HEADROOM;
            recent = take_last headroom (failure_classes s)
        in if length recent \<ge> headroom \<and> list_all is_recoverable recent then
             Some ((Decision ESCALATE (step_index s) RecoverableExhausted (metric s))
               \<lparr>d_rung := Some SURFACE, d_detail := ConsecutiveRecoverable headroom,
                d_failure_class := cls\<rparr>)
           else
             Some ((Decision WAITING (step_index s) RecoverableWait (metric s))
               \<lparr>d_detail := WaitingRatherThanEscalating cls, d_failure_class := cls,
                d_wait_secs := min 60 (2 ^ min 6 (recoverable_waits s)), d_consumed_rung := False\<rparr>)
      else if cls = ENVIRONMENT then
        Some ((Decision ESCALATE (step_index s) EnvironmentBroken (metric s))
          \<lparr>d_rung := Some SURFACE, d_detail := NoRetryFixesEnvironment, d_failure_class := cls\<rparr>)
      else if plan_critique s \<noteq> [] \<and> int (replans_taken s) < max 0 (replan_cap cfg) then
        Some ((Decision REPLAN (step_index s) PlanCritique (metric s))
          \<lparr>d_detail := ReplanFromCritique (replans_taken s + 1) (replan_cap cfg),
           d_failure_class := cls, d_replan_directive := plan_critique s\<rparr>)
      else case detect_stall cfg s of
             Some (reason, detail) \<Rightarrow> Some (stall_response cfg s cls reason detail)
           | None \<Rightarrow> None)"

section \<open>The per-tick decision\<close>

text \<open>Branches 8 to 13, once no convergence tier objected.\<close>

definition progress_decision :: "tick_config \<Rightarrow> tick_state \<Rightarrow> rat \<Rightarrow> decision" where
  "progress_decision cfg s now =
     (let step = step_at cfg (step_index s);
          n_steps = int (length (steps cfg));
          regressed = (case (metric_pass step, metric s, prior_step_floor s) of
                         (Some _, Some m, Some fl) \<Rightarrow> m < fl | _ \<Rightarrow> False)
      in if regressed then
           (if rollbacks_on_step s \<ge> rollback_cap cfg then
              Decision COMPLETE (step_index s) (RollbackCapHit (rollback_cap cfg) (step_index s)) (metric s)
            else
              Decision ROLLBACK (max 0 (step_index s - 1))
                (MetricRegressed (the (metric s)) (the (prior_step_floor s))) (metric s))
         else if min_dwell_secs step > 0 \<and> \<not> (now - step_started_at s \<ge> min_dwell_secs step) then
           Decision HOLD (step_index s) BakeNotElapsed (metric s)
         else if findings_in_step s < min_findings step then
           Decision EXECUTE (step_index s)
             (GatheringEvidence (findings_in_step s) (min_findings step)) (metric s)
         else if gate_passed s
                 \<and> (case metric_pass step of None \<Rightarrow> True
                    | Some p \<Rightarrow> (case metric s of Some m \<Rightarrow> m \<ge> p | None \<Rightarrow> False)) then
           (let nxt = step_index s + 1;
                fin = (n_steps \<noteq> 0 \<and> nxt \<ge> n_steps)
            in Decision (if fin then COMPLETE else ADVANCE) nxt
                 (if fin then AllStepsComplete else StepGatePassed (step_index s)) (metric s))
         else
           (case (metric_pass step, metric_hold step, metric s) of
              (Some p, Some h, Some m) \<Rightarrow>
                if h \<le> m \<and> m < p then Decision HOLD (step_index s) (MetricMarginal m p) (metric s)
                else Decision EXECUTE (step_index s) ContinueStep (metric s)
            | _ \<Rightarrow> Decision EXECUTE (step_index s) ContinueStep (metric s)))"

definition evaluate :: "tick_config \<Rightarrow> tick_state \<Rightarrow> rat \<Rightarrow> decision" where
  "evaluate cfg s now =
     (let n_steps = int (length (steps cfg)) in
      if max_cycles cfg \<noteq> 0 \<and> total_cycles s \<ge> max_cycles cfg then
        Decision COMPLETE (step_index s) CycleBudgetReached (metric s)
      else if n_steps \<noteq> 0 \<and> step_index s \<ge> n_steps then
        Decision COMPLETE n_steps AllStepsComplete (metric s)
      else if worker_in_flight s then
        Decision WAITING (step_index s) WorkerTurnInFlight (metric s)
      else case converge cfg s of
             Some d \<Rightarrow> d
           | None \<Rightarrow> progress_decision cfg s now)"

section \<open>The write half\<close>

text \<open>
  \<open>call_fingerprint\<close> is a SHA-256 of the call, cut to twelve digits; it is the argument \<open>fp\<close> here,
  and no theorem below assumes anything of it.
\<close>

definition record_failure ::
  "(string \<Rightarrow> json \<Rightarrow> string) \<Rightarrow> tick_state \<Rightarrow> string \<Rightarrow> string \<Rightarrow> json \<Rightarrow> string \<Rightarrow> string \<Rightarrow> tick_state" where
  "record_failure fp s text tool args fix_text hint =
     s\<lparr>iterations := iterations s + 1,
       failure_classes := failure_classes s @ [fc_value (classify_failure text hint)],
       call_fingerprints :=
         (if tool \<noteq> [] then call_fingerprints s @ [fp tool args] else call_fingerprints s),
       fix_fingerprints :=
         (if fix_text \<noteq> [] then fix_fingerprints s @ [fp ''fix'' (JStr fix_text)]
          else fix_fingerprints s)\<rparr>"

definition record_progress :: "tick_state \<Rightarrow> rat \<Rightarrow> tick_state" where
  "record_progress s mark =
     s\<lparr>iterations := iterations s + 1, progress_marks := progress_marks s @ [mark]\<rparr>"

definition reset_after_success :: "tick_state \<Rightarrow> tick_state" where
  "reset_after_success s =
     s\<lparr>call_fingerprints := [], failure_classes := [], fix_fingerprints := [],
       escalations_taken := 0, attempts_at_rung := 0, nudges_issued := 0, plan_critique := []\<rparr>"

definition applied :: "tick_config \<Rightarrow> tick_state \<Rightarrow> decision \<Rightarrow> tick_state" where
  "applied cfg s d =
     (if d_action d = REPLAN then s\<lparr>replans_taken := replans_taken s + 1, plan_critique := []\<rparr>
      else if \<not> d_consumed_rung d then s\<lparr>recoverable_waits := recoverable_waits s + 1\<rparr>
      else case d_rung d of
             None \<Rightarrow> (if d_nudge_text d \<noteq> None then s\<lparr>nudges_issued := nudges_issued s + 1\<rparr> else s)
           | Some r \<Rightarrow>
               if r = SURFACE then s
               else
                 let index = (case index_of r (rungs cfg) of Some i \<Rightarrow> i
                              | None \<Rightarrow> escalations_taken s);
                     cap = window (attempt_cap cfg) DEFAULT_ATTEMPT_CAP;
                     spent = (if attempts_at_rung s \<ge> cap then 0 else attempts_at_rung s)
                 in s\<lparr>escalations_taken := index, attempts_at_rung := spent + 1\<rparr>)"

section \<open>Zero-wait collapse\<close>

definition needs_observation :: "step_config \<Rightarrow> bool" where
  "needs_observation st =
     (min_dwell_secs st > 0 \<or> min_findings st > 0 \<or> metric_pass st \<noteq> None \<or> metric_hold st \<noteq> None)"

text \<open>The loop of \<open>collapse\<close>; \<open>fuel\<close> is its own bound \<open>max_iters - iters\<close>.\<close>

fun collapse_from :: "tick_config \<Rightarrow> decision \<Rightarrow> rat option \<Rightarrow> nat \<Rightarrow> int \<Rightarrow> decision" where
  "collapse_from cfg first m 0 idx = Decision ADVANCE idx (d_reason first) m"
| "collapse_from cfg first m (Suc fuel) idx =
     (if steps cfg \<noteq> [] \<and> idx \<ge> int (length (steps cfg)) then
        Decision COMPLETE (int (length (steps cfg))) AllStepsCollapsed m
      else if needs_observation (step_at cfg idx) then Decision ADVANCE idx (d_reason first) m
      else collapse_from cfg first m fuel (idx + 1))"

definition collapse :: "tick_config \<Rightarrow> tick_state \<Rightarrow> rat \<Rightarrow> nat \<Rightarrow> decision" where
  "collapse cfg s now max_iters =
     (let first = evaluate cfg s now in
      if d_action first \<noteq> ADVANCE then first
      else collapse_from cfg first (metric s) max_iters (d_step_index first))"

section \<open>Plan phases\<close>

text \<open>
  \<open>float(str)\<close> and \<open>int(str)\<close> read a number a phase wrote as text; \<open>pf\<close> and \<open>pint\<close> are these two
  parsers (\<open>None\<close> is the \<open>ValueError\<close>). Every other JSON value is read here.
\<close>

fun opt_float :: "(string \<Rightarrow> rat option) \<Rightarrow> json \<Rightarrow> rat option" where
  "opt_float pf JNull = None"
| "opt_float pf (JBool b) = Some (if b then 1 else 0)"
| "opt_float pf (JInt i) = Some (of_int i)"
| "opt_float pf (JFloat r) = Some r"
| "opt_float pf (JStr s) = (if strip s = [] then None else pf s)"
| "opt_float pf (JList xs) = None"
| "opt_float pf (JObj kvs) = None"

text \<open>\<open>int(x)\<close>: a float is truncated towards zero; a list or an object raises.\<close>

fun to_int :: "(string \<Rightarrow> int option) \<Rightarrow> json \<Rightarrow> int option" where
  "to_int pint JNull = None"
| "to_int pint (JBool b) = Some (if b then 1 else 0)"
| "to_int pint (JInt i) = Some i"
| "to_int pint (JFloat r) = Some (if r < 0 then - \<lfloor>- r\<rfloor> else \<lfloor>r\<rfloor>)"
| "to_int pint (JStr s) = pint s"
| "to_int pint (JList xs) = None"
| "to_int pint (JObj kvs) = None"

definition step_config_from_phase ::
  "(string \<Rightarrow> rat option) \<Rightarrow> (string \<Rightarrow> int option) \<Rightarrow> json \<Rightarrow> step_config" where
  "step_config_from_phase pf pint phase =
     (case phase of
        JObj cfg \<Rightarrow>
          (let dwell = (case opt_float pf (cfg_get cfg ''min_dwell_secs'') of Some r \<Rightarrow> r | None \<Rightarrow> 0);
               raw = cfg_get cfg ''min_findings'';
               findings = (case to_int pint (if truthy raw then raw else JInt 0) of
                             Some i \<Rightarrow> max 0 i | None \<Rightarrow> 0)
           in \<lparr>min_dwell_secs = max 0 dwell, min_findings = findings,
               metric_pass = opt_float pf (cfg_get cfg ''metric_pass''),
               metric_hold = opt_float pf (cfg_get cfg ''metric_hold'')\<rparr>)
      | _ \<Rightarrow> StepConfig)"

definition tick_config_from_plan ::
  "(string \<Rightarrow> rat option) \<Rightarrow> (string \<Rightarrow> int option) \<Rightarrow> json list \<Rightarrow> int \<Rightarrow> int \<Rightarrow> tick_config" where
  "tick_config_from_plan pf pint plan mc cap =
     TickConfig\<lparr>steps := map (step_config_from_phase pf pint) plan, max_cycles := max 0 mc,
                rollback_cap := cap\<rparr>"

definition tick_state_from_snapshot ::
  "int \<Rightarrow> rat \<Rightarrow> int \<Rightarrow> int \<Rightarrow> bool \<Rightarrow> rat option \<Rightarrow> bool \<Rightarrow> rat option \<Rightarrow> int \<Rightarrow> int \<Rightarrow> tick_state" where
  "tick_state_from_snapshot i t0 found at_start gate m in_flight fl rollbacks cycles =
     (TickState i t0)\<lparr>findings_in_step := max 0 (found - at_start), gate_passed := gate, metric := m,
        worker_in_flight := in_flight, prior_step_floor := fl,
        rollbacks_on_step := max 0 rollbacks, total_cycles := max 0 cycles\<rparr>"

text \<open>\<open>validate_step_phase\<close>: the fields a phase got wrong, in the order the code reports them.\<close>

datatype phase_error =
  DwellNotNumber | FindingsNegative | FindingsNotInteger | PassNotNumber | HoldNotNumber | HoldAbovePass

definition validate_step_phase ::
  "(string \<Rightarrow> rat option) \<Rightarrow> (string \<Rightarrow> int option) \<Rightarrow> json \<Rightarrow> phase_error list" where
  "validate_step_phase pf pint phase =
     (case phase of
        JObj cfg \<Rightarrow>
          (let has = (\<lambda>k. map_of cfg k \<noteq> None);
               mp = opt_float pf (cfg_get cfg ''metric_pass'');
               mh = opt_float pf (cfg_get cfg ''metric_hold'')
           in (if has ''min_dwell_secs'' \<and> opt_float pf (cfg_get cfg ''min_dwell_secs'') = None
               then [DwellNotNumber] else [])
            @ (if has ''min_findings'' then
                 (case to_int pint (cfg_get cfg ''min_findings'') of
                    Some i \<Rightarrow> if i < 0 then [FindingsNegative] else []
                  | None \<Rightarrow> [FindingsNotInteger]) else [])
            @ (if has ''metric_pass'' \<and> mp = None then [PassNotNumber] else [])
            @ (if has ''metric_hold'' \<and> mh = None then [HoldNotNumber] else [])
            @ (case (mp, mh) of (Some p, Some h) \<Rightarrow> if h > p then [HoldAbovePass] else [] | _ \<Rightarrow> []))
      | _ \<Rightarrow> [])"

end
