(* ===== verification/LoopTickFacts.thy ===== *)
theory LoopTickFacts
  imports LoopTick
begin

text \<open>
  What the loop decision of \<open>LoopTick\<close> guarantees: its index stays on the plan, a recoverable
  failure never costs a rung, replanning is bounded, a stall that does not clear reaches a human
  in a bounded number of ticks, and the zero-wait collapse only skips steps that need no
  observation. The steering queue of \<open>LoopMiddleware\<close> refines a FIFO.
\<close>

section \<open>Helper facts\<close>

lemma window_pos: "0 < dflt \<Longrightarrow> 0 < window v dflt"
  by (auto simp: window_def split: option.splits)

lemma default_window_pos [simp]:
  "0 < window v DEFAULT_ATTEMPT_CAP" "0 < window v DEFAULT_FINGERPRINT_WINDOW"
  "0 < window v DEFAULT_HYPOTHESIS_ABANDON" "0 < window v DEFAULT_NO_PROGRESS_STOP"
  by (simp_all add: window_pos DEFAULT_ATTEMPT_CAP_def DEFAULT_FINGERPRINT_WINDOW_def
      DEFAULT_HYPOTHESIS_ABANDON_def DEFAULT_NO_PROGRESS_STOP_def)

lemma index_of_SomeD: "index_of x xs = Some i \<Longrightarrow> i < length xs \<and> xs ! i = x"
  by (induction xs arbitrary: i) (auto split: if_splits)

lemma index_of_nth: "distinct xs \<Longrightarrow> i < length xs \<Longrightarrow> index_of (xs ! i) xs = Some i"
proof (induction xs arbitrary: i)
  case (Cons x xs)
  then show ?case by (cases i) auto
qed simp

lemma take_last_Nil [simp]: "take_last n [] = []"
  by (simp add: take_last_def)

lemma all_same_Nil [simp]: "\<not> all_same []"
  by (simp add: all_same_def)

lemma last_failure_class_Nil [simp]: "failure_classes s = [] \<Longrightarrow> last_failure_class s = UNKNOWN"
  by (simp add: last_failure_class_def)

lemma UNKNOWN_not_recoverable [simp]: "UNKNOWN \<notin> set RECOVERABLE"
  by (simp add: RECOVERABLE_def)

lemma stall_response_keeps:
  "d_step_index (stall_response cfg s cls r dt) = step_index s"
  "d_consumed_rung (stall_response cfg s cls r dt)"
  "d_action (stall_response cfg s cls r dt) \<noteq> REPLAN"
  by (simp_all add: stall_response_def Let_def)

lemma converge_step_index:
  "converge cfg s = Some d \<Longrightarrow> d_step_index d = step_index s"
  by (auto simp: converge_def Let_def stall_response_keeps split: if_splits option.splits)

lemma converge_not_advance:
  "converge cfg s = Some d \<Longrightarrow> d_action d \<notin> {ADVANCE, ROLLBACK, COMPLETE, HOLD}"
  by (auto simp: converge_def stall_response_def Let_def split: if_splits option.splits)

lemma progress_neutral:
  "d_consumed_rung (progress_decision cfg s now)" "d_rung (progress_decision cfg s now) = None"
  "d_action (progress_decision cfg s now) \<noteq> REPLAN" "d_nudge_text (progress_decision cfg s now) = None"
  by (simp_all add: progress_decision_def Let_def split: option.splits)

section \<open>The decision stays on the plan\<close>

text \<open>
  On a loop with steps, whatever the tick decides, the step it names is on the plan or just
  past its end.
\<close>

theorem evaluate_step_in_range:
  assumes "steps cfg \<noteq> []" and "0 \<le> step_index s" and "step_index s \<le> int (length (steps cfg))"
  shows "0 \<le> d_step_index (evaluate cfg s now)
         \<and> d_step_index (evaluate cfg s now) \<le> int (length (steps cfg))"
  using assms
  by (auto simp: evaluate_def progress_decision_def Let_def
      dest: converge_step_index split: option.splits)

theorem evaluate_step_in_range_witness:
  "0 \<le> d_step_index (evaluate (TickConfig\<lparr>steps := [StepConfig]\<rparr>) (TickState 0 0) 5)
   \<and> d_step_index (evaluate (TickConfig\<lparr>steps := [StepConfig]\<rparr>) (TickState 0 0) 5)
       \<le> int (length (steps (TickConfig\<lparr>steps := [StepConfig]\<rparr>)))"
  by (rule evaluate_step_in_range) (simp_all add: TickState_def)

section \<open>Recoverable failures wait\<close>

text \<open>
  While the last failure is one the world owns (a rate limit, an outage), the tick either hands
  the run to a human or waits between one second and a minute, and acting on a wait moves the
  backoff counter alone: no rung, no attempt and no nudge is spent on it.
\<close>

theorem recoverable_failure_spends_no_rung:
  assumes "last_failure_class s \<in> set RECOVERABLE"
  shows "\<exists>d. converge cfg s = Some d
         \<and> (surfaced d
            \<or> (d_action d = WAITING \<and> 1 \<le> d_wait_secs d \<and> d_wait_secs d \<le> 60
               \<and> applied cfg s d = s\<lparr>recoverable_waits := recoverable_waits s + 1\<rparr>))"
  using assms by (simp add: converge_def surfaced_def applied_def Let_def min_def)

theorem recoverable_failure_spends_no_rung_witness:
  "\<exists>d. converge TickConfig ((TickState 0 0)\<lparr>failure_classes := [''rate_limit'']\<rparr>) = Some d
       \<and> (surfaced d \<or> (d_action d = WAITING \<and> 1 \<le> d_wait_secs d \<and> d_wait_secs d \<le> 60
            \<and> applied TickConfig ((TickState 0 0)\<lparr>failure_classes := [''rate_limit'']\<rparr>) d
                = ((TickState 0 0)\<lparr>failure_classes := [''rate_limit'']\<rparr>)
                    \<lparr>recoverable_waits := recoverable_waits
                       ((TickState 0 0)\<lparr>failure_classes := [''rate_limit'']\<rparr>) + 1\<rparr>))"
  by (rule recoverable_failure_spends_no_rung)
     (simp add: last_failure_class_def fc_of_def all_failure_classes_def RECOVERABLE_def)

section \<open>A healthy loop is untouched by the convergence tiers\<close>

lemma quiet_counters_detect_nothing:
  assumes "call_fingerprints s = []" "fix_fingerprints s = []" "progress_marks s = []"
    "stall_confirmed s = []"
  shows "detect_stall cfg s = None"
  using assms by (simp add: detect_stall_def Let_def)

text \<open>
  After a success clears the stall counters, and with no progress measure, detector verdict or
  plan critique outstanding, the tick is decided by the progress branches alone, whatever windows
  and ladder the template declares.
\<close>

theorem success_restores_progress_branches:
  assumes "progress_marks s = []" and "stall_confirmed s = []"
  shows "converge cfg (reset_after_success s) = None"
  using assms
  by (simp add: converge_def reset_after_success_def quiet_counters_detect_nothing Let_def)

theorem success_restores_progress_branches_witness:
  "converge TickConfig (reset_after_success
     ((TickState 1 0)\<lparr>failure_classes := [''environment''], plan_critique := ''x''\<rparr>)) = None"
  by (rule success_restores_progress_branches) (simp_all add: TickState_def)

section \<open>Replanning is bounded\<close>

text \<open>
  Replanning is bounded and consumes its critique: a tick that decides to replan was under the
  cap, acting on it leaves the count within the cap, and the tick after it does not replan again
  on the same critique.
\<close>

theorem replan_is_bounded:
  assumes "d_action (evaluate cfg s now) = REPLAN"
  shows "int (replans_taken (applied cfg s (evaluate cfg s now))) \<le> max 0 (replan_cap cfg)
         \<and> d_replan_directive (evaluate cfg s now) = plan_critique s
         \<and> d_action (evaluate cfg (applied cfg s (evaluate cfg s now)) later) \<noteq> REPLAN"
proof -
  have decided: "int (replans_taken s) < max 0 (replan_cap cfg)
      \<and> d_replan_directive (evaluate cfg s now) = plan_critique s"
    using assms progress_neutral(3) [of cfg s now]
    by (auto simp: evaluate_def converge_def stall_response_keeps Let_def
        split: if_splits option.splits)
  have after: "applied cfg s (evaluate cfg s now)
      = s\<lparr>replans_taken := replans_taken s + 1, plan_critique := []\<rparr>"
    using assms by (simp add: applied_def)
  have "d_action (evaluate cfg (s\<lparr>replans_taken := k, plan_critique := []\<rparr>) later) \<noteq> REPLAN" for k
    using progress_neutral(3) [of cfg "s\<lparr>replans_taken := k, plan_critique := []\<rparr>" later]
    by (auto simp: evaluate_def converge_def stall_response_keeps Let_def
        split: option.splits)
  with decided after show ?thesis by simp
qed

theorem replan_is_bounded_witness:
  "int (replans_taken (applied TickConfig ((TickState 0 0)\<lparr>plan_critique := ''wrong''\<rparr>)
       (evaluate TickConfig ((TickState 0 0)\<lparr>plan_critique := ''wrong''\<rparr>) 1))) \<le> max 0 (replan_cap TickConfig)
   \<and> d_replan_directive (evaluate TickConfig ((TickState 0 0)\<lparr>plan_critique := ''wrong''\<rparr>) 1)
       = plan_critique ((TickState 0 0)\<lparr>plan_critique := ''wrong''\<rparr>)
   \<and> d_action (evaluate TickConfig (applied TickConfig ((TickState 0 0)\<lparr>plan_critique := ''wrong''\<rparr>)
       (evaluate TickConfig ((TickState 0 0)\<lparr>plan_critique := ''wrong''\<rparr>) 1)) 2) \<noteq> REPLAN"
  by (rule replan_is_bounded)
     (simp add: evaluate_def converge_def last_failure_class_def TickState_def TickConfig_def
       DEFAULT_REPLAN_CAP_def RECOVERABLE_def Let_def)

section \<open>A stall that does not clear reaches a human\<close>

text \<open>
  A stall the tick keeps seeing: an external detector confirmed it, nothing above branch 7 decides,
  and the run is not waiting on a worker.
\<close>

definition stalled :: "tick_config \<Rightarrow> tick_state \<Rightarrow> bool" where
  "stalled cfg s \<longleftrightarrow>
     \<not> (max_cycles cfg \<noteq> 0 \<and> total_cycles s \<ge> max_cycles cfg)
     \<and> \<not> (steps cfg \<noteq> [] \<and> step_index s \<ge> int (length (steps cfg)))
     \<and> \<not> worker_in_flight s \<and> last_failure_class s \<notin> set RECOVERABLE
     \<and> last_failure_class s \<noteq> ENVIRONMENT
     \<and> \<not> (plan_critique s \<noteq> [] \<and> int (replans_taken s) < max 0 (replan_cap cfg))
     \<and> stall_confirmed s \<noteq> []"

text \<open>One tick of the adapter: decide, then advance the counters the decision spends.\<close>

definition tick :: "tick_config \<Rightarrow> rat \<Rightarrow> tick_state \<Rightarrow> tick_state" where
  "tick cfg now s = applied cfg s (evaluate cfg s now)"

lemma stalled_evaluate:
  "stalled cfg s \<Longrightarrow>
   evaluate cfg s now = stall_response cfg s (last_failure_class s) (stall_confirmed s)
     (StallConfirmedBy (stall_confirmed s))"
  by (auto simp: stalled_def evaluate_def converge_def detect_stall_def Let_def)

text \<open>The progress a stalled run makes up its ladder: rungs climbed, then attempts at the rung.\<close>

definition ladder_rank :: "tick_config \<Rightarrow> tick_state \<Rightarrow> nat" where
  "ladder_rank cfg s =
     (let cap = window (attempt_cap cfg) DEFAULT_ATTEMPT_CAP in
      min 1 (nudges_issued s) + cap * escalations_taken s + min cap (attempts_at_rung s))"

lemma stall_index_cases:
  assumes "stall_index cfg s cls < length (rungs cfg) - 1"
  shows "escalations_taken s \<le> stall_index cfg s cls
         \<and> (window (attempt_cap cfg) DEFAULT_ATTEMPT_CAP \<le> attempts_at_rung s
            \<longrightarrow> escalations_taken s < stall_index cfg s cls)"
  using assms by (auto simp: stall_index_def Let_def split: if_splits)

lemma stalled_tick_keeps:
  assumes "stalled cfg s" shows "stalled cfg (tick cfg now s)"
  using assms
  by (simp add: tick_def stalled_evaluate)
     (auto simp: stalled_def applied_def stall_response_def last_failure_class_def Let_def)

lemma tick_nudge:
  assumes "stalled cfg s" and "nudges_issued s < 1"
  shows "tick cfg now s = s\<lparr>nudges_issued := nudges_issued s + 1\<rparr>"
  using assms by (simp add: tick_def stalled_evaluate stall_response_def applied_def)

lemma tick_climbs:
  assumes "stalled cfg s" and "\<not> nudges_issued s < 1" and "distinct (rungs cfg)"
    and "\<not> surfaced (evaluate cfg s now)"
  defines "i \<equiv> stall_index cfg s (last_failure_class s)"
  shows "i < length (rungs cfg) - 1"
    and "tick cfg now s = s\<lparr>escalations_taken := i,
           attempts_at_rung := (if attempts_at_rung s \<ge> window (attempt_cap cfg) DEFAULT_ATTEMPT_CAP
                                then 0 else attempts_at_rung s) + 1\<rparr>"
proof -
  show below: "i < length (rungs cfg) - 1"
    using assms(1,2,4) unfolding i_def
    by (auto simp: stalled_evaluate stall_response_def surfaced_def Let_def split: if_splits)
  have here: "index_of (rungs cfg ! i) (rungs cfg) = Some i"
    using index_of_nth [OF assms(3)] below by simp
  have "rungs cfg ! i \<noteq> SURFACE"
  proof
    assume "rungs cfg ! i = SURFACE"
    moreover have "rungs cfg ! (length (rungs cfg) - 1) = SURFACE"
      by (metis last_conv_nth rungs_ends)
    ultimately have "i = length (rungs cfg) - 1"
      using nth_eq_iff_index_eq [OF assms(3), of i "length (rungs cfg) - 1"] below by simp
    with below show False by simp
  qed
  with below here assms(1,2) show "tick cfg now s = s\<lparr>escalations_taken := i,
           attempts_at_rung := (if attempts_at_rung s \<ge> window (attempt_cap cfg) DEFAULT_ATTEMPT_CAP
                                then 0 else attempts_at_rung s) + 1\<rparr>"
    unfolding i_def
    by (simp add: tick_def stalled_evaluate stall_response_def applied_def Let_def)
qed

lemma ladder_rank_grows:
  assumes "stalled cfg s" and "distinct (rungs cfg)" and "\<not> surfaced (evaluate cfg s now)"
    and "escalations_taken s \<le> length (rungs cfg) - 1"
  shows "ladder_rank cfg s < ladder_rank cfg (tick cfg now s)
         \<and> escalations_taken (tick cfg now s) \<le> length (rungs cfg) - 1"
proof (cases "nudges_issued s < 1")
  case True
  with assms tick_nudge [OF assms(1) True] show ?thesis by (simp add: ladder_rank_def Let_def)
next
  case False
  define cap where "cap = window (attempt_cap cfg) DEFAULT_ATTEMPT_CAP"
  define i where "i = stall_index cfg s (last_failure_class s)"
  note climb = tick_climbs [OF assms(1) False assms(2,3), folded cap_def i_def]
  have order: "escalations_taken s \<le> i \<and> (cap \<le> attempts_at_rung s \<longrightarrow> escalations_taken s < i)"
    using stall_index_cases climb(1) unfolding i_def cap_def by blast
  have "cap * escalations_taken s + min cap (attempts_at_rung s)
        < cap * i + min cap ((if attempts_at_rung s \<ge> cap then 0 else attempts_at_rung s) + 1)"
  proof (cases "cap \<le> attempts_at_rung s")
    case True
    with order have "Suc (escalations_taken s) \<le> i" by simp
    then have "cap * Suc (escalations_taken s) \<le> cap * i" by (rule mult_le_mono2)
    then have climbed: "cap * escalations_taken s + cap \<le> cap * i" by simp
    have "0 < cap" by (simp add: cap_def)
    with True have "min cap (attempts_at_rung s) = cap"
      "0 < min cap ((if attempts_at_rung s \<ge> cap then 0 else attempts_at_rung s) + 1)" by auto
    with climbed show ?thesis by linarith
  next
    case False
    from order have "cap * escalations_taken s \<le> cap * i" by (intro mult_le_mono2) simp
    moreover from False have "min cap (attempts_at_rung s)
        < min cap ((if attempts_at_rung s \<ge> cap then 0 else attempts_at_rung s) + 1)" by simp
    ultimately show ?thesis by linarith
  qed
  with climb show ?thesis by (simp add: ladder_rank_def cap_def Let_def)
qed

text \<open>
  C27. Liveness of the escalation ladder: if no rung is declared twice, a confirmed stall that does
  not clear is handed to a human after at most one nudge and \<open>attempt_cap\<close> attempts per rung,
  whatever the clock reads and whatever counters the run resumed with on its ladder.
\<close>

theorem stalled_loop_reaches_a_human:
  assumes "stalled cfg s" and "distinct (rungs cfg)"
    and "escalations_taken s \<le> length (rungs cfg) - 1"
  shows "\<exists>n \<le> 1 + window (attempt_cap cfg) DEFAULT_ATTEMPT_CAP * length (rungs cfg).
           surfaced (evaluate cfg ((tick cfg now ^^ n) s) now)"
proof -
  define cap where "cap = window (attempt_cap cfg) DEFAULT_ATTEMPT_CAP"
  define B where "B = 1 + cap * length (rungs cfg)"
  define Inv where "Inv u \<longleftrightarrow> stalled cfg u \<and> escalations_taken u \<le> length (rungs cfg) - 1" for u
  have bound: "ladder_rank cfg u \<le> B" if "escalations_taken u \<le> length (rungs cfg) - 1" for u
  proof -
    have "Suc (escalations_taken u) \<le> length (rungs cfg)"
      using that rungs_length [of cfg] by linarith
    then have "cap * Suc (escalations_taken u) \<le> cap * length (rungs cfg)" by (rule mult_le_mono2)
    then show ?thesis by (simp add: ladder_rank_def B_def cap_def Let_def)
  qed
  have "\<exists>n \<le> B - ladder_rank cfg s. surfaced (evaluate cfg ((tick cfg now ^^ n) s) now)"
    by (rule bounded_progress [where Inv = Inv])
       (use assms ladder_rank_grows stalled_tick_keeps bound in \<open>auto simp: Inv_def\<close>)
  then obtain n where "n \<le> B - ladder_rank cfg s" "surfaced (evaluate cfg ((tick cfg now ^^ n) s) now)"
    by blast
  moreover from this have "n \<le> B" by linarith
  ultimately show ?thesis unfolding B_def cap_def by blast
qed

text \<open>The default ladder under a confirmed stall.\<close>

definition stalled_example :: tick_state where
  "stalled_example = (TickState 0 0)\<lparr>stall_confirmed := ''error_streak''\<rparr>"

lemma stalled_example_stalled: "max_cycles cfg = 0 \<Longrightarrow> steps cfg = [] \<Longrightarrow> stalled cfg stalled_example"
  by (simp add: stalled_def stalled_example_def TickState_def last_failure_class_def)

theorem stalled_loop_reaches_a_human_witness:
  "\<exists>n \<le> 1 + window (attempt_cap TickConfig) DEFAULT_ATTEMPT_CAP * length (rungs TickConfig).
     surfaced (evaluate TickConfig ((tick TickConfig 7 ^^ n) stalled_example) 7)"
  by (rule stalled_loop_reaches_a_human)
     (simp_all add: stalled_example_stalled TickConfig_def rungs_def DEFAULT_LADDER_def,
      simp add: stalled_example_def TickState_def)

section \<open>A ladder that names a rung twice never surfaces\<close>

text \<open>A template's own ladder: retry, a fresh session, then retry once more.\<close>

definition repeated_rungs :: config where
  "repeated_rungs = [(''ladder'',
     JList [JStr ''classified_retry'', JStr ''fresh_session'', JStr ''classified_retry''])]"

definition repeated_cfg :: tick_config where
  "repeated_cfg = TickConfig\<lparr>ladder := resolve_ladder repeated_rungs\<rparr>"

lemma repeated_ladder:
  "rungs repeated_cfg = [CLASSIFIED_RETRY, FRESH_SESSION, CLASSIFIED_RETRY, SURFACE]"
  by (simp add: repeated_cfg_def repeated_rungs_def resolve_ladder_def rungs_def cfg_get_def
      List.map_filter_def rung_of_def DEFAULT_LADDER_def Let_def)

lemma repeated_stall_index:
  assumes "escalations_taken s \<le> 1" and "last_failure_class s = UNKNOWN"
  shows "stall_index repeated_cfg s UNKNOWN \<le> 2"
  using assms by (auto simp: stall_index_def repeated_ladder Let_def)

lemma repeated_tick:
  assumes "stalled repeated_cfg s" and "escalations_taken s \<le> 1" and "last_failure_class s = UNKNOWN"
  shows "\<not> surfaced (evaluate repeated_cfg s now)
         \<and> escalations_taken (tick repeated_cfg now s) \<le> 1
         \<and> last_failure_class (tick repeated_cfg now s) = UNKNOWN"
proof -
  have "stall_index repeated_cfg s UNKNOWN \<in> {0, 1, 2}"
    using repeated_stall_index [OF assms(2,3)] by auto
  with assms show ?thesis
    by (auto simp: tick_def stalled_evaluate stall_response_def applied_def surfaced_def
        repeated_ladder last_failure_class_def Let_def)
qed

text \<open>
  A ladder that names one rung twice is accepted (\<open>_resolve_ladder\<close> keeps every known rung) and
  never ends: \<open>applied\<close> banks the FIRST position of the rung it took, so taking the second
  occurrence sends the run back down, and a stall that never clears is never handed to a human.
\<close>

theorem repeated_rung_never_surfaces:
  "\<not> surfaced (evaluate repeated_cfg ((tick repeated_cfg now ^^ n) stalled_example) now)"
proof -
  define P where "P u \<longleftrightarrow> stalled repeated_cfg u \<and> escalations_taken u \<le> 1
    \<and> last_failure_class u = UNKNOWN" for u
  have "P stalled_example"
    by (simp add: P_def stalled_example_stalled repeated_cfg_def TickConfig_def)
       (simp add: stalled_example_def TickState_def last_failure_class_def)
  then have "P ((tick repeated_cfg now ^^ n) stalled_example)"
    by (rule funpow_preserves) (use repeated_tick stalled_tick_keeps in \<open>auto simp: P_def\<close>)
  then show ?thesis using repeated_tick by (auto simp: P_def)
qed

section \<open>The collapse skips only steps that need no observation\<close>

lemma instant_extend:
  fixes i k :: int
  assumes "\<not> P i" and "\<forall>j. i + 1 \<le> j \<and> j < k \<longrightarrow> \<not> P j"
  shows "\<forall>j. i \<le> j \<and> j < k \<longrightarrow> \<not> P j"
proof (intro allI impI)
  fix j assume "i \<le> j \<and> j < k"
  then show "\<not> P j" using assms by (cases "j = i") auto
qed

lemma collapse_from_walk:
  "d_action (collapse_from cfg first m fuel i) = COMPLETE
     \<and> d_step_index (collapse_from cfg first m fuel i) = int (length (steps cfg)) \<and> steps cfg \<noteq> []
     \<and> (\<forall>j. i \<le> j \<and> j < int (length (steps cfg)) \<longrightarrow> \<not> needs_observation (step_at cfg j))
   \<or> d_action (collapse_from cfg first m fuel i) = ADVANCE
     \<and> i \<le> d_step_index (collapse_from cfg first m fuel i)
     \<and> (\<forall>j. i \<le> j \<and> j < d_step_index (collapse_from cfg first m fuel i)
            \<longrightarrow> \<not> needs_observation (step_at cfg j))
     \<and> (needs_observation (step_at cfg (d_step_index (collapse_from cfg first m fuel i)))
        \<or> d_step_index (collapse_from cfg first m fuel i) = i + int fuel)"
proof (induction fuel arbitrary: i)
  case 0
  show ?case by auto
next
  case (Suc fuel)
  show ?case
  proof (cases "steps cfg \<noteq> [] \<and> i \<ge> int (length (steps cfg)) \<or> needs_observation (step_at cfg i)")
    case True
    then show ?thesis by auto
  next
    case False
    then have unfold: "collapse_from cfg first m (Suc fuel) i = collapse_from cfg first m fuel (i + 1)"
      by auto
    from False have instant: "\<not> needs_observation (step_at cfg i)" by simp
    from Suc.IH [of "i + 1"] show ?thesis unfolding unfold
    proof (elim disjE conjE, goal_cases)
      case 1
      with instant_extend [where P = "\<lambda>j. needs_observation (step_at cfg j)", OF instant] show ?case by blast
    next
      case 2
      then have "i \<le> d_step_index (collapse_from cfg first m fuel (i + 1))" by linarith
      with 2 instant_extend [where P = "\<lambda>j. needs_observation (step_at cfg j)", OF instant] show ?case by blast
    next
      case 3
      then have "i \<le> d_step_index (collapse_from cfg first m fuel (i + 1))"
        "d_step_index (collapse_from cfg first m fuel (i + 1)) = i + int (Suc fuel)" by linarith+
      with 3 instant_extend [where P = "\<lambda>j. needs_observation (step_at cfg j)", OF instant] show ?case by blast
    qed
  qed
qed

text \<open>
  The zero-wait collapse is sound: starting from the step the tick advances onto, every step it
  passes over needs no observation, and it stops at the end of the plan, at a step that does need
  one, or after \<open>max_iters\<close> steps.
\<close>

theorem collapse_skips_only_instant_steps:
  fixes cfg s now max_iters
  assumes "d_action (evaluate cfg s now) = ADVANCE"
  defines "start \<equiv> d_step_index (evaluate cfg s now)"
    and "d \<equiv> collapse cfg s now max_iters"
  shows "(d_action d = COMPLETE \<and> d_step_index d = int (length (steps cfg))
          \<or> d_action d = ADVANCE \<and> start \<le> d_step_index d
            \<and> (needs_observation (step_at cfg (d_step_index d))
               \<or> d_step_index d = start + int max_iters))
         \<and> (\<forall>j. start \<le> j \<and> j < d_step_index d \<longrightarrow> \<not> needs_observation (step_at cfg j))"
proof -
  have "d = collapse_from cfg (evaluate cfg s now) (metric s) max_iters start"
    using assms(1) by (simp add: d_def start_def collapse_def Let_def)
  with collapse_from_walk [of cfg "evaluate cfg s now" "metric s" max_iters start]
  show ?thesis by auto
qed

definition collapse_plan :: tick_config where
  "collapse_plan = TickConfig\<lparr>steps := [StepConfig, StepConfig, StepConfig\<lparr>min_findings := 2\<rparr>]\<rparr>"

definition collapse_state :: tick_state where
  "collapse_state = (TickState 0 0)\<lparr>gate_passed := True\<rparr>"

lemma collapse_state_advances:
  "evaluate collapse_plan collapse_state 1 = Decision ADVANCE 1 (StepGatePassed 0) None"
proof -
  have "converge collapse_plan collapse_state = None"
    by (simp add: converge_def quiet_counters_detect_nothing collapse_state_def TickState_def Let_def)
  then show ?thesis
    by (simp add: evaluate_def progress_decision_def collapse_plan_def collapse_state_def TickState_def
        TickConfig_def StepConfig_def step_at_def)
qed

theorem collapse_skips_only_instant_steps_witness:
  "(d_action (collapse collapse_plan collapse_state 1 64) = COMPLETE
     \<and> d_step_index (collapse collapse_plan collapse_state 1 64) = int (length (steps collapse_plan))
    \<or> d_action (collapse collapse_plan collapse_state 1 64) = ADVANCE
      \<and> d_step_index (evaluate collapse_plan collapse_state 1)
          \<le> d_step_index (collapse collapse_plan collapse_state 1 64)
      \<and> (needs_observation (step_at collapse_plan
            (d_step_index (collapse collapse_plan collapse_state 1 64)))
         \<or> d_step_index (collapse collapse_plan collapse_state 1 64)
             = d_step_index (evaluate collapse_plan collapse_state 1) + int 64))
   \<and> (\<forall>j. d_step_index (evaluate collapse_plan collapse_state 1) \<le> j
          \<and> j < d_step_index (collapse collapse_plan collapse_state 1 64)
          \<longrightarrow> \<not> needs_observation (step_at collapse_plan j))"
  by (rule collapse_skips_only_instant_steps) (simp add: collapse_state_advances)

end
