(* ===== verification/RoomStore.thy ===== *)
theory RoomStore
  imports Prelude
begin

text \<open>
  \<^verbatim>\<open>rooms/store.py\<close>: the room records in \<^verbatim>\<open>rooms/index.json\<close>, the operations the routes and the
  arbiter make on them, and the shared transcript. The index file is one value that may be missing
  or unreadable: the listing reader treats an unreadable index as empty (fail open), every writer
  refuses it (fail closed). An operation is a function from the world to an error or the new world
  and its answer; every check runs before the write, so a refusal leaves the world as it was.
\<close>

section \<open>Records\<close>

datatype listen_policy = ListenAll | ListenMention | ListenSilent

record room_member =
  mem_name :: string
  role_blurb :: string
  listen_policy :: listen_policy
  profile_narrowing :: config

record room =
  rm_id :: string
  rm_title :: string
  rm_created_at :: string
  rm_archived :: bool
  rm_paused :: bool
  rounds_used :: nat
  round_budget :: nat
  pending_queue :: "string list"
  speaking :: string
  rm_members :: "room_member list"

datatype room_error =
    room_state_unreadable
  | room_not_found
  | room_title_required
  | room_id_exhausted
  | room_archived
  | room_member_name_required
  | room_member_name_invalid
  | room_member_unknown_agent
  | room_invalid_listen_policy
  | room_narrowing_invalid
  | room_member_exists
  | room_member_limit
  | room_member_not_found
  | room_round_budget_invalid

datatype index_file = Missing | Unreadable | Rooms "room list"

record message =
  msg_role :: string
  msg_content :: string
  msg_speaker :: string

text \<open>
  The attention items the arbiter raises, by their \<open>dedup_key\<close> (the room's id): raising the same
  key again leaves one item.
\<close>

record rooms_world =
  rw_index :: index_file
  rw_log :: "string \<Rightarrow> message list"
  rw_attention :: "(string \<times> nat) list"

type_synonym 'a room_op = "rooms_world \<Rightarrow> room_error + (rooms_world \<times> 'a)"

definition member :: "room \<Rightarrow> string \<Rightarrow> room_member option" where
  "member r n = find (\<lambda>m. mem_name m = n) (rm_members r)"

definition on_roster :: "room \<Rightarrow> string \<Rightarrow> bool" where
  "on_roster r n = (n \<in> mem_name ` set (rm_members r))"

lemma member_None_iff [simp]: "member r n = None \<longleftrightarrow> \<not> on_roster r n"
  by (auto simp: member_def on_roster_def find_None_iff)

text \<open>\<open>Room.owed\<close>: the open turn first, then the queue, each member once, current members only.\<close>

definition owed :: "room \<Rightarrow> string list" where
  "owed r = push_all (filter (on_roster r)
     ((if speaking r = [] then [] else [speaking r]) @ pending_queue r)) []"

section \<open>The record on disk\<close>

definition slug_char :: "char \<Rightarrow> bool" where
  "slug_char c = (c \<in> set ''abcdefghijklmnopqrstuvwxyz0123456789'')"

text \<open>\<open>_ROOM_ID_RE\<close>: a slug character, then at most 63 more or dashes.\<close>

definition room_id_ok :: "string \<Rightarrow> bool" where
  "room_id_ok s = (case s of [] \<Rightarrow> False
     | c # cs \<Rightarrow> slug_char c \<and> list_all (\<lambda>d. slug_char d \<or> d = CHR ''-'') cs \<and> length cs \<le> 63)"

fun policy_of :: "string \<Rightarrow> listen_policy option" where
  "policy_of s = (if s = ''all'' then Some ListenAll else if s = ''mention'' then Some ListenMention
     else if s = ''silent'' then Some ListenSilent else None)"

fun policy_text :: "listen_policy \<Rightarrow> string" where
  "policy_text ListenAll = ''all''"
| "policy_text ListenMention = ''mention''"
| "policy_text ListenSilent = ''silent''"

text \<open>\<open>Room.to_dict\<close>, with its members.\<close>

definition member_to_dict :: "room_member \<Rightarrow> json" where
  "member_to_dict m = JObj
     [(''name'', JStr (mem_name m)), (''role_blurb'', JStr (role_blurb m)),
      (''listen_policy'', JStr (policy_text (listen_policy m))),
      (''profile_narrowing'', JObj (profile_narrowing m))]"

definition room_to_dict :: "room \<Rightarrow> json" where
  "room_to_dict r = JObj
     [(''id'', JStr (rm_id r)), (''title'', JStr (rm_title r)),
      (''created_at'', JStr (rm_created_at r)), (''archived'', JBool (rm_archived r)),
      (''paused'', JBool (rm_paused r)), (''rounds_used'', JInt (int (rounds_used r))),
      (''round_budget'', JInt (int (round_budget r))),
      (''pending_queue'', JList (map JStr (pending_queue r))), (''speaking'', JStr (speaking r)),
      (''members'', JList (map member_to_dict (rm_members r)))]"

definition member_from_dict :: "(json \<Rightarrow> string) \<Rightarrow> json \<Rightarrow> decode_error + room_member" where
  "member_from_dict py_str v =
     (case v of
        JObj d \<Rightarrow>
          (let name = text_of py_str (get_or d ''name'' (JStr [])) in
           if name = [] then Inl ValueError
           else case policy_of (text_of py_str (get_or d ''listen_policy'' (JStr ''all''))) of
                  None \<Rightarrow> Inl ValueError
                | Some pol \<Rightarrow>
                    (let n = cfg_get d ''profile_narrowing'' in
                     case (if truthy n then n else JObj []) of
                       JObj kvs \<Rightarrow> Inr \<lparr>mem_name = name,
                                       role_blurb = text_of py_str (get_or d ''role_blurb'' (JStr [])),
                                       listen_policy = pol, profile_narrowing = kvs\<rparr>
                     | _ \<Rightarrow> Inl ValueError))
      | _ \<Rightarrow> Inl ValueError)"

text \<open>\<open>Room.from_dict\<close>; \<open>as_instant\<close> is \<open>instants.as_instant\<close> on a string.\<close>

definition room_from_dict ::
  "(json \<Rightarrow> string) \<Rightarrow> (string \<Rightarrow> int option) \<Rightarrow> (string \<Rightarrow> string) \<Rightarrow> json \<Rightarrow> decode_error + room" where
  "room_from_dict py_str int_text as_instant v =
     (case v of
        JObj d \<Rightarrow>
          (let rid = text_of py_str (get_or d ''id'' (JStr [])) in
           if \<not> room_id_ok rid then Inl ValueError
           else case iter_of (cfg_get d ''members'') of Inl e \<Rightarrow> Inl e | Inr raws \<Rightarrow>
             (case map_result (member_from_dict py_str) raws of Inl e \<Rightarrow> Inl e | Inr ms \<Rightarrow>
             (case int_of_field int_text (cfg_get d ''rounds_used'') of Inl e \<Rightarrow> Inl e | Inr used \<Rightarrow>
             (case int_of_field int_text (cfg_get d ''round_budget'') of Inl e \<Rightarrow> Inl e | Inr budget \<Rightarrow>
             (case iter_of (cfg_get d ''pending_queue'') of Inl e \<Rightarrow> Inl e | Inr names \<Rightarrow>
              Inr \<lparr>rm_id = rid, rm_title = text_of py_str (get_or d ''title'' (JStr [])),
                   rm_created_at = as_instant (text_of py_str (get_or d ''created_at'' (JStr []))),
                   rm_archived = strict_bool (cfg_get d ''archived''),
                   rm_paused = strict_bool (cfg_get d ''paused''),
                   rounds_used = nat used, round_budget = nat budget,
                   pending_queue = filter (\<lambda>n. n \<noteq> []) (map (text_of py_str) names),
                   speaking = (let s = cfg_get d ''speaking'' in if truthy s then text_of py_str s else []),
                   rm_members = ms\<rparr>)))))
      | _ \<Rightarrow> Inl ValueError)"

text \<open>\<open>_decode_index\<close> after \<open>json.loads\<close>, and the payload \<open>_write_index\<close> dumps.\<close>

definition decode_index ::
  "(json \<Rightarrow> string) \<Rightarrow> (string \<Rightarrow> int option) \<Rightarrow> (string \<Rightarrow> string) \<Rightarrow> json \<Rightarrow> decode_error + room list" where
  "decode_index py_str int_text as_instant v =
     (case v of
        JObj d \<Rightarrow>
          (case get_or d ''rooms'' (JList []) of
             JList recs \<Rightarrow> map_result (room_from_dict py_str int_text as_instant) recs
           | _ \<Rightarrow> Inl ValueError)
      | _ \<Rightarrow> Inl ValueError)"

definition encode_index :: "room list \<Rightarrow> json" where
  "encode_index rs = JObj [(''rooms'', JList (map room_to_dict rs))]"

section \<open>The index: one file, two readers\<close>

definition read_index_lenient :: "rooms_world \<Rightarrow> room list" where
  "read_index_lenient w = (case rw_index w of Rooms rs \<Rightarrow> rs | _ \<Rightarrow> [])"

definition read_index_strict :: "rooms_world \<Rightarrow> room_error + room list" where
  "read_index_strict w =
     (case rw_index w of Missing \<Rightarrow> Inr [] | Unreadable \<Rightarrow> Inl room_state_unreadable | Rooms rs \<Rightarrow> Inr rs)"

definition find_room :: "string \<Rightarrow> room list \<Rightarrow> room option" where
  "find_room rid rs = find (\<lambda>r. rm_id r = rid) rs"

text \<open>The record read through the list is the first with that id; a write replaces that one.\<close>

fun put_room :: "string \<Rightarrow> room \<Rightarrow> room list \<Rightarrow> room list" where
  "put_room rid r' [] = []"
| "put_room rid r' (r # rs) = (if rm_id r = rid then r' # rs else r # put_room rid r' rs)"

text \<open>
  \<open>_require_indexed_room\<close> and the write after it: read strictly, find the room, run the change,
  write the whole index. (The code skips a write that would change nothing; the file is the same.)
\<close>

definition with_room :: "string \<Rightarrow> (room \<Rightarrow> room_error + (room \<times> 'a)) \<Rightarrow> 'a room_op" where
  "with_room rid f w =
     (case read_index_strict w of
        Inl e \<Rightarrow> Inl e
      | Inr rs \<Rightarrow>
          (case find_room rid rs of
             None \<Rightarrow> Inl room_not_found
           | Some r \<Rightarrow>
               (case f r of
                  Inl e \<Rightarrow> Inl e
                | Inr (r', x) \<Rightarrow> Inr (w\<lparr>rw_index := Rooms (put_room rid r' rs)\<rparr>, x))))"

text \<open>
  \<open>list_rooms\<close>: newest first. \<open>sorted(..., reverse=True)\<close> keeps rooms of one stamp in file order.
\<close>

definition list_rooms :: "bool \<Rightarrow> rooms_world \<Rightarrow> room list" where
  "list_rooms include_archived w =
     rev (sort_key rm_created_at
       (rev (if include_archived then read_index_lenient w
             else filter (\<lambda>r. \<not> rm_archived r) (read_index_lenient w))))"

definition get_room :: "string \<Rightarrow> rooms_world \<Rightarrow> room option" where
  "get_room rid w = find_room rid (read_index_lenient w)"

definition require_room :: "string \<Rightarrow> rooms_world \<Rightarrow> room_error + room" where
  "require_room rid w =
     (case read_index_strict w of
        Inl e \<Rightarrow> Inl e
      | Inr rs \<Rightarrow> (case find_room rid rs of None \<Rightarrow> Inl room_not_found | Some r \<Rightarrow> Inr r))"

section \<open>Rooms\<close>

text \<open>\<open>re.sub("[^a-z0-9]+", "-", s)\<close>: one dash per run of other characters.\<close>

fun dash_runs :: "string \<Rightarrow> string" where
  "dash_runs [] = []"
| "dash_runs (c # cs) =
     (if slug_char c then c # dash_runs cs
      else case cs of [] \<Rightarrow> ''-'' | d # ds \<Rightarrow> if slug_char d then CHR ''-'' # dash_runs cs else dash_runs cs)"

definition strip_dash :: "string \<Rightarrow> string" where
  "strip_dash s = rev (dropWhile (\<lambda>c. c = CHR ''-'') (rev (dropWhile (\<lambda>c. c = CHR ''-'') s)))"

definition slugify :: "string \<Rightarrow> string" where
  "slugify title = take 56 (strip_dash (dash_runs (map ascii_lower (strip title))))"

definition ID_SUFFIXES :: "nat list" where
  "ID_SUFFIXES = [2..<1000]"

definition unique_id :: "string \<Rightarrow> string list \<Rightarrow> string option" where
  "unique_id candidate taken =
     (if candidate \<noteq> [] \<and> candidate \<notin> set taken then Some candidate
      else find (\<lambda>p. p \<notin> set taken)
             (map (\<lambda>n. (if candidate \<noteq> [] then candidate else ''room'') @ ''-'' @ nat_str n) ID_SUFFIXES))"

definition MAX_TITLE_CHARS :: nat where "MAX_TITLE_CHARS = 200"
definition MAX_ROLE_BLURB_CHARS :: nat where "MAX_ROLE_BLURB_CHARS = 500"
definition MAX_ROOM_ROUND_BUDGET :: nat where "MAX_ROOM_ROUND_BUDGET = 100"

definition new_room :: "string \<Rightarrow> string \<Rightarrow> string \<Rightarrow> room" where
  "new_room rid title now =
     \<lparr>rm_id = rid, rm_title = title, rm_created_at = now, rm_archived = False, rm_paused = False,
      rounds_used = 0, round_budget = 0, pending_queue = [], speaking = [], rm_members = []\<rparr>"

definition create_room :: "string \<Rightarrow> string \<Rightarrow> room room_op" where
  "create_room title now w =
     (let clean = take MAX_TITLE_CHARS (strip title) in
      if clean = [] then Inl room_title_required
      else case read_index_strict w of
             Inl e \<Rightarrow> Inl e
           | Inr rs \<Rightarrow>
               (case unique_id (slugify clean) (map rm_id rs) of
                  None \<Rightarrow> Inl room_id_exhausted
                | Some rid \<Rightarrow>
                    let r = new_room rid clean now
                    in Inr (w\<lparr>rw_index := Rooms (rs @ [r])\<rparr>, r)))"

definition archive_room :: "string \<Rightarrow> room room_op" where
  "archive_room rid = with_room rid (\<lambda>r. let r' = r\<lparr>rm_archived := True\<rparr> in Inr (r', r'))"

section \<open>Members\<close>

definition safe_name_char :: "char \<Rightarrow> bool" where
  "safe_name_char c =
     (c \<in> set ''abcdefghijklmnopqrstuvwxyzABCDEFGHIJKLMNOPQRSTUVWXYZ0123456789_-'')"

text \<open>\<open>agents\<close> is the configured bindings: \<open>AppConfig.load().agents\<close>.\<close>

definition validate_member_name :: "string list \<Rightarrow> string \<Rightarrow> room_error + string" where
  "validate_member_name agents name =
     (let clean = strip name in
      if clean = [] then Inl room_member_name_required
      else if \<not> list_all safe_name_char clean then Inl room_member_name_invalid
      else if clean \<notin> set agents then Inl room_member_unknown_agent
      else Inr clean)"

text \<open>
  \<open>narrowing_ok\<close> is \<open>posture.parse_narrowing\<close> not raising; \<open>max_members\<close> is \<open>rooms.max_members\<close>. A
  declaration that is not an object is stored as the empty one.
\<close>

definition add_member ::
  "(json \<Rightarrow> bool) \<Rightarrow> string list \<Rightarrow> nat \<Rightarrow> string \<Rightarrow> string \<Rightarrow> string \<Rightarrow> string \<Rightarrow> json \<Rightarrow> room room_op" where
  "add_member narrowing_ok agents max_members rid name blurb policy declared w =
     (case policy_of policy of
        None \<Rightarrow> Inl room_invalid_listen_policy
      | Some pol \<Rightarrow>
          if \<not> narrowing_ok declared then Inl room_narrowing_invalid
          else case validate_member_name agents name of
                 Inl e \<Rightarrow> Inl e
               | Inr clean \<Rightarrow>
                   with_room rid (\<lambda>r.
                     if rm_archived r then Inl room_archived
                     else if member r clean \<noteq> None then Inl room_member_exists
                     else if length (rm_members r) \<ge> max_members then Inl room_member_limit
                     else let m = \<lparr>mem_name = clean,
                                   role_blurb = take MAX_ROLE_BLURB_CHARS (strip blurb),
                                   listen_policy = pol,
                                   profile_narrowing = (case declared of JObj kvs \<Rightarrow> kvs | _ \<Rightarrow> [])\<rparr>;
                              r' = r\<lparr>rm_members := rm_members r @ [m]\<rparr>
                          in Inr (r', r')) w)"

definition remove_member :: "string \<Rightarrow> string \<Rightarrow> room room_op" where
  "remove_member rid name =
     with_room rid (\<lambda>r.
       if member r name = None then Inl room_member_not_found
       else let r' = r\<lparr>rm_members := filter (\<lambda>m. mem_name m \<noteq> name) (rm_members r)\<rparr>
            in Inr (r', r'))"

section \<open>The round budget and the queue, on one record\<close>

definition reset_round_budget_of :: "room \<Rightarrow> room" where
  "reset_round_budget_of r = r\<lparr>rounds_used := 0, rm_paused := False\<rparr>"

definition set_pending_queue_of :: "string list \<Rightarrow> room \<Rightarrow> room" where
  "set_pending_queue_of queue r = r\<lparr>pending_queue := push_all (filter (\<lambda>n. n \<noteq> []) queue) []\<rparr>"

definition begin_turn_of :: "room \<Rightarrow> room \<times> string" where
  "begin_turn_of r =
     (if speaking r \<noteq> [] then
        (r\<lparr>pending_queue := filter (\<lambda>n. n \<noteq> speaking r) (pending_queue r)\<rparr>, speaking r)
      else case pending_queue r of
             [] \<Rightarrow> (r, [])
           | n # rest \<Rightarrow> (r\<lparr>pending_queue := rest, speaking := n\<rparr>, n))"

definition end_turn_of :: "bool \<Rightarrow> string list \<Rightarrow> room \<Rightarrow> room" where
  "end_turn_of spoke summoned r =
     r\<lparr>speaking := [],
       rounds_used := (if spoke then rounds_used r + 1 else rounds_used r),
       pending_queue := push_all summoned (pending_queue r)\<rparr>"

definition pause_room_of :: "room \<Rightarrow> room" where
  "pause_room_of r = r\<lparr>rm_paused := True\<rparr>"

definition reset_round_budget :: "string \<Rightarrow> room room_op" where
  "reset_round_budget rid = with_room rid (\<lambda>r. let r' = reset_round_budget_of r in Inr (r', r'))"

definition set_pending_queue :: "string \<Rightarrow> string list \<Rightarrow> room room_op" where
  "set_pending_queue rid queue =
     with_room rid (\<lambda>r. let r' = set_pending_queue_of queue r in Inr (r', r'))"

definition begin_turn :: "string \<Rightarrow> string room_op" where
  "begin_turn rid = with_room rid (\<lambda>r. Inr (begin_turn_of r))"

definition end_turn :: "string \<Rightarrow> bool \<Rightarrow> string list \<Rightarrow> room room_op" where
  "end_turn rid spoke summoned =
     with_room rid (\<lambda>r. let r' = end_turn_of spoke summoned r in Inr (r', r'))"

definition pause_room :: "string \<Rightarrow> room room_op" where
  "pause_room rid = with_room rid (\<lambda>r. let r' = pause_room_of r in Inr (r', r'))"

text \<open>A value that is a boolean or no integer is refused like one out of range.\<close>

definition set_round_budget :: "string \<Rightarrow> json \<Rightarrow> room room_op" where
  "set_round_budget rid v w =
     (case as_true_int v of
        None \<Rightarrow> Inl room_round_budget_invalid
      | Some b \<Rightarrow>
          if b < 0 \<or> b > int MAX_ROOM_ROUND_BUDGET then Inl room_round_budget_invalid
          else with_room rid (\<lambda>r. if rm_archived r then Inl room_archived
                 else let r' = r\<lparr>round_budget := nat b\<rparr> in Inr (r', r')) w)"

text \<open>\<open>inherited\<close> is the configured \<open>rooms.round_budget\<close>.\<close>

definition effective_round_budget :: "nat \<Rightarrow> room \<Rightarrow> nat" where
  "effective_round_budget inherited r = (if round_budget r > 0 then round_budget r else inherited)"

section \<open>The shared transcript\<close>

text \<open>\<open>redact\<close> is \<open>security.redact_field\<close>; it is applied to every role's text.\<close>

definition append_message ::
  "(string \<Rightarrow> string) \<Rightarrow> string \<Rightarrow> string \<Rightarrow> string \<Rightarrow> string \<Rightarrow> unit room_op" where
  "append_message redact rid role content speaker w =
     (case require_room rid w of
        Inl e \<Rightarrow> Inl e
      | Inr r \<Rightarrow>
          if rm_archived r then Inl room_archived
          else if speaker \<noteq> [] \<and> member r speaker = None then Inl room_member_not_found
          else Inr (w\<lparr>rw_log := (rw_log w)(rid := rw_log w rid @
                 [\<lparr>msg_role = role, msg_content = redact content, msg_speaker = speaker\<rparr>])\<rparr>, ()))"

definition read_messages :: "string \<Rightarrow> rooms_world \<Rightarrow> message list" where
  "read_messages rid w = rw_log w rid"

end
