(* ===== verification/RoomFacts.thy ===== *)
theory RoomFacts
  imports RoomStore
begin

text \<open>
  What the room store keeps: the record invariant and its preservation by every operation, the
  posture of an unreadable index, the round trip of the index file, and what a turn does to the
  queue. The turn protocol is a locale (\<open>turn_queue\<close>): a queue whose head is opened and closed, whose
  promise \<open>served_in_order\<close> is proved once and interpreted on the room record.
\<close>

section \<open>Writing one record\<close>

lemma find_room_SomeD: "find_room rid rs = Some r \<Longrightarrow> r \<in> set rs \<and> rm_id r = rid"
  by (auto simp: find_room_def find_Some_iff)

lemma put_room_ids [simp]: "rm_id r' = rid \<Longrightarrow> map rm_id (put_room rid r' rs) = map rm_id rs"
  by (induction rs) auto

lemma put_room_length [simp]: "length (put_room rid r' rs) = length rs"
  by (induction rs) auto

lemma put_room_set: "set (put_room rid r' rs) \<subseteq> insert r' (set rs)"
  by (induction rs) auto

lemma find_put_same:
  "find_room rid rs = Some r \<Longrightarrow> rm_id r' = rid \<Longrightarrow> find_room rid (put_room rid r' rs) = Some r'"
  by (induction rs) (auto simp: find_room_def split: if_splits)

lemma find_put_other:
  "rid' \<noteq> rid \<Longrightarrow> rm_id r' = rid \<Longrightarrow> find_room rid' (put_room rid r' rs) = find_room rid' rs"
  by (induction rs) (auto simp: find_room_def)

lemma with_room_Inr:
  "with_room rid f w = Inr (w', x) \<longleftrightarrow>
     (\<exists>rs r r'. read_index_strict w = Inr rs \<and> find_room rid rs = Some r \<and> f r = Inr (r', x) \<and>
        w' = w\<lparr>rw_index := Rooms (put_room rid r' rs)\<rparr>)"
  by (auto simp: with_room_def split: sum.splits option.splits)

lemma read_strict_Inr:
  "read_index_strict w = Inr rs \<longleftrightarrow> (rw_index w = Missing \<and> rs = []) \<or> rw_index w = Rooms rs"
  by (auto simp: read_index_strict_def split: index_file.splits)

section \<open>The record invariant\<close>

definition room_wf :: "room \<Rightarrow> bool" where
  "room_wf r \<longleftrightarrow> room_id_ok (rm_id r) \<and> distinct (map mem_name (rm_members r))
     \<and> [] \<notin> set (map mem_name (rm_members r)) \<and> distinct (pending_queue r)"

definition index_wf :: "room list \<Rightarrow> bool" where
  "index_wf rs \<longleftrightarrow> distinct (map rm_id rs) \<and> list_all room_wf rs"

definition world_wf :: "rooms_world \<Rightarrow> bool" where
  "world_wf w \<longleftrightarrow> (case rw_index w of Rooms rs \<Rightarrow> index_wf rs | _ \<Rightarrow> True)"

lemma index_wf_put:
  assumes "index_wf rs" and "room_wf r'" and "rm_id r' = rid"
  shows "index_wf (put_room rid r' rs)"
proof -
  have "list_all room_wf (put_room rid r' rs)"
    using assms put_room_set [of rid r' rs] unfolding index_wf_def list_all_iff by blast
  then show ?thesis using assms by (simp add: index_wf_def)
qed

lemma world_wf_strict: "world_wf w \<Longrightarrow> read_index_strict w = Inr rs \<Longrightarrow> index_wf rs"
  by (auto simp: read_strict_Inr world_wf_def index_wf_def)

lemma index_wf_find: "index_wf rs \<Longrightarrow> find_room rid rs = Some r \<Longrightarrow> room_wf r \<and> rm_id r = rid"
  by (auto simp: index_wf_def list_all_iff dest!: find_room_SomeD)

text \<open>Every operation on a record keeps the invariant of the file when it keeps the record's.\<close>

lemma with_room_keeps:
  assumes "with_room rid f w = Inr (w', x)" and "world_wf w"
    and "\<And>r r' y. f r = Inr (r', y) \<Longrightarrow> room_wf r \<Longrightarrow> room_wf r' \<and> rm_id r' = rm_id r"
  shows "world_wf w'"
proof -
  from assms(1) obtain rs r r' where
    rs: "read_index_strict w = Inr rs" and r: "find_room rid rs = Some r"
    and r': "f r = Inr (r', x)" and w': "w' = w\<lparr>rw_index := Rooms (put_room rid r' rs)\<rparr>"
    by (auto simp: with_room_Inr)
  have wf: "index_wf rs" by (rule world_wf_strict [OF assms(2) rs])
  have "room_wf r' \<and> rm_id r' = rid" using assms(3) [OF r'] index_wf_find [OF wf r] by simp
  then show ?thesis by (simp add: w' world_wf_def index_wf_put [OF wf])
qed

lemma wf_reset [room_facts]: "room_wf r \<Longrightarrow> room_wf (reset_round_budget_of r)"
  by (simp add: room_wf_def reset_round_budget_of_def)

lemma wf_set_queue [room_facts]: "room_wf r \<Longrightarrow> room_wf (set_pending_queue_of q r)"
  by (auto simp: room_wf_def set_pending_queue_of_def)

lemma wf_begin [room_facts]: "room_wf r \<Longrightarrow> room_wf (fst (begin_turn_of r))"
  by (auto simp: room_wf_def begin_turn_of_def split: list.splits)

lemma wf_end [room_facts]: "room_wf r \<Longrightarrow> room_wf (end_turn_of b names r)"
  by (auto simp: room_wf_def end_turn_of_def)

lemma wf_pause [room_facts]: "room_wf r \<Longrightarrow> room_wf (pause_room_of r)"
  by (simp add: room_wf_def pause_room_of_def)

lemma ids_kept [room_facts]:
  "rm_id (reset_round_budget_of r) = rm_id r" "rm_id (set_pending_queue_of q r) = rm_id r"
  "rm_id (fst (begin_turn_of r)) = rm_id r" "rm_id (end_turn_of b names r) = rm_id r"
  "rm_id (pause_room_of r) = rm_id r"
  by (simp_all add: reset_round_budget_of_def set_pending_queue_of_def begin_turn_of_def
      end_turn_of_def pause_room_of_def split: list.splits)

section \<open>Minting an id\<close>

lemma dash_runs_chars: "list_all (\<lambda>c. slug_char c \<or> c = CHR ''-'') (dash_runs s)"
  by (induction s rule: dash_runs.induct) (auto split: list.splits)

lemma strip_dash_chars: "list_all P s \<Longrightarrow> list_all P (strip_dash s)"
  unfolding strip_dash_def list_all_iff by (auto dest!: set_dropWhileD)

lemma strip_dash_head: "strip_dash s = c # cs \<Longrightarrow> c \<noteq> CHR ''-''"
proof -
  assume eq: "strip_dash s = c # cs"
  let ?P = "\<lambda>c. c = CHR ''-''"
  let ?t = "dropWhile ?P s"
  have "suffix (rev (strip_dash s)) (rev ?t)"
    unfolding strip_dash_def by (simp add: suffix_dropWhile)
  then have "prefix (strip_dash s) ?t" by (simp add: suffix_to_prefix)
  then obtain zs where "?t = c # cs @ zs" unfolding eq by (auto simp: prefix_def)
  then have "hd ?t = c" "?t \<noteq> []" by simp_all
  then show "c \<noteq> CHR ''-''" using hd_dropWhile [of ?P s] by auto
qed

definition slug_shape :: "string \<Rightarrow> bool" where
  "slug_shape s \<longleftrightarrow> s = [] \<or> (slug_char (hd s) \<and> list_all (\<lambda>d. slug_char d \<or> d = CHR ''-'') s)"

lemma slugify_shape: "slug_shape (slugify t) \<and> length (slugify t) \<le> 56"
proof -
  let ?d = "dash_runs (map ascii_lower (strip t))"
  let ?P = "\<lambda>c. slug_char c \<or> c = CHR ''-''"
  have all: "list_all ?P (strip_dash ?d)" by (rule strip_dash_chars [OF dash_runs_chars])
  then have part: "list_all ?P (take 56 (strip_dash ?d))"
    by (auto simp: list_all_iff dest: in_set_takeD)
  have head: "slug_char (hd (take 56 (strip_dash ?d)))" if "take 56 (strip_dash ?d) \<noteq> []"
  proof (cases "strip_dash ?d")
    case Nil
    then show ?thesis using that by simp
  next
    case (Cons c cs)
    then show ?thesis using all strip_dash_head [OF Cons] by simp
  qed
  show ?thesis using part head by (auto simp: slug_shape_def slugify_def)
qed

lemma digits_are_slug: "list_all (\<lambda>n. slug_char (char_of (48 + n))) [0 :: nat, 1, 2, 3, 4, 5, 6, 7, 8, 9]"
  by code_simp

lemma digit_slug_char: "(n :: nat) < 10 \<Longrightarrow> slug_char (char_of (48 + n))"
proof -
  assume "n < 10"
  then have "n \<in> set [0, 1, 2, 3, 4, 5, 6, 7, 8, 9]" by auto
  then show ?thesis using digits_are_slug unfolding list_all_iff by blast
qed

lemma nat_str_digits: "list_all slug_char (nat_str n)"
proof (induction n rule: nat_str.induct)
  case (1 n)
  show ?case
  proof (cases "n < 10")
    case True
    then show ?thesis by (subst nat_str.simps) (simp add: digit_slug_char)
  next
    case False
    then show ?thesis using 1 by (subst nat_str.simps) (simp add: digit_slug_char)
  qed
qed

lemma nat_str_length: "n < 1000 \<Longrightarrow> length (nat_str n) \<le> 3"
proof -
  have one: "length (nat_str m) = 1" if "m < 10" for m
    using that by (subst nat_str.simps) simp
  have two: "length (nat_str m) \<le> 2" if "m < 100" for m
    using that one [of "m div 10"] by (subst nat_str.simps) auto
  assume "n < 1000"
  then show ?thesis using two [of "n div 10"] by (subst nat_str.simps) auto
qed

lemma find_SomeD: "find P xs = Some x \<Longrightarrow> P x \<and> x \<in> set xs"
  by (auto simp: find_Some_iff)

lemma id_suffix_range: "n \<in> set ID_SUFFIXES \<Longrightarrow> n < 1000"
  unfolding ID_SUFFIXES_def set_upt by simp

lemma unique_id_fresh: "unique_id c taken = Some rid \<Longrightarrow> rid \<notin> set taken"
  by (auto simp: unique_id_def split: if_splits dest!: find_SomeD)

lemma unique_id_slug:
  assumes "unique_id c taken = Some rid" and "slug_shape c" and "length c \<le> 56"
  shows "room_id_ok rid"
proof (cases "c \<noteq> [] \<and> c \<notin> set taken")
  case True
  then have "rid = c" using assms(1) by (simp add: unique_id_def)
  then show ?thesis using True assms(2,3) by (cases c) (auto simp: room_id_ok_def slug_shape_def)
next
  case False
  let ?b = "if c \<noteq> [] then c else ''room''"
  obtain n where n: "n < 1000" "rid = ?b @ ''-'' @ nat_str n"
    using assms(1) False
    by (auto simp: unique_id_def dest!: find_SomeD id_suffix_range split: if_splits)
  have base: "?b \<noteq> []" "slug_char (hd ?b)" "list_all (\<lambda>d. slug_char d \<or> d = CHR ''-'') ?b"
    "length ?b \<le> 56"
    using assms(2,3) by (auto simp: slug_shape_def slug_char_def)
  then obtain d ds where "?b = d # ds" by (cases ?b) auto
  moreover have "list_all (\<lambda>d. slug_char d \<or> d = CHR ''-'') (nat_str n)"
    using nat_str_digits [of n] by (auto simp: list_all_iff)
  ultimately show ?thesis using base nat_str_length [OF n(1)] n(2) by (simp add: room_id_ok_def)
qed

section \<open>Any sequence of operations\<close>

text \<open>
  One operation that succeeded. A turn's summons are names the arbiter read out of \<open>@\<close>-mentions, so
  none is empty.
\<close>

inductive room_step ::
  "(json \<Rightarrow> bool) \<Rightarrow> string list \<Rightarrow> nat \<Rightarrow> (string \<Rightarrow> string) \<Rightarrow> rooms_world \<Rightarrow> rooms_world \<Rightarrow> bool"
  for narrowing_ok agents cap redact where
  create: "create_room t now w = Inr (w', r) \<Longrightarrow> room_step narrowing_ok agents cap redact w w'"
| archive: "archive_room rid w = Inr (w', r) \<Longrightarrow> room_step narrowing_ok agents cap redact w w'"
| add: "add_member narrowing_ok agents cap rid n blurb pol d w = Inr (w', r) \<Longrightarrow>
    room_step narrowing_ok agents cap redact w w'"
| remove: "remove_member rid n w = Inr (w', r) \<Longrightarrow> room_step narrowing_ok agents cap redact w w'"
| reset: "reset_round_budget rid w = Inr (w', r) \<Longrightarrow> room_step narrowing_ok agents cap redact w w'"
| queue: "set_pending_queue rid q w = Inr (w', r) \<Longrightarrow> room_step narrowing_ok agents cap redact w w'"
| begin_t: "begin_turn rid w = Inr (w', n) \<Longrightarrow> room_step narrowing_ok agents cap redact w w'"
| end_t: "end_turn rid spoke names w = Inr (w', r) \<Longrightarrow> room_step narrowing_ok agents cap redact w w'"
| pause: "pause_room rid w = Inr (w', r) \<Longrightarrow> room_step narrowing_ok agents cap redact w w'"
| budget: "set_round_budget rid v w = Inr (w', r) \<Longrightarrow> room_step narrowing_ok agents cap redact w w'"
| append: "append_message redact rid role text sp w = Inr (w', u) \<Longrightarrow>
    room_step narrowing_ok agents cap redact w w'"

lemma create_room_Inr:
  assumes "create_room t now w = Inr (w', r)"
  obtains rs where "read_index_strict w = Inr rs" "rm_id r \<notin> rm_id ` set rs" "room_id_ok (rm_id r)"
    "r = new_room (rm_id r) (take MAX_TITLE_CHARS (strip t)) now"
    "w' = w\<lparr>rw_index := Rooms (rs @ [r])\<rparr>"
proof -
  let ?clean = "take MAX_TITLE_CHARS (strip t)"
  from assms obtain rs rid where
    rs: "read_index_strict w = Inr rs" and rid: "unique_id (slugify ?clean) (map rm_id rs) = Some rid"
    and r: "r = new_room rid ?clean now" and w': "w' = w\<lparr>rw_index := Rooms (rs @ [r])\<rparr>"
    by (auto simp: create_room_def Let_def split: if_splits sum.splits option.splits)
  have id: "rm_id r = rid" by (simp add: r new_room_def)
  have "rid \<notin> set (map rm_id rs)" by (rule unique_id_fresh [OF rid])
  moreover have "room_id_ok rid" using slugify_shape by (intro unique_id_slug [OF rid]) auto
  ultimately show ?thesis using that rs r w' id by simp
qed

lemma wf_new_room: "room_id_ok rid \<Longrightarrow> room_wf (new_room rid t now)"
  by (simp add: room_wf_def new_room_def)

lemma create_keeps: "create_room t now w = Inr (w', r) \<Longrightarrow> world_wf w \<Longrightarrow> world_wf w'"
proof -
  assume made: "create_room t now w = Inr (w', r)" and wf: "world_wf w"
  obtain rs where rs: "read_index_strict w = Inr rs" "rm_id r \<notin> rm_id ` set rs" "room_id_ok (rm_id r)"
    "r = new_room (rm_id r) (take MAX_TITLE_CHARS (strip t)) now" "w' = w\<lparr>rw_index := Rooms (rs @ [r])\<rparr>"
    by (rule create_room_Inr [OF made])
  have "room_wf r" by (subst rs(4)) (rule wf_new_room [OF rs(3)])
  then show "world_wf w'"
    using world_wf_strict [OF wf rs(1)] rs(2,5) by (simp add: world_wf_def index_wf_def)
qed

lemma validated_name_nonempty: "validate_member_name agents n = Inr c \<Longrightarrow> c \<noteq> []"
  by (auto simp: validate_member_name_def Let_def split: if_splits)

lemma add_keeps:
  assumes "add_member narrowing_ok agents cap rid n blurb pol d w = Inr (w', r)" and "world_wf w"
  shows "world_wf w'"
proof -
  from assms(1) obtain p c where ok: "validate_member_name agents n = Inr c"
    and step: "with_room rid (\<lambda>r.
        if rm_archived r then Inl room_archived
        else if member r c \<noteq> None then Inl room_member_exists
        else if length (rm_members r) \<ge> cap then Inl room_member_limit
        else let m = \<lparr>mem_name = c, role_blurb = take MAX_ROLE_BLURB_CHARS (strip blurb),
                      listen_policy = p, profile_narrowing = (case d of JObj kvs \<Rightarrow> kvs | _ \<Rightarrow> [])\<rparr>;
                 r' = r\<lparr>rm_members := rm_members r @ [m]\<rparr>
             in Inr (r', r')) w = Inr (w', r)"
    by (auto simp: add_member_def split: option.splits if_splits sum.splits)
  show ?thesis
    by (rule with_room_keeps [OF step assms(2)])
      (auto simp: Let_def room_wf_def on_roster_def validated_name_nonempty [OF ok] split: if_splits)
qed

lemma set_budget_keeps:
  assumes "set_round_budget rid v w = Inr (w', r)" and "world_wf w"
  shows "world_wf w'"
proof -
  from assms(1) obtain b where
    step: "with_room rid (\<lambda>r. if rm_archived r then Inl room_archived
                 else let r' = r\<lparr>round_budget := nat b\<rparr> in Inr (r', r')) w = Inr (w', r)"
    by (auto simp: set_round_budget_def split: option.splits if_splits)
  show ?thesis
    by (rule with_room_keeps [OF step assms(2)]) (auto simp: Let_def room_wf_def split: if_splits)
qed

lemma append_keeps_index: "append_message redact rid role text sp w = Inr (w', u) \<Longrightarrow> rw_index w' = rw_index w"
  by (auto simp: append_message_def split: sum.splits if_splits)

lemma distinct_map_filter_names: "distinct (map f xs) \<Longrightarrow> distinct (map f (filter P xs))"
  by (simp add: distinct_map inj_on_def)

text \<open>
  C23. Whatever operations run, in whatever order and with whatever arguments, the rooms index keeps its shape:
  room ids are distinct and are slugs the strict reader accepts, no room lists a member twice or one without
  a name, and no queue holds a name twice.
\<close>

theorem room_operations_keep_the_index:
  assumes "room_step narrowing_ok agents cap redact w w'" and "world_wf w"
  shows "world_wf w'"
  using assms
proof (induction rule: room_step.induct)
  case (remove rid n w w' r)
  show ?case
    by (rule with_room_keeps [OF remove.hyps [unfolded remove_member_def] remove.prems])
      (auto simp: Let_def room_wf_def distinct_map_filter_names split: if_splits)
next
  case (archive rid w w' r)
  show ?case
    by (rule with_room_keeps [OF archive.hyps [unfolded archive_room_def] archive.prems])
      (auto simp: Let_def room_wf_def)
next
  case (append rid role body sp w w' u)
  then show ?case by (simp add: world_wf_def append_keeps_index)
next
  case (create t now w w' r)
  then show ?case by (rule create_keeps)
next
  case (add rid n blurb pol d w w' r)
  then show ?case by (rule add_keeps)
next
  case (budget rid v w w' r)
  then show ?case by (rule set_budget_keeps)
next
  case (reset rid w w' r)
  show ?case
    by (rule with_room_keeps [OF reset.hyps [unfolded reset_round_budget_def] reset.prems])
      (auto simp: Let_def room_facts)
next
  case (queue rid q w w' r)
  show ?case
    by (rule with_room_keeps [OF queue.hyps [unfolded set_pending_queue_def] queue.prems])
      (auto simp: Let_def room_facts)
next
  case (begin_t rid w w' n)
  show ?case
    by (rule with_room_keeps [OF begin_t.hyps [unfolded begin_turn_def] begin_t.prems])
      (metis Inr_inject fst_conv ids_kept(3) wf_begin)
next
  case (end_t rid spoke names w w' r)
  show ?case
    by (rule with_room_keeps [OF end_t.hyps [unfolded end_turn_def] end_t.prems])
      (auto simp: Let_def room_facts)
next
  case (pause rid w w' r)
  show ?case
    by (rule with_room_keeps [OF pause.hyps [unfolded pause_room_def] pause.prems])
      (auto simp: Let_def room_facts)
qed

definition empty_world :: rooms_world where
  "empty_world = \<lparr>rw_index = Missing, rw_log = (\<lambda>_. []), rw_attention = []\<rparr>"

lemma create_example: "\<exists>w' r. create_room ''Design lab!'' ''t0'' empty_world = Inr (w', r)"
proof -
  have "\<not> isl (create_room ''Design lab!'' ''t0'' empty_world)" by code_simp
  then show ?thesis by (cases "create_room ''Design lab!'' ''t0'' empty_world") auto
qed

theorem room_operations_keep_the_index_witness:
  "\<exists>w'. room_step (\<lambda>_. True) [] 8 id empty_world w' \<and> world_wf w'"
proof -
  obtain w' r where "create_room ''Design lab!'' ''t0'' empty_world = Inr (w', r)"
    using create_example by blast
  then have step: "room_step (\<lambda>_. True) [] 8 id empty_world w'" by (rule room_step.create)
  have "world_wf empty_world" by (simp add: world_wf_def empty_world_def)
  with step have "world_wf w'" by (rule room_operations_keep_the_index)
  with step show ?thesis by blast
qed

text \<open>
  Every writer fails closed: while the index is unreadable no operation takes effect, so nothing is
  ever written over rooms the process could not read; the listing reader meanwhile shows no room.
\<close>

theorem unreadable_index_is_never_rewritten:
  assumes "rw_index w = Unreadable"
  shows "\<not> room_step narrowing_ok agents cap redact w w' \<and> list_rooms b w = []"
proof -
  have strict: "read_index_strict w = Inl room_state_unreadable"
    using assms by (simp add: read_index_strict_def)
  then have refused: "with_room rid f w \<noteq> Inr y" for rid f and y :: "rooms_world \<times> 'x"
    by (simp add: with_room_def)
  have "\<not> room_step narrowing_ok agents cap redact w w'"
  proof
    assume "room_step narrowing_ok agents cap redact w w'"
    then show False
      using strict
      by cases (auto simp: with_room_def create_room_def archive_room_def add_member_def
          remove_member_def reset_round_budget_def set_pending_queue_def begin_turn_def end_turn_def
          pause_room_def set_round_budget_def append_message_def require_room_def Let_def
          split: if_splits option.splits sum.splits)
  qed
  then show ?thesis using assms by (simp add: list_rooms_def read_index_lenient_def)
qed

theorem unreadable_index_is_never_rewritten_witness:
  "\<not> room_step (\<lambda>_. True) [''ada''] 8 id (empty_world\<lparr>rw_index := Unreadable\<rparr>) empty_world"
  using unreadable_index_is_never_rewritten [of "empty_world\<lparr>rw_index := Unreadable\<rparr>"] by simp

text \<open>
  A created room is new and readable: its id is a slug the strict reader accepts and no room had
  it, its title is not blank, it holds no members, turns or budget, and every room already in the
  index reads exactly as before.
\<close>

theorem created_room_is_new_and_readable:
  assumes "create_room t now w = Inr (w', r)" and "world_wf w"
  shows "room_id_ok (rm_id r) \<and> get_room (rm_id r) w = None \<and> get_room (rm_id r) w' = Some r \<and>
    rm_title r \<noteq> [] \<and> rm_members r = [] \<and> owed r = [] \<and> rounds_used r = 0 \<and>
    (\<forall>rid. rid \<noteq> rm_id r \<longrightarrow> get_room rid w' = get_room rid w)"
proof -
  obtain rs where rs: "read_index_strict w = Inr rs" "rm_id r \<notin> rm_id ` set rs" "room_id_ok (rm_id r)"
    "r = new_room (rm_id r) (take MAX_TITLE_CHARS (strip t)) now" "w' = w\<lparr>rw_index := Rooms (rs @ [r])\<rparr>"
    by (rule create_room_Inr [OF assms(1)])
  have lenient: "read_index_lenient w = rs" "read_index_lenient w' = rs @ [r]"
    using rs(1,5) by (auto simp: read_strict_Inr read_index_lenient_def)
  have absent: "find_room (rm_id r) rs = None"
    using rs(2) by (metis find_room_SomeD imageI not_None_eq)
  have "find_room (rm_id r) (rs @ [r]) = Some r"
    using absent by (induction rs) (auto simp: find_room_def split: if_splits)
  moreover have "find_room rid (rs @ [r]) = find_room rid rs" if "rid \<noteq> rm_id r" for rid
    using that by (induction rs) (auto simp: find_room_def)
  moreover have "take MAX_TITLE_CHARS (strip t) \<noteq> []"
    using assms(1) by (auto simp: create_room_def Let_def MAX_TITLE_CHARS_def)
  moreover obtain rid where "r = new_room rid (take MAX_TITLE_CHARS (strip t)) now"
    using rs(4) by blast
  then have "rm_title r = take MAX_TITLE_CHARS (strip t)" "rm_members r = []" "owed r = []"
      "rounds_used r = 0"
    by (simp_all add: new_room_def owed_def)
  ultimately show ?thesis using rs(3) absent lenient by (auto simp: get_room_def)
qed

theorem created_room_is_new_and_readable_witness:
  "\<exists>w' r. create_room ''Design lab!'' ''t0'' empty_world = Inr (w', r) \<and> room_id_ok (rm_id r)"
proof -
  obtain w' r where made: "create_room ''Design lab!'' ''t0'' empty_world = Inr (w', r)"
    using create_example by blast
  moreover have "world_wf empty_world" by (simp add: world_wf_def empty_world_def)
  ultimately show ?thesis using created_room_is_new_and_readable by blast
qed

section \<open>The index file, written and read back\<close>

lemma policy_round_trip [simp]: "policy_of (policy_text p) = Some p"
  by (cases p) auto

declare policy_of.simps [simp del]

lemma member_round_trip: "mem_name m \<noteq> [] \<Longrightarrow> member_from_dict py_str (member_to_dict m) = Inr m"
  by (cases "profile_narrowing m")
    (simp_all add: member_from_dict_def member_to_dict_def get_or_def cfg_get_def)

lemma iter_of_JList [simp]: "iter_of (JList xs) = Inr xs"
  by (cases xs) (auto simp: iter_of_def)

lemma int_of_field_JInt [simp]: "int_of_field int_text (JInt i) = Inr i"
  by (auto simp: int_of_field_def)

lemma room_round_trip:
  assumes "room_wf r" and "as_instant (rm_created_at r) = rm_created_at r" and "[] \<notin> set (pending_queue r)"
  shows "room_from_dict py_str int_text as_instant (room_to_dict r) = Inr r"
proof -
  have "map_result (member_from_dict py_str) (map member_to_dict (rm_members r)) = Inr (rm_members r)"
    using assms(1) by (intro map_result_inverse member_round_trip) (force simp: room_wf_def)
  moreover have "filter (\<lambda>n. n \<noteq> []) (map (text_of py_str) (map JStr (pending_queue r))) = pending_queue r"
    using assms(3) by (auto simp: comp_def intro!: filter_id_conv [THEN iffD2])
  ultimately show ?thesis
    using assms by (cases r) (simp add: room_from_dict_def room_to_dict_def get_or_def cfg_get_def
        room_wf_def Let_def)
qed

text \<open>
  What a writer puts in the index, every reader reads back: the decoded file is the list of rooms
  that was encoded, record for record, queue and open turn included. It rests on two things: the
  creation stamps already carry an offset, which is how \<open>utc_now_iso\<close> writes them, and no queue holds an
  empty name, which the reader would drop.
\<close>

theorem index_round_trip:
  assumes "index_wf rs" and "\<forall>r \<in> set rs. as_instant (rm_created_at r) = rm_created_at r \<and> [] \<notin> set (pending_queue r)"
  shows "decode_index py_str int_text as_instant (encode_index rs) = Inr rs"
proof -
  have "map_result (room_from_dict py_str int_text as_instant) (map room_to_dict rs) = Inr rs"
    using assms by (intro map_result_inverse room_round_trip) (auto simp: index_wf_def list_all_iff)
  then show ?thesis by (simp add: decode_index_def encode_index_def get_or_def)
qed

definition debate_room :: room where
  "debate_room = \<lparr>rm_id = ''debate'', rm_title = ''Debate'', rm_created_at = ''2026-01-01T00:00:00+00:00'',
     rm_archived = False, rm_paused = False, rounds_used = 1, round_budget = 6,
     pending_queue = [''bo'', ''cy''], speaking = ''ada'',
     rm_members = map (\<lambda>n. \<lparr>mem_name = n, role_blurb = ''critic'', listen_policy = ListenAll,
       profile_narrowing = []\<rparr>) [''ada'', ''bo'', ''cy'']\<rparr>"

lemma debate_room_wf: "index_wf [debate_room]"
  by code_simp

theorem index_round_trip_witness:
  "decode_index (\<lambda>_. []) (\<lambda>_. None) (\<lambda>s. s) (encode_index [debate_room]) = Inr [debate_room]"
  by (rule index_round_trip [OF debate_room_wf]) (simp add: debate_room_def)

text \<open>
  The readers catch a \<open>ValueError\<close> and promise that a corrupt index degrades to an empty listing,
  but a record whose budget is a list, or whose queue is a number, raises a \<open>TypeError\<close> instead, which
  neither reader catches.
\<close>

theorem corrupt_record_escapes_the_readers:
  "decode_index py_str int_text as_instant
     (JObj [(''rooms'', JList [JObj [(''id'', JStr ''a''), (''rounds_used'', JList [JInt 1])]])])
       = Inl TypeError \<and>
   decode_index py_str int_text as_instant
     (JObj [(''rooms'', JList [JObj [(''id'', JStr ''a''), (''pending_queue'', JInt 7)]])])
       = Inl TypeError"
  by (simp add: decode_index_def room_from_dict_def get_or_def cfg_get_def room_id_ok_def slug_char_def
      iter_of_def int_of_field_def)

section \<open>A turn on the queue\<close>

text \<open>
  The contract between the record and whoever drains it: opening a turn changes nothing about who is
  owed, opening again (the process died) opens the same one, and closing takes exactly the head off
  and puts the summoned behind everyone already owed.
\<close>

fun serve_turns ::
  "('s \<Rightarrow> 's \<times> string) \<Rightarrow> (string list \<Rightarrow> 's \<Rightarrow> 's) \<Rightarrow> string list list \<Rightarrow> 's \<Rightarrow> 's \<times> string list" where
  "serve_turns start finish [] s = (s, [])"
| "serve_turns start finish (names # rest) s =
     (case start s of (s1, n) \<Rightarrow>
        (case serve_turns start finish rest (finish names s1) of (s2, ns) \<Rightarrow> (s2, n # ns)))"

locale turn_queue =
  fixes inv :: "'s \<Rightarrow> bool" and seats :: "string set" and owed_of :: "'s \<Rightarrow> string list"
    and start :: "'s \<Rightarrow> 's \<times> string" and finish :: "string list \<Rightarrow> 's \<Rightarrow> 's"
  assumes start_inv: "inv s \<Longrightarrow> inv (fst (start s))"
    and start_owed: "inv s \<Longrightarrow> owed_of (fst (start s)) = owed_of s"
    and start_again: "inv s \<Longrightarrow> start (fst (start s)) = start s"
    and start_head: "inv s \<Longrightarrow> owed_of s \<noteq> [] \<Longrightarrow> snd (start s) = hd (owed_of s)"
    and finish_inv: "inv s \<Longrightarrow> set names \<subseteq> seats \<Longrightarrow> inv (finish names s)"
    and finish_owed: "inv s \<Longrightarrow> owed_of s \<noteq> [] \<Longrightarrow> set names \<subseteq> seats \<Longrightarrow>
      owed_of (finish names (fst (start s))) = push_all names (tl (owed_of s))"
begin

lemma served_in_order:
  assumes "inv s" and "\<forall>names \<in> set calls. set names \<subseteq> seats" and "length calls \<le> length (owed_of s)"
  shows "snd (serve_turns start finish calls s) = take (length calls) (owed_of s)"
  using assms
proof (induction calls arbitrary: s)
  case Nil
  then show ?case by simp
next
  case (Cons names rest)
  obtain n q where owed: "owed_of s = n # q" using Cons.prems(3) by (cases "owed_of s") auto
  obtain s1 m where st: "start s = (s1, m)" by (cases "start s")
  have m: "m = n" using start_head [OF Cons.prems(1)] owed st by simp
  let ?s2 = "finish names s1"
  have inv1: "inv s1" using start_inv [OF Cons.prems(1)] st by simp
  have inv2: "inv ?s2" using Cons.prems(2) by (intro finish_inv [OF inv1]) simp
  have q': "owed_of ?s2 = push_all names q"
    using finish_owed [OF Cons.prems(1), of names] Cons.prems(2) owed st by simp
  then obtain zs where zs: "owed_of ?s2 = q @ zs" using push_all_prefix [of q names] by (auto simp: prefix_def)
  have len: "length rest \<le> length q" using Cons.prems(3) owed by simp
  have "snd (serve_turns start finish rest ?s2) = take (length rest) (owed_of ?s2)"
    using Cons.prems(2) len zs by (intro Cons.IH [OF inv2]) auto
  also have "\<dots> = take (length rest) q" using zs len by simp
  finally show ?case using st m owed by (simp add: split_beta)
qed

lemma drained:
  assumes "inv s" and "calls = map (\<lambda>_. []) (owed_of s)"
  shows "owed_of (fst (serve_turns start finish calls s)) = []"
  using assms
proof (induction "length (owed_of s)" arbitrary: s calls)
  case 0
  then show ?case by simp
next
  case (Suc k)
  then obtain n q where owed: "owed_of s = n # q" by (cases "owed_of s") auto
  obtain s1 m where st: "start s = (s1, m)" by (cases "start s")
  let ?s2 = "finish [] s1"
  have inv1: "inv s1" using start_inv [OF Suc.prems(1)] st by simp
  have inv2: "inv ?s2" by (intro finish_inv [OF inv1]) simp
  have q': "owed_of ?s2 = q" using finish_owed [OF Suc.prems(1), of "[]"] owed st by simp
  have "owed_of (fst (serve_turns start finish (map (\<lambda>_. []) q) ?s2)) = []"
    using Suc.hyps(2) owed q' by (intro Suc.hyps(1) [OF _ inv2]) auto
  then show ?case using Suc.prems(2) owed st by (simp add: split_beta)
qed

end

text \<open>The room record keeps that contract while its roster stands.\<close>

definition seated :: "string set \<Rightarrow> room \<Rightarrow> bool" where
  "seated seats r \<longleftrightarrow> room_wf r \<and> mem_name ` set (rm_members r) = seats \<and>
     set (pending_queue r) \<subseteq> seats \<and> (speaking r = [] \<or> speaking r \<in> seats)"

lemma seated_queue: "seated seats r \<Longrightarrow> [] \<notin> set (pending_queue r)"
  by (auto simp: seated_def room_wf_def)

lemma owed_seated:
  assumes "seated seats r"
  shows "owed r = (if speaking r = [] then pending_queue r
                   else speaking r # filter (\<lambda>n. n \<noteq> speaking r) (pending_queue r))"
proof -
  have on: "on_roster r n" if "n \<in> seats" for n
    using that assms by (simp add: seated_def on_roster_def)
  then have "list_all (on_roster r) ((if speaking r = [] then [] else [speaking r]) @ pending_queue r)"
    using assms by (auto simp: seated_def list_all_iff)
  then have "owed r = push_all ((if speaking r = [] then [] else [speaking r]) @ pending_queue r) []"
    by (simp only: owed_def list_all_filter_id)
  then show ?thesis
    using assms by (simp add: seated_def room_wf_def push_all_eq_filter push_new_def)
qed

lemma seated_begin: "seated seats r \<Longrightarrow> seated seats (fst (begin_turn_of r))"
  using wf_begin [of r] by (auto simp: seated_def begin_turn_of_def split: list.splits)

lemma owed_begin:
  assumes "seated seats r"
  shows "owed (fst (begin_turn_of r)) = owed r"
proof (cases "speaking r = []")
  case False
  then show ?thesis
    unfolding owed_seated [OF assms] owed_seated [OF seated_begin [OF assms]]
    by (simp add: begin_turn_of_def)
next
  case idle: True
  have wf: "distinct (pending_queue r)" "[] \<notin> set (pending_queue r)"
    using assms seated_queue [OF assms] by (simp_all add: seated_def room_wf_def)
  show ?thesis
  proof (cases "pending_queue r")
    case Nil
    then show ?thesis using idle by (simp add: begin_turn_of_def)
  next
    case (Cons n q)
    then have "filter (\<lambda>m. m \<noteq> n) q = q" "n \<noteq> []" using wf by (auto simp: filter_id_conv)
    then show ?thesis
      unfolding owed_seated [OF assms] owed_seated [OF seated_begin [OF assms]]
      using Cons idle by (simp add: begin_turn_of_def)
  qed
qed

lemma begin_again:
  assumes "distinct (pending_queue r)" and "[] \<notin> set (pending_queue r)"
  shows "begin_turn_of (fst (begin_turn_of r)) = begin_turn_of r"
proof (cases "speaking r = []")
  case False
  then show ?thesis by (simp add: begin_turn_of_def)
next
  case idle: True
  show ?thesis
  proof (cases "pending_queue r")
    case Nil
    then show ?thesis using idle by (simp add: begin_turn_of_def)
  next
    case (Cons n q)
    then have "filter (\<lambda>m. m \<noteq> n) q = q" "n \<noteq> []" using assms by (auto simp: filter_id_conv)
    then show ?thesis using Cons idle by (simp add: begin_turn_of_def)
  qed
qed

lemma seated_end: "seated seats r \<Longrightarrow> set names \<subseteq> seats \<Longrightarrow> seated seats (end_turn_of b names r)"
proof -
  assume "seated seats r" "set names \<subseteq> seats"
  then show ?thesis using wf_end [of r b names] by (auto simp: seated_def end_turn_of_def)
qed

interpretation room_turns: turn_queue "seated seats" seats owed begin_turn_of "end_turn_of b"
  for seats :: "string set" and b :: bool
proof unfold_locales
  fix r :: room and names :: "string list"
  assume r: "seated seats r"
  show "seated seats (fst (begin_turn_of r))" by (rule seated_begin [OF r])
  show "owed (fst (begin_turn_of r)) = owed r"
    by (rule owed_begin [OF r])
  show "begin_turn_of (fst (begin_turn_of r)) = begin_turn_of r"
    by (rule begin_again) (use r seated_queue [OF r] in \<open>simp_all add: seated_def room_wf_def\<close>)
  show "snd (begin_turn_of r) = hd (owed r)" if "owed r \<noteq> []"
    using that by (auto simp: owed_seated [OF r] begin_turn_of_def split: list.splits if_splits)
  show "seated seats (end_turn_of b names r)" if "set names \<subseteq> seats"
    by (rule seated_end [OF r that])
  show "owed (end_turn_of b names (fst (begin_turn_of r))) = push_all names (tl (owed r))"
    if owes: "owed r \<noteq> []" and sub: "set names \<subseteq> seats"
  proof -
    have "owed (end_turn_of b names (fst (begin_turn_of r)))
        = pending_queue (end_turn_of b names (fst (begin_turn_of r)))"
      by (subst owed_seated [OF seated_end [OF seated_begin [OF r] sub]]) (simp add: end_turn_of_def)
    also have "\<dots> = push_all names (tl (owed r))"
      using owes by (auto simp: owed_seated [OF r] end_turn_of_def begin_turn_of_def split: list.splits if_splits)
    finally show ?thesis .
  qed
qed

text \<open>
  C10. First come, first served: the members a room owes a turn take their turns in exactly the order
  \<open>owed\<close> lists them, whatever the replies in between summon. A summoned member never overtakes one
  who was already waiting.
\<close>

theorem owed_members_speak_in_order:
  assumes "seated seats r" and "\<forall>names \<in> set calls. set names \<subseteq> seats"
    and "length calls \<le> length (owed r)"
  shows "snd (serve_turns begin_turn_of (end_turn_of True) calls r) = take (length calls) (owed r)"
  by (rule room_turns.served_in_order [OF assms])

lemma debate_seated: "seated {''ada'', ''bo'', ''cy''} debate_room"
  using debate_room_wf by (auto simp: seated_def index_wf_def debate_room_def)

theorem owed_members_speak_in_order_witness:
  "snd (serve_turns begin_turn_of (end_turn_of True) [[''ada'', ''cy''], [''ada''], []] debate_room)
     = [''ada'', ''bo'', ''cy'']"
proof -
  have owed: "owed debate_room = [''ada'', ''bo'', ''cy'']" by code_simp
  show ?thesis
    using owed_members_speak_in_order [OF debate_seated, of "[[''ada'', ''cy''], [''ada''], []]"]
    by (simp add: owed)
qed

text \<open>
  A turn cut off by a crash is taken once and not lost: opening a turn on the stored record and
  opening again after a restart name the same member and leave the same file, and nobody's place in
  what the room owes changes.
\<close>

theorem cut_off_turn_is_reopened:
  assumes "begin_turn rid w = Inr (w1, n)" and "world_wf w"
    and "\<And>r. get_room rid w = Some r \<Longrightarrow> seated seats r"
  shows "begin_turn rid w1 = Inr (w1, n) \<and>
    map_option owed (get_room rid w1) = map_option owed (get_room rid w)"
proof -
  from assms(1) obtain rs r r' where
    rs: "read_index_strict w = Inr rs" and r: "find_room rid rs = Some r"
    and r': "begin_turn_of r = (r', n)" and w1: "w1 = w\<lparr>rw_index := Rooms (put_room rid r' rs)\<rparr>"
    by (auto simp: begin_turn_def with_room_Inr)
  have get: "get_room rid w = Some r"
    using rs r by (auto simp: get_room_def read_index_lenient_def read_strict_Inr)
  have ok: "seated seats r" by (rule assms(3) [OF get])
  have id: "rm_id r' = rid" using ids_kept(3) [of r] r' find_room_SomeD [OF r] by simp
  have found: "find_room rid (put_room rid r' rs) = Some r'" by (rule find_put_same [OF r id])
  have again: "begin_turn_of r' = (r', n)" using room_turns.start_again [OF ok] r' by simp
  have put: "put_room rid r' (put_room rid r' rs) = put_room rid r' rs"
    using id by (induction rs) auto
  have "read_index_strict w1 = Inr (put_room rid r' rs)" by (simp add: w1 read_index_strict_def)
  then have "begin_turn rid w1 = Inr (w1, n)"
    using found again by (simp add: begin_turn_def with_room_def put w1)
  moreover have "get_room rid w1 = Some r'"
    by (simp add: w1 get_room_def read_index_lenient_def found)
  moreover have "owed r' = owed r" using room_turns.start_owed [OF ok] r' by simp
  ultimately show ?thesis using get by simp
qed

definition debate_world :: rooms_world where
  "debate_world = empty_world\<lparr>rw_index := Rooms [debate_room\<lparr>speaking := []\<rparr>]\<rparr>"

theorem cut_off_turn_is_reopened_witness:
  "\<exists>w1. begin_turn ''debate'' debate_world = Inr (w1, ''bo'') \<and> begin_turn ''debate'' w1 = Inr (w1, ''bo'')"
proof -
  have begun: "\<exists>w1. begin_turn ''debate'' debate_world = Inr (w1, ''bo'')"
    by (simp add: begin_turn_def with_room_def debate_world_def read_index_strict_def find_room_def
        debate_room_def begin_turn_of_def)
  have wf: "world_wf debate_world"
    using debate_room_wf by (simp add: world_wf_def debate_world_def index_wf_def room_wf_def)
  have seated: "seated {''ada'', ''bo'', ''cy''} r" if "get_room ''debate'' debate_world = Some r" for r
    using that debate_seated
    by (auto simp: get_room_def debate_world_def read_index_lenient_def find_room_def seated_def
        room_wf_def debate_room_def split: if_splits)
  show ?thesis using begun cut_off_turn_is_reopened [OF _ wf seated] by blast
qed

end
