(* ===== verification/RoomArbiter.thy ===== *)
theory RoomArbiter
  imports RoomFacts
begin

text \<open>
  \<^verbatim>\<open>rooms/arbiter.py\<close>, with the mention parser of \<^verbatim>\<open>rooms/turn.py\<close>: who a message queues, what a
  human message resets, and the loop that drains a room's queue one turn at a time. The turn itself
  (\<open>run_member_turn\<close>: a model's) is a parameter, a function from the world to the world it leaves and
  either the reply or the fact that it raised. The loop runs on fuel; \<open>round_ends_within_budget\<close> shows
  that enough fuel exists, so the loop ends.
\<close>

section \<open>Mentions\<close>

definition word_char :: "char \<Rightarrow> bool" where
  "word_char c = (safe_name_char c \<and> c \<noteq> CHR ''-'')"

text \<open>
  \<open>_MENTION_RE.findall\<close>: an \<open>@\<close> that no word character and no other \<open>@\<close> precedes, then the longest
  run of name characters; the scan goes on behind the match. \<open>prev\<close> is the character before.
\<close>

function mentions_from :: "char option \<Rightarrow> string \<Rightarrow> string list" where
  "mentions_from prev [] = []"
| "mentions_from prev (c # cs) =
     (let name = takeWhile safe_name_char cs;
          fresh = (case prev of None \<Rightarrow> True | Some p \<Rightarrow> \<not> word_char p \<and> p \<noteq> CHR ''@'')
      in if c = CHR ''@'' \<and> fresh \<and> name \<noteq> []
         then name # mentions_from (Some (last name)) (drop (length name) cs)
         else mentions_from (Some c) cs)"
  by pat_completeness auto
termination by (relation "measure (length \<circ> snd)") auto

definition mentions_in_order :: "string \<Rightarrow> string list" where
  "mentions_in_order content = push_all (mentions_from None content) []"

section \<open>The queue: decisions over a roster and a text\<close>

text \<open>\<open>{m.name: m for m in members}[n]\<close>: the last member of that name.\<close>

definition roster_get :: "room_member list \<Rightarrow> string \<Rightarrow> room_member option" where
  "roster_get members n = find (\<lambda>m. mem_name m = n) (rev members)"

definition queue_for_human :: "room_member list \<Rightarrow> string \<Rightarrow> string list" where
  "queue_for_human members content =
     push_all (map mem_name (filter (\<lambda>m. listen_policy m = ListenAll) members))
       (push_all (filter (\<lambda>n. n \<in> mem_name ` set members) (mentions_in_order content)) [])"

definition queue_for_member :: "room_member list \<Rightarrow> string \<Rightarrow> string \<Rightarrow> string list" where
  "queue_for_member members speaker content =
     push_all (filter (\<lambda>n. n \<noteq> speaker \<and>
         (case roster_get members n of None \<Rightarrow> False | Some m \<Rightarrow> listen_policy m = ListenMention))
       (mentions_in_order content)) []"

definition resume_queue :: "string list \<Rightarrow> room_member list \<Rightarrow> string \<Rightarrow> string list" where
  "resume_queue carryover members content =
     push_all (queue_for_human members content) (filter (\<lambda>n. n \<in> mem_name ` set members) carryover)"

definition queue_human_turns :: "string \<Rightarrow> string \<Rightarrow> string list room_op" where
  "queue_human_turns rid content w =
     (case require_room rid w of
        Inl e \<Rightarrow> Inl e
      | Inr r \<Rightarrow>
          (case set_pending_queue rid (resume_queue (pending_queue r) (rm_members r) content) w of
             Inl e \<Rightarrow> Inl e
           | Inr (w', r') \<Rightarrow> Inr (w', pending_queue r')))"

section \<open>The two edges of the budget\<close>

text \<open>
  \<open>resolve_attention_items\<close> closes every open row that carries this room's ref; \<open>emit_attention_item\<close>
  raises one unless a row with the room's \<open>dedup_key\<close> is open.
\<close>

definition resolve_attention :: "string \<Rightarrow> rooms_world \<Rightarrow> rooms_world" where
  "resolve_attention rid w = w\<lparr>rw_attention := filter (\<lambda>(k, _). k \<noteq> rid) (rw_attention w)\<rparr>"

definition raise_attention :: "string \<Rightarrow> nat \<Rightarrow> rooms_world \<Rightarrow> rooms_world" where
  "raise_attention rid rounds w =
     (if rid \<in> fst ` set (rw_attention w) then w
      else w\<lparr>rw_attention := rw_attention w @ [(rid, rounds)]\<rparr>)"

definition note_human_message :: "string \<Rightarrow> unit room_op" where
  "note_human_message rid w =
     (case reset_round_budget rid w of
        Inl e \<Rightarrow> Inl e
      | Inr (w', _) \<Rightarrow> Inr (resolve_attention rid w', ()))"

definition pause_for_budget :: "string \<Rightarrow> nat \<Rightarrow> unit room_op" where
  "pause_for_budget rid rounds w =
     (case pause_room rid w of
        Inl e \<Rightarrow> Inl e
      | Inr (w', _) \<Rightarrow> Inr (raise_attention rid rounds w', ()))"

section \<open>The round\<close>

datatype turn_outcome = Reply string | TurnFailed

datatype round_end = RoundArchived | RoundPaused | RoundIdle | RoundBudget | RoundError room_error

type_synonym member_turn = "string \<Rightarrow> string \<Rightarrow> rooms_world \<Rightarrow> rooms_world \<times> turn_outcome"

text \<open>\<open>turn._note\<close>: one line the room writes about a member; a refused write is swallowed.\<close>

definition room_note ::
  "(string \<Rightarrow> string) \<Rightarrow> string \<Rightarrow> string \<Rightarrow> string \<Rightarrow> rooms_world \<Rightarrow> rooms_world" where
  "room_note redact rid about sentence w =
     (case append_message redact rid ''system'' sentence about w of Inl _ \<Rightarrow> w | Inr (w', _) \<Rightarrow> w')"

text \<open>
  One pass of \<open>_drain\<close>'s loop: \<open>Inl\<close> is a return (or the exception \<open>drain_round\<close> logs), \<open>Inr\<close> goes
  round again. \<open>inherited\<close> is the configured budget, \<open>failed_text\<close> the wording of a failed turn.
\<close>

definition drain_step ::
  "member_turn \<Rightarrow> (string \<Rightarrow> string) \<Rightarrow> (string \<Rightarrow> string) \<Rightarrow> nat \<Rightarrow> string \<Rightarrow>
     rooms_world \<times> string list \<Rightarrow>
     (rooms_world \<times> string list \<times> round_end) + (rooms_world \<times> string list)" where
  "drain_step turn redact failed_text inherited rid st =
     (case st of (w, spoke) \<Rightarrow>
      (case require_room rid w of
         Inl e \<Rightarrow> Inl (w, spoke, RoundError e)
       | Inr r \<Rightarrow>
           if rm_archived r then Inl (w, spoke, RoundArchived)
           else if rm_paused r then Inl (w, spoke, RoundPaused)
           else if speaking r = [] \<and> pending_queue r = [] then Inl (w, spoke, RoundIdle)
           else if rounds_used r \<ge> effective_round_budget inherited r then
             (case pause_for_budget rid (rounds_used r) w of
                Inl e \<Rightarrow> Inl (w, spoke, RoundError e)
              | Inr (w', _) \<Rightarrow> Inl (w', spoke, RoundBudget))
           else
             (case begin_turn rid w of
                Inl e \<Rightarrow> Inl (w, spoke, RoundError e)
              | Inr (w1, name) \<Rightarrow>
                  if name = [] then Inl (w1, spoke, RoundIdle)
                  else if member r name = None then
                    (case end_turn rid False [] w1 of
                       Inl e \<Rightarrow> Inl (w1, spoke, RoundError e)
                     | Inr (w2, _) \<Rightarrow> Inr (w2, spoke))
                  else
                    (case turn rid name w1 of
                       (w2, TurnFailed) \<Rightarrow>
                         (case end_turn rid False [] w2 of
                            Inl e \<Rightarrow> Inl (w2, spoke, RoundError e)
                          | Inr (w3, _) \<Rightarrow>
                              (case require_room rid w3 of
                                 Inl e \<Rightarrow> Inl (w3, spoke, RoundError e)
                               | Inr now \<Rightarrow>
                                   if rm_archived now \<or> member now name = None then Inr (w3, spoke)
                                   else Inr (room_note redact rid name (failed_text name) w3, spoke)))
                     | (w2, Reply reply) \<Rightarrow>
                         (case (if reply = [] then Inr []
                                else case require_room rid w2 of
                                       Inl e \<Rightarrow> Inl e
                                     | Inr now \<Rightarrow> Inr (queue_for_member (rm_members now) name reply)) of
                            Inl e \<Rightarrow> Inl (w2, spoke, RoundError e)
                          | Inr summoned \<Rightarrow>
                              (case end_turn rid (reply \<noteq> []) summoned w2 of
                                 Inl e \<Rightarrow> Inl (w2, spoke, RoundError e)
                               | Inr (w3, _) \<Rightarrow>
                                   Inr (w3, if reply \<noteq> [] then spoke @ [name] else spoke)))))))"

fun drain ::
  "member_turn \<Rightarrow> (string \<Rightarrow> string) \<Rightarrow> (string \<Rightarrow> string) \<Rightarrow> nat \<Rightarrow> string \<Rightarrow> nat \<Rightarrow>
     rooms_world \<times> string list \<Rightarrow> (rooms_world \<times> string list \<times> round_end) option" where
  "drain turn redact failed_text inherited rid 0 st = None"
| "drain turn redact failed_text inherited rid (Suc k) st =
     (case drain_step turn redact failed_text inherited rid st of
        Inl stopped \<Rightarrow> Some stopped
      | Inr st' \<Rightarrow> drain turn redact failed_text inherited rid k st')"

text \<open>\<open>drain_round\<close>: a fresh round on the room.\<close>

definition drain_round ::
  "member_turn \<Rightarrow> (string \<Rightarrow> string) \<Rightarrow> (string \<Rightarrow> string) \<Rightarrow> nat \<Rightarrow> string \<Rightarrow> nat \<Rightarrow>
     rooms_world \<Rightarrow> (rooms_world \<times> string list \<times> round_end) option" where
  "drain_round turn redact failed_text inherited rid fuel w =
     drain turn redact failed_text inherited rid fuel (w, [])"

text \<open>
  \<open>api_room_message\<close>'s order of writes for a human message: the line, the refill, the queue. The flag
  is whether a round is to be started.
\<close>

definition post_message :: "(string \<Rightarrow> string) \<Rightarrow> string \<Rightarrow> string \<Rightarrow> bool room_op" where
  "post_message redact rid content w =
     (case append_message redact rid ''user'' content [] w of Inl e \<Rightarrow> Inl e | Inr (w1, _) \<Rightarrow>
     (case note_human_message rid w1 of Inl e \<Rightarrow> Inl e | Inr (w2, _) \<Rightarrow>
     (case queue_human_turns rid content w2 of Inl e \<Rightarrow> Inl e | Inr (w3, _) \<Rightarrow>
     (case require_room rid w3 of Inl e \<Rightarrow> Inl e | Inr r \<Rightarrow> Inr (w3, owed r \<noteq> [])))))"

text \<open>\<open>api_room_continue\<close>: whether an interrupted round is picked up again.\<close>

definition continue_room :: "string \<Rightarrow> rooms_world \<Rightarrow> room_error + bool" where
  "continue_room rid w =
     (case require_room rid w of
        Inl e \<Rightarrow> Inl e
      | Inr r \<Rightarrow> if rm_archived r then Inl room_archived else Inr (\<not> rm_paused r \<and> owed r \<noteq> []))"

section \<open>What the mention parser reads\<close>

lemma mentions_from_name:
  assumes "n \<noteq> []" and "list_all safe_name_char n" and "\<not> safe_name_char d"
    and "case prev of None \<Rightarrow> True | Some p \<Rightarrow> \<not> word_char p \<and> p \<noteq> CHR ''@''"
  shows "mentions_from prev (CHR ''@'' # n @ d # rest) = n # mentions_from (Some (last n)) (d # rest)"
proof -
  have "takeWhile safe_name_char (n @ d # rest) = n"
    using assms(2,3) by (simp add: takeWhile_append list_all_iff)
  then show ?thesis using assms(1,4) by (simp add: Let_def)
qed

lemma mentions_skip: "c \<noteq> CHR ''@'' \<Longrightarrow> mentions_from prev (c # cs) = mentions_from (Some c) cs"
  by (simp add: Let_def)

lemma mentions_none: "CHR ''@'' \<notin> set cs \<Longrightarrow> mentions_from prev cs = []"
  by (induction cs arbitrary: prev) (auto simp: Let_def)

lemma space_not_name: "\<not> safe_name_char CHR '' ''" "\<not> word_char CHR '' ''"
  by code_simp+

lemma mentions_read_back_from:
  assumes "list_all (\<lambda>n. n \<noteq> [] \<and> list_all safe_name_char n) ns"
    and "case prev of None \<Rightarrow> True | Some p \<Rightarrow> \<not> word_char p \<and> p \<noteq> CHR ''@''"
  shows "mentions_from prev (concat (map (\<lambda>n. CHR ''@'' # n @ '' '') ns)) = ns"
  using assms
proof (induction ns arbitrary: prev)
  case (Cons n ns)
  then have n: "n \<noteq> []" "list_all safe_name_char n" by simp_all
  have "mentions_from prev (CHR ''@'' # n @ CHR '' '' # concat (map (\<lambda>n. CHR ''@'' # n @ '' '') ns))
      = n # mentions_from (Some CHR '' '') (concat (map (\<lambda>n. CHR ''@'' # n @ '' '') ns))"
    using mentions_from_name [OF n space_not_name(1) Cons.prems(2)] by (simp add: mentions_skip)
  also have "\<dots> = n # ns" using Cons by (simp add: space_not_name)
  finally show ?case by simp
qed simp

text \<open>
  Mentions round trip: naming members one after the other, each as \<open>@name\<close>, is read back as
  exactly those names in that order, each once, and a text that holds no \<open>@\<close> names nobody.
\<close>

theorem mentions_read_back:
  assumes "list_all (\<lambda>n. n \<noteq> [] \<and> list_all safe_name_char n) ns" and "CHR ''@'' \<notin> set plain"
  shows "mentions_in_order (concat (map (\<lambda>n. CHR ''@'' # n @ '' '') ns)) = push_all ns [] \<and>
    mentions_in_order plain = []"
  using mentions_read_back_from [OF assms(1), of None] mentions_none [OF assms(2), of None]
  by (simp add: mentions_in_order_def)

theorem mentions_read_back_witness:
  "mentions_in_order ''@skeptic @ada-2 @skeptic '' = [''skeptic'', ''ada-2'']"
proof -
  have "list_all (\<lambda>n. n \<noteq> [] \<and> list_all safe_name_char n) [''skeptic'', ''ada-2'', ''skeptic'']"
    by code_simp
  from mentions_read_back [OF this, of "[]"] show ?thesis by (simp add: push_new_def)
qed

section \<open>Who may summon whom\<close>

lemma filter_subseq_push: "distinct xs \<Longrightarrow> push_all (filter P xs) [] = filter P xs"
  by (simp add: push_all_eq_filter)

lemma mentions_distinct: "distinct (mentions_in_order c)"
  by (simp add: mentions_in_order_def)

lemma roster_get_Some: "roster_get ms n = Some m \<Longrightarrow> m \<in> set ms \<and> mem_name m = n"
  by (auto simp: roster_get_def dest!: find_SomeD)

text \<open>
  A member's reply can only summon members it names, in the order it names them, each once: never
  itself, never an \<open>all\<close> or a \<open>silent\<close> member, never anyone off the roster.
\<close>

theorem peers_summon_only_mention_members:
  "distinct (queue_for_member ms sp content) \<and>
   subseq (queue_for_member ms sp content) (mentions_in_order content) \<and>
   set (queue_for_member ms sp content)
     \<subseteq> {n. n \<noteq> sp \<and> (\<exists>m \<in> set ms. mem_name m = n \<and> listen_policy m = ListenMention)}"
proof -
  have eq: "queue_for_member ms sp content = filter (\<lambda>n. n \<noteq> sp \<and>
       (case roster_get ms n of None \<Rightarrow> False | Some m \<Rightarrow> listen_policy m = ListenMention))
     (mentions_in_order content)"
    unfolding queue_for_member_def by (rule filter_subseq_push [OF mentions_distinct])
  have sub: "n \<noteq> sp \<and> (\<exists>m \<in> set ms. mem_name m = n \<and> listen_policy m = ListenMention)"
    if "n \<in> set (queue_for_member ms sp content)" for n
    using that unfolding eq by (fastforce split: option.splits dest: roster_get_Some)
  show ?thesis
    using sub by (simp add: eq mentions_distinct subset_iff)
qed

section \<open>The records behind a pass of the loop\<close>

lemma require_room_Inr:
  "require_room rid w = Inr r \<longleftrightarrow> (\<exists>rs. read_index_strict w = Inr rs \<and> find_room rid rs = Some r)"
  by (auto simp: require_room_def split: sum.splits option.splits)

lemma require_get: "require_room rid w = Inr r \<Longrightarrow> get_room rid w = Some r \<and> rm_id r = rid"
  by (auto simp: require_room_Inr get_room_def read_index_lenient_def read_strict_Inr dest: find_room_SomeD)

lemma require_index: "rw_index w' = rw_index w \<Longrightarrow> require_room rid w' = require_room rid w"
  by (simp add: require_room_def read_index_strict_def)

text \<open>A change of one record that keeps its id succeeds on a room that is there, and is read back.\<close>

lemma with_room_on:
  assumes "require_room rid w = Inr r" and "f r = Inr (r', x)" and "rm_id r' = rm_id r"
  shows "\<exists>w'. with_room rid f w = Inr (w', x) \<and> require_room rid w' = Inr r' \<and>
    rw_attention w' = rw_attention w \<and> rw_log w' = rw_log w \<and>
    (\<forall>rid'. rid' \<noteq> rid \<longrightarrow> get_room rid' w' = get_room rid' w)"
proof -
  from assms(1) obtain rs where rs: "read_index_strict w = Inr rs" "find_room rid rs = Some r"
    by (auto simp: require_room_Inr)
  have id: "rm_id r' = rid" using assms(3) find_room_SomeD [OF rs(2)] by simp
  let ?w = "w\<lparr>rw_index := Rooms (put_room rid r' rs)\<rparr>"
  have "require_room rid ?w = Inr r'"
    by (simp add: require_room_def read_index_strict_def find_put_same [OF rs(2) id])
  moreover have "get_room rid' ?w = get_room rid' w" if "rid' \<noteq> rid" for rid'
    using rs(1) find_put_other [OF that id]
    by (auto simp: get_room_def read_index_lenient_def read_strict_Inr find_room_def)
  ultimately show ?thesis using assms(2) rs by (auto simp: with_room_def)
qed

lemma begin_turn_on:
  assumes "require_room rid w = Inr r"
  obtains w' where "begin_turn rid w = Inr (w', snd (begin_turn_of r))"
    "require_room rid w' = Inr (fst (begin_turn_of r))" "rw_attention w' = rw_attention w"
  using with_room_on [OF assms, of "\<lambda>r. Inr (begin_turn_of r)" "fst (begin_turn_of r)" "snd (begin_turn_of r)"]
  by (auto simp: begin_turn_def ids_kept)

lemma end_turn_on:
  assumes "require_room rid w = Inr r"
  obtains w' where "end_turn rid b names w = Inr (w', end_turn_of b names r)"
    "require_room rid w' = Inr (end_turn_of b names r)" "rw_attention w' = rw_attention w"
  using with_room_on [OF assms, of "\<lambda>r. let r' = end_turn_of b names r in Inr (r', r')"
      "end_turn_of b names r" "end_turn_of b names r"]
  by (auto simp: end_turn_def ids_kept Let_def)

lemma pause_room_on:
  assumes "require_room rid w = Inr r"
  obtains w' where "pause_room rid w = Inr (w', pause_room_of r)"
    "require_room rid w' = Inr (pause_room_of r)" "rw_attention w' = rw_attention w"
  using with_room_on [OF assms, of "\<lambda>r. let r' = pause_room_of r in Inr (r', r')"
      "pause_room_of r" "pause_room_of r"]
  by (auto simp: pause_room_def ids_kept Let_def)

lemma room_note_index [simp]: "rw_index (room_note redact rid about sentence w) = rw_index w"
  by (auto simp: room_note_def split: sum.splits dest: append_keeps_index)

section \<open>The round ends\<close>

text \<open>
  A turn whose only write is to the transcript: the roster, the flags and the budget are the human's,
  and this is the round with no human in it.
\<close>

definition quiet_turn :: "member_turn \<Rightarrow> bool" where
  "quiet_turn turn \<longleftrightarrow> (\<forall>rid n w. rw_index (fst (turn rid n w)) = rw_index w)"

definition turns_waiting :: "room \<Rightarrow> nat" where
  "turns_waiting r = length (pending_queue r) + (if speaking r = [] then 0 else 1)"

definition budget_left :: "nat \<Rightarrow> room \<Rightarrow> nat" where
  "budget_left inherited r = effective_round_budget inherited r - rounds_used r"

lemma silent_turn_shrinks:
  assumes "snd (begin_turn_of r) \<noteq> []"
  shows "turns_waiting (end_turn_of b [] (fst (begin_turn_of r))) < turns_waiting r"
proof (cases "speaking r = []")
  case False
  then show ?thesis
    using length_filter_le [of "\<lambda>n. n \<noteq> speaking r" "pending_queue r"]
    by (simp add: turns_waiting_def begin_turn_of_def end_turn_of_def less_Suc_eq_le)
next
  case True
  then show ?thesis
    using assms by (auto simp: turns_waiting_def begin_turn_of_def end_turn_of_def split: list.splits)
qed

lemma turn_keeps_budget:
  "rounds_used (fst (begin_turn_of r)) = rounds_used r"
  "round_budget (fst (begin_turn_of r)) = round_budget r"
  "rounds_used (end_turn_of b names r) = (if b then Suc (rounds_used r) else rounds_used r)"
  "round_budget (end_turn_of b names r) = round_budget r"
  by (simp_all add: begin_turn_of_def end_turn_of_def split: list.splits)

lemma same_effective: "round_budget r' = round_budget r \<Longrightarrow> effective_round_budget i r' = effective_round_budget i r"
  by (simp add: effective_round_budget_def)

text \<open>
  One pass that goes on: either a turn that said nothing, and fewer turns wait, or one that spoke, and
  less of the budget is left.
\<close>

definition pass_progress :: "nat \<Rightarrow> room \<Rightarrow> room \<Rightarrow> string list \<Rightarrow> string list \<Rightarrow> bool" where
  "pass_progress inherited r r' spoke spoke' \<longleftrightarrow>
     rounds_used r < effective_round_budget inherited r \<and> round_budget r' = round_budget r \<and>
     ((spoke' = spoke \<and> rounds_used r' = rounds_used r \<and> turns_waiting r' < turns_waiting r) \<or>
      (length spoke' = Suc (length spoke) \<and> rounds_used r' = Suc (rounds_used r)))"

lemma drain_step_progress:
  assumes quiet: "quiet_turn turn" and room: "require_room rid w = Inr r"
    and step: "drain_step turn redact failed inherited rid (w, spoke) = Inr (w', spoke')"
  shows "\<exists>r'. require_room rid w' = Inr r' \<and> pass_progress inherited r r' spoke spoke'"
proof -
  let ?r1 = "fst (begin_turn_of r)" and ?n = "snd (begin_turn_of r)"
  obtain w1 where w1: "begin_turn rid w = Inr (w1, ?n)" "require_room rid w1 = Inr ?r1"
    by (rule begin_turn_on [OF room])
  from step room w1(1) have gate: "rounds_used r < effective_round_budget inherited r" "?n \<noteq> []"
    by (auto simp: drain_step_def split: if_splits sum.splits)
  have silent: "pass_progress inherited r (end_turn_of False [] ?r1) spoke spoke"
    using gate silent_turn_shrinks [OF gate(2), of False]
    by (simp add: pass_progress_def turn_keeps_budget)
  obtain w2 out where turn: "turn rid ?n w1 = (w2, out)" by (cases "turn rid ?n w1")
  have "rw_index w2 = rw_index w1" using quiet turn unfolding quiet_turn_def by (metis fst_conv)
  then have w2: "require_room rid w2 = Inr ?r1" using require_index w1(2) by metis
  note unfolded = step [unfolded drain_step_def] room w1(1) gate turn
  show ?thesis
  proof (cases "member r ?n = None")
    case True
    obtain w3 where w3: "end_turn rid False [] w1 = Inr (w3, end_turn_of False [] ?r1)"
      "require_room rid w3 = Inr (end_turn_of False [] ?r1)" by (rule end_turn_on [OF w1(2)])
    with True unfolded have "w' = w3" "spoke' = spoke" by (auto split: if_splits sum.splits)
    with w3 silent show ?thesis by blast
  next
    case on: False
    show ?thesis
    proof (cases out)
      case TurnFailed
      obtain w3 where w3: "end_turn rid False [] w2 = Inr (w3, end_turn_of False [] ?r1)"
        "require_room rid w3 = Inr (end_turn_of False [] ?r1)" by (rule end_turn_on [OF w2])
      with on TurnFailed unfolded have "rw_index w' = rw_index w3" "spoke' = spoke"
        by (auto split: if_splits sum.splits)
      with w3 silent require_index show ?thesis by metis
    next
      case (Reply reply)
      define names where "names = (if reply = [] then [] else queue_for_member (rm_members ?r1) ?n reply)"
      obtain w3 where w3: "end_turn rid (reply \<noteq> []) names w2 = Inr (w3, end_turn_of (reply \<noteq> []) names ?r1)"
        "require_room rid w3 = Inr (end_turn_of (reply \<noteq> []) names ?r1)" by (rule end_turn_on [OF w2])
      with on Reply unfolded w2 have
        "w' = w3" "spoke' = (if reply \<noteq> [] then spoke @ [?n] else spoke)"
        by (auto simp: names_def split: if_splits sum.splits)
      moreover have "pass_progress inherited r (end_turn_of (reply \<noteq> []) names ?r1) spoke
          (if reply \<noteq> [] then spoke @ [?n] else spoke)"
        using silent gate by (cases "reply = []") (simp_all add: names_def pass_progress_def turn_keeps_budget)
      ultimately show ?thesis using w3(2) by blast
    qed
  qed
qed

lemma drain_step_stop:
  "case drain_step turn redact failed inherited rid (w, spoke) of
     Inl (_, spoke', _) \<Rightarrow> spoke' = spoke | Inr _ \<Rightarrow> True"
  unfolding drain_step_def prod.case
  by (simp split: sum.split prod.split turn_outcome.split)

lemma drain_ends:
  assumes quiet: "quiet_turn turn" and room: "require_room rid w = Inr r"
  shows "\<exists>k w' spoke' e. drain turn redact failed inherited rid k (w, spoke) = Some (w', spoke', e) \<and>
    length spoke' \<le> length spoke + budget_left inherited r"
  using room
proof (induction "(budget_left inherited r, turns_waiting r)" arbitrary: w r spoke rule: less_induct)
  case less
  show ?case
  proof (cases "drain_step turn redact failed inherited rid (w, spoke)")
    case (Inl stopped)
    obtain w' spoke' e where parts: "stopped = (w', spoke', e)" by (cases stopped)
    have "spoke' = spoke"
      using parts drain_step_stop [of spoke turn redact failed inherited rid w] Inl by simp
    moreover have "drain turn redact failed inherited rid (Suc 0) (w, spoke) = Some (w', spoke', e)"
      using Inl parts by simp
    moreover have "length spoke' \<le> length spoke + budget_left inherited r" using \<open>spoke' = spoke\<close> by simp
    ultimately show ?thesis by blast
  next
    case (Inr st')
    obtain w1 spoke1 where st': "st' = (w1, spoke1)" by (cases st')
    obtain r1 where r1: "require_room rid w1 = Inr r1" "pass_progress inherited r r1 spoke spoke1"
      using drain_step_progress [OF quiet less.prems] Inr st' by blast
    have eff: "effective_round_budget inherited r1 = effective_round_budget inherited r"
      using r1(2) by (intro same_effective) (simp add: pass_progress_def)
    have smaller: "(budget_left inherited r1, turns_waiting r1) < (budget_left inherited r, turns_waiting r)"
      and bound: "length spoke1 + budget_left inherited r1 \<le> length spoke + budget_left inherited r"
      using r1(2) eff by (auto simp: pass_progress_def budget_left_def)
    from less.hyps [OF smaller r1(1), of spoke1] obtain k w' spoke' e where
      k: "drain turn redact failed inherited rid k (w1, spoke1) = Some (w', spoke', e)"
      and len: "length spoke' \<le> length spoke1 + budget_left inherited r1" by blast
    have "drain turn redact failed inherited rid (Suc k) (w, spoke) = Some (w', spoke', e)"
      using Inr st' k by simp
    moreover have "length spoke' \<le> length spoke + budget_left inherited r" using len bound by linarith
    ultimately show ?thesis by blast
  qed
qed

text \<open>
  C22. A round always ends, and within the budget: however the members answer and whomever they summon,
  the loop returns after finitely many passes, and no more members speak in it than the budget had
  exchanges left. (The room must exist; the turns write nothing but the transcript.)
\<close>

theorem round_ends_within_budget:
  assumes "quiet_turn turn" and "require_room rid w = Inr r"
  shows "\<exists>fuel w' spoke e. drain_round turn redact failed inherited rid fuel w = Some (w', spoke, e) \<and>
    length spoke \<le> effective_round_budget inherited r - rounds_used r"
  using drain_ends [OF assms, of redact failed inherited "[]"]
  by (simp add: drain_round_def budget_left_def)

definition echo_turn :: member_turn where
  "echo_turn rid n w = (w, Reply ''@ada @bo @cy '')"

definition argue_world :: rooms_world where
  "argue_world = empty_world\<lparr>rw_index := Rooms [debate_room\<lparr>rm_members := map (\<lambda>m. m\<lparr>listen_policy := ListenMention\<rparr>)
     (rm_members debate_room)\<rparr>]\<rparr>"

lemma argue_room: "\<exists>r. require_room ''debate'' argue_world = Inr r \<and> effective_round_budget 3 r = 6 \<and> rounds_used r = 1"
  by (simp add: require_room_def read_index_strict_def argue_world_def find_room_def debate_room_def
      effective_round_budget_def)

theorem round_ends_within_budget_witness:
  "\<exists>fuel w' spoke e. drain_round echo_turn id id 3 ''debate'' fuel argue_world = Some (w', spoke, e) \<and>
    length spoke \<le> 5"
proof -
  obtain r where r: "require_room ''debate'' argue_world = Inr r"
    "effective_round_budget 3 r = 6" "rounds_used r = 1" using argue_room by blast
  have "quiet_turn echo_turn" by (simp add: quiet_turn_def echo_turn_def)
  from round_ends_within_budget [OF this r(1), of id id 3] show ?thesis by (simp add: r(2,3))
qed

text \<open>
  Nobody speaks without the room's leave: while the room is archived or paused, owes nothing, has
  spent its budget, or the next in line has left it, the pass is the same whatever the model would
  have answered, so no turn was asked for.
\<close>

theorem no_turn_behind_a_closed_gate:
  assumes "require_room rid w = Inr r"
    and "rm_archived r \<or> rm_paused r \<or> owed r = [] \<or> rounds_used r \<ge> effective_round_budget inherited r
      \<or> \<not> on_roster r (snd (begin_turn_of r))"
  shows "drain_step turn redact failed inherited rid (w, spoke)
    = drain_step turn' redact failed inherited rid (w, spoke)"
proof -
  obtain w1 where w1: "begin_turn rid w = Inr (w1, snd (begin_turn_of r))"
    by (rule begin_turn_on [OF assms(1)])
  have "\<not> on_roster r (snd (begin_turn_of r)) \<or> snd (begin_turn_of r) = []" if "owed r = []"
  proof (rule ccontr)
    assume "\<not> ?thesis"
    then have on: "on_roster r (snd (begin_turn_of r))" and ne: "snd (begin_turn_of r) \<noteq> []" by auto
    have "snd (begin_turn_of r) \<in> set ((if speaking r = [] then [] else [speaking r]) @ pending_queue r)"
      using ne by (auto simp: begin_turn_of_def split: list.splits if_splits)
    then have "snd (begin_turn_of r) \<in> set (owed r)" using on by (simp add: owed_def)
    then show False using that by simp
  qed
  then show ?thesis
    using assms w1 by (auto simp: drain_step_def split: sum.splits)
qed

theorem no_turn_behind_a_closed_gate_witness:
  "drain_step echo_turn id id 1 ''debate'' (argue_world\<lparr>rw_index := Rooms [debate_room\<lparr>rm_paused := True\<rparr>]\<rparr>, [])
     = drain_step (\<lambda>_ _ w. (w, TurnFailed)) id id 1 ''debate''
         (argue_world\<lparr>rw_index := Rooms [debate_room\<lparr>rm_paused := True\<rparr>]\<rparr>, [])"
proof (rule no_turn_behind_a_closed_gate)
  show "require_room ''debate'' (argue_world\<lparr>rw_index := Rooms [debate_room\<lparr>rm_paused := True\<rparr>]\<rparr>)
      = Inr (debate_room\<lparr>rm_paused := True\<rparr>)"
    by (simp add: require_room_def read_index_strict_def find_room_def debate_room_def)
qed simp

section \<open>The pause, and what lifts it\<close>

text \<open>
  A budget pause suspends the round and cancels nothing: the pass that finds the budget spent marks
  the room paused and changes nothing else of its record, so everyone owed a turn still is; exactly
  one attention row stands for the room afterwards, however often it pauses; and the next pass stops
  at the pause.
\<close>

theorem budget_pause_keeps_the_queue:
  assumes room: "require_room rid w = Inr r" and live: "\<not> rm_archived r" "\<not> rm_paused r"
    and owes: "speaking r \<noteq> [] \<or> pending_queue r \<noteq> []"
    and spent: "rounds_used r \<ge> effective_round_budget inherited r"
    and rows: "length (filter (\<lambda>p. fst p = rid) (rw_attention w)) \<le> 1"
  shows "\<exists>w'. drain_step turn redact failed inherited rid (w, spoke) = Inl (w', spoke, RoundBudget) \<and>
    require_room rid w' = Inr (r\<lparr>rm_paused := True\<rparr>) \<and>
    length (filter (\<lambda>p. fst p = rid) (rw_attention w')) = 1 \<and>
    drain_step turn redact failed inherited rid (w', spoke) = Inl (w', spoke, RoundPaused)"
proof -
  obtain w1 where w1: "pause_room rid w = Inr (w1, pause_room_of r)"
    "require_room rid w1 = Inr (pause_room_of r)" "rw_attention w1 = rw_attention w"
    by (rule pause_room_on [OF room])
  let ?w = "raise_attention rid (rounds_used r) w1"
  have "drain_step turn redact failed inherited rid (w, spoke) = Inl (?w, spoke, RoundBudget)"
    using room live owes spent w1(1) by (auto simp: drain_step_def pause_for_budget_def)
  moreover have paused: "require_room rid ?w = Inr (r\<lparr>rm_paused := True\<rparr>)"
    using w1(2) require_index [of ?w w1 rid] by (simp add: raise_attention_def pause_room_of_def)
  moreover have "length (filter (\<lambda>p. fst p = rid) (rw_attention ?w)) = 1"
  proof (cases "rid \<in> fst ` set (rw_attention w)")
    case True
    then have "filter (\<lambda>p. fst p = rid) (rw_attention w) \<noteq> []" by (auto simp: filter_empty_conv)
    then have "length (filter (\<lambda>p. fst p = rid) (rw_attention w)) = 1"
      using rows by (cases "filter (\<lambda>p. fst p = rid) (rw_attention w)") auto
    then show ?thesis using True w1(3) by (simp add: raise_attention_def)
  next
    case False
    then have "filter (\<lambda>p. fst p = rid) (rw_attention w) = []" by (auto simp: filter_empty_conv)
    then show ?thesis using False w1(3) by (simp add: raise_attention_def)
  qed
  moreover have "drain_step turn redact failed inherited rid (?w, spoke) = Inl (?w, spoke, RoundPaused)"
    using paused live by (simp add: drain_step_def)
  ultimately show ?thesis by blast
qed

definition spent_world :: rooms_world where
  "spent_world = empty_world\<lparr>rw_index := Rooms [debate_room\<lparr>rounds_used := 6\<rparr>]\<rparr>"

theorem budget_pause_keeps_the_queue_witness:
  "\<exists>w'. drain_step echo_turn id id 3 ''debate'' (spent_world, []) = Inl (w', [], RoundBudget)"
proof -
  have room: "require_room ''debate'' spent_world = Inr (debate_room\<lparr>rounds_used := 6\<rparr>)"
    by (simp add: spent_world_def require_room_def read_index_strict_def find_room_def debate_room_def)
  have "\<exists>w'. drain_step echo_turn id id 3 ''debate'' (spent_world, []) = Inl (w', [], RoundBudget) \<and>
    require_room ''debate'' w' = Inr (debate_room\<lparr>rounds_used := 6, rm_paused := True\<rparr>) \<and>
    length (filter (\<lambda>p. fst p = ''debate'') (rw_attention w')) = 1 \<and>
    drain_step echo_turn id id 3 ''debate'' (w', []) = Inl (w', [], RoundPaused)"
    using budget_pause_keeps_the_queue [OF room, of 3 echo_turn id id "[]"]
    by (simp add: debate_room_def effective_round_budget_def spent_world_def empty_world_def)
  then show ?thesis by blast
qed

lemma reset_on:
  assumes "require_room rid w = Inr r"
  obtains w' where "reset_round_budget rid w = Inr (w', reset_round_budget_of r)"
    "require_room rid w' = Inr (reset_round_budget_of r)" "rw_attention w' = rw_attention w"
    "rw_log w' = rw_log w"
  using with_room_on [OF assms, of "\<lambda>r. let r' = reset_round_budget_of r in Inr (r', r')"
      "reset_round_budget_of r" "reset_round_budget_of r"]
  by (auto simp: reset_round_budget_def ids_kept Let_def)

lemma set_queue_on:
  assumes "require_room rid w = Inr r"
  obtains w' where "set_pending_queue rid q w = Inr (w', set_pending_queue_of q r)"
    "require_room rid w' = Inr (set_pending_queue_of q r)" "rw_attention w' = rw_attention w"
    "rw_log w' = rw_log w"
  using with_room_on [OF assms, of "\<lambda>r. let r' = set_pending_queue_of q r in Inr (r', r')"
      "set_pending_queue_of q r" "set_pending_queue_of q r"]
  by (auto simp: set_pending_queue_def ids_kept Let_def)

lemma resume_queue_set:
  "set (resume_queue carry ms content) =
     {n \<in> mem_name ` set ms. n \<in> set carry \<or> n \<in> set (mentions_in_order content)
        \<or> (\<exists>m \<in> set ms. mem_name m = n \<and> listen_policy m = ListenAll)}"
proof -
  have all: "set (map mem_name (filter (\<lambda>m. listen_policy m = ListenAll) ms))
      = {n. \<exists>m \<in> set ms. mem_name m = n \<and> listen_policy m = ListenAll}" by auto
  show ?thesis
    unfolding resume_queue_def queue_for_human_def push_all_set all set_filter list.set(1) image_iff by blast
qed

text \<open>
  A human message always lifts the room: once it is accepted the budget is full, the pause and its
  attention row are gone, and the queue is first everyone who was already waiting and still has a
  seat, in the order they waited, then exactly the members the message names and the ones who listen
  to all; the open turn stays open and the message is on the transcript, redacted. A room that was
  archived accepts none.
\<close>

theorem human_message_lifts_the_room:
  assumes room: "require_room rid w = Inr r" and wf: "room_wf r" and live: "\<not> rm_archived r"
  shows "\<exists>w' go r'. post_message redact rid content w = Inr (w', go) \<and> require_room rid w' = Inr r' \<and>
    rounds_used r' = 0 \<and> \<not> rm_paused r' \<and> rid \<notin> fst ` set (rw_attention w') \<and>
    prefix (filter (on_roster r) (pending_queue r)) (pending_queue r') \<and> distinct (pending_queue r') \<and>
    set (pending_queue r') = {n. on_roster r n \<and> (n \<in> set (pending_queue r)
       \<or> n \<in> set (mentions_in_order content)
       \<or> (\<exists>m \<in> set (rm_members r). mem_name m = n \<and> listen_policy m = ListenAll))} \<and>
    speaking r' = speaking r \<and> go = (owed r' \<noteq> []) \<and>
    rw_log w' rid = rw_log w rid @ [\<lparr>msg_role = ''user'', msg_content = redact content, msg_speaker = []\<rparr>]"
proof -
  let ?msg = "\<lparr>msg_role = ''user'', msg_content = redact content, msg_speaker = []\<rparr>"
  define w0 where "w0 = w\<lparr>rw_log := (rw_log w)(rid := rw_log w rid @ [?msg])\<rparr>"
  have w0: "append_message redact rid ''user'' content [] w = Inr (w0, ())"
    using room live by (simp add: append_message_def w0_def)
  have room0: "require_room rid w0 = Inr r" using room require_index [of w0 w] by (simp add: w0_def)
  obtain w1 where w1: "reset_round_budget rid w0 = Inr (w1, reset_round_budget_of r)"
    "require_room rid w1 = Inr (reset_round_budget_of r)" "rw_log w1 = rw_log w0" by (rule reset_on [OF room0])
  let ?w2 = "resolve_attention rid w1" and ?r1 = "reset_round_budget_of r"
  have room2: "require_room rid ?w2 = Inr ?r1"
    using w1(2) require_index [of ?w2 w1] by (simp add: resolve_attention_def)
  define q where "q = resume_queue (pending_queue r) (rm_members r) content"
  obtain w3 where w3: "set_pending_queue rid q ?w2 = Inr (w3, set_pending_queue_of q ?r1)"
    "require_room rid w3 = Inr (set_pending_queue_of q ?r1)" "rw_attention w3 = rw_attention ?w2"
    "rw_log w3 = rw_log ?w2" by (rule set_queue_on [OF room2])
  let ?r' = "set_pending_queue_of q ?r1"
  have q_set: "set q = {n. on_roster r n \<and> (n \<in> set (pending_queue r) \<or> n \<in> set (mentions_in_order content)
       \<or> (\<exists>m \<in> set (rm_members r). mem_name m = n \<and> listen_policy m = ListenAll))}"
    by (auto simp: q_def resume_queue_set on_roster_def)
  have q_distinct: "distinct q" using wf by (simp add: q_def resume_queue_def room_wf_def)
  have "[] \<notin> set q" using q_set wf by (auto simp: on_roster_def room_wf_def)
  then have pending: "pending_queue ?r' = q"
    using q_distinct by (auto simp: set_pending_queue_of_def push_all_eq_filter filter_id_conv)
  have carried: "prefix (filter (on_roster r) (pending_queue r)) q"
    using push_all_prefix [of "filter (on_roster r) (pending_queue r)"]
    by (simp add: q_def resume_queue_def on_roster_def [abs_def])
  have posted: "post_message redact rid content w = Inr (w3, owed ?r' \<noteq> [])"
    using w0 w1(1) room2 w3(1,2)
    by (simp add: post_message_def note_human_message_def queue_human_turns_def q_def
        reset_round_budget_of_def)
  have fields: "rounds_used ?r' = 0" "\<not> rm_paused ?r'" "speaking ?r' = speaking r"
    by (simp_all add: set_pending_queue_of_def reset_round_budget_of_def)
  have closed: "rid \<notin> fst ` set (rw_attention w3)" by (auto simp: w3(3) resolve_attention_def)
  have log: "rw_log w3 rid = rw_log w rid @ [?msg]"
    by (simp add: w3(4) resolve_attention_def w1(3) w0_def)
  show ?thesis
    by (intro exI [of _ w3] exI [of _ "owed ?r' \<noteq> []"] exI [of _ ?r'] conjI posted w3(2) fields closed log)
      (simp_all only: pending q_set [symmetric] carried q_distinct)
qed

theorem human_message_lifts_the_room_witness:
  "\<exists>w' go r'. post_message id ''debate'' ''@cy go'' spent_world = Inr (w', go) \<and>
     require_room ''debate'' w' = Inr r' \<and> rounds_used r' = 0"
proof -
  have room: "require_room ''debate'' spent_world = Inr (debate_room\<lparr>rounds_used := 6\<rparr>)"
    by (simp add: spent_world_def require_room_def read_index_strict_def find_room_def debate_room_def)
  have wf: "room_wf (debate_room\<lparr>rounds_used := 6\<rparr>)"
    using debate_room_wf by (simp add: index_wf_def room_wf_def)
  have "\<not> rm_archived (debate_room\<lparr>rounds_used := 6\<rparr>)" by (simp add: debate_room_def)
  from human_message_lifts_the_room [OF room wf this, of id "''@cy go''"] show ?thesis by blast
qed

end
