(* ===== verification/WfModels.thy ===== *)
theory WfModels
  imports Prelude
begin

text \<open>
  \<^verbatim>\<open>workflows/models.py\<close>: the node tree of a workflow spec and its JSON form, the paths the engine
  keys node instances by, the states an instance and a run go through, failures, and the caps of a
  run. A path is a string exactly as the code renders it.
\<close>

section \<open>Node kinds\<close>

datatype node_kind =
    SEQUENCE | PARALLEL | FOREACH | LOOP | STAGE | INFER | BRANCH | TRANSFORM | ACTION
  | VISUALIZE | WAIT | GATE | SUBWORKFLOW

fun kind_value :: "node_kind \<Rightarrow> string" where
  "kind_value SEQUENCE = ''sequence''"
| "kind_value PARALLEL = ''parallel''"
| "kind_value FOREACH = ''foreach''"
| "kind_value LOOP = ''loop''"
| "kind_value STAGE = ''stage''"
| "kind_value INFER = ''infer''"
| "kind_value BRANCH = ''branch''"
| "kind_value TRANSFORM = ''transform''"
| "kind_value ACTION = ''action''"
| "kind_value VISUALIZE = ''visualize''"
| "kind_value WAIT = ''wait''"
| "kind_value GATE = ''gate''"
| "kind_value SUBWORKFLOW = ''subworkflow''"

definition all_kinds :: "node_kind list" where
  "all_kinds = [SEQUENCE, PARALLEL, FOREACH, LOOP, STAGE, INFER, BRANCH, TRANSFORM, ACTION,
     VISUALIZE, WAIT, GATE, SUBWORKFLOW]"

text \<open>\<open>NodeKind(raw)\<close>.\<close>

definition kind_of :: "string \<Rightarrow> node_kind option" where
  "kind_of s = find (\<lambda>k. kind_value k = s) all_kinds"

definition CONTAINER_KINDS :: "node_kind list" where
  "CONTAINER_KINDS = [SEQUENCE, PARALLEL, FOREACH, LOOP, BRANCH]"

definition NO_OUTPUT_KINDS :: "node_kind list" where
  "NO_OUTPUT_KINDS = [SEQUENCE, PARALLEL]"

definition LLM_KINDS :: "node_kind list" where
  "LLM_KINDS = [STAGE, INFER]"

datatype lane = LANE_LLM | LANE_IO | LANE_COMPUTE

definition lane_for :: "node_kind \<Rightarrow> lane" where
  "lane_for k = (if k \<in> set LLM_KINDS \<or> k = VISUALIZE then LANE_LLM
     else if k \<in> {ACTION, SUBWORKFLOW} then LANE_IO else LANE_COMPUTE)"

datatype join_mode = JoinAll | JoinAny | JoinQuorum

fun join_of :: "string \<Rightarrow> join_mode option" where
  "join_of s = (if s = ''all'' then Some JoinAll else if s = ''any'' then Some JoinAny
     else if s = ''quorum'' then Some JoinQuorum else None)"

datatype loop_mode = Counted | Until | UntilDry | UntilCancelled

fun loop_mode_of :: "string \<Rightarrow> loop_mode option" where
  "loop_mode_of s = (if s = ''counted'' then Some Counted else if s = ''until'' then Some Until
     else if s = ''until_dry'' then Some UntilDry
     else if s = ''until_cancelled'' then Some UntilCancelled else None)"

datatype item_policy = HaltItems | SkipItems | CollectItems

fun item_policy_of :: "string \<Rightarrow> item_policy option" where
  "item_policy_of s = (if s = ''halt'' then Some HaltItems else if s = ''skip'' then Some SkipItems
     else if s = ''collect'' then Some CollectItems else None)"

datatype on_error = NullContinue | FailRun

fun on_error_of :: "string \<Rightarrow> on_error option" where
  "on_error_of s = (if s = ''null_continue'' then Some NullContinue
     else if s = ''fail_run'' then Some FailRun else None)"

section \<open>Nodes\<close>

datatype node = Node (nd_kind: node_kind) (nd_id: string) (nd_label: string)
  (nd_children: "node list") (nd_body: "node option") (nd_cases: "(string \<times> node) list")
  (nd_default: "node option") (nd_config: config) (nd_needs: "string list") (nd_extra: config)

definition node_lane :: "node \<Rightarrow> lane" where
  "node_lane n = lane_for (nd_kind n)"

definition is_container :: "node \<Rightarrow> bool" where
  "is_container n = (nd_kind n \<in> set CONTAINER_KINDS)"

fun opt_list :: "'a option \<Rightarrow> 'a list" where
  "opt_list None = []"
| "opt_list (Some x) = [x]"

definition child_nodes :: "node \<Rightarrow> node list" where
  "child_nodes n = nd_children n @ opt_list (nd_body n) @ map snd (nd_cases n) @ opt_list (nd_default n)"

subsection \<open>The JSON form\<close>

definition KNOWN_KEYS :: "string list" where
  "KNOWN_KEYS = [''kind'', ''id'', ''label'', ''children'', ''body'', ''cases'', ''default'', ''config'',
     ''needs'']"

fun node_to_dict :: "node \<Rightarrow> json" where
  "node_to_dict (Node kind nid label children body cases dflt cfg needs extra) = JObj (dict_update
     ([(''kind'', JStr (kind_value kind))]
      @ (if nid = [] then [] else [(''id'', JStr nid)])
      @ (if label = [] then [] else [(''label'', JStr label)])
      @ (if children = [] then [] else [(''children'', JList (map node_to_dict children))])
      @ (case body of None \<Rightarrow> [] | Some b \<Rightarrow> [(''body'', node_to_dict b)])
      @ (if cases = [] then [] else [(''cases'', JObj (map (\<lambda>(k, c). (k, node_to_dict c)) cases))])
      @ (case dflt of None \<Rightarrow> [] | Some b \<Rightarrow> [(''default'', node_to_dict b)])
      @ (if cfg = [] then [] else [(''config'', JObj cfg)])
      @ (if needs = [] then [] else [(''needs'', JList (map JStr needs))]))
     extra)"

text \<open>
  \<open>dict(v or {})\<close> of a value that is no dict: a list of two-element lists would do, which no writer of a
  spec produces; here it is refused with what \<open>dict()\<close> raises on a list of anything else.
\<close>

fun as_dict :: "json \<Rightarrow> decode_error + config" where
  "as_dict (JObj d) = Inr d"
| "as_dict v = (if \<not> truthy v then Inr [] else case v of JList _ \<Rightarrow> Inl ValueError | JStr _ \<Rightarrow> Inl ValueError
     | _ \<Rightarrow> Inl TypeError)"

text \<open>
  \<open>Node.from_dict\<close>, on fuel (the depth of the tree: \<open>node_round_trip\<close> shows \<open>Suc (size j)\<close> is enough for
  what \<open>to_dict\<close> wrote). Out of fuel is \<open>None\<close>.
\<close>

fun or_str :: "(json \<Rightarrow> string) \<Rightarrow> json \<Rightarrow> string" where
  "or_str py_str v = (if truthy v then text_of py_str v else [])"

fun bind_result :: "('e + 'a) option \<Rightarrow> ('a \<Rightarrow> ('e + 'b) option) \<Rightarrow> ('e + 'b) option" where
  "bind_result None f = None"
| "bind_result (Some (Inl e)) f = Some (Inl e)"
| "bind_result (Some (Inr x)) f = f x"

fun map_opt_result :: "('a \<Rightarrow> ('e + 'b) option) \<Rightarrow> 'a list \<Rightarrow> ('e + 'b list) option" where
  "map_opt_result f [] = Some (Inr [])"
| "map_opt_result f (x # xs) =
     bind_result (f x) (\<lambda>y. bind_result (map_opt_result f xs) (\<lambda>ys. Some (Inr (y # ys))))"

fun node_from_dict :: "(json \<Rightarrow> string) \<Rightarrow> nat \<Rightarrow> json \<Rightarrow> (decode_error + node) option" where
  "node_from_dict py_str 0 j = None"
| "node_from_dict py_str (Suc k) j =
     (case j of
        JObj d \<Rightarrow>
          (case kind_of (strip (text_of py_str (get_or d ''kind'' (JStr [])))) of
             None \<Rightarrow> Some (Inl ValueError)
           | Some kind \<Rightarrow>
               bind_result (case iter_of (cfg_get d ''children'') of Inl e \<Rightarrow> Some (Inl e)
                  | Inr cs \<Rightarrow> map_opt_result (node_from_dict py_str k) cs) (\<lambda>children.
               bind_result (case cfg_get d ''body'' of JObj b \<Rightarrow>
                    bind_result (node_from_dict py_str k (JObj b)) (\<lambda>n. Some (Inr (Some n)))
                  | _ \<Rightarrow> Some (Inr None)) (\<lambda>body.
               bind_result (let v = cfg_get d ''cases'' in
                    if \<not> truthy v then Some (Inr [])
                    else case v of
                      JObj kvs \<Rightarrow> map_opt_result (\<lambda>(l, c).
                          bind_result (node_from_dict py_str k c) (\<lambda>n. Some (Inr (l, n)))) kvs
                    | _ \<Rightarrow> Some (Inl AttributeError)) (\<lambda>cases.
               bind_result (case cfg_get d ''default'' of JObj b \<Rightarrow>
                    bind_result (node_from_dict py_str k (JObj b)) (\<lambda>n. Some (Inr (Some n)))
                  | _ \<Rightarrow> Some (Inr None)) (\<lambda>dflt.
               bind_result (Some (as_dict (cfg_get d ''config''))) (\<lambda>cfg.
               bind_result (Some (iter_of (cfg_get d ''needs''))) (\<lambda>needs.
               Some (Inr (Node kind (or_str py_str (cfg_get d ''id'')) (or_str py_str (cfg_get d ''label''))
                 children body cases dflt cfg (map (text_of py_str) needs)
                 (filter (\<lambda>(key, _). key \<notin> set KNOWN_KEYS) d))))))))))
      | _ \<Rightarrow> Some (Inl (if truthy j then AttributeError else ValueError)))"

section \<open>Paths\<close>

definition child_path :: "string \<Rightarrow> nat \<Rightarrow> string" where
  "child_path p i = p @ ''.children['' @ nat_str i @ '']''"

definition body_path :: "string \<Rightarrow> string" where
  "body_path p = p @ ''.body''"

definition cases_path :: "string \<Rightarrow> string \<Rightarrow> string" where
  "cases_path p label = p @ ''.cases['' @ label @ '']''"

definition default_path :: "string \<Rightarrow> string" where
  "default_path p = p @ ''.default''"

lemma zip_node_size: "(i, c) \<in> set (zip js cs) \<Longrightarrow> size (c :: node) \<le> size_list size cs"
  by (drule set_zip_rightD, erule size_list_estimation') simp

lemma case_node_size: "(l :: string, c) \<in> set cs \<Longrightarrow> size (c :: node) \<le> size_list (size_prod (\<lambda>_. 0) size) cs"
  by (erule size_list_estimation') simp

text \<open>\<open>walk\<close>: depth first, each node under the path that keys it.\<close>

function walk :: "node \<Rightarrow> string \<Rightarrow> (string \<times> node) list" where
  "walk (Node kind nid label children body cases dflt cfg needs extra) p =
     (p, Node kind nid label children body cases dflt cfg needs extra)
     # concat (map (\<lambda>(i, c). walk c (child_path p i)) (zip [0..<length children] children))
     @ (case body of None \<Rightarrow> [] | Some b \<Rightarrow> walk b (body_path p))
     @ concat (map (\<lambda>(l, c). walk c (cases_path p l)) cases)
     @ (case dflt of None \<Rightarrow> [] | Some b \<Rightarrow> walk b (default_path p))"
  by pat_completeness auto
termination
  by (relation "measure (size \<circ> fst)") (auto dest!: zip_node_size case_node_size)

definition is_digit :: "char \<Rightarrow> bool" where
  "is_digit c = (CHR ''0'' \<le> c \<and> c \<le> CHR ''9'')"

definition is_marker :: "char \<Rightarrow> bool" where
  "is_marker c = (c = CHR ''@'' \<or> c = CHR ''#'')"

text \<open>\<open>int(digits)\<close> of a run of decimal digits.\<close>

definition digits_val :: "string \<Rightarrow> nat" where
  "digits_val ds = foldl (\<lambda>n c. 10 * n + (of_char c - 48)) 0 ds"

text \<open>\<open>INSTANCE_MARKER_RE.sub("", path)\<close>: every \<open>@2\<close> or \<open>#3\<close> is removed in place.\<close>

function spec_path :: "string \<Rightarrow> string" where
  "spec_path [] = []"
| "spec_path (c # cs) =
     (if is_marker c \<and> takeWhile is_digit cs \<noteq> [] then spec_path (dropWhile is_digit cs)
      else c # spec_path cs)"
  by pat_completeness auto
termination
  by (relation "measure length") (auto simp: le_imp_less_Suc length_dropWhile_le)

text \<open>\<open>TRAILING_MARKER_RE.sub("", path)\<close>: only the instance's own marker, at the end.\<close>

definition sibling_group :: "string \<Rightarrow> string" where
  "sibling_group path =
     (let digits = takeWhile is_digit (rev path); front = dropWhile is_digit (rev path)
      in if digits \<noteq> [] \<and> front \<noteq> [] \<and> is_marker (hd front) then rev (tl front) else path)"

text \<open>\<open>_LOOP_MARKER_RE.finditer(path)\<close>: what precedes each match, and its number.\<close>

function loop_markers :: "string \<Rightarrow> string \<Rightarrow> (string \<times> nat) list" where
  "loop_markers before [] = []"
| "loop_markers before (c # cs) =
     (let digits = takeWhile is_digit cs in
      if c = CHR ''@'' \<and> digits \<noteq> []
      then (before, digits_val digits) # loop_markers (before @ [c] @ digits) (dropWhile is_digit cs)
      else loop_markers (before @ [c]) cs)"
  by pat_completeness auto
termination
  by (relation "measure (length \<circ> snd)") (auto simp: le_imp_less_Suc length_dropWhile_le)

definition ends_with :: "string \<Rightarrow> string \<Rightarrow> bool" where
  "ends_with s e = (length e \<le> length s \<and> drop (length s - length e) s = e)"

definition loop_parent :: "string \<Rightarrow> string option \<times> nat" where
  "loop_parent path =
     (case rev (loop_markers [] path) of
        [] \<Rightarrow> (None, 0)
      | (before, n) # _ \<Rightarrow>
          if \<not> ends_with before ''.body'' then (None, 0)
          else (Some (take (length before - 5) before), n))"

text \<open>
  \<open>instance_order\<close>: the path split at its runs of digits, the runs as numbers. \<open>re.split\<close> alternates
  text and number and starts with a text, so the key is a list of text/number pairs and a last text.
\<close>

function instance_order :: "string \<Rightarrow> (string \<times> nat) list \<times> string" where
  "instance_order path =
     (let front = takeWhile (\<lambda>c. \<not> is_digit c) path; rest = dropWhile (\<lambda>c. \<not> is_digit c) path in
      if rest = [] then ([], front)
      else (case instance_order (dropWhile is_digit rest) of
              (ps, end_text) \<Rightarrow> ((front, digits_val (takeWhile is_digit rest)) # ps, end_text)))"
  by pat_completeness auto
termination
proof (relation "measure length", goal_cases)
  case (2 path front rest)
  obtain c cs where rest: "rest = c # cs" using 2(3) by (cases rest) auto
  then have "\<not> \<not> is_digit c" using 2(2) by (metis dropWhile_eq_Cons_conv)
  then have "length (dropWhile is_digit rest) < length rest"
    using rest by (simp add: le_imp_less_Suc length_dropWhile_le)
  also have "\<dots> \<le> length path" using 2(2) by (simp add: length_dropWhile_le)
  finally show ?case by simp
qed simp

declare instance_order.simps [simp del]

text \<open>Python compares the keys as lists, text against text and number against number.\<close>

fun key_before :: "(string \<times> nat) list \<times> string \<Rightarrow> (string \<times> nat) list \<times> string \<Rightarrow> bool" where
  "key_before ([], a) ([], b) = (a < b)"
| "key_before ([], a) ((u, m) # qs, b) = (a \<le> u)"
| "key_before ((t, n) # ps, a) ([], b) = (t < b)"
| "key_before ((t, n) # ps, a) ((u, m) # qs, b) =
     (t < u \<or> (t = u \<and> (n < m \<or> (n = m \<and> key_before (ps, a) (qs, b)))))"

section \<open>Instance states\<close>

datatype inst_state =
    PENDING | READY | RUNNING | WAITING | DONE | DEGRADED | FAILED | SKIPPED | NO_CHANGE
  | SCOPE_VIOLATION | DISCARDED | ESCALATED | BLOCKED | CANCELLED | DECLINED

definition TERMINAL_STATES :: "inst_state list" where
  "TERMINAL_STATES = [DONE, DEGRADED, FAILED, SKIPPED, NO_CHANGE, SCOPE_VIOLATION, DISCARDED,
     ESCALATED, BLOCKED, CANCELLED, DECLINED]"

definition SUCCESS_STATES :: "inst_state list" where
  "SUCCESS_STATES = [DONE, DEGRADED, NO_CHANGE]"

definition FROZEN_STATES :: "inst_state list" where
  "FROZEN_STATES = TERMINAL_STATES @ [RUNNING]"

definition terminal :: "inst_state \<Rightarrow> bool" where
  "terminal s = (s \<in> set TERMINAL_STATES)"

definition success :: "inst_state \<Rightarrow> bool" where
  "success s = (s \<in> set SUCCESS_STATES)"

lemma terminal_simps [simp]:
  "terminal DONE" "terminal DEGRADED" "terminal FAILED" "terminal SKIPPED" "terminal NO_CHANGE"
  "terminal SCOPE_VIOLATION" "terminal DISCARDED" "terminal ESCALATED" "terminal BLOCKED"
  "terminal CANCELLED" "terminal DECLINED" "\<not> terminal PENDING" "\<not> terminal READY"
  "\<not> terminal RUNNING" "\<not> terminal WAITING"
  by (simp_all add: terminal_def TERMINAL_STATES_def)

lemma success_simps [simp]:
  "success DONE" "success DEGRADED" "success NO_CHANGE" "\<not> success FAILED" "\<not> success SKIPPED"
  "\<not> success SCOPE_VIOLATION" "\<not> success DISCARDED" "\<not> success ESCALATED" "\<not> success BLOCKED"
  "\<not> success CANCELLED" "\<not> success DECLINED" "\<not> success PENDING" "\<not> success READY"
  "\<not> success RUNNING" "\<not> success WAITING"
  by (simp_all add: success_def SUCCESS_STATES_def)

lemma success_terminal: "success s \<Longrightarrow> terminal s"
  by (cases s) simp_all

section \<open>Failures\<close>

datatype wf_failure_class =
    WfUser | WfTransient | WfNetwork | WfPermission | WfProtocol | WfBudget | WfTimeout | WfInternal

fun wf_class_value :: "wf_failure_class \<Rightarrow> string" where
  "wf_class_value WfUser = ''user''"
| "wf_class_value WfTransient = ''transient''"
| "wf_class_value WfNetwork = ''network''"
| "wf_class_value WfPermission = ''permission''"
| "wf_class_value WfProtocol = ''protocol''"
| "wf_class_value WfBudget = ''budget''"
| "wf_class_value WfTimeout = ''timeout''"
| "wf_class_value WfInternal = ''internal''"

definition wf_class_of :: "string \<Rightarrow> wf_failure_class" where
  "wf_class_of s = (case find (\<lambda>c. wf_class_value c = s) [WfUser, WfTransient, WfNetwork, WfPermission,
      WfProtocol, WfBudget, WfTimeout, WfInternal] of None \<Rightarrow> WfInternal | Some c \<Rightarrow> c)"

definition RETRYABLE_CLASSES :: "wf_failure_class list" where
  "RETRYABLE_CLASSES = [WfTransient, WfNetwork]"

definition wf_retryable :: "wf_failure_class \<Rightarrow> bool" where
  "wf_retryable c = (c \<in> set RETRYABLE_CLASSES)"

section \<open>Run status\<close>

datatype lifecycle_phase = PRELAUNCH | ACTIVE | ATTENTION | ENDED

datatype run_status =
    RunDraft | RunRunning | RunPaused | RunNeedsInput | RunComplete | RunFailed | RunCancelled
  | RunEscalated | RunDeclined

fun run_status_value :: "run_status \<Rightarrow> string" where
  "run_status_value RunDraft = ''draft''"
| "run_status_value RunRunning = ''running''"
| "run_status_value RunPaused = ''paused''"
| "run_status_value RunNeedsInput = ''needs_input''"
| "run_status_value RunComplete = ''complete''"
| "run_status_value RunFailed = ''failed''"
| "run_status_value RunCancelled = ''cancelled''"
| "run_status_value RunEscalated = ''escalated''"
| "run_status_value RunDeclined = ''declined''"

fun run_phase :: "run_status \<Rightarrow> lifecycle_phase" where
  "run_phase RunDraft = PRELAUNCH"
| "run_phase RunRunning = ACTIVE"
| "run_phase RunPaused = ATTENTION"
| "run_phase RunNeedsInput = ATTENTION"
| "run_phase RunComplete = ENDED"
| "run_phase RunFailed = ENDED"
| "run_phase RunCancelled = ENDED"
| "run_phase RunEscalated = ENDED"
| "run_phase RunDeclined = ENDED"

text \<open>No ended run is resumable, so terminal and ended are one set for a run.\<close>

definition terminal_run :: "run_status \<Rightarrow> bool" where
  "terminal_run s = (run_phase s = ENDED)"

definition run_ending :: "run_status \<Rightarrow> string" where
  "run_ending s = (case s of RunCancelled \<Rightarrow> ''was cancelled'' | RunFailed \<Rightarrow> ''failed''
     | RunComplete \<Rightarrow> ''has finished'' | RunEscalated \<Rightarrow> ''has stopped''
     | RunDeclined \<Rightarrow> ''was declined'' | _ \<Rightarrow> ''is '' @ run_status_value s)"

section \<open>The caps of a run\<close>

record run_budget =
  max_tokens :: int
  max_cost :: rat

definition MIN_COST_CAP :: rat where
  "MIN_COST_CAP = 1 / 1000000"

text \<open>\<open>round(x, 6)\<close>: to the nearest millionth, a tie to the even one.\<close>

definition round_half_even :: "rat \<Rightarrow> int" where
  "round_half_even q = (let f = \<lfloor>q\<rfloor>; d = q - of_int f in
     if d < 1 / 2 then f else if d > 1 / 2 then f + 1 else if even f then f else f + 1)"

definition round6 :: "rat \<Rightarrow> rat" where
  "round6 q = of_int (round_half_even (q * 1000000)) / 1000000"

definition is_unlimited :: "run_budget \<Rightarrow> bool" where
  "is_unlimited b = (max_tokens b \<le> 0 \<and> max_cost b \<le> 0)"

definition left_after :: "run_budget \<Rightarrow> int \<Rightarrow> rat \<Rightarrow> run_budget" where
  "left_after b tokens dollars =
     \<lparr>max_tokens = (if max_tokens b > 0 then max 1 (max_tokens b - tokens) else 0),
      max_cost = (if max_cost b > 0 then round6 (max MIN_COST_CAP (max_cost b - dollars)) else 0)\<rparr>"

definition tighter :: "'a \<Rightarrow> 'a \<Rightarrow> 'a :: {linorder, zero}" where
  "tighter own theirs = (if own > 0 \<and> theirs > 0 then min own theirs else max own theirs)"

definition within_caps :: "run_budget \<Rightarrow> run_budget \<Rightarrow> run_budget" where
  "within_caps own outer =
     \<lparr>max_tokens = tighter (max_tokens own) (max_tokens outer),
      max_cost = round6 (tighter (max_cost own) (max_cost outer))\<rparr>"

definition budget_to_dict :: "run_budget \<Rightarrow> config" where
  "budget_to_dict b = [(''max_tokens'', JInt (max_tokens b)), (''max_cost'', JFloat (max_cost b))]"

text \<open>\<open>RunBudget.from_dict\<close>: a negative cap reads as none.\<close>

definition budget_from_dict ::
  "(string \<Rightarrow> int option) \<Rightarrow> (string \<Rightarrow> rat option) \<Rightarrow> config \<Rightarrow> decode_error + run_budget" where
  "budget_from_dict int_text float_text d =
     (case int_of_field int_text (cfg_get d ''max_tokens'') of
        Inl e \<Rightarrow> Inl e
      | Inr t \<Rightarrow>
          (case float_of_field float_text (cfg_get d ''max_cost'') of
             Inl e \<Rightarrow> Inl e
           | Inr c \<Rightarrow> Inr \<lparr>max_tokens = max 0 t, max_cost = max 0 c\<rparr>))"

end
