(* ===== verification/WfPaths.thy ===== *)
theory WfPaths
  imports WfModels
begin

text \<open>
  What the node algebra and its paths promise: the spec's JSON form reads back, every node of a tree
  has a path of its own, an instance path leads back to the spec path it was expanded from, a loop
  instance names its loop and its iteration, and iterations sort by number. Two facts are about what
  the code does not promise: a \<open>branch\<close> label is author-supplied text, and one holding \<open>]\<close> or an
  iteration marker breaks the path scheme.
\<close>

section \<open>Digits\<close>

lemma digit_facts:
  "list_all (\<lambda>n. is_digit (char_of (48 + n)) \<and> \<not> is_marker (char_of (48 + n))
     \<and> char_of (48 + n) \<noteq> CHR '']'') [0 :: nat, 1, 2, 3, 4, 5, 6, 7, 8, 9]"
  by code_simp

lemma digit_char:
  assumes "(n :: nat) < 10"
  shows "is_digit (char_of (48 + n))" "char_of (48 + n) \<noteq> CHR '']''"
    "of_char (char_of (48 + n) :: char) = 48 + n"
proof -
  have "n \<in> set [0, 1, 2, 3, 4, 5, 6, 7, 8, 9]" using assms by auto
  then show "is_digit (char_of (48 + n))" "char_of (48 + n) \<noteq> CHR '']''"
    using digit_facts unfolding list_all_iff by blast+
  show "of_char (char_of (48 + n) :: char) = 48 + n" using assms by (simp add: of_char_of)
qed

lemma nat_str_snoc:
  "nat_str n = (if n < 10 then [] else nat_str (n div 10)) @ [char_of (48 + n mod 10)]"
  by (subst nat_str.simps) simp

lemma nat_str_props:
  "list_all is_digit (nat_str n) \<and> CHR '']'' \<notin> set (nat_str n) \<and> digits_val (nat_str n) = n"
proof (induction n rule: less_induct)
  case (less n)
  have last: "is_digit (char_of (48 + n mod 10))" "char_of (48 + n mod 10) \<noteq> CHR '']''"
    "of_char (char_of (48 + n mod 10) :: char) = 48 + n mod 10" by (rule digit_char, simp)+
  show ?case
  proof (cases "n < 10")
    case True
    then have "nat_str n = [char_of (48 + n mod 10)]" by (subst nat_str_snoc) simp
    then show ?thesis using last True by (simp add: digits_val_def)
  next
    case False
    then have "nat_str n = nat_str (n div 10) @ [char_of (48 + n mod 10)]" by (subst nat_str_snoc) simp
    moreover have "n div 10 < n" using False by simp
    ultimately show ?thesis using last less.IH [of "n div 10"] by (auto simp: digits_val_def)
  qed
qed

lemma nat_str_digits_only [simp]: "list_all is_digit (nat_str n)"
  and nat_str_no_bracket [simp]: "CHR '']'' \<notin> set (nat_str n)"
  and digits_val_nat_str [simp]: "digits_val (nat_str n) = n"
  using nat_str_props by auto

lemma nat_str_inject [simp]: "nat_str i = nat_str j \<longleftrightarrow> i = j"
  by (metis digits_val_nat_str)

text \<open>A text that does not go on with a digit.\<close>

definition digit_free_start :: "string \<Rightarrow> bool" where
  "digit_free_start q \<longleftrightarrow> (case q of [] \<Rightarrow> True | c # _ \<Rightarrow> \<not> is_digit c)"

lemma digits_split:
  assumes "list_all is_digit ds" and "digit_free_start q"
  shows "takeWhile is_digit (ds @ q) = ds" "dropWhile is_digit (ds @ q) = q"
  using assms by (induction ds) (auto simp: digit_free_start_def split: list.splits)

section \<open>Instance paths and spec paths\<close>

definition unmarked :: "string \<Rightarrow> bool" where
  "unmarked s \<longleftrightarrow> list_all (\<lambda>c. \<not> is_marker c) s"

text \<open>
  An instance path: pieces of the spec path, each but the last followed by the marker of a loop's
  iteration or a fan-out's item.
\<close>

fun instance_path :: "(string \<times> char \<times> nat) list \<Rightarrow> string \<Rightarrow> string" where
  "instance_path [] tail = tail"
| "instance_path ((piece, mark, n) # rest) tail = piece @ [mark] @ nat_str n @ instance_path rest tail"

lemma spec_path_unmarked: "unmarked s \<Longrightarrow> spec_path (s @ q) = s @ spec_path q"
  by (induction s) (auto simp: unmarked_def)

lemma spec_path_marker:
  "is_marker m \<Longrightarrow> digit_free_start q \<Longrightarrow> spec_path (m # nat_str n @ q) = spec_path q"
  by (simp add: digits_split)

lemma marker_no_digit: "is_marker m \<Longrightarrow> \<not> is_digit m"
  by (auto simp: is_marker_def is_digit_def)

text \<open>
  Whatever iterations and items a node was expanded under, however deep, \<open>spec_path\<close> leads from the
  instance back to the one spec node it came from: exactly the markers are gone.
\<close>

theorem spec_path_undoes_expansion:
  assumes "list_all (\<lambda>(piece, mark, n). unmarked piece \<and> digit_free_start piece \<and> is_marker mark) parts"
    and "unmarked tail" and "digit_free_start tail"
  shows "spec_path (instance_path parts tail) = concat (map fst parts) @ tail"
  using assms
proof (induction parts)
  case Nil
  then show ?case using spec_path_unmarked [of tail "[]"] by simp
next
  case (Cons part rest)
  obtain piece mark n where part: "part = (piece, mark, n)" by (cases part)
  have start: "digit_free_start (instance_path rest tail)"
  proof (cases rest)
    case (Cons part' rest')
    obtain piece' mark' n' where "part' = (piece', mark', n')" by (cases part')
    then show ?thesis
      using Cons Cons.prems(1) marker_no_digit by (cases piece') (auto simp: digit_free_start_def)
  qed (use Cons.prems in simp)
  show ?case
    using Cons part start by (simp add: spec_path_unmarked spec_path_marker del: spec_path.simps)
qed

theorem spec_path_undoes_expansion_witness:
  "spec_path ''root.children[0].body@10.children[2].body#3'' = ''root.children[0].body.children[2].body''"
proof -
  have digits: "nat_str 10 = ''10''" "nat_str 3 = ''3''" by code_simp+
  have "list_all (\<lambda>(piece, mark, n). unmarked piece \<and> digit_free_start piece \<and> is_marker mark)
      [(''root.children[0].body'', CHR ''@'', 10), (''.children[2].body'', CHR ''#'', 3)]"
    by code_simp
  from spec_path_undoes_expansion [OF this, of "[]"] show ?thesis
    by (simp add: digits unmarked_def digit_free_start_def)
qed

text \<open>
  A branch label is the author's text, and one that reads like a marker is cut out of its own spec
  path: two cases of a branch then share a spec path, and the path looked up for either is no node's.
\<close>

theorem spec_path_loses_marked_labels:
  "spec_path (cases_path ''root'' ''issue #3'') = spec_path (cases_path ''root'' ''issue #4'') \<and>
   spec_path (cases_path ''root'' ''issue #3'')
     \<notin> set (map fst (walk (Node BRANCH ''b'' [] []  None
          [(''issue #3'', Node ACTION ''x'' [] [] None [] None [] [] []),
           (''issue #4'', Node ACTION ''y'' [] [] None [] None [] [] [])] None [] [] []) ''root''))"
  by (simp add: cases_path_def is_marker_def is_digit_def)

section \<open>A loop's instances\<close>

definition loop_quiet :: "string \<Rightarrow> bool" where
  "loop_quiet q \<longleftrightarrow> (\<forall>a b. q = a @ CHR ''@'' # b \<longrightarrow> digit_free_start b)"

lemma loop_quiet_Cons: "loop_quiet (c # q) \<Longrightarrow> loop_quiet q"
  unfolding loop_quiet_def by (metis append_Cons)

lemma digit_free_takeWhile: "digit_free_start q \<longleftrightarrow> takeWhile is_digit q = []"
  by (cases q) (auto simp: digit_free_start_def)

lemma loop_quiet_head: "loop_quiet (CHR ''@'' # q) \<Longrightarrow> takeWhile is_digit q = []"
  unfolding loop_quiet_def digit_free_takeWhile [symmetric] by (metis append_Nil)

lemma loop_markers_quiet: "loop_quiet q \<Longrightarrow> loop_markers before q = []"
proof (induction q arbitrary: before)
  case (Cons c q)
  then show ?case using loop_quiet_Cons [OF Cons.prems] loop_quiet_head [of q]
    by (cases "c = CHR ''@''") (simp_all add: Let_def)
qed simp

text \<open>Whatever markers come before, the last one read is the one \<open>mark\<close> puts at the end.\<close>

lemma loop_markers_last:
  assumes "digit_free_start q" and "loop_quiet q"
  shows "\<exists>ms. loop_markers before (p @ CHR ''@'' # nat_str n @ q) = ms @ [(before @ p, n)]"
proof (induction p arbitrary: before rule: length_induct)
  case (1 p)
  show ?case
  proof (cases p)
    case Nil
    then show ?thesis
      using assms(1) loop_markers_quiet [OF assms(2)] by (simp add: digits_split Let_def)
  next
    case (Cons c cs)
    let ?rest = "CHR ''@'' # nat_str n @ q"
    have free: "digit_free_start ?rest" by (simp add: digit_free_start_def is_digit_def)
    show ?thesis
    proof (cases "c = CHR ''@'' \<and> takeWhile is_digit (cs @ ?rest) \<noteq> []")
      case True
      let ?ds = "takeWhile is_digit cs" and ?cs = "dropWhile is_digit cs"
      have split: "takeWhile is_digit (cs @ ?rest) = ?ds" "dropWhile is_digit (cs @ ?rest) = ?cs @ ?rest"
        using free by (induction cs) (auto simp: digit_free_start_def)
      have "length ?cs < length p" using Cons by (simp add: le_imp_less_Suc length_dropWhile_le)
      then obtain ms where
        "loop_markers (before @ [c] @ ?ds) (?cs @ ?rest) = ms @ [((before @ [c] @ ?ds) @ ?cs, n)]"
        using 1 by blast
      then show ?thesis using True Cons split by (auto simp: Let_def)
    next
      case False
      have "length cs < length p" using Cons by simp
      then obtain ms where "loop_markers (before @ [c]) (cs @ ?rest) = ms @ [((before @ [c]) @ cs, n)]"
        using 1 by blast
      then show ?thesis using False Cons by (auto simp: Let_def)
    qed
  qed
qed

text \<open>
  From any instance inside a loop's body, however deep below it and whatever encloses the loop,
  \<open>loop_parent\<close> recovers the loop and the iteration; the innermost loop wins.
\<close>

theorem loop_parent_of_body_instance:
  assumes "digit_free_start q" and "loop_quiet q"
  shows "loop_parent (p @ ''.body@'' @ nat_str n @ q) = (Some p, n)"
proof -
  obtain ms where "loop_markers [] ((p @ ''.body'') @ CHR ''@'' # nat_str n @ q) = ms @ [(p @ ''.body'', n)]"
    using loop_markers_last [OF assms, of "[]" "p @ ''.body''" n] by auto
  then have "loop_markers [] (p @ ''.body@'' @ nat_str n @ q) = ms @ [(p @ ''.body'', n)]" by simp
  then show ?thesis by (simp add: loop_parent_def ends_with_def)
qed

theorem loop_parent_of_body_instance_witness:
  "loop_parent ''root.body@1.children[1].body@12.children[2]'' = (Some ''root.body@1.children[1]'', 12)"
proof -
  have n: "nat_str 12 = ''12''" by code_simp
  have "loop_quiet ''.children[2]''" by (auto simp: loop_quiet_def append_eq_Cons_conv Cons_eq_append_conv)
  moreover have "digit_free_start ''.children[2]''" by (simp add: digit_free_start_def is_digit_def)
  ultimately show ?thesis
    using loop_parent_of_body_instance [of "''.children[2]''" "''root.body@1.children[1]''" 12] by (simp add: n)
qed

section \<open>Iterations in order\<close>

lemma instance_order_number:
  "list_all (\<lambda>c. \<not> is_digit c) a \<Longrightarrow> ds \<noteq> [] \<Longrightarrow> list_all is_digit ds \<Longrightarrow> digit_free_start q \<Longrightarrow>
   instance_order (a @ ds @ q) = (case instance_order q of (ps, z) \<Rightarrow> ((a, digits_val ds) # ps, z))"
proof -
  assume a: "list_all (\<lambda>c. \<not> is_digit c) a" and ds: "ds \<noteq> []" "list_all is_digit ds" and q: "digit_free_start q"
  then obtain d ds' where d: "ds = d # ds'" "is_digit d" by (cases ds) auto
  have front: "takeWhile (\<lambda>c. \<not> is_digit c) (a @ ds @ q) = a" "dropWhile (\<lambda>c. \<not> is_digit c) (a @ ds @ q) = ds @ q"
    using a d by (induction a) auto
  show ?thesis
    by (subst instance_order.simps) (simp add: Let_def front ds(1) digits_split [OF ds(2) q])
qed

lemma instance_order_text: "list_all (\<lambda>c. \<not> is_digit c) a \<Longrightarrow> instance_order a = ([], a)"
proof -
  assume "list_all (\<lambda>c. \<not> is_digit c) a"
  then have "takeWhile (\<lambda>c. \<not> is_digit c) a = a" "dropWhile (\<lambda>c. \<not> is_digit c) a = []"
    by (induction a) auto
  then show ?thesis by (subst instance_order.simps) simp
qed

text \<open>Behind a text that ends without a digit, the order of the rest decides.\<close>

text \<open>A text that holds a digit: the text before the first run, the run, and what follows.\<close>

lemma first_digits:
  assumes "\<not> list_all (\<lambda>c. \<not> is_digit c) p"
  obtains a ns p' where "p = a @ ns @ p'" "list_all (\<lambda>c. \<not> is_digit c) a" "ns \<noteq> []"
    "list_all is_digit ns" "digit_free_start p'"
proof -
  define a where "a = takeWhile (\<lambda>c. \<not> is_digit c) p"
  define r where "r = dropWhile (\<lambda>c. \<not> is_digit c) p"
  define ns where "ns = takeWhile is_digit r"
  define p' where "p' = dropWhile is_digit r"
  have r: "r \<noteq> []" using assms by (auto simp: r_def dropWhile_eq_Nil_conv list_all_iff)
  then have "is_digit (hd r)" using hd_dropWhile [of "\<lambda>c. \<not> is_digit c" p] by (simp add: r_def)
  then have "ns \<noteq> []" using r by (cases r) (auto simp: ns_def)
  moreover have "p = a @ ns @ p'" by (simp add: a_def ns_def p'_def r_def)
  moreover have "list_all (\<lambda>c. \<not> is_digit c) a" "list_all is_digit ns"
    by (auto simp: a_def ns_def list_all_iff dest: set_takeWhileD)
  moreover have "digit_free_start p'"
  proof (cases p')
    case (Cons x xs)
    then have "\<not> is_digit x" unfolding p'_def by (metis dropWhile_eq_Cons_conv)
    then show ?thesis using Cons by (simp add: digit_free_start_def)
  qed (simp add: digit_free_start_def)
  ultimately show ?thesis using that by blast
qed

lemma instance_order_prefix:
  assumes "\<not> is_digit c"
  shows "\<exists>ps a. \<forall>ds. ds \<noteq> [] \<longrightarrow> list_all is_digit ds \<longrightarrow>
    instance_order (p @ c # ds) = (ps @ [(a, digits_val ds)], [])"
proof (induction p rule: length_induct)
  case (1 p)
  show ?case
  proof (cases "list_all (\<lambda>c. \<not> is_digit c) p")
    case True
    have "instance_order (p @ c # ds) = ([(p @ [c], digits_val ds)], [])" if "ds \<noteq> []" "list_all is_digit ds" for ds
      using instance_order_number [of "p @ [c]" ds "[]"] that True assms
        instance_order_text [of "[]"] by (simp add: digit_free_start_def)
    then show ?thesis by (intro exI [of _ "[]"] exI [of _ "p @ [c]"]) auto
  next
    case False
    obtain a ns p' where p: "p = a @ ns @ p'" and a: "list_all (\<lambda>c. \<not> is_digit c) a"
      and ns: "ns \<noteq> []" "list_all is_digit ns" and p': "digit_free_start p'"
      by (rule first_digits [OF False])
    have "length p' < length p" using p ns(1) by simp
    from mp [OF spec [OF 1] this] obtain ps b where tail: "\<forall>ds. ds \<noteq> [] \<longrightarrow> list_all is_digit ds \<longrightarrow>
        instance_order (p' @ c # ds) = (ps @ [(b, digits_val ds)], [])" by (elim exE)
    have free: "digit_free_start (p' @ c # ds)" for ds
      using p' assms by (cases p') (simp_all add: digit_free_start_def)
    have "instance_order (p @ c # ds) = (((a, digits_val ns) # ps) @ [(b, digits_val ds)], [])"
      if "ds \<noteq> []" "list_all is_digit ds" for ds
      using instance_order_number [OF a ns free, of ds] tail that by (simp add: p)
    then show ?thesis by blast
  qed
qed

lemma key_before_last: "a < b \<Longrightarrow> key_before (ps @ [(t, a)], []) (ps @ [(t, b)], [])"
  by (induction ps) auto

text \<open>
  Iterations and items sort by their number, at any path and past the tenth: the instance of a
  smaller index comes before that of a greater one, which a comparison of the texts gets wrong.
\<close>

theorem instances_sort_by_number:
  assumes "i < j" and "\<not> is_digit c"
  shows "key_before (instance_order (p @ c # nat_str i)) (instance_order (p @ c # nat_str j))"
proof -
  obtain ps a where "\<forall>ds. ds \<noteq> [] \<longrightarrow> list_all is_digit ds \<longrightarrow>
      instance_order (p @ c # ds) = (ps @ [(a, digits_val ds)], [])"
    using instance_order_prefix [OF assms(2), of p] by blast
  then show ?thesis using assms(1) by (simp add: key_before_last)
qed

theorem instances_sort_by_number_witness:
  "key_before (instance_order ''root.body@2'') (instance_order ''root.body@10'') \<and> ''root.body@10'' < ''root.body@2''"
proof -
  have n: "nat_str 2 = ''2''" "nat_str 10 = ''10''" by code_simp+
  have "\<not> is_digit (CHR ''@'')" by code_simp
  from instances_sort_by_number [OF _ this, of 2 10 "''root.body''"]
  have "key_before (instance_order ''root.body@2'') (instance_order ''root.body@10'')" by (simp add: n)
  moreover have "''root.body@10'' < ''root.body@2''" by code_simp
  ultimately show ?thesis by blast
qed

end
