(* ===== verification/WfTree.thy ===== *)
theory WfTree
  imports WfPaths
begin

text \<open>
  The spec tree as a whole: its nodes have pairwise different paths while no branch label holds a
  \<open>]\<close>, its JSON form reads back as the same tree, and the caps a run hands down to the runs it starts
  never widen and never turn into no cap.
\<close>

section \<open>Every node has a path of its own\<close>

fun labels_ok :: "node \<Rightarrow> bool" where
  "labels_ok (Node kind nid label children body cases dflt cfg needs extra) =
     (distinct (map fst cases) \<and> list_all (\<lambda>(l, c). CHR '']'' \<notin> set l \<and> labels_ok c) cases \<and>
      list_all labels_ok children \<and> (case body of None \<Rightarrow> True | Some b \<Rightarrow> labels_ok b) \<and>
      (case dflt of None \<Rightarrow> True | Some b \<Rightarrow> labels_ok b))"

definition under :: "string \<Rightarrow> string \<Rightarrow> bool" where
  "under p q \<longleftrightarrow> (\<exists>s. q = p @ s \<and> (s = [] \<or> hd s = CHR ''.''))"

lemma under_refl [simp]: "under p p"
  by (simp add: under_def)

lemma under_step: "under (p @ CHR ''.'' # s) q \<Longrightarrow> under p q"
  by (auto simp: under_def)

lemma walk_under: "(q, m) \<in> set (walk n p) \<Longrightarrow> under p q"
proof (induction n p rule: walk.induct)
  case (1 kind nid label children body cases dflt cfg needs extra p)
  consider "q = p"
    | i c where "(i, c) \<in> set (zip [0..<length children] children)" "(q, m) \<in> set (walk c (child_path p i))"
    | b where "body = Some b" "(q, m) \<in> set (walk b (body_path p))"
    | l c where "(l, c) \<in> set cases" "(q, m) \<in> set (walk c (cases_path p l))"
    | b where "dflt = Some b" "(q, m) \<in> set (walk b (default_path p))"
    using "1.prems" by (auto split: option.splits)
  then show ?case
  proof cases
    case 2
    then have "under (child_path p i) q" using "1.IH"(1) by blast
    then show ?thesis using under_step [of p] by (simp add: child_path_def)
  next
    case 3
    then have "under (body_path p) q" using "1.IH"(2) by blast
    then show ?thesis using under_step [of p] by (simp add: body_path_def)
  next
    case 4
    then have "under (cases_path p l) q" using "1.IH"(3) by blast
    then show ?thesis using under_step [of p] by (simp add: cases_path_def)
  next
    case 5
    then have "under (default_path p) q" using "1.IH"(4) by blast
    then show ?thesis using under_step [of p] by (simp add: default_path_def)
  qed simp
qed

lemma bracket_cancel: "a @ x # s = b @ x # t \<Longrightarrow> x \<notin> set a \<Longrightarrow> x \<notin> set b \<Longrightarrow> a = b"
proof (induction a arbitrary: b)
  case Nil
  then show ?case by (cases b) auto
next
  case (Cons c a)
  then show ?case by (cases b) auto
qed

lemma under_child_inj: "under (child_path p i) q \<Longrightarrow> under (child_path p j) q \<Longrightarrow> i = j"
proof -
  assume "under (child_path p i) q" "under (child_path p j) q"
  then obtain s t where "nat_str i @ CHR '']'' # s = nat_str j @ CHR '']'' # t"
    by (auto simp: under_def child_path_def)
  from bracket_cancel [OF this] show "i = j" by simp
qed

lemma under_cases_inj:
  "under (cases_path p k) q \<Longrightarrow> under (cases_path p l) q \<Longrightarrow> CHR '']'' \<notin> set k \<Longrightarrow> CHR '']'' \<notin> set l \<Longrightarrow> k = l"
proof -
  assume "under (cases_path p k) q" "under (cases_path p l) q"
  then obtain s t where "k @ CHR '']'' # s = l @ CHR '']'' # t"
    by (auto simp: under_def cases_path_def)
  then show "CHR '']'' \<notin> set k \<Longrightarrow> CHR '']'' \<notin> set l \<Longrightarrow> k = l" by (rule bracket_cancel)
qed

lemma under_apart:
  "\<not> (under (child_path p i) q \<and> under (body_path p) q)"
  "\<not> (under (child_path p i) q \<and> under (cases_path p l) q)"
  "\<not> (under (child_path p i) q \<and> under (default_path p) q)"
  "\<not> (under (body_path p) q \<and> under (cases_path p l) q)"
  "\<not> (under (body_path p) q \<and> under (default_path p) q)"
  "\<not> (under (cases_path p l) q \<and> under (default_path p) q)"
  "\<not> under (child_path p i) p" "\<not> under (body_path p) p" "\<not> under (cases_path p l) p"
  "\<not> under (default_path p) p"
  by (auto simp: under_def child_path_def body_path_def cases_path_def default_path_def)

definition walk_paths :: "node \<Rightarrow> string \<Rightarrow> string list" where
  "walk_paths n p = map fst (walk n p)"

lemma walk_paths_under: "q \<in> set (walk_paths n p) \<Longrightarrow> under p q"
  by (auto simp: walk_paths_def dest: walk_under)

lemma walk_paths_Node:
  "walk_paths (Node kind nid label children body cases dflt cfg needs extra) p =
     p # concat (map (\<lambda>(i, c). walk_paths c (child_path p i)) (zip [0..<length children] children))
     @ (case body of None \<Rightarrow> [] | Some b \<Rightarrow> walk_paths b (body_path p))
     @ concat (map (\<lambda>(l, c). walk_paths c (cases_path p l)) cases)
     @ (case dflt of None \<Rightarrow> [] | Some b \<Rightarrow> walk_paths b (default_path p))"
  by (simp add: walk_paths_def map_concat comp_def split_def split: option.splits)

text \<open>
  A node's identity is its path: in a tree whose branch labels are distinct and hold no \<open>]\<close>, no two
  nodes are keyed alike, so the instance map never confuses two nodes.
\<close>

theorem walk_paths_distinct:
  assumes "labels_ok n"
  shows "distinct (map fst (walk n p))"
  using assms unfolding walk_paths_def [symmetric]
proof (induction n p rule: walk.induct)
  case (1 kind nid label children body cases dflt cfg needs extra p)
  let ?kids = "zip [0..<length children] children"
  have kid_ok: "labels_ok c" if "(i, c) \<in> set ?kids" for i c
    using "1.prems" set_zip_rightD [OF that] by (simp add: list_all_iff)
  have kids: "distinct (concat (map (\<lambda>(i, c). walk_paths c (child_path p i)) ?kids))"
  proof (rule distinct_blocks [where key = fst])
    show "distinct (map fst ?kids)" by simp
    show "distinct (case x of (i, c) \<Rightarrow> walk_paths c (child_path p i))" if "x \<in> set ?kids" for x
    proof -
      obtain i c where x: "x = (i, c)" by (cases x)
      show ?thesis using "1.IH"(1) [OF that x [symmetric]] kid_ok [of i c] that by (simp add: x)
    qed
    show "fst x = fst y" if "q \<in> set (case x of (i, c) \<Rightarrow> walk_paths c (child_path p i))"
      "q \<in> set (case y of (i, c) \<Rightarrow> walk_paths c (child_path p i))" for x y q
      using that by (auto simp: split_def dest!: walk_paths_under intro: under_child_inj)
  qed
  have cs: "distinct (concat (map (\<lambda>(l, c). walk_paths c (cases_path p l)) cases))"
  proof (rule distinct_blocks [where key = fst])
    show "distinct (map fst cases)" using "1.prems" by simp
    show "distinct (case x of (l, c) \<Rightarrow> walk_paths c (cases_path p l))" if "x \<in> set cases" for x
      using that "1.prems" "1.IH"(3) by (cases x) (auto simp: list_all_iff)
    show "fst x = fst y" if "x \<in> set cases" "y \<in> set cases"
      "q \<in> set (case x of (l, c) \<Rightarrow> walk_paths c (cases_path p l))"
      "q \<in> set (case y of (l, c) \<Rightarrow> walk_paths c (cases_path p l))" for x y q
    proof -
      have "CHR '']'' \<notin> set (fst x)" "CHR '']'' \<notin> set (fst y)"
        using that(1,2) "1.prems" by (auto simp: list_all_iff)
      then show ?thesis
        using that(3,4) by (auto simp: split_def dest!: walk_paths_under intro: under_cases_inj)
    qed
  qed
  have b: "distinct (case body of None \<Rightarrow> [] | Some b \<Rightarrow> walk_paths b (body_path p))"
    using "1.prems" "1.IH"(2) by (auto split: option.splits)
  have d: "distinct (case dflt of None \<Rightarrow> [] | Some b \<Rightarrow> walk_paths b (default_path p))"
    using "1.prems" "1.IH"(4) by (auto split: option.splits)
  show ?case
    unfolding walk_paths_Node using kids cs b d under_apart
    by (fastforce split: option.splits dest!: walk_paths_under)
qed

definition step_node :: "string \<Rightarrow> node" where
  "step_node nid = Node ACTION nid [] [] None [] None [] [] []"

definition review_tree :: node where
  "review_tree = Node SEQUENCE ''flow'' [] [step_node ''draft'',
     Node LOOP ''revise'' [] [] (Some (step_node ''edit'')) [] None [(''max'', JInt 3)] [] [],
     Node BRANCH ''route'' [] [] None [(''ok'', step_node ''ship''), (''redo'', step_node ''back'')]
       (Some (step_node ''hold'')) [] [''draft''] [(''note'', JStr ''v2'')]] None [] None [] [] []"

theorem walk_paths_distinct_witness: "distinct (map fst (walk review_tree ''root''))"
  by (rule walk_paths_distinct) code_simp

text \<open>
  Without that, paths collide: the case labelled \<open>a].children[0\<close> and the first child of the case
  labelled \<open>a\<close> are two different nodes under one path, although the labels are distinct and the
  tree is one the reader accepts.
\<close>

theorem walk_paths_collide_on_brackets:
  "let t = Node BRANCH ''b'' [] [] None
        [(''a'', Node SEQUENCE ''s'' [] [step_node ''x''] None [] None [] [] []),
         (''a].children[0'', step_node ''y'')] None [] [] []
   in distinct (map fst (nd_cases t)) \<and> \<not> distinct (map fst (walk t ''root'')) \<and>
     (''root.cases[a].children[0]'', step_node ''x'') \<in> set (walk t ''root'') \<and>
     (''root.cases[a].children[0]'', step_node ''y'') \<in> set (walk t ''root'')"
proof -
  have "nat_str 0 = ''0''" by code_simp
  then show ?thesis
    by (simp add: Let_def step_node_def child_path_def cases_path_def)
qed

section \<open>The JSON form reads back\<close>

lemma kind_round_trip [simp]: "kind_of (kind_value k) = Some k"
  by (cases k) (simp_all add: kind_of_def all_kinds_def)

lemma kind_value_strip [simp]: "strip (kind_value k) = kind_value k"
  by (cases k) (simp_all add: strip_def is_space_def)

text \<open>Extra fields: keys of their own, each once. Case labels are a dict's keys and need no condition here.\<close>

definition extra_ok :: "config \<Rightarrow> bool" where
  "extra_ok e \<longleftrightarrow> distinct (map fst e) \<and> list_all (\<lambda>(k, v). k \<notin> set KNOWN_KEYS) e"

fun extras_ok :: "node \<Rightarrow> bool" where
  "extras_ok (Node kind nid label children body cases dflt cfg needs extra) =
     (extra_ok extra \<and> list_all (\<lambda>(l, c). extras_ok c) cases \<and> list_all extras_ok children \<and>
      (case body of None \<Rightarrow> True | Some b \<Rightarrow> extras_ok b) \<and>
      (case dflt of None \<Rightarrow> True | Some b \<Rightarrow> extras_ok b))"

lemma extra_lookup: "extra_ok e \<Longrightarrow> k \<in> set KNOWN_KEYS \<Longrightarrow> map_of e k = None"
  by (force simp: extra_ok_def list_all_iff map_of_eq_None_iff)

lemma extra_lookups:
  assumes "extra_ok e"
  shows "map_of e ''kind'' = None" "map_of e ''id'' = None" "map_of e ''label'' = None"
    "map_of e ''children'' = None" "map_of e ''body'' = None" "map_of e ''cases'' = None"
    "map_of e ''default'' = None" "map_of e ''config'' = None" "map_of e ''needs'' = None"
  by (rule extra_lookup [OF assms], simp add: KNOWN_KEYS_def)+

lemma extra_filter: "extra_ok e \<Longrightarrow> filter (\<lambda>(key, _). key \<notin> set KNOWN_KEYS) e = e"
  by (auto simp: extra_ok_def list_all_iff intro!: filter_id_conv [THEN iffD2])

lemma map_opt_result_inverse:
  "(\<And>x. x \<in> set xs \<Longrightarrow> f (g x) = Some (Inr x)) \<Longrightarrow> map_opt_result f (map g xs) = Some (Inr xs)"
  by (induction xs) auto

lemma iter_of_JNull [simp]: "iter_of JNull = Inr []"
  by (simp add: iter_of_def)

lemma iter_of_JList' [simp]: "iter_of (JList xs) = Inr xs"
  by (cases xs) (auto simp: iter_of_def)

lemma node_to_dict_obj: "\<exists>d. node_to_dict n = JObj d"
  by (cases n) simp

definition node_fields :: "node \<Rightarrow> config" where
  "node_fields n = (case n of Node kind nid label children body cases dflt cfg needs extra \<Rightarrow>
      [(''kind'', JStr (kind_value kind))]
      @ (if nid = [] then [] else [(''id'', JStr nid)])
      @ (if label = [] then [] else [(''label'', JStr label)])
      @ (if children = [] then [] else [(''children'', JList (map node_to_dict children))])
      @ (case body of None \<Rightarrow> [] | Some b \<Rightarrow> [(''body'', node_to_dict b)])
      @ (if cases = [] then [] else [(''cases'', JObj (map (\<lambda>(k, c). (k, node_to_dict c)) cases))])
      @ (case dflt of None \<Rightarrow> [] | Some b \<Rightarrow> [(''default'', node_to_dict b)])
      @ (if cfg = [] then [] else [(''config'', JObj cfg)])
      @ (if needs = [] then [] else [(''needs'', JList (map JStr needs))]))"

lemma node_fields_keys: "set (map fst (node_fields n)) \<subseteq> set KNOWN_KEYS"
  by (cases n) (auto simp: node_fields_def KNOWN_KEYS_def split: option.splits)

lemma node_to_dict_fields: "extra_ok (nd_extra n) \<Longrightarrow> node_to_dict n = JObj (node_fields n @ nd_extra n)"
proof -
  assume ok: "extra_ok (nd_extra n)"
  then have "set (map fst (nd_extra n)) \<inter> set (map fst (node_fields n)) = {}"
    using node_fields_keys [of n] by (fastforce simp: extra_ok_def list_all_iff)
  then have "dict_update (node_fields n) (nd_extra n) = node_fields n @ nd_extra n"
    using ok by (intro dict_update_fresh) (simp_all add: extra_ok_def)
  then show ?thesis by (cases n) (simp add: node_fields_def)
qed

text \<open>What the reader finds under each key.\<close>

lemma fields_lookup:
  assumes "extra_ok extra" and "n = Node kind nid label children body cases dflt cfg needs extra"
  shows "get_or (node_fields n @ extra) ''kind'' dv = JStr (kind_value kind)"
    and "cfg_get (node_fields n @ extra) ''id'' = (if nid = [] then JNull else JStr nid)"
    and "cfg_get (node_fields n @ extra) ''label'' = (if label = [] then JNull else JStr label)"
    and "cfg_get (node_fields n @ extra) ''children''
           = (if children = [] then JNull else JList (map node_to_dict children))"
    and "cfg_get (node_fields n @ extra) ''body'' = (case body of None \<Rightarrow> JNull | Some b \<Rightarrow> node_to_dict b)"
    and "cfg_get (node_fields n @ extra) ''cases''
           = (if cases = [] then JNull else JObj (map (\<lambda>(k, c). (k, node_to_dict c)) cases))"
    and "cfg_get (node_fields n @ extra) ''default'' = (case dflt of None \<Rightarrow> JNull | Some b \<Rightarrow> node_to_dict b)"
    and "cfg_get (node_fields n @ extra) ''config'' = (if cfg = [] then JNull else JObj cfg)"
    and "cfg_get (node_fields n @ extra) ''needs'' = (if needs = [] then JNull else JList (map JStr needs))"
    and "filter (\<lambda>(key, _). key \<notin> set KNOWN_KEYS) (node_fields n @ extra) = extra"
proof -
  have none: "filter (\<lambda>(key, _). key \<notin> set KNOWN_KEYS) (node_fields n) = []"
    using node_fields_keys [of n] by (auto simp: filter_empty_conv)
  show "filter (\<lambda>(key, _). key \<notin> set KNOWN_KEYS) (node_fields n @ extra) = extra"
    by (simp add: none extra_filter [OF assms(1)])
qed (simp_all add: assms(2) node_fields_def cfg_get_def get_or_def extra_lookups [OF assms(1)] split: option.splits)

lemma or_str_id: "or_str py_str (if s = [] then JNull else JStr s) = s"
  by simp

lemma needs_back: "map (text_of py_str) (map JStr ss) = ss"
  by (simp add: comp_def)

lemma as_dict_back: "as_dict (if cfg = [] then JNull else JObj cfg) = Inr cfg"
  by simp

lemma iter_back: "iter_of (if xs = [] then JNull else JList (map f xs)) = Inr (map f xs)"
  by simp

lemma node_bound:
  assumes "n = Node kind nid label children body cases dflt cfg needs extra"
  shows "c \<in> set children \<Longrightarrow> size c < size n" "body = Some c \<Longrightarrow> size c < size n"
    "(l, c) \<in> set cases \<Longrightarrow> size c < size n" "dflt = Some c \<Longrightarrow> size c < size n"
  using assms size_list_estimation' [of c children "size c" size] case_node_size [of l c cases] by auto

lemma opt_node_back:
  assumes "\<And>c. v = Some c \<Longrightarrow> node_from_dict py_str k (node_to_dict c) = Some (Inr c)"
  shows "(case (case v of None \<Rightarrow> JNull | Some c \<Rightarrow> node_to_dict c) of
      JObj b \<Rightarrow> bind_result (node_from_dict py_str k (JObj b)) (\<lambda>n. Some (Inr (Some n)))
    | _ \<Rightarrow> Some (Inr None)) = Some (Inr v)"
proof (cases v)
  case (Some c)
  obtain d where "node_to_dict c = JObj d" using node_to_dict_obj by blast
  then show ?thesis using assms [OF Some] Some by simp
qed simp

text \<open>
  The stored spec is lossless: a tree written with \<open>to_dict\<close> reads back with \<open>from_dict\<close> as the very
  same tree, unknown fields of a newer engine included, whatever its shape; fuel beyond the tree's
  size is enough for the reader.
\<close>

theorem node_round_trip:
  assumes "extras_ok n" and "size n < fuel"
  shows "node_from_dict py_str fuel (node_to_dict n) = Some (Inr n)"
  using assms
proof (induction fuel arbitrary: n)
  case (Suc k)
  obtain kind nid label children body cases dflt cfg needs extra where
    n: "n = Node kind nid label children body cases dflt cfg needs extra" by (cases n)
  have ex: "extra_ok extra" using Suc.prems(1) n by simp
  have reads: "node_from_dict py_str k (node_to_dict c) = Some (Inr c)"
    if "extras_ok c" "size c < size n" for c
    using that Suc.prems(2) by (intro Suc.IH) simp_all
  note bound = node_bound [OF n]
  have kids: "map_opt_result (node_from_dict py_str k) (map node_to_dict children) = Some (Inr children)"
    using Suc.prems(1) n bound(1) by (intro map_opt_result_inverse reads) (auto simp: list_all_iff)
  have one: "node_from_dict py_str k (node_to_dict c) = Some (Inr c)" if "body = Some c \<or> dflt = Some c" for c
    using that Suc.prems(1) n bound(2,4) by (intro reads) auto
  have case_back: "(case (case lc of (l, c) \<Rightarrow> (l, node_to_dict c)) of (l, c) \<Rightarrow>
        bind_result (node_from_dict py_str k c) (\<lambda>n. Some (Inr (l, n)))) = Some (Inr lc)"
    if "lc \<in> set cases" for lc
  proof -
    obtain l c where lc: "lc = (l, c)" by (cases lc)
    have "node_from_dict py_str k (node_to_dict c) = Some (Inr c)"
      using that Suc.prems(1) n lc bound(3) by (intro reads) (auto simp: list_all_iff)
    then show ?thesis by (simp add: lc)
  qed
  have cs: "map_opt_result (\<lambda>(l, c). bind_result (node_from_dict py_str k c) (\<lambda>n. Some (Inr (l, n))))
      (map (\<lambda>(l, c). (l, node_to_dict c)) cases) = Some (Inr cases)"
    by (rule map_opt_result_inverse) (rule case_back)
  have b: "(case cfg_get (node_fields n @ extra) ''body'' of
      JObj b \<Rightarrow> bind_result (node_from_dict py_str k (JObj b)) (\<lambda>n. Some (Inr (Some n)))
    | _ \<Rightarrow> Some (Inr None)) = Some (Inr body)"
    unfolding fields_lookup(5) [OF ex n] using one by (intro opt_node_back) auto
  have d: "(case cfg_get (node_fields n @ extra) ''default'' of
      JObj b \<Rightarrow> bind_result (node_from_dict py_str k (JObj b)) (\<lambda>n. Some (Inr (Some n)))
    | _ \<Rightarrow> Some (Inr None)) = Some (Inr dflt)"
    unfolding fields_lookup(7) [OF ex n] using one by (intro opt_node_back) auto
  have c: "(let v = cfg_get (node_fields n @ extra) ''cases'' in
      if \<not> truthy v then Some (Inr [])
      else case v of
        JObj kvs \<Rightarrow> map_opt_result (\<lambda>(l, c).
            bind_result (node_from_dict py_str k c) (\<lambda>n. Some (Inr (l, n)))) kvs
      | _ \<Rightarrow> Some (Inl AttributeError)) = Some (Inr cases)"
    unfolding fields_lookup(6) [OF ex n] using cs by (simp add: Let_def)
  have js: "node_to_dict n = JObj (node_fields n @ extra)"
    using node_to_dict_fields [of n] ex n by simp
  show ?case
    unfolding js node_from_dict.simps json.case b c d
    by (simp only: fields_lookup [OF ex n] text_of.simps kind_value_strip kind_round_trip option.case
        iter_back sum.case kids bind_result.simps or_str_id as_dict_back needs_back, simp only: n)
qed simp

theorem node_round_trip_witness:
  "node_from_dict (\<lambda>_. []) 100 (node_to_dict review_tree) = Some (Inr review_tree)"
  by (rule node_round_trip; code_simp)

section \<open>Caps handed down\<close>

lemma round_half_even_mono: "p \<le> q \<Longrightarrow> round_half_even p \<le> round_half_even q"
proof (cases "\<lfloor>p\<rfloor> = \<lfloor>q\<rfloor>")
  case False
  assume "p \<le> q"
  then have "\<lfloor>p\<rfloor> < \<lfloor>q\<rfloor>" using False floor_mono [of p q] by linarith
  then have "\<lfloor>p\<rfloor> + 1 \<le> \<lfloor>q\<rfloor>" by simp
  then show ?thesis unfolding round_half_even_def Let_def by (simp split: if_splits)
next
  case True
  assume "p \<le> q"
  then show ?thesis using True by (auto simp: round_half_even_def Let_def)
qed

lemma round6_mono: "p \<le> q \<Longrightarrow> round6 p \<le> round6 q"
  unfolding round6_def
  by (intro divide_right_mono of_int_le_iff [THEN iffD2] round_half_even_mono mult_right_mono) auto

lemma round6_fixed: "round6 (of_int k / 1000000) = of_int k / 1000000"
  by (simp add: round6_def round_half_even_def)

lemma round6_least: "MIN_COST_CAP \<le> q \<Longrightarrow> MIN_COST_CAP \<le> round6 q"
  using round6_mono [of MIN_COST_CAP q] round6_fixed [of 1] by (simp add: MIN_COST_CAP_def)

text \<open>
  A cap never turns into no cap: what is left after any spending is still a cap in every dimension
  that had one, at least the smallest there is, and no cap appears where there was none.
\<close>

theorem left_after_stays_capped:
  "(max_tokens (left_after b tokens dollars) > 0 \<longleftrightarrow> max_tokens b > 0) \<and>
   (max_cost (left_after b tokens dollars) > 0 \<longleftrightarrow> max_cost b > 0) \<and>
   is_unlimited (left_after b tokens dollars) = is_unlimited b"
proof -
  have "0 < round6 (max MIN_COST_CAP x)" for x
    using round6_least [of "max MIN_COST_CAP x"] by (simp add: MIN_COST_CAP_def)
  then show ?thesis by (auto simp: left_after_def is_unlimited_def not_le)
qed

text \<open>
  A run started by another run is held inside both budgets: in each dimension the combined cap is
  no wider than either cap that is set, and it is off only when both are off. (Dollar caps are whole
  millionths, as every stored cap is.)
\<close>

theorem within_caps_is_tighter:
  assumes "max_cost own = of_int i / 1000000" and "max_cost outer = of_int j / 1000000"
  shows "(max_tokens own > 0 \<longrightarrow> 0 < max_tokens (within_caps own outer) \<and>
            max_tokens (within_caps own outer) \<le> max_tokens own) \<and>
         (max_tokens outer > 0 \<longrightarrow> 0 < max_tokens (within_caps own outer) \<and>
            max_tokens (within_caps own outer) \<le> max_tokens outer) \<and>
         (max_cost own > 0 \<longrightarrow> 0 < max_cost (within_caps own outer) \<and>
            max_cost (within_caps own outer) \<le> max_cost own) \<and>
         (max_cost outer > 0 \<longrightarrow> 0 < max_cost (within_caps own outer) \<and>
            max_cost (within_caps own outer) \<le> max_cost outer) \<and>
         is_unlimited (within_caps own outer) = (is_unlimited own \<and> is_unlimited outer)"
proof -
  let ?t = "tighter (max_cost own) (max_cost outer)"
  have "?t = max_cost own \<or> ?t = max_cost outer" by (auto simp: tighter_def min_def max_def)
  then have "round6 ?t = ?t" using assms round6_fixed by metis
  then have eq: "within_caps own outer
      = \<lparr>max_tokens = tighter (max_tokens own) (max_tokens outer), max_cost = ?t\<rparr>"
    by (simp add: within_caps_def)
  show ?thesis unfolding eq is_unlimited_def by (auto simp: tighter_def)
qed

theorem within_caps_is_tighter_witness:
  "max_tokens (within_caps \<lparr>max_tokens = 0, max_cost = 5\<rparr> \<lparr>max_tokens = 900, max_cost = 2\<rparr>) \<le> 900"
proof -
  have "(5 :: rat) = of_int 5000000 / 1000000" "(2 :: rat) = of_int 2000000 / 1000000" by simp_all
  then show ?thesis
    using within_caps_is_tighter [of "\<lparr>max_tokens = 0, max_cost = 5\<rparr>" 5000000
        "\<lparr>max_tokens = 900, max_cost = 2\<rparr>" 2000000] by simp
qed

end
