(* ===== verification/TaskPool.thy ===== *)
theory TaskPool
  imports WfModels
begin

text \<open>
  \<^verbatim>\<open>workflows/pool.py\<close>: the leases that keep two sessions off one task (the decision and the files it is
  kept in), what a finished or failed task does to the tasks waiting on it, hand-offs, and blueprint
  sessions. The lease files are an association list from file name to what \<open>json.loads\<close> gives for it
  (\<open>None\<close> for a file that does not parse). Each operation of the store runs under its lock and is one
  step here, but the sweep, which takes no lock, is two.
\<close>

section \<open>Leases\<close>

definition MAX_LEASE_SECS :: int where "MAX_LEASE_SECS = 3600"
definition DEFAULT_LEASE_SECS :: int where "DEFAULT_LEASE_SECS = 900"

datatype lease_error = HELD_BY_OTHER | NOT_HELD | WRONG_HOLDER | NO_HOLDER_ID

record lease =
  le_task :: string
  le_holder :: string
  acquired_at :: rat
  ttl_seconds :: int
  renewals :: int

definition expires_at :: "lease \<Rightarrow> rat" where
  "expires_at l = acquired_at l + of_int (min (max 1 (ttl_seconds l)) MAX_LEASE_SECS)"

definition expired :: "lease \<Rightarrow> rat \<Rightarrow> bool" where
  "expired l now = (now \<ge> expires_at l)"

definition renew :: "lease \<Rightarrow> string \<Rightarrow> rat \<Rightarrow> lease_error + lease" where
  "renew existing holder now =
     (if le_holder existing \<noteq> holder then Inl WRONG_HOLDER
      else if expired existing now then Inl NOT_HELD
      else Inr \<lparr>le_task = le_task existing, le_holder = holder, acquired_at = now,
                ttl_seconds = ttl_seconds existing, renewals = renewals existing + 1\<rparr>)"

definition acquire :: "lease option \<Rightarrow> string \<Rightarrow> string \<Rightarrow> rat \<Rightarrow> int \<Rightarrow> lease_error + lease" where
  "acquire existing task holder now ttl =
     (let fresh = Inr \<lparr>le_task = task, le_holder = holder, acquired_at = now,
                       ttl_seconds = ttl, renewals = 0\<rparr>
      in if strip holder = [] then Inl NO_HOLDER_ID
         else case existing of
                None \<Rightarrow> fresh
              | Some l \<Rightarrow>
                  if \<not> expired l now then
                    (if le_holder l = holder then renew l holder now else Inl HELD_BY_OTHER)
                  else fresh)"

text \<open>\<open>release\<close>: the error, if any.\<close>

definition release :: "lease option \<Rightarrow> string \<Rightarrow> lease_error option" where
  "release existing holder =
     (case existing of
        None \<Rightarrow> Some NOT_HELD
      | Some l \<Rightarrow> if le_holder l \<noteq> holder then Some WRONG_HOLDER else None)"

definition sweep_expired :: "lease list \<Rightarrow> rat \<Rightarrow> string list" where
  "sweep_expired leases now = sort (map le_task (filter (\<lambda>l. expired l now) leases))"

section \<open>The lease files\<close>

definition lease_to_dict :: "lease \<Rightarrow> json" where
  "lease_to_dict l = JObj
     [(''task_id'', JStr (le_task l)), (''holder'', JStr (le_holder l)),
      (''acquired_at'', JFloat (acquired_at l)), (''ttl_seconds'', JInt (ttl_seconds l)),
      (''renewals'', JInt (renewals l)), (''expires_at'', JFloat (expires_at l))]"

text \<open>
  What \<open>str()\<close> gives for a value that is no string, and \<open>int()\<close> and \<open>float()\<close> for a string: the builtins
  the readers call.
\<close>

record builtins =
  py_str :: "json \<Rightarrow> string"
  int_text :: "string \<Rightarrow> int option"
  float_text :: "string \<Rightarrow> rat option"

fun dict_or_empty :: "json \<Rightarrow> decode_error + config" where
  "dict_or_empty (JObj d) = Inr d"
| "dict_or_empty v = (if truthy v then Inl AttributeError else Inr [])"

definition str_field :: "builtins \<Rightarrow> json \<Rightarrow> string" where
  "str_field bi v = (if truthy v then text_of (py_str bi) v else [])"

definition lease_from_dict :: "builtins \<Rightarrow> json \<Rightarrow> decode_error + lease" where
  "lease_from_dict bi v =
     (case dict_or_empty v of Inl e \<Rightarrow> Inl e | Inr d \<Rightarrow>
      (case float_of_field (float_text bi) (cfg_get d ''acquired_at'') of Inl e \<Rightarrow> Inl e | Inr at_time \<Rightarrow>
      (case (if truthy (cfg_get d ''ttl_seconds'')
             then int_of_field (int_text bi) (cfg_get d ''ttl_seconds'')
             else Inr DEFAULT_LEASE_SECS) of Inl e \<Rightarrow> Inl e | Inr ttl \<Rightarrow>
      (case int_of_field (int_text bi) (cfg_get d ''renewals'') of Inl e \<Rightarrow> Inl e | Inr n \<Rightarrow>
       Inr \<lparr>le_task = str_field bi (cfg_get d ''task_id''),
            le_holder = str_field bi (cfg_get d ''holder''),
            acquired_at = at_time, ttl_seconds = ttl, renewals = n\<rparr>))))"

type_synonym lease_files = "(string \<times> json option) list"

definition safe_path_char :: "char \<Rightarrow> char" where
  "safe_path_char c = (if c \<in> set ''abcdefghijklmnopqrstuvwxyzABCDEFGHIJKLMNOPQRSTUVWXYZ0123456789._-''
     then c else CHR ''_'')"

definition lease_path :: "string \<Rightarrow> string" where
  "lease_path task = map safe_path_char (if task = [] then ''unknown'' else task) @ ''.json''"

text \<open>
  \<open>read_lease\<close>: no file, a file that does not parse, or one without a holder is no lease. A record whose
  numbers do not read raises, outside the \<open>try\<close>.
\<close>

definition read_lease_at :: "builtins \<Rightarrow> lease_files \<Rightarrow> string \<Rightarrow> decode_error + lease option" where
  "read_lease_at bi fs path =
     (case map_of fs path of
        Some (Some (JObj d)) \<Rightarrow>
          if \<not> truthy (cfg_get d ''holder'') then Inr None
          else (case lease_from_dict bi (JObj d) of Inl e \<Rightarrow> Inl e | Inr l \<Rightarrow> Inr (Some l))
      | _ \<Rightarrow> Inr None)"

definition read_lease :: "builtins \<Rightarrow> lease_files \<Rightarrow> string \<Rightarrow> decode_error + lease option" where
  "read_lease bi fs task = read_lease_at bi fs (lease_path task)"

fun write_file :: "string \<Rightarrow> json option \<Rightarrow> lease_files \<Rightarrow> lease_files" where
  "write_file p v [] = [(p, v)]"
| "write_file p v ((q, w) # fs) = (if q = p then (p, v) # fs else (q, w) # write_file p v fs)"

definition unlink :: "string \<Rightarrow> lease_files \<Rightarrow> lease_files" where
  "unlink p fs = filter (\<lambda>(q, _). q \<noteq> p) fs"

definition write_lease :: "lease \<Rightarrow> lease_files \<Rightarrow> lease_files" where
  "write_lease l fs = write_file (lease_path (le_task l)) (Some (lease_to_dict l)) fs"

datatype claim_result = Granted lease | Refused lease_error | Raised decode_error

text \<open>\<open>claim_task\<close>, by the caller that got the lock (one that did not is refused as held).\<close>

definition claim_task ::
  "builtins \<Rightarrow> string \<Rightarrow> string \<Rightarrow> rat \<Rightarrow> int \<Rightarrow> lease_files \<Rightarrow> lease_files \<times> claim_result" where
  "claim_task bi task holder now ttl fs =
     (case read_lease bi fs task of
        Inl e \<Rightarrow> (fs, Raised e)
      | Inr existing \<Rightarrow>
          (case acquire existing task holder now ttl of
             Inl e \<Rightarrow> (fs, Refused e)
           | Inr l \<Rightarrow> (write_lease l fs, Granted l)))"

datatype release_result = Released | NotReleased lease_error | ReleaseRaised decode_error

definition release_task :: "builtins \<Rightarrow> string \<Rightarrow> string \<Rightarrow> lease_files \<Rightarrow> lease_files \<times> release_result" where
  "release_task bi task holder fs =
     (case read_lease bi fs task of
        Inl e \<Rightarrow> (fs, ReleaseRaised e)
      | Inr existing \<Rightarrow>
          (case release existing holder of
             Some e \<Rightarrow> (fs, NotReleased e)
           | None \<Rightarrow> (unlink (lease_path task) fs, Released)))"

text \<open>
  One file of \<open>sweep_task_leases\<close>: what the content read says to do. \<open>None\<close>: keep; \<open>Some\<close>: delete the
  file, and the task id reported as freed, if any.
\<close>

definition sweep_verdict :: "builtins \<Rightarrow> rat \<Rightarrow> json option \<Rightarrow> string option option" where
  "sweep_verdict bi now content =
     (case content of
        None \<Rightarrow> Some None
      | Some v \<Rightarrow>
          (case lease_from_dict bi v of
             Inl _ \<Rightarrow> Some None
           | Inr l \<Rightarrow> if expired l now then Some (Some (le_task l)) else None))"

fun sweep_paths :: "builtins \<Rightarrow> rat \<Rightarrow> (string \<times> json option) list \<Rightarrow> lease_files \<times> string list
    \<Rightarrow> lease_files \<times> string list" where
  "sweep_paths bi now [] st = st"
| "sweep_paths bi now ((p, v) # rest) (fs, freed) =
     (case sweep_verdict bi now v of
        None \<Rightarrow> sweep_paths bi now rest (fs, freed)
      | Some None \<Rightarrow> sweep_paths bi now rest (unlink p fs, freed)
      | Some (Some t) \<Rightarrow> sweep_paths bi now rest (unlink p fs, freed @ [t]))"

definition sweep_task_leases :: "builtins \<Rightarrow> rat \<Rightarrow> lease_files \<Rightarrow> lease_files \<times> string list" where
  "sweep_task_leases bi now fs = sweep_paths bi now (sort_key fst fs) (fs, [])"

section \<open>Evented unblock\<close>

datatype unblock_kind = UNBLOCK | CASCADE_FAILED | UNBLOCK_NONE

record transition =
  tr_task :: string
  tr_kind :: unblock_kind
  blocked_kind :: string
  tr_reason :: string

definition done_words :: "string list" where
  "done_words = [''done'', ''complete'', ''completed'']"

definition failed_words :: "string list" where
  "failed_words = [''failed'', ''cancelled'', ''canceled'']"

text \<open>\<open>", ".join(xs)\<close>.\<close>

fun join_with :: "string \<Rightarrow> string list \<Rightarrow> string" where
  "join_with sep [] = []"
| "join_with sep [x] = x"
| "join_with sep (x # y # ys) = x @ sep @ join_with sep (y # ys)"

definition status_of :: "(string \<times> string) list \<Rightarrow> string \<Rightarrow> string" where
  "status_of statuses t = (case map_of statuses t of None \<Rightarrow> ''open'' | Some s \<Rightarrow> s)"

definition plan_one ::
  "string \<Rightarrow> string \<Rightarrow> string \<Rightarrow> (string \<times> string) list \<Rightarrow> string \<times> string list \<Rightarrow> transition list" where
  "plan_one blocker status reason statuses dep =
     (case dep of (dep_id, prereqs) \<Rightarrow>
       if blocker \<notin> set prereqs then []
       else if status \<in> set failed_words then
         [\<lparr>tr_task = dep_id, tr_kind = CASCADE_FAILED, blocked_kind = ''dependency_failed'',
           tr_reason = blocker @ '' '' @ status @ (if reason = [] then [] else '': '' @ reason)\<rparr>]
       else if status \<notin> set done_words then []
       else
         (let unfinished = filter (\<lambda>p. status_of statuses p \<notin> set done_words)
                (filter (\<lambda>p. p \<noteq> blocker) prereqs)
          in if unfinished \<noteq> [] then
               [\<lparr>tr_task = dep_id, tr_kind = UNBLOCK_NONE, blocked_kind = [],
                 tr_reason = ''still waiting on '' @ join_with '', '' (sort unfinished)\<rparr>]
             else [\<lparr>tr_task = dep_id, tr_kind = UNBLOCK, blocked_kind = [], tr_reason = []\<rparr>]))"

text \<open>\<open>dependents\<close> is a dict: its keys are distinct.\<close>

definition plan_unblock ::
  "string \<Rightarrow> string \<Rightarrow> string \<Rightarrow> (string \<times> string list) list \<Rightarrow> (string \<times> string) list \<Rightarrow> transition list" where
  "plan_unblock blocker status reason dependents statuses =
     concat (map (plan_one blocker status reason statuses) (sort_key fst dependents))"

definition coalesce :: "transition list \<Rightarrow> transition list \<times> string" where
  "coalesce ts =
     (let cascaded = filter (\<lambda>t. tr_kind t = CASCADE_FAILED) ts in
      case cascaded of
        [] \<Rightarrow> (ts, [])
      | [t] \<Rightarrow> (ts, tr_reason t)
      | t # _ \<Rightarrow> (ts, nat_str (length cascaded) @ '' tasks blocked by one upstream failure: '' @ tr_reason t))"

definition should_fire_completion :: "string \<Rightarrow> string \<Rightarrow> bool" where
  "should_fire_completion previous new = (new \<in> set done_words \<and> previous \<notin> set done_words)"

section \<open>Hand-offs\<close>

record hand_off =
  target_def :: string
  ho_condition :: string
  context_fields :: "string list"
  requires_user_request :: bool

definition suggest_handoffs :: "string \<Rightarrow> bool \<Rightarrow> (string \<times> hand_off list) list \<Rightarrow> hand_off list" where
  "suggest_handoffs def_name user_requested edges =
     filter (\<lambda>e. \<not> (requires_user_request e \<and> \<not> user_requested))
       (case map_of edges def_name of None \<Rightarrow> [] | Some es \<Rightarrow> es)"

text \<open>A dict comprehension: a field named twice keeps its first place.\<close>

definition carry_context :: "hand_off \<Rightarrow> config \<Rightarrow> config" where
  "carry_context edge outcome =
     map (\<lambda>k. (k, the (map_of outcome k)))
       (filter (\<lambda>k. map_of outcome k \<noteq> None) (push_all (context_fields edge) []))"

section \<open>Blueprint sessions\<close>

record blueprint =
  bp_id :: string
  bp_title :: string
  bp_messages :: "string list"

record hydration =
  hy_template :: string
  hy_session :: string
  hydrated_at :: rat

text \<open>Every message has the role \<open>assistant\<close>; a blank step keeps its number and writes nothing.\<close>

definition build_blueprint :: "string \<Rightarrow> string \<Rightarrow> string list \<Rightarrow> string \<Rightarrow> blueprint" where
  "build_blueprint def_name title steps digest =
     \<lparr>bp_id = ''bp-'' @ def_name, bp_title = (if title = [] then def_name else title),
      bp_messages = (if strip digest = [] then [] else [strip digest])
        @ map (\<lambda>(i, s). nat_str i @ ''. '' @ s)
            (filter (\<lambda>(i, s). s \<noteq> []) (zip [1..<Suc (length steps)] (map strip steps)))\<rparr>"

definition plan_hydration ::
  "blueprint \<Rightarrow> string \<Rightarrow> rat \<Rightarrow> hydration option \<Rightarrow> string list \<times> hydration \<times> bool" where
  "plan_hydration bp session now existing =
     (case existing of
        Some h \<Rightarrow> if hy_template h = bp_id bp \<and> hy_session h = session then ([], h, False)
          else (bp_messages bp, \<lparr>hy_template = bp_id bp, hy_session = session, hydrated_at = now\<rparr>, True)
      | None \<Rightarrow> (bp_messages bp, \<lparr>hy_template = bp_id bp, hy_session = session, hydrated_at = now\<rparr>, True))"

datatype surface_route = RoutePassive | RouteBlueprint | RouteRun

definition route :: "string \<Rightarrow> bool \<Rightarrow> int \<Rightarrow> bool \<Rightarrow> bool \<Rightarrow> surface_route" where
  "route surface_mode has_gates max_turns has_schema guided =
     (if has_gates \<or> has_schema \<or> max_turns > 1 then RouteRun
      else if guided \<and> surface_mode \<noteq> ''off'' then RouteBlueprint
      else RoutePassive)"

end
