(* ===== verification/PoolFacts.thy ===== *)
theory PoolFacts
  imports TaskPool
begin

text \<open>
  What the task pool promises. An exclusive claim is an interface (\<open>claim_rule\<close>): while a claim lives,
  no attempt by another holder changes it, and it changes hands only once it has lapsed; \<open>acquire\<close> is
  its instance. On the lease files that gives the claim of the module: two sessions never hold one
  task, over any sequence of locked operations. The sweep, which takes no lock, breaks it.
\<close>

section \<open>Exclusive claims\<close>

definition attempt_claim :: "('c option \<Rightarrow> 'h \<Rightarrow> 't \<Rightarrow> 'c option) \<Rightarrow> 'h \<times> 't \<Rightarrow> 'c option \<Rightarrow> 'c option" where
  "attempt_claim grant ht c = (case ht of (h, t) \<Rightarrow> case grant c h t of None \<Rightarrow> c | Some c' \<Rightarrow> Some c')"

locale claim_rule =
  fixes holder_of :: "'c \<Rightarrow> 'h" and live :: "'c \<Rightarrow> ('t :: linorder) \<Rightarrow> bool"
    and grant :: "'c option \<Rightarrow> 'h \<Rightarrow> 't \<Rightarrow> 'c option"
  assumes grant_holder: "grant e h t = Some c \<Longrightarrow> holder_of c = h"
    and grant_live: "grant e h t = Some c \<Longrightarrow> live c t"
    and grant_excl: "live c t \<Longrightarrow> holder_of c \<noteq> h \<Longrightarrow> grant (Some c) h t = None"
    and live_earlier: "live c t \<Longrightarrow> t' \<le> t \<Longrightarrow> live c t'"
begin

lemma held_against_others:
  assumes "live c t" and "\<forall>(h, u) \<in> set tries. h \<noteq> holder_of c \<and> u \<le> t"
  shows "fold (attempt_claim grant) tries (Some c) = Some c"
  using assms
proof (induction tries)
  case (Cons ht tries)
  obtain h u where ht: "ht = (h, u)" by (cases ht)
  then have "grant (Some c) h u = None" using Cons.prems by (intro grant_excl live_earlier [of c t u]) auto
  then show ?case using Cons ht by (simp add: attempt_claim_def)
qed simp

lemma handover_after_lapse:
  "grant (Some c) h t = Some c' \<Longrightarrow> h \<noteq> holder_of c \<Longrightarrow> \<not> live c t \<and> live c' t"
  using grant_excl [of c t h] grant_live by force

end

text \<open>The lease decision is such a rule, whatever the task and the length asked for.\<close>

definition lease_grant :: "string \<Rightarrow> int \<Rightarrow> lease option \<Rightarrow> string \<Rightarrow> rat \<Rightarrow> lease option" where
  "lease_grant task ttl existing holder now =
     (case acquire existing task holder now ttl of Inl _ \<Rightarrow> None | Inr l \<Rightarrow> Some l)"

lemma ttl_bounds: "1 \<le> min (max 1 (ttl :: int)) MAX_LEASE_SECS" "min (max 1 ttl) MAX_LEASE_SECS \<le> 3600"
  by (auto simp: MAX_LEASE_SECS_def)

lemma expires_later: "acquired_at l + 1 \<le> expires_at l"
  using ttl_bounds(1) [of "ttl_seconds l"] by (simp add: expires_at_def)

lemma acquire_Inr:
  assumes "acquire existing task holder now ttl = Inr l"
  shows "le_holder l = holder" "acquired_at l = now" "strip holder \<noteq> []"
    "(le_task l = task \<and> ttl_seconds l = ttl \<and> renewals l = 0 \<and>
       (\<forall>e. existing = Some e \<longrightarrow> expired e now)) \<or>
     (\<exists>e. existing = Some e \<and> \<not> expired e now \<and> le_holder e = holder \<and> le_task l = le_task e \<and>
       ttl_seconds l = ttl_seconds e \<and> renewals l = renewals e + 1)"
  using assms by (auto simp: acquire_def renew_def Let_def split: if_splits option.splits)

lemma acquire_other:
  "\<not> expired e now \<Longrightarrow> le_holder e \<noteq> holder \<Longrightarrow>
   acquire (Some e) task holder now ttl = Inl (if strip holder = [] then NO_HOLDER_ID else HELD_BY_OTHER)"
  by (simp add: acquire_def)

interpretation lease_rule: claim_rule le_holder "\<lambda>l now. \<not> expired l now" "lease_grant task ttl"
  for task :: string and ttl :: int
proof unfold_locales
  fix c :: "lease option" and h t c'
  assume granted: "lease_grant task ttl c h t = Some c'"
  then have l: "acquire c task h t ttl = Inr c'" by (auto simp: lease_grant_def split: sum.splits)
  show "le_holder c' = h" by (rule acquire_Inr(1) [OF l])
  show "\<not> expired c' t" using acquire_Inr(2) [OF l] expires_later [of c'] by (simp add: expired_def)
next
  fix c :: lease and h t
  assume "\<not> expired c t" "le_holder c \<noteq> h"
  then show "lease_grant task ttl (Some c) h t = None" by (simp add: lease_grant_def acquire_other)
qed (simp add: expired_def)

text \<open>
  A lease is bounded and proves its holder alive: whatever length is asked for, a granted lease
  lives from the moment it is granted for at least a second and at most an hour; it changes hands
  only after it has lapsed, and the taker then starts with no renewals to its name.
\<close>

theorem lease_is_bounded_and_handed_over_late:
  assumes "acquire existing task holder now ttl = Inr l"
  shows "\<not> expired l now \<and> now + 1 \<le> expires_at l \<and> expires_at l \<le> now + 3600 \<and>
    (\<forall>e. existing = Some e \<longrightarrow> le_holder e \<noteq> holder \<longrightarrow> expired e now \<and> renewals l = 0)"
proof -
  have granted: "lease_grant task ttl existing holder now = Some l" using assms by (simp add: lease_grant_def)
  have "acquired_at l = now" by (rule acquire_Inr(2) [OF assms])
  moreover have "(of_int (min (max 1 (ttl_seconds l)) MAX_LEASE_SECS) :: rat) \<le> of_int 3600"
    by (simp only: of_int_le_iff ttl_bounds)
  ultimately have "now + 1 \<le> expires_at l \<and> expires_at l \<le> now + 3600"
    using expires_later [of l] by (simp add: expires_at_def)
  moreover have "expired e now \<and> renewals l = 0" if "existing = Some e" "le_holder e \<noteq> holder" for e
    using acquire_Inr(4) [OF assms] that lease_rule.handover_after_lapse [of task ttl e holder now l] granted
    by auto
  ultimately show ?thesis using lease_rule.grant_live [OF granted] by blast
qed

theorem lease_is_bounded_and_handed_over_late_witness:
  "expires_at \<lparr>le_task = ''t-1'', le_holder = ''s2'', acquired_at = 2000, ttl_seconds = 86400, renewals = 0\<rparr> \<le> 5600"
proof -
  let ?old = "\<lparr>le_task = ''t-1'', le_holder = ''s1'', acquired_at = 0, ttl_seconds = 900, renewals = 4\<rparr>"
  have "acquire (Some ?old) ''t-1'' ''s2'' 2000 86400
    = Inr \<lparr>le_task = ''t-1'', le_holder = ''s2'', acquired_at = 2000, ttl_seconds = 86400, renewals = 0\<rparr>"
    by (simp add: acquire_def expired_def expires_at_def MAX_LEASE_SECS_def strip_def is_space_def)
  from lease_is_bounded_and_handed_over_late [OF this] show ?thesis by simp
qed

section \<open>The files\<close>

text \<open>What a reader sees of a lease that was written: a length of \<open>0\<close> reads as the default one.\<close>

definition as_stored :: "lease \<Rightarrow> lease" where
  "as_stored l = (if ttl_seconds l = 0 then l\<lparr>ttl_seconds := DEFAULT_LEASE_SECS\<rparr> else l)"

lemma str_field_JStr [simp]: "str_field bi (JStr s) = s"
  by (simp add: str_field_def)

lemma int_of_field_JInt' [simp]: "int_of_field f (JInt i) = Inr i"
  by (auto simp: int_of_field_def)

lemma float_of_field_JFloat [simp]: "float_of_field f (JFloat q) = Inr q"
  by (auto simp: float_of_field_def)

lemma lease_written_and_read: "lease_from_dict bi (lease_to_dict l) = Inr (as_stored l)"
  by (simp add: lease_from_dict_def lease_to_dict_def cfg_get_def as_stored_def)

text \<open>
  A lease survives its file: what \<open>claim_task\<close> writes, every reader reads back as the very same claim.
  (A length of zero is the exception: it is granted for one second and reads back as fifteen minutes.)
\<close>

theorem lease_round_trip:
  assumes "ttl_seconds l \<noteq> 0"
  shows "lease_from_dict bi (lease_to_dict l) = Inr l"
  using lease_written_and_read [of bi l] assms by (simp add: as_stored_def)

definition demo_lease :: lease where
  "demo_lease = \<lparr>le_task = ''t-7'', le_holder = ''s1'', acquired_at = 100, ttl_seconds = 60, renewals = 2\<rparr>"

definition demo_builtins :: builtins where
  "demo_builtins = \<lparr>py_str = (\<lambda>_. ''?''), int_text = (\<lambda>_. None), float_text = (\<lambda>_. None)\<rparr>"

theorem lease_round_trip_witness:
  "lease_from_dict demo_builtins (lease_to_dict demo_lease) = Inr demo_lease"
  by (rule lease_round_trip) (simp add: demo_lease_def)

theorem zero_length_lease_grows:
  "\<exists>l r. acquire None ''t'' ''s'' 0 0 = Inr l \<and> expires_at l = 1 \<and>
     lease_from_dict bi (lease_to_dict l) = Inr r \<and> expires_at r = 900"
  by (simp add: acquire_def expires_at_def MAX_LEASE_SECS_def strip_def is_space_def
      lease_written_and_read as_stored_def DEFAULT_LEASE_SECS_def)

section \<open>Any sequence of locked operations\<close>

text \<open>
  The files hold each lease under its own name: one file per name, and a record read from it names a
  task that leads to that file. Every operation keeps it.
\<close>

definition filed :: "builtins \<Rightarrow> lease_files \<Rightarrow> bool" where
  "filed bi fs \<longleftrightarrow> distinct (map fst fs) \<and>
     (\<forall>p l. read_lease_at bi fs p = Inr (Some l) \<longrightarrow> lease_path (le_task l) = p)"

datatype lease_op = Claim string string rat int | Free string string

fun lease_step :: "builtins \<Rightarrow> lease_op \<Rightarrow> lease_files \<Rightarrow> lease_files" where
  "lease_step bi (Claim task holder now ttl) fs = fst (claim_task bi task holder now ttl fs)"
| "lease_step bi (Free task holder) fs = fst (release_task bi task holder fs)"

text \<open>An operation of somebody else, at a time the lease still runs.\<close>

fun by_other :: "lease \<Rightarrow> lease_op \<Rightarrow> bool" where
  "by_other l (Claim task holder now ttl) = (holder \<noteq> le_holder l \<and> now < expires_at l)"
| "by_other l (Free task holder) = (holder \<noteq> le_holder l)"

lemma map_of_write_file: "map_of (write_file p v fs) q = (if q = p then Some v else map_of fs q)"
  by (induction fs) auto

lemma write_file_keys:
  "map fst (write_file p v fs) = (if p \<in> set (map fst fs) then map fst fs else map fst fs @ [p])"
  by (induction fs) force+

lemma distinct_write_file: "distinct (map fst fs) \<Longrightarrow> distinct (map fst (write_file p v fs))"
  by (simp add: write_file_keys)

lemma map_of_unlink: "map_of (unlink p fs) q = (if q = p then None else map_of fs q)"
  by (induction fs) (auto simp: unlink_def)

lemma distinct_unlink: "distinct (map fst fs) \<Longrightarrow> distinct (map fst (unlink p fs))"
  by (induction fs) (auto simp: unlink_def)

lemma read_lease_same: "map_of fs p = map_of fs' p \<Longrightarrow> read_lease_at bi fs p = read_lease_at bi fs' p"
  by (simp add: read_lease_at_def)

lemma read_after_write:
  "le_holder l \<noteq> [] \<Longrightarrow> read_lease_at bi (write_lease l fs) (lease_path (le_task l)) = Inr (Some (as_stored l))"
  using lease_written_and_read [of bi l]
  by (simp add: read_lease_at_def write_lease_def map_of_write_file lease_to_dict_def cfg_get_def)

lemma as_stored_sel [simp]: "le_task (as_stored l) = le_task l" "le_holder (as_stored l) = le_holder l"
  by (simp_all add: as_stored_def)

text \<open>Which file a claim writes: the one it read, and only when it is granted.\<close>

lemma claim_task_cases:
  assumes "filed bi fs"
  obtains (refused) e where "claim_task bi task holder now ttl fs = (fs, Refused e)"
    | (raised) e where "claim_task bi task holder now ttl fs = (fs, Raised e)"
    | (granted) existing l where "read_lease bi fs task = Inr existing"
        "acquire existing task holder now ttl = Inr l" "lease_path (le_task l) = lease_path task"
        "claim_task bi task holder now ttl fs = (write_lease l fs, Granted l)"
proof (cases "read_lease bi fs task")
  case (Inl e)
  then show ?thesis using raised by (simp add: claim_task_def)
next
  case (Inr existing)
  show ?thesis
  proof (cases "acquire existing task holder now ttl")
    case (Inl e)
    then show ?thesis using refused Inr by (simp add: claim_task_def)
  next
    case acq: (Inr l)
    have "lease_path (le_task l) = lease_path task"
      using acquire_Inr(4) [OF acq] assms Inr by (auto simp: filed_def read_lease_def)
    then show ?thesis using granted Inr acq by (simp add: claim_task_def)
  qed
qed

lemma nonblank: "strip h \<noteq> [] \<Longrightarrow> h \<noteq> []"
  by auto

lemma filed_write:
  assumes "filed bi fs" and "le_holder l \<noteq> []"
  shows "filed bi (write_lease l fs)"
proof -
  have "lease_path (le_task m) = p" if "read_lease_at bi (write_lease l fs) p = Inr (Some m)" for p m
  proof (cases "p = lease_path (le_task l)")
    case True
    then show ?thesis using that read_after_write [OF assms(2), of bi fs] by auto
  next
    case False
    then have "read_lease_at bi (write_lease l fs) p = read_lease_at bi fs p"
      by (intro read_lease_same) (simp add: write_lease_def map_of_write_file)
    then show ?thesis using that assms(1) by (simp add: filed_def)
  qed
  moreover have "distinct (map fst (write_lease l fs))"
    using assms(1) by (simp add: filed_def write_lease_def distinct_write_file)
  ultimately show ?thesis by (simp add: filed_def)
qed

text \<open>Removing files keeps the discipline.\<close>

lemma filed_subset:
  assumes "filed bi fs" and "distinct (map fst fs')" and "\<And>p. map_of fs' p = None \<or> map_of fs' p = map_of fs p"
  shows "filed bi fs'"
proof -
  have "lease_path (le_task m) = p" if "read_lease_at bi fs' p = Inr (Some m)" for p m
  proof -
    have "map_of fs' p \<noteq> None" using that by (cases "map_of fs' p") (auto simp: read_lease_at_def)
    then have "map_of fs' p = map_of fs p" using assms(3) [of p] by auto
    then have "read_lease_at bi fs p = Inr (Some m)" using that read_lease_same [of fs' p fs bi] by simp
    then show ?thesis using assms(1) by (simp add: filed_def)
  qed
  then show ?thesis using assms(2) by (simp add: filed_def)
qed

lemma filed_unlink: "filed bi fs \<Longrightarrow> filed bi (unlink p fs)"
proof (rule filed_subset)
  show "map_of (unlink p fs) q = None \<or> map_of (unlink p fs) q = map_of fs q" for q
    by (cases "q = p") (simp_all only: map_of_unlink if_True if_False simp_thms)
qed (simp_all add: filed_def distinct_unlink)

lemma sweep_paths_files:
  "fst (sweep_paths bi now items (fs, freed))
     = filter (\<lambda>(q, w). \<not> (\<exists>v. (q, v) \<in> set items \<and> sweep_verdict bi now v \<noteq> None)) fs"
proof (induction items arbitrary: fs freed)
  case Nil
  then show ?case by simp
next
  case (Cons item items)
  obtain p v where item: "item = (p, v)" by (cases item)
  show ?case
  proof (cases "sweep_verdict bi now v")
    case None
    then have "filter (\<lambda>(q, w). \<not> (\<exists>v'. (q, v') \<in> set items \<and> sweep_verdict bi now v' \<noteq> None)) fs
        = filter (\<lambda>(q, w). \<not> (\<exists>v'. (q, v') \<in> set (item # items) \<and> sweep_verdict bi now v' \<noteq> None)) fs"
      by (intro filter_cong) (auto simp: item)
    then show ?thesis using Cons.IH None by (simp add: item)
  next
    case (Some t)
    have "fst (sweep_paths bi now (item # items) (fs, freed))
        = filter (\<lambda>(q, w). \<not> (\<exists>v'. (q, v') \<in> set items \<and> sweep_verdict bi now v' \<noteq> None)) (unlink p fs)"
      using Cons.IH Some by (cases t) (simp_all add: item)
    also have "\<dots> = filter (\<lambda>(q, w). \<not> (\<exists>v'. (q, v') \<in> set (item # items) \<and> sweep_verdict bi now v' \<noteq> None)) fs"
      unfolding unlink_def filter_filter using Some by (intro filter_cong) (auto simp: item)
    finally show ?thesis .
  qed
qed

lemma sweep_files:
  assumes "distinct (map fst fs)"
  shows "fst (sweep_task_leases bi now fs) = filter (\<lambda>(q, w). sweep_verdict bi now w = None) fs"
proof -
  have "v = w" if "(q, v) \<in> set fs" "(q, w) \<in> set fs" for q v w
    using that assms by (metis eq_key_imp_eq_value)
  then have "(\<exists>v. (q, v) \<in> set fs \<and> sweep_verdict bi now v \<noteq> None) \<longleftrightarrow> sweep_verdict bi now w \<noteq> None"
    if "(q, w) \<in> set fs" for q w
    using that by metis
  then have "(case x of (q, w) \<Rightarrow> \<not> (\<exists>v. (q, v) \<in> set fs \<and> sweep_verdict bi now v \<noteq> None))
      = (case x of (q, w) \<Rightarrow> sweep_verdict bi now w = None)" if "x \<in> set fs" for x
    using that by (cases x) (simp only: prod.case not_not)
  then show ?thesis
    unfolding sweep_task_leases_def sweep_paths_files set_sort by (rule filter_cong [OF refl])
qed

lemma map_of_filter:
  "distinct (map fst fs) \<Longrightarrow> map_of (filter (\<lambda>(q, w). P w) fs) p = (case map_of fs p of None \<Rightarrow> None
     | Some w \<Rightarrow> if P w then Some w else None)"
proof (induction fs)
  case (Cons f fs)
  obtain q w where f: "f = (q, w)" by (cases f)
  have "q \<notin> fst ` set fs" using Cons.prems f by simp
  then have "map_of fs q = None" by (simp add: map_of_eq_None_iff)
  then show ?case using Cons f by auto
qed simp

text \<open>
  A sweep that nothing comes between keeps every lease that still runs.
\<close>

theorem sweep_alone_keeps_a_live_lease:
  assumes "filed bi fs" and "read_lease bi fs task = Inr (Some l)" and "now < expires_at l"
  shows "read_lease bi (fst (sweep_task_leases bi now fs)) task = Inr (Some l)"
proof -
  have d: "distinct (map fst fs)" using assms(1) by (simp add: filed_def)
  have stored: "read_lease_at bi fs (lease_path task) = Inr (Some l)" using assms(2) by (simp add: read_lease_def)
  then obtain v where v: "map_of fs (lease_path task) = Some (Some v)" "lease_from_dict bi v = Inr l"
    by (auto simp: read_lease_at_def split: option.splits json.splits if_splits sum.splits)
  have "map_of (fst (sweep_task_leases bi now fs)) (lease_path task) = map_of fs (lease_path task)"
    using v assms(3) sweep_files [OF d] map_of_filter [OF d, of "\<lambda>w. sweep_verdict bi now w = None" "lease_path task"]
    by (simp add: sweep_verdict_def expired_def)
  from read_lease_same [OF this, of bi] show ?thesis using stored by (simp add: read_lease_def)
qed

text \<open>
  C26. Claims and releases never give one task to two sessions. From files each of which holds, where it can be
  read, a lease of the task the file is named for (which is what claims write), while a lease runs no
  sequence of claims and releases by other sessions, on this task or on any other, changes its record, and a
  claim by another session on any task kept in that file is refused. Each operation is whole, as the lock
  makes it; the sweep, which takes no lock, is not among them, and with it two sessions can hold one task
  (\<open>unlocked_sweep_gives_two_holders\<close>).
\<close>

theorem live_lease_is_exclusive:
  assumes "filed bi fs" and "read_lease bi fs task = Inr (Some l)"
    and "\<forall>op \<in> set ops. by_other l op"
  shows "read_lease bi (fold (lease_step bi) ops fs) task = Inr (Some l) \<and>
    (\<forall>other now ttl. strip other \<noteq> [] \<longrightarrow> other \<noteq> le_holder l \<longrightarrow> now < expires_at l \<longrightarrow>
       claim_task bi task other now ttl (fold (lease_step bi) ops fs)
         = (fold (lease_step bi) ops fs, Refused HELD_BY_OTHER))"
  using assms
proof (induction ops arbitrary: fs)
  case Nil
  then show ?case by (auto simp: claim_task_def acquire_other expired_def)
next
  case (Cons op ops)
  let ?p = "lease_path task"
  have stored: "read_lease_at bi fs ?p = Inr (Some l)" using Cons.prems(2) by (simp add: read_lease_def)
  have "filed bi (lease_step bi op fs) \<and> map_of (lease_step bi op fs) ?p = map_of fs ?p"
  proof (cases op)
    case (Claim t h now ttl)
    from Cons.prems(1) show ?thesis
    proof (cases rule: claim_task_cases [of bi fs t h now ttl])
      case (granted existing m)
      have "lease_path t \<noteq> ?p"
      proof
        assume "lease_path t = ?p"
        then have "existing = Some l" using granted(1) stored by (simp add: read_lease_def)
        moreover have "h \<noteq> le_holder l" "\<not> expired l now"
          using Cons.prems(3) Claim by (simp_all add: expired_def)
        ultimately show False
          using granted(2) lease_rule.grant_excl [of l now h t ttl] by (auto simp: lease_grant_def)
      qed
      then have other: "lease_path (le_task m) \<noteq> ?p" using granted(3) by simp
      have "le_holder m \<noteq> []" using acquire_Inr(1,3) [OF granted(2)] nonblank by auto
      then have "filed bi (write_lease m fs)" by (rule filed_write [OF Cons.prems(1)])
      then show ?thesis using other Claim granted(4) by (simp add: write_lease_def map_of_write_file)
    qed (use Claim Cons.prems(1) in simp_all)
  next
    case (Free t h)
    show ?thesis
    proof (cases "snd (release_task bi t h fs) = Released")
      case True
      then obtain m where m: "read_lease bi fs t = Inr (Some m)" "le_holder m = h"
          "fst (release_task bi t h fs) = unlink (lease_path t) fs"
        by (auto simp: release_task_def release_def split: sum.splits option.splits if_splits)
      have other: "lease_path t \<noteq> ?p"
        using m(1,2) stored Cons.prems(3) Free by (auto simp: read_lease_def)
      have "filed bi (unlink (lease_path t) fs)" by (rule filed_unlink [OF Cons.prems(1)])
      then show ?thesis using other Free m(3) by (simp add: map_of_unlink)
    next
      case False
      then have "fst (release_task bi t h fs) = fs"
        by (auto simp: release_task_def split: sum.splits option.splits)
      then show ?thesis using Free Cons.prems(1) by simp
    qed
  qed
  then have step: "filed bi (lease_step bi op fs)" "read_lease bi (lease_step bi op fs) task = Inr (Some l)"
    using stored read_lease_same [of "lease_step bi op fs" ?p fs bi] by (simp_all add: read_lease_def)
  show ?case using Cons.IH [OF step] Cons.prems(3) by simp
qed

definition demo_files :: lease_files where
  "demo_files = [(lease_path ''t-7'', Some (lease_to_dict demo_lease))]"

lemma demo_files_read: "read_lease_at bi demo_files p = (if p = lease_path ''t-7'' then Inr (Some demo_lease) else Inr None)"
proof -
  have "as_stored demo_lease = demo_lease" "le_holder demo_lease \<noteq> []"
    by (simp_all add: as_stored_def demo_lease_def)
  then show ?thesis
    using lease_written_and_read [of bi demo_lease]
    by (simp add: read_lease_at_def demo_files_def lease_to_dict_def cfg_get_def)
qed

theorem live_lease_is_exclusive_witness:
  "claim_task demo_builtins ''t-7'' ''s2'' 110 900
     (fold (lease_step demo_builtins) [Claim ''t-7'' ''s3'' 105 900, Free ''t-7'' ''s3''] demo_files)
   = (fold (lease_step demo_builtins) [Claim ''t-7'' ''s3'' 105 900, Free ''t-7'' ''s3''] demo_files,
      Refused HELD_BY_OTHER)"
proof -
  have end_time: "expires_at demo_lease = 160" "le_holder demo_lease = ''s1''"
    by (simp_all add: demo_lease_def expires_at_def MAX_LEASE_SECS_def)
  have "filed demo_builtins demo_files"
    by (simp add: filed_def demo_files_read) (simp add: demo_files_def demo_lease_def)
  moreover have "read_lease demo_builtins demo_files ''t-7'' = Inr (Some demo_lease)"
    by (simp add: read_lease_def demo_files_read)
  moreover have "\<forall>op \<in> set [Claim ''t-7'' ''s3'' 105 900, Free ''t-7'' ''s3'']. by_other demo_lease op"
    by (simp add: end_time)
  ultimately have "\<forall>other now ttl. strip other \<noteq> [] \<longrightarrow> other \<noteq> le_holder demo_lease \<longrightarrow>
      now < expires_at demo_lease \<longrightarrow>
      claim_task demo_builtins ''t-7'' other now ttl
        (fold (lease_step demo_builtins) [Claim ''t-7'' ''s3'' 105 900, Free ''t-7'' ''s3''] demo_files)
      = (fold (lease_step demo_builtins) [Claim ''t-7'' ''s3'' 105 900, Free ''t-7'' ''s3''] demo_files,
         Refused HELD_BY_OTHER)"
    using live_lease_is_exclusive by blast
  moreover have "strip ''s2'' \<noteq> []" "''s2'' \<noteq> le_holder demo_lease" "(110 :: rat) < expires_at demo_lease"
    by (simp_all add: strip_def is_space_def end_time)
  ultimately show ?thesis by blast
qed

text \<open>
  The sweep takes no lock between reading a file and deleting it. Interleaved with a takeover of the
  lapsed lease it read, it deletes the taker's fresh file, and a third session is granted the task
  while the taker's lease has most of its time to run: two live holders.
\<close>

theorem unlocked_sweep_gives_two_holders:
  "\<exists>fs fs1 fs2 fs3 l2 l3 p v.
     fs = [(p, Some v)] \<and> sweep_verdict bi 1000 (Some v) = Some (Some ''t'') \<and>
     claim_task bi ''t'' ''s2'' 1000 900 fs = (fs1, Granted l2) \<and>
     fs2 = unlink p fs1 \<and>
     claim_task bi ''t'' ''s3'' 1001 900 fs2 = (fs3, Granted l3) \<and>
     le_holder l2 \<noteq> le_holder l3 \<and> \<not> expired l2 1800 \<and> \<not> expired l3 1800"
proof -
  let ?old = "\<lparr>le_task = ''t'', le_holder = ''s1'', acquired_at = 0, ttl_seconds = 900, renewals = 0\<rparr>"
  let ?p = "lease_path ''t''"
  let ?l2 = "\<lparr>le_task = ''t'', le_holder = ''s2'', acquired_at = 1000, ttl_seconds = 900, renewals = 0\<rparr>"
  let ?l3 = "\<lparr>le_task = ''t'', le_holder = ''s3'', acquired_at = 1001, ttl_seconds = 900, renewals = 0\<rparr>"
  let ?fs = "[(?p, Some (lease_to_dict ?old))]"
  have old: "lease_from_dict bi (lease_to_dict ?old) = Inr ?old"
    using lease_written_and_read [of bi ?old] by (simp add: as_stored_def)
  have lapsed: "expired ?old 1000" by (simp add: expired_def expires_at_def MAX_LEASE_SECS_def)
  have read: "read_lease bi ?fs ''t'' = Inr (Some ?old)"
    using old by (simp add: read_lease_def read_lease_at_def lease_to_dict_def cfg_get_def)
  have "acquire (Some ?old) ''t'' ''s2'' 1000 900 = Inr ?l2"
    using lapsed by (simp add: acquire_def strip_def is_space_def)
  then have c2: "claim_task bi ''t'' ''s2'' 1000 900 ?fs = (write_lease ?l2 ?fs, Granted ?l2)"
    using read by (simp add: claim_task_def)
  have gone: "unlink ?p (write_lease ?l2 ?fs) = []" by (simp add: write_lease_def unlink_def)
  have "acquire None ''t'' ''s3'' 1001 900 = Inr ?l3" by (simp add: acquire_def strip_def is_space_def)
  then have c3: "claim_task bi ''t'' ''s3'' 1001 900 [] = (write_lease ?l3 [], Granted ?l3)"
    by (simp add: claim_task_def read_lease_def read_lease_at_def)
  have verdict: "sweep_verdict bi 1000 (Some (lease_to_dict ?old)) = Some (Some ''t'')"
    using old lapsed by (simp add: sweep_verdict_def)
  have "\<not> expired ?l2 1800" "\<not> expired ?l3 1800"
    by (simp_all add: expired_def expires_at_def MAX_LEASE_SECS_def)
  then show ?thesis
    by (intro exI [of _ ?fs] exI [of _ "write_lease ?l2 ?fs"] exI [of _ "[]"] exI [of _ "write_lease ?l3 []"]
        exI [of _ ?l2] exI [of _ ?l3] exI [of _ ?p] exI [of _ "lease_to_dict ?old"] conjI refl verdict c2 c3
        gone [symmetric]) simp_all
qed

text \<open>
  \<open>read_lease\<close> says a malformed file reads as no lease, so that a task is never stranded; a record
  with a holder whose length is not a number raises instead, and so does every claim and release of
  that task from then on.
\<close>

theorem malformed_lease_strands_the_task:
  "let fs = [(''t.json'', Some (JObj [(''holder'', JStr ''s1''), (''ttl_seconds'', JList [JInt 9])]))] in
   read_lease bi fs ''t'' = Inl TypeError \<and>
   claim_task bi ''t'' holder now ttl fs = (fs, Raised TypeError) \<and>
   release_task bi ''t'' holder fs = (fs, ReleaseRaised TypeError)"
proof -
  have "lease_path ''t'' = ''t.json''" by (simp add: lease_path_def safe_path_char_def)
  then have "read_lease bi [(''t.json'', Some (JObj [(''holder'', JStr ''s1''), (''ttl_seconds'', JList [JInt 9])]))] ''t''
      = Inl TypeError"
    by (simp add: read_lease_def read_lease_at_def lease_from_dict_def cfg_get_def float_of_field_def
        int_of_field_def)
  then show ?thesis by (simp add: Let_def claim_task_def release_task_def)
qed

section \<open>What a finished task does to those waiting on it\<close>

lemma plan_one_short: "length (plan_one b st r ss dep) \<le> 1"
  by (simp add: plan_one_def Let_def split: prod.split)

lemma plan_one_task: "t \<in> set (plan_one b st r ss dep) \<Longrightarrow> tr_task t = fst dep"
  by (auto simp: plan_one_def Let_def split: prod.splits if_splits)

lemma plan_one_distinct: "distinct (map tr_task (plan_one b st r ss dep))"
  by (simp add: plan_one_def Let_def split: prod.split)

lemma plan_members:
  "t \<in> set (plan_unblock b st r deps ss) \<longleftrightarrow> (\<exists>dep \<in> set deps. t \<in> set (plan_one b st r ss dep))"
  by (auto simp: plan_unblock_def)

lemma words_apart: "w \<in> set failed_words \<Longrightarrow> w \<notin> set done_words"
  by (auto simp: failed_words_def done_words_def)

lemma plan_one_shape:
  "map (\<lambda>t. (tr_task t, tr_kind t)) (plan_one b st r ss (d, ps))
     = (if b \<notin> set ps then [] else if st \<in> set failed_words then [(d, CASCADE_FAILED)]
        else if st \<notin> set done_words then []
        else if \<forall>p \<in> set ps. p \<noteq> b \<longrightarrow> status_of ss p \<in> set done_words then [(d, UNBLOCK)]
        else [(d, UNBLOCK_NONE)])"
  by (simp add: plan_one_def Let_def filter_empty_conv) blast

lemma image_by_kind:
  "tr_task ` {t \<in> set ts. tr_kind t = k} = {d. (d, k) \<in> set (map (\<lambda>t. (tr_task t, tr_kind t)) ts)}"
  by force

lemma one_unblocked:
  "tr_task ` {t \<in> set (plan_one b st r ss (d, ps)). tr_kind t = UNBLOCK}
     = (if b \<in> set ps \<and> st \<in> set done_words \<and> (\<forall>p \<in> set ps. p \<noteq> b \<longrightarrow> status_of ss p \<in> set done_words)
        then {d} else {})"
  unfolding image_by_kind plan_one_shape using words_apart [of st] by simp blast

lemma one_cascaded:
  "tr_task ` {t \<in> set (plan_one b st r ss (d, ps)). tr_kind t = CASCADE_FAILED}
     = (if b \<in> set ps \<and> st \<in> set failed_words then {d} else {})"
  unfolding image_by_kind plan_one_shape by simp

lemma plan_image:
  "tr_task ` {t \<in> set (plan_unblock b st r deps ss). tr_kind t = k}
     = (\<Union>(d, ps) \<in> set deps. tr_task ` {t \<in> set (plan_one b st r ss (d, ps)). tr_kind t = k})"
  unfolding plan_members by (auto simp: split_beta)

text \<open>
  Work becomes visible exactly when it is workable: when a task finishes, the plan unblocks the
  tasks that waited on it and on nothing unfinished, each once; and when a task fails, every task
  that waited on it is told, and none is unblocked. A task with another prerequisite open is never
  unblocked.
\<close>

theorem unblock_exactly_the_workable:
  assumes "distinct (map fst deps)"
  shows "distinct (map tr_task (plan_unblock b st r deps ss)) \<and>
    tr_task ` {t \<in> set (plan_unblock b st r deps ss). tr_kind t = UNBLOCK}
      = {d. st \<in> set done_words \<and> (\<exists>ps. (d, ps) \<in> set deps \<and> b \<in> set ps \<and>
                  (\<forall>p \<in> set ps. p \<noteq> b \<longrightarrow> status_of ss p \<in> set done_words))} \<and>
    tr_task ` {t \<in> set (plan_unblock b st r deps ss). tr_kind t = CASCADE_FAILED}
      = {d. st \<in> set failed_words \<and> (\<exists>ps. (d, ps) \<in> set deps \<and> b \<in> set ps)}"
proof (intro conjI)
  have "distinct (concat (map (\<lambda>dep. map tr_task (plan_one b st r ss dep)) (sort_key fst deps)))"
  proof (rule distinct_blocks [where key = fst])
    show "distinct (map fst (sort_key fst deps))" using assms by (simp add: distinct_map)
    show "distinct (map tr_task (plan_one b st r ss dep))" for dep by (rule plan_one_distinct)
    show "fst x = fst y" if "q \<in> set (map tr_task (plan_one b st r ss x))"
      "q \<in> set (map tr_task (plan_one b st r ss y))" for x y q
      using that by (auto dest!: plan_one_task)
  qed
  then show "distinct (map tr_task (plan_unblock b st r deps ss))"
    by (simp add: plan_unblock_def map_concat comp_def)
  show "tr_task ` {t \<in> set (plan_unblock b st r deps ss). tr_kind t = UNBLOCK}
      = {d. st \<in> set done_words \<and> (\<exists>ps. (d, ps) \<in> set deps \<and> b \<in> set ps \<and>
                  (\<forall>p \<in> set ps. p \<noteq> b \<longrightarrow> status_of ss p \<in> set done_words))}"
    unfolding plan_image one_unblocked by (auto split: if_splits)
  show "tr_task ` {t \<in> set (plan_unblock b st r deps ss). tr_kind t = CASCADE_FAILED}
      = {d. st \<in> set failed_words \<and> (\<exists>ps. (d, ps) \<in> set deps \<and> b \<in> set ps)}"
    unfolding plan_image one_cascaded by (auto split: if_splits)
qed

theorem unblock_exactly_the_workable_witness:
  "''y'' \<in> tr_task ` {t \<in> set (plan_unblock ''a'' ''done'' [] [(''x'', [''a'', ''b'']), (''y'', [''a'', ''c''])]
      [(''b'', ''open''), (''c'', ''done'')]). tr_kind t = UNBLOCK}"
proof -
  have "distinct (map fst [(''x'', [''a'', ''b'']), (''y'', [''a'', ''c''])])" by simp
  note plan = unblock_exactly_the_workable [OF this, of "''a''" "''done''" "[]"
      "[(''b'', ''open''), (''c'', ''done'')]"]
  have "''y'' \<in> {d. ''done'' \<in> set done_words \<and> (\<exists>ps. (d, ps) \<in> set [(''x'', [''a'', ''b'']), (''y'', [''a'', ''c''])]
        \<and> ''a'' \<in> set ps \<and> (\<forall>p \<in> set ps. p \<noteq> ''a'' \<longrightarrow>
             status_of [(''b'', ''open''), (''c'', ''done'')] p \<in> set done_words))}"
    by (simp add: done_words_def status_of_def)
  then show ?thesis using plan by blast
qed

end
