(* ===== verification/Admission.thy ===== *)
theory Admission
  imports LoopTick TaskPool
begin

text \<open>
  \<^verbatim>\<open>workflows/admission.py\<close>: the ordered rules that decide what the frontier may launch. Every rule is a
  capacity over a keyed bucket; the composition takes the tightest and names the rule that bound. The
  metric gate judges with the loop's own \<open>evaluate\<close> and the lease with the pool's own \<open>acquire\<close>, as the
  code does.
\<close>

section \<open>Requests and rules\<close>

datatype scope = ScopeLane | ScopeContainer | ScopeResource | ScopeStep

datatype hold = Deferred | WipHeld | Unrecorded | Leased | Baking | Regressed

definition RANK_CAPACITY :: nat where "RANK_CAPACITY = 0"
definition RANK_INVARIANT :: nat where "RANK_INVARIANT = 10"
definition RANK_EXCLUSION :: nat where "RANK_EXCLUSION = 20"
definition RANK_REGRESSION :: nat where "RANK_REGRESSION = 30"

record admission_request =
  rq_scope :: scope
  rq_key :: string
  rq_node :: "node option"

fun lane_name :: "lane \<Rightarrow> string" where
  "lane_name LANE_LLM = ''llm''"
| "lane_name LANE_IO = ''io''"
| "lane_name LANE_COMPUTE = ''compute''"

type_synonym limits = "(string \<times> int) list"

definition DEFAULT_LANE_CAPS :: limits where
  "DEFAULT_LANE_CAPS = [(''llm'', 4), (''io'', 2), (''compute'', 64)]"

text \<open>
  Where a run's limits come from: the \<open>workflows\<close> section of the configuration file (\<open>config/loader.py\<close>,
  \<open>config/coercion.py\<close>), clamped when the dataclass is built, then \<open>lane_caps\<close>, which the gateway hands the
  engine. A setting is a JSON value, or a number no int holds (\<open>1e999\<close>, which reads as infinity, or NaN),
  on which \<open>int()\<close> raises. \<open>pint\<close> is \<open>int()\<close> on text.
\<close>

datatype setting = Setting json | NonFinite

definition safe_int :: "(string \<Rightarrow> int option) \<Rightarrow> setting \<Rightarrow> int \<Rightarrow> int" where
  "safe_int pint value dflt =
     (case value of
        NonFinite \<Rightarrow> dflt
      | Setting (JBool b) \<Rightarrow> dflt
      | Setting v \<Rightarrow> (case to_int pint v of Some i \<Rightarrow> i | None \<Rightarrow> dflt))"

record workflows_config =
  max_concurrent_llm_nodes :: int
  max_concurrent_io_nodes :: int

text \<open>\<open>WorkflowsConfig.__post_init__\<close>, on the two caps.\<close>

definition workflows_post_init :: "workflows_config \<Rightarrow> workflows_config" where
  "workflows_post_init cfg =
     (let cfg = (if max_concurrent_llm_nodes cfg < 1 then cfg\<lparr>max_concurrent_llm_nodes := 1\<rparr> else cfg)
      in if max_concurrent_io_nodes cfg < 1 then cfg\<lparr>max_concurrent_io_nodes := 1\<rparr> else cfg)"

text \<open>The section as the file has it: \<open>None\<close> when it is missing or is not an object, read as an empty one.\<close>

definition setting_or :: "(string \<times> setting) list \<Rightarrow> string \<Rightarrow> int \<Rightarrow> setting" where
  "setting_or data k dflt = (case map_of data k of Some v \<Rightarrow> v | None \<Rightarrow> Setting (JInt dflt))"

definition load_workflows ::
  "(string \<Rightarrow> int option) \<Rightarrow> (string \<times> setting) list option \<Rightarrow> workflows_config" where
  "load_workflows pint section =
     (let data = (case section of Some d \<Rightarrow> d | None \<Rightarrow> [])
      in workflows_post_init
           \<lparr>max_concurrent_llm_nodes = safe_int pint (setting_or data ''max_concurrent_llm_nodes'' 4) 4,
            max_concurrent_io_nodes = safe_int pint (setting_or data ''max_concurrent_io_nodes'' 2) 2\<rparr>)"

definition lane_caps :: "workflows_config \<Rightarrow> limits" where
  "lane_caps cfg = [(''llm'', max_concurrent_llm_nodes cfg), (''io'', max_concurrent_io_nodes cfg),
     (''compute'', 64)]"

text \<open>
  The \<open>lane_limits\<close> of the engine's services: the gateway's, \<open>Limits(lanes=wf_cfg.lane_caps())\<close>, or the default
  \<open>Limits()\<close> of services built without any (\<open>None\<close>).
\<close>

definition lane_limits :: "workflows_config option \<Rightarrow> limits" where
  "lane_limits cfg = (case cfg of Some c \<Rightarrow> lane_caps c | None \<Rightarrow> DEFAULT_LANE_CAPS)"

definition lane_cap :: "limits \<Rightarrow> string \<Rightarrow> int" where
  "lane_cap ls k = (case map_of ls k of Some c \<Rightarrow> c
     | None \<Rightarrow> (case map_of DEFAULT_LANE_CAPS k of Some c \<Rightarrow> c | None \<Rightarrow> 1))"

text \<open>What the state-reading rules read, gathered by the caller; \<open>now\<close> included.\<close>

record admission_state =
  as_now :: rat
  as_holder :: string
  as_leases :: "(string \<times> lease) list"
  lease_ttl_secs :: int
  since :: "(string \<times> rat) list"
  metrics :: "(string \<times> rat) list"
  floors :: "(string \<times> rat) list"
  rollbacks :: "(string \<times> nat) list"
  as_rollback_cap :: int

datatype policy =
    Lane limits
  | ContainerConcurrency
  | Wip bool
  | LeasePolicy admission_state
  | Dwell admission_state
  | MetricGate admission_state

fun policy_name :: "policy \<Rightarrow> string" where
  "policy_name (Lane _) = ''lane''"
| "policy_name ContainerConcurrency = ''max_concurrency''"
| "policy_name (Wip _) = ''single_active_feature''"
| "policy_name (LeasePolicy _) = ''lease''"
| "policy_name (Dwell _) = ''min_dwell_secs''"
| "policy_name (MetricGate _) = ''metric_gate''"

fun policy_hold :: "policy \<Rightarrow> hold" where
  "policy_hold (Lane _) = Deferred"
| "policy_hold ContainerConcurrency = Unrecorded"
| "policy_hold (Wip _) = WipHeld"
| "policy_hold (LeasePolicy _) = Leased"
| "policy_hold (Dwell _) = Baking"
| "policy_hold (MetricGate _) = Regressed"

fun policy_rank :: "policy \<Rightarrow> nat" where
  "policy_rank (Lane _) = RANK_CAPACITY"
| "policy_rank ContainerConcurrency = RANK_CAPACITY"
| "policy_rank (Wip _) = RANK_INVARIANT"
| "policy_rank (LeasePolicy _) = RANK_EXCLUSION"
| "policy_rank (Dwell _) = RANK_INVARIANT"
| "policy_rank (MetricGate _) = RANK_REGRESSION"

text \<open>\<open>pf\<close> and \<open>pint\<close> read a number written as text, as in the loop's phases.\<close>

definition step_of :: "(string \<Rightarrow> rat option) \<Rightarrow> (string \<Rightarrow> int option) \<Rightarrow> node \<Rightarrow> step_config" where
  "step_of pf pint n = step_config_from_phase pf pint (JObj (nd_config n))"

text \<open>\<open>MetricGate.decision\<close>: the loop's verdict on one step, a neutral step behind it.\<close>

definition metric_decision ::
  "(string \<Rightarrow> rat option) \<Rightarrow> (string \<Rightarrow> int option) \<Rightarrow> admission_state \<Rightarrow> admission_request \<Rightarrow>
     decision option" where
  "metric_decision pf pint st rq =
     (case (rq_scope rq, rq_node rq) of
        (ScopeStep, Some n) \<Rightarrow>
          (let cfg = step_of pf pint n in
           case (metric_pass cfg, map_of (metrics st) (rq_key rq)) of
             (Some _, Some m) \<Rightarrow>
               Some (evaluate (TickConfig\<lparr>steps := [cfg, StepConfig], rollback_cap := as_rollback_cap st\<rparr>)
                 ((TickState 0 (as_now st - min_dwell_secs cfg))
                    \<lparr>gate_passed := True, findings_in_step := min_findings cfg, metric := Some m,
                     prior_step_floor := map_of (floors st) (rq_key rq),
                     rollbacks_on_step :=
                       int (case map_of (rollbacks st) (rq_key rq) of Some k \<Rightarrow> k | None \<Rightarrow> 0)\<rparr>)
                 (as_now st))
           | _ \<Rightarrow> None)
      | _ \<Rightarrow> None)"

text \<open>\<open>capacity\<close>, one clause per rule.\<close>

fun capacity ::
  "(string \<Rightarrow> rat option) \<Rightarrow> (string \<Rightarrow> int option) \<Rightarrow> policy \<Rightarrow> admission_request \<Rightarrow> int option" where
  "capacity pf pint (Lane ls) rq =
     (if rq_scope rq \<noteq> ScopeLane then None else Some (lane_cap ls (rq_key rq)))"
| "capacity pf pint ContainerConcurrency rq =
     (case (rq_scope rq, rq_node rq) of
        (ScopeContainer, Some n) \<Rightarrow>
          (case as_true_int (cfg_get (nd_config n) ''max_concurrency'') of
             Some i \<Rightarrow> if i > 0 then Some i else None
           | None \<Rightarrow> None)
      | _ \<Rightarrow> None)"
| "capacity pf pint (Wip active) rq =
     (if rq_scope rq \<noteq> ScopeContainer \<or> \<not> active then None else Some 1)"
| "capacity pf pint (LeasePolicy st) rq =
     (if rq_scope rq \<noteq> ScopeResource \<or> rq_key rq = [] then None
      else if strip (as_holder st) = [] then None
      else case acquire (map_of (as_leases st) (rq_key rq)) (rq_key rq) (as_holder st) (as_now st)
                  (lease_ttl_secs st) of
             Inr _ \<Rightarrow> Some 1 | Inl _ \<Rightarrow> Some 0)"
| "capacity pf pint (Dwell st) rq =
     (case (rq_scope rq, rq_node rq) of
        (ScopeStep, Some n) \<Rightarrow>
          (let fl = min_dwell_secs (step_of pf pint n) in
           if fl \<le> 0 then None
           else case map_of (since st) (rq_key rq) of
                  None \<Rightarrow> None
                | Some started \<Rightarrow> if as_now st - started < fl then Some 0 else None)
      | _ \<Rightarrow> None)"
| "capacity pf pint (MetricGate st) rq =
     (case metric_decision pf pint st rq of
        None \<Rightarrow> None
      | Some d \<Rightarrow> if d_action d \<in> {HOLD, ROLLBACK, COMPLETE} then Some 0 else None)"

section \<open>Composition\<close>

record admission =
  ad_capacity :: "int option"
  binding :: "policy option"

definition bounded :: "admission \<Rightarrow> bool" where
  "bounded a = (ad_capacity a \<noteq> None)"

definition admission_hold :: "admission \<Rightarrow> hold" where
  "admission_hold a = (case binding a of Some p \<Rightarrow> policy_hold p | None \<Rightarrow> Unrecorded)"

definition admits :: "admission \<Rightarrow> int \<Rightarrow> bool" where
  "admits a in_flight = (case ad_capacity a of None \<Rightarrow> True | Some c \<Rightarrow> in_flight < c)"

definition compose_step ::
  "(policy \<Rightarrow> int option) \<Rightarrow> policy \<Rightarrow> (int \<times> policy) option \<Rightarrow> (int \<times> policy) option" where
  "compose_step cap p best =
     (case cap p of
        None \<Rightarrow> best
      | Some c \<Rightarrow>
          (case best of
             None \<Rightarrow> Some (c, p)
           | Some (bc, bp) \<Rightarrow>
               if c < bc then Some (c, p)
               else if c = bc \<and> policy_rank p > policy_rank bp then Some (bc, p)
               else best))"

definition compose ::
  "(string \<Rightarrow> rat option) \<Rightarrow> (string \<Rightarrow> int option) \<Rightarrow> policy list \<Rightarrow> admission_request \<Rightarrow> admission" where
  "compose pf pint policies rq =
     (case fold (compose_step (\<lambda>p. capacity pf pint p rq)) policies None of
        None \<Rightarrow> \<lparr>ad_capacity = None, binding = None\<rparr>
      | Some (c, p) \<Rightarrow> \<lparr>ad_capacity = Some c, binding = Some p\<rparr>)"

definition default_policies :: "limits \<Rightarrow> bool \<Rightarrow> admission_state option \<Rightarrow> policy list" where
  "default_policies ls saf st =
     [Lane ls, ContainerConcurrency, Wip saf]
     @ (case st of None \<Rightarrow> [] | Some s \<Rightarrow> [LeasePolicy s, Dwell s, MetricGate s])"

section \<open>The ready projection\<close>

datatype urgency = OVERDUE | BLOCKING_OTHERS | HIGH_PRIORITY | NORMAL

definition PRIORITY_WEIGHT :: "(string \<times> rat) list" where
  "PRIORITY_WEIGHT = [(''critical'', 5), (''high'', 3), (''medium'', 2), (''low'', 1), (''trivial'', 1 / 2)]"

definition priority_weight :: "string \<Rightarrow> rat" where
  "priority_weight p = (case map_of PRIORITY_WEIGHT p of Some w \<Rightarrow> w | None \<Rightarrow> 2)"

record ready_item =
  item_id :: string
  priority :: string
  unblocked :: bool
  blocks_count :: int
  overdue :: bool
  updated_at :: rat

definition item_urgency :: "ready_item \<Rightarrow> urgency" where
  "item_urgency it =
     (if overdue it then OVERDUE
      else if blocks_count it > 0 then BLOCKING_OTHERS
      else if priority_weight (priority it) \<ge> priority_weight ''high'' then HIGH_PRIORITY
      else NORMAL)"

definition score :: "ready_item \<Rightarrow> rat" where
  "score it = priority_weight (priority it) + min 3 (of_int (blocks_count it) / 2)
     + (if overdue it then 2 else 0)"

definition rank_key :: "ready_item \<Rightarrow> rat \<times> rat \<times> string" where
  "rank_key it = (- score it, - updated_at it, item_id it)"

definition explain :: "(int \<Rightarrow> string) \<Rightarrow> ready_item \<Rightarrow> string" where
  "explain int_str it =
     item_id it @ '': '' @ join_with '', ''
       ([''priority='' @ priority it]
        @ (if overdue it then [''overdue''] else [])
        @ (if blocks_count it \<noteq> 0 then [''blocks '' @ int_str (blocks_count it) @ '' other(s)''] else []))"

definition workable ::
  "(string \<Rightarrow> rat option) \<Rightarrow> (string \<Rightarrow> int option) \<Rightarrow> policy list \<Rightarrow> ready_item \<Rightarrow> bool" where
  "workable pf pint policies it \<longleftrightarrow> unblocked it \<and>
     admits (compose pf pint policies \<lparr>rq_scope = ScopeResource, rq_key = item_id it, rq_node = None\<rparr>) 0"

definition ready ::
  "(string \<Rightarrow> rat option) \<Rightarrow> (string \<Rightarrow> int option) \<Rightarrow> ready_item list \<Rightarrow> policy list \<Rightarrow> ready_item list" where
  "ready pf pint items policies = sort_key rank_key (filter (workable pf pint policies) items)"

definition next_ready ::
  "(string \<Rightarrow> rat option) \<Rightarrow> (string \<Rightarrow> int option) \<Rightarrow> ready_item list \<Rightarrow> policy list \<Rightarrow>
     ready_item option" where
  "next_ready pf pint items policies =
     (case ready pf pint items policies of [] \<Rightarrow> None | it # _ \<Rightarrow> Some it)"

end
