(* ===== verification/AdmissionFacts.thy ===== *)
theory AdmissionFacts
  imports Admission PoolFacts
begin

text \<open>
  What the admission core promises: the tightest rule wins and is named, a rule that is added can only
  narrow, the state-reading rules leave the engine's own questions alone, an invariant outranks a
  declaration, a leased resource is free to its holder only, and the ready projection is the workable
  items in rank order.
\<close>

section \<open>The tightest rule wins\<close>

text \<open>What the fold has after some rules: the smallest capacity so far, and a highest rule at it.\<close>

definition best_of :: "(policy \<Rightarrow> int option) \<Rightarrow> policy set \<Rightarrow> (int \<times> policy) option \<Rightarrow> bool" where
  "best_of cap P best \<longleftrightarrow>
     (case best of
        None \<Rightarrow> \<forall>p \<in> P. cap p = None
      | Some (c, b) \<Rightarrow> b \<in> P \<and> cap b = Some c \<and>
          (\<forall>p \<in> P. \<forall>d. cap p = Some d \<longrightarrow> c \<le> d \<and> (d = c \<longrightarrow> policy_rank p \<le> policy_rank b)))"

lemma best_of_step: "best_of cap P best \<Longrightarrow> best_of cap (insert p P) (compose_step cap p best)"
  by (auto simp: best_of_def compose_step_def split: option.splits prod.splits if_splits)

lemma best_of_fold: "best_of cap P best \<Longrightarrow> best_of cap (set ps \<union> P) (fold (compose_step cap) ps best)"
proof (induction ps arbitrary: P best)
  case (Cons p ps)
  have "best_of cap (set ps \<union> insert p P) (fold (compose_step cap) ps (compose_step cap p best))"
    by (intro Cons.IH best_of_step Cons.prems)
  then show ?case by simp
qed simp

lemma compose_best:
  "best_of (\<lambda>p. capacity pf pint p rq) (set ps)
     (fold (compose_step (\<lambda>p. capacity pf pint p rq)) ps None)"
  using best_of_fold [of "\<lambda>p. capacity pf pint p rq" "{}" None ps] by (simp add: best_of_def)

lemma compose_None_iff:
  "ad_capacity (compose pf pint ps rq) = None \<longleftrightarrow> (\<forall>p \<in> set ps. capacity pf pint p rq = None)"
  using compose_best [of pf pint rq ps]
  by (auto simp: compose_def best_of_def split: option.splits prod.splits)

lemma compose_Some:
  assumes "ad_capacity (compose pf pint ps rq) = Some c"
  obtains b where "binding (compose pf pint ps rq) = Some b" "b \<in> set ps" "capacity pf pint b rq = Some c"
    "\<And>p d. p \<in> set ps \<Longrightarrow> capacity pf pint p rq = Some d \<Longrightarrow>
       c \<le> d \<and> (d = c \<longrightarrow> policy_rank p \<le> policy_rank b)"
proof -
  obtain d b where fold: "fold (compose_step (\<lambda>p. capacity pf pint p rq)) ps None = Some (d, b)"
    using assms by (cases "fold (compose_step (\<lambda>p. capacity pf pint p rq)) ps None") (auto simp: compose_def)
  then have eq: "compose pf pint ps rq = \<lparr>ad_capacity = Some d, binding = Some b\<rparr>" by (simp add: compose_def)
  have "d = c" using assms eq by simp
  then show ?thesis
    using that [of b] compose_best [of pf pint rq ps] unfolding fold by (auto simp: best_of_def eq)
qed

text \<open>
  The composed verdict is the tightest opinion and nothing else: it is unbounded exactly when every
  rule abstains, otherwise its capacity is some rule's own and no rule's is smaller, and the rule it
  names set that capacity and ranks highest among those that did.
\<close>

theorem compose_takes_the_tightest:
  "case (ad_capacity (compose pf pint ps rq), binding (compose pf pint ps rq)) of
        (None, None) \<Rightarrow> {d. \<exists>p \<in> set ps. capacity pf pint p rq = Some d} = {}
      | (Some c, Some b) \<Rightarrow> b \<in> set ps \<and> capacity pf pint b rq = Some c \<and>
          c = Min {d. \<exists>p \<in> set ps. capacity pf pint p rq = Some d} \<and>
          policy_rank b = Max (policy_rank ` {p \<in> set ps. capacity pf pint p rq = Some c})
      | _ \<Rightarrow> False"
proof (cases "ad_capacity (compose pf pint ps rq)")
  case None
  then have "compose pf pint ps rq = \<lparr>ad_capacity = None, binding = None\<rparr>"
    by (auto simp: compose_def split: option.splits prod.splits)
  then show ?thesis using None compose_None_iff [of pf pint ps rq] by auto
next
  case (Some c)
  then obtain b where b: "binding (compose pf pint ps rq) = Some b" "b \<in> set ps"
      "capacity pf pint b rq = Some c"
      "\<And>p d. p \<in> set ps \<Longrightarrow> capacity pf pint p rq = Some d \<Longrightarrow>
        c \<le> d \<and> (d = c \<longrightarrow> policy_rank p \<le> policy_rank b)"
    by (rule compose_Some) blast
  let ?D = "{d. \<exists>p \<in> set ps. capacity pf pint p rq = Some d}"
  have "?D \<subseteq> (\<lambda>p. the (capacity pf pint p rq)) ` set ps" by force
  then have "finite ?D" by (rule finite_subset) simp
  then have "Min ?D = c" using b by (intro Min_eqI) auto
  moreover have "Max (policy_rank ` {p \<in> set ps. capacity pf pint p rq = Some c}) = policy_rank b"
    using b by (intro Max_eqI) auto
  moreover have "compose pf pint ps rq = \<lparr>ad_capacity = Some c, binding = Some b\<rparr>"
    using Some b(1) by simp
  ultimately show ?thesis using b(2,3) by simp
qed

text \<open>
  A rule that is added can narrow what runs and never widen it, wherever it stands in the list:
  whatever the longer list admits, the shorter one admitted.
\<close>

theorem added_rules_never_widen:
  assumes "set ps \<subseteq> set qs" and "admits (compose pf pint qs rq) in_flight"
  shows "admits (compose pf pint ps rq) in_flight"
proof (cases "ad_capacity (compose pf pint ps rq)")
  case None
  then show ?thesis by (simp add: admits_def)
next
  case (Some c)
  then obtain b where b: "b \<in> set ps" "capacity pf pint b rq = Some c" by (rule compose_Some) blast
  then have "b \<in> set qs" using assms(1) by blast
  with b(2) have "ad_capacity (compose pf pint qs rq) \<noteq> None" by (auto simp: compose_None_iff)
  then obtain d where d: "ad_capacity (compose pf pint qs rq) = Some d" by blast
  then have "d \<le> c" using \<open>b \<in> set qs\<close> b(2) by (auto elim!: compose_Some)
  then show ?thesis using assms(2) d Some by (simp add: admits_def)
qed

definition fan_out :: node where
  "fan_out = Node FOREACH ''all'' [] [] None [] None [(''max_concurrency'', JInt 3)] [] []"

definition item_request :: admission_request where
  "item_request = \<lparr>rq_scope = ScopeContainer, rq_key = ''root'', rq_node = Some fan_out\<rparr>"

theorem added_rules_never_widen_witness:
  "admits (compose (\<lambda>_. None) (\<lambda>_. None) [ContainerConcurrency] item_request) 0"
proof -
  have "admits (compose (\<lambda>_. None) (\<lambda>_. None) [Wip True, ContainerConcurrency] item_request) 0"
    by (simp add: admits_def compose_def compose_step_def item_request_def fan_out_def cfg_get_def)
  then show ?thesis by (rule added_rules_never_widen [rotated]) simp
qed

section \<open>The engine's own questions\<close>

lemma state_rules_abstain:
  assumes "rq_scope rq = ScopeLane \<or> rq_scope rq = ScopeContainer"
  shows "compose pf pint (default_policies ls saf (Some st)) rq
    = compose pf pint (default_policies ls saf None) rq"
proof -
  have "capacity pf pint p rq = None" if "p \<in> {LeasePolicy st, Dwell st, MetricGate st}" for p
    using that assms by (auto simp: metric_decision_def)
  then have "compose_step (\<lambda>p. capacity pf pint p rq) p = (\<lambda>best. best)"
    if "p \<in> {LeasePolicy st, Dwell st, MetricGate st}" for p
    using that by (intro ext) (simp only: compose_step_def option.case)
  then show ?thesis by (simp add: compose_def default_policies_def)
qed

text \<open>
  Handing the rules a clock, leases and metrics changes nothing for the engine's own two questions:
  the verdict on a lane and on a fan-out is, binding rule included, the one of the three original
  rules.
\<close>

theorem state_leaves_lanes_and_fan_outs_alone:
  assumes "rq_scope rq = ScopeLane \<or> rq_scope rq = ScopeContainer"
  shows "compose pf pint (default_policies ls saf (Some st)) rq
    = compose pf pint (default_policies ls saf None) rq"
  by (rule state_rules_abstain [OF assms])

definition idle_state :: admission_state where
  "idle_state = \<lparr>as_now = 0, as_holder = ''run:1'', as_leases = [], lease_ttl_secs = 900, since = [],
     metrics = [], floors = [], rollbacks = [], as_rollback_cap = 3\<rparr>"

theorem state_leaves_lanes_and_fan_outs_alone_witness:
  "compose (\<lambda>_. None) (\<lambda>_. None) (default_policies DEFAULT_LANE_CAPS True (Some idle_state)) item_request
     = compose (\<lambda>_. None) (\<lambda>_. None) (default_policies DEFAULT_LANE_CAPS True None) item_request"
  by (rule state_leaves_lanes_and_fan_outs_alone) (simp add: item_request_def)

text \<open>
  A declared invariant cannot be contradicted by a node: under the run's WIP-of-one every fan-out
  admits an item only while none is in flight, whatever \<open>max_concurrency\<close> it declares, and the refusal
  is reported as the invariant's, also when the declaration is one as well.
\<close>

theorem wip_one_is_never_contradicted:
  assumes "rq_scope rq = ScopeContainer"
  shows "ad_capacity (compose pf pint (default_policies ls True st) rq) = Some 1 \<and>
    admission_hold (compose pf pint (default_policies ls True st) rq) = WipHeld"
proof -
  have base: "compose pf pint (default_policies ls True None) rq
      = \<lparr>ad_capacity = Some 1, binding = Some (Wip True)\<rparr>"
    using assms
    by (auto simp: compose_def default_policies_def compose_step_def RANK_INVARIANT_def RANK_CAPACITY_def
        split: option.splits)
  have "compose pf pint (default_policies ls True st) rq = compose pf pint (default_policies ls True None) rq"
    using assms state_rules_abstain by (cases st) auto
  then show ?thesis by (simp add: base admission_hold_def)
qed

theorem wip_one_is_never_contradicted_witness:
  "admission_hold (compose (\<lambda>_. None) (\<lambda>_. None) (default_policies DEFAULT_LANE_CAPS True None) item_request)
     = WipHeld"
  using wip_one_is_never_contradicted [of item_request "\<lambda>_. None" "\<lambda>_. None" DEFAULT_LANE_CAPS None]
  by (simp add: item_request_def)

section \<open>Lane caps\<close>

lemma loaded_caps_positive:
  "1 \<le> max_concurrent_llm_nodes (load_workflows pint section)"
  "1 \<le> max_concurrent_io_nodes (load_workflows pint section)"
  by (simp_all add: load_workflows_def workflows_post_init_def Let_def)

text \<open>
  No configuration can stop a lane: whatever the workflows section holds (a flag, text, a negative number,
  infinity, or no section at all), every lane of the limits read from it has at least one place.
\<close>

theorem limits_never_stop_a_lane:
  "1 \<le> lane_cap (lane_limits (map_option (load_workflows pint) file_read)) lane_key"
  using loaded_caps_positive
  by (cases file_read) (auto simp: lane_cap_def lane_limits_def lane_caps_def DEFAULT_LANE_CAPS_def)

section \<open>What is ready\<close>

lemma ready_lease_verdict:
  assumes "strip (as_holder st) \<noteq> []" and "item_id it \<noteq> []"
  shows "workable pf pint (default_policies ls saf (Some st)) it \<longleftrightarrow>
    unblocked it \<and> (case map_of (as_leases st) (item_id it) of
       None \<Rightarrow> True | Some l \<Rightarrow> le_holder l = as_holder st \<or> expired l (as_now st))"
proof -
  let ?rq = "\<lparr>rq_scope = ScopeResource, rq_key = item_id it, rq_node = None\<rparr>"
  have only: "capacity pf pint p ?rq = None"
    if "p \<in> {Lane ls, ContainerConcurrency, Wip saf, Dwell st, MetricGate st}" for p
    using that by (auto simp: metric_decision_def)
  then have "compose_step (\<lambda>p. capacity pf pint p ?rq) p = (\<lambda>best. best)"
    if "p \<in> {Lane ls, ContainerConcurrency, Wip saf, Dwell st, MetricGate st}" for p
    using that by (intro ext) (simp only: compose_step_def option.case)
  then have "compose pf pint (default_policies ls saf (Some st)) ?rq
      = (case capacity pf pint (LeasePolicy st) ?rq of None \<Rightarrow> \<lparr>ad_capacity = None, binding = None\<rparr>
         | Some c \<Rightarrow> \<lparr>ad_capacity = Some c, binding = Some (LeasePolicy st)\<rparr>)"
    by (simp add: compose_def default_policies_def compose_step_def split: option.split)
  then have adm: "admits (compose pf pint (default_policies ls saf (Some st)) ?rq) 0 \<longleftrightarrow>
      (\<exists>l. acquire (map_of (as_leases st) (item_id it)) (item_id it) (as_holder st) (as_now st)
             (lease_ttl_secs st) = Inr l)"
    using assms by (simp add: admits_def split: sum.split)
  have "(\<exists>l. acquire e (item_id it) (as_holder st) (as_now st) (lease_ttl_secs st) = Inr l) \<longleftrightarrow>
      (case e of None \<Rightarrow> True | Some l \<Rightarrow> le_holder l = as_holder st \<or> expired l (as_now st))" for e
    using assms(1) by (auto simp: acquire_def renew_def Let_def split: option.split)
  then show ?thesis using adm by (simp add: workable_def)
qed

text \<open>
  The work board shows what is really free: asked by a named holder, an item is ready exactly when
  it is unblocked and nobody else holds a running lease on it. Its own lease does not hide it, and a
  lapsed one hides it from nobody.
\<close>

theorem ready_is_the_free_work:
  assumes "strip (as_holder st) \<noteq> []" and "\<forall>it \<in> set items. item_id it \<noteq> []"
  shows "set (ready pf pint items (default_policies ls saf (Some st)))
    = {it \<in> set items. unblocked it \<and> (case map_of (as_leases st) (item_id it) of
         None \<Rightarrow> True | Some l \<Rightarrow> le_holder l = as_holder st \<or> expired l (as_now st))}"
  using assms ready_lease_verdict [OF assms(1)] by (auto simp: ready_def)

definition board_item :: "string \<Rightarrow> string \<Rightarrow> ready_item" where
  "board_item i p = \<lparr>item_id = i, priority = p, unblocked = True, blocks_count = 0, overdue = False,
     updated_at = 0\<rparr>"

definition board_state :: admission_state where
  "board_state = idle_state\<lparr>as_holder := ''work-board'', as_now := 1000,
     as_leases := [(''t1'', \<lparr>le_task = ''t1'', le_holder = ''s9'', acquired_at = 900, ttl_seconds = 600, renewals = 0\<rparr>),
                (''t2'', \<lparr>le_task = ''t2'', le_holder = ''s9'', acquired_at = 0, ttl_seconds = 600, renewals = 0\<rparr>)]\<rparr>"

theorem ready_is_the_free_work_witness:
  "set (ready (\<lambda>_. None) (\<lambda>_. None) [board_item ''t1'' ''high'', board_item ''t2'' ''low'']
     (default_policies DEFAULT_LANE_CAPS False (Some board_state))) = {board_item ''t2'' ''low''}"
proof -
  have "strip (as_holder board_state) \<noteq> []"
    by (simp add: board_state_def strip_def is_space_def)
  moreover have "\<forall>it \<in> set [board_item ''t1'' ''high'', board_item ''t2'' ''low'']. item_id it \<noteq> []"
    by (simp add: board_item_def)
  ultimately have "set (ready (\<lambda>_. None) (\<lambda>_. None) [board_item ''t1'' ''high'', board_item ''t2'' ''low'']
      (default_policies DEFAULT_LANE_CAPS False (Some board_state)))
    = {it \<in> set [board_item ''t1'' ''high'', board_item ''t2'' ''low'']. unblocked it \<and>
        (case map_of (as_leases board_state) (item_id it) of
         None \<Rightarrow> True | Some l \<Rightarrow> le_holder l = as_holder board_state \<or> expired l (as_now board_state))}"
    by (rule ready_is_the_free_work)
  also have "\<dots> = {board_item ''t2'' ''low''}"
    by (auto simp: board_item_def board_state_def expired_def expires_at_def MAX_LEASE_SECS_def)
  finally show ?thesis .
qed

text \<open>
  The list and the pick agree and the order is total: the ready list is the workable items, each as
  often as it came, in rank order, so with distinct ids nothing is tied; and the pick is the first of
  the list, an item no workable item outranks.
\<close>

theorem ready_is_ranked:
  "sorted (map rank_key (ready pf pint items ps)) \<and>
   mset (ready pf pint items ps) = mset (filter (workable pf pint ps) items) \<and>
   (case next_ready pf pint items ps of
      None \<Rightarrow> {it \<in> set items. workable pf pint ps it} = {}
    | Some first \<Rightarrow> first \<in> set items \<and> workable pf pint ps first \<and>
        rank_key first = Min (rank_key ` {it \<in> set items. workable pf pint ps it}))"
proof -
  have sorted: "sorted (map rank_key (ready pf pint items ps))" by (simp add: ready_def)
  have members: "set (ready pf pint items ps) = {it \<in> set items. workable pf pint ps it}"
    by (auto simp: ready_def)
  show ?thesis
  proof (cases "ready pf pint items ps")
    case Nil
    then show ?thesis using sorted members by (auto simp: next_ready_def ready_def)
  next
    case (Cons first rest)
    have "Min (rank_key ` set (ready pf pint items ps)) = rank_key first"
      using sorted Cons by (intro Min_eqI) auto
    then have "rank_key first = Min (rank_key ` {it \<in> set items. workable pf pint ps it})"
      unfolding members by simp
    moreover have "first \<in> {it \<in> set items. workable pf pint ps it}" using members Cons by auto
    moreover have "mset (ready pf pint items ps) = mset (filter (workable pf pint ps) items)"
      by (simp add: ready_def)
    ultimately show ?thesis using sorted Cons by (simp add: next_ready_def)
  qed
qed

section \<open>The metric gate\<close>

definition gate_request :: "string \<Rightarrow> node \<Rightarrow> admission_request" where
  "gate_request key n = \<lparr>rq_scope = ScopeStep, rq_key = key, rq_node = Some n\<rparr>"

text \<open>With nothing recorded against the loop, no convergence tier speaks.\<close>

lemma converge_quiet:
  assumes "failure_classes s = []" and "stall_confirmed s = []" and "plan_critique s = []"
    and "call_fingerprints s = []" and "fix_fingerprints s = []" and "progress_marks s = []"
  shows "converge (TickConfig\<lparr>steps := ss, rollback_cap := cap\<rparr>) s = None"
  using assms
  by (simp add: converge_def last_failure_class_def RECOVERABLE_def detect_stall_def window_def TickConfig_def
      DEFAULT_FINGERPRINT_WINDOW_def DEFAULT_HYPOTHESIS_ABANDON_def DEFAULT_NO_PROGRESS_STOP_def Let_def)

lemma gate_evaluate:
  assumes "metric_pass cfg = Some p"
  shows "evaluate (TickConfig\<lparr>steps := [cfg, StepConfig], rollback_cap := cap\<rparr>)
      ((TickState 0 (now - min_dwell_secs cfg))
         \<lparr>gate_passed := True, findings_in_step := min_findings cfg, metric := Some m,
          prior_step_floor := fl, rollbacks_on_step := rb\<rparr>) now
    = (if (\<exists>f. fl = Some f \<and> m < f) then
         (if rb \<ge> cap then Decision COMPLETE 0 (RollbackCapHit cap 0) (Some m)
          else Decision ROLLBACK 0 (MetricRegressed m (the fl)) (Some m))
       else if m \<ge> p then Decision ADVANCE 1 (StepGatePassed 0) (Some m)
       else if (\<exists>h. metric_hold cfg = Some h \<and> h \<le> m) then Decision HOLD 0 (MetricMarginal m p) (Some m)
       else Decision EXECUTE 0 ContinueStep (Some m))"
proof -
  let ?s = "(TickState 0 (now - min_dwell_secs cfg))
         \<lparr>gate_passed := True, findings_in_step := min_findings cfg, metric := Some m,
          prior_step_floor := fl, rollbacks_on_step := rb\<rparr>"
  have "converge (TickConfig\<lparr>steps := [cfg, StepConfig], rollback_cap := cap\<rparr>) ?s = None"
    by (rule converge_quiet) (simp_all add: TickState_def)
  then show ?thesis
    using assms
    by (auto simp: evaluate_def progress_decision_def step_at_def TickConfig_def TickState_def
        split: option.split)
qed

text \<open>
  The gate holds a step in exactly three cases: its metric has fallen below the floor the prior step
  set, and then it is the regression that is named (a rollback, or giving up once the cap of
  rollbacks is reached), or it is marginal, at or above \<open>metric_hold\<close> and short of \<open>metric_pass\<close>. A
  gate without a metric yet, or without \<open>metric_pass\<close>, has no opinion.
\<close>

theorem metric_gate_holds_exactly:
  assumes "metric_pass (step_of pf pint n) = Some p" and "map_of (metrics st) key = Some m"
  shows "capacity pf pint (MetricGate st) (gate_request key n)
      = (if (\<exists>f. map_of (floors st) key = Some f \<and> m < f) \<or>
            (\<exists>h. metric_hold (step_of pf pint n) = Some h \<and> h \<le> m \<and> m < p) then Some 0 else None) \<and>
    ((\<exists>f. map_of (floors st) key = Some f \<and> m < f) \<longleftrightarrow>
      (\<exists>d. metric_decision pf pint st (gate_request key n) = Some d \<and>
        d_action d \<in> {ROLLBACK, COMPLETE}))"
proof -
  let ?rb = "int (case map_of (rollbacks st) key of Some k \<Rightarrow> k | None \<Rightarrow> 0)"
  have "metric_decision pf pint st (gate_request key n)
      = Some (if (\<exists>f. map_of (floors st) key = Some f \<and> m < f) then
         (if ?rb \<ge> as_rollback_cap st then Decision COMPLETE 0 (RollbackCapHit (as_rollback_cap st) 0) (Some m)
          else Decision ROLLBACK 0 (MetricRegressed m (the (map_of (floors st) key))) (Some m))
       else if m \<ge> p then Decision ADVANCE 1 (StepGatePassed 0) (Some m)
       else if (\<exists>h. metric_hold (step_of pf pint n) = Some h \<and> h \<le> m)
            then Decision HOLD 0 (MetricMarginal m p) (Some m)
       else Decision EXECUTE 0 ContinueStep (Some m))"
    using assms gate_evaluate [OF assms(1)] by (simp add: metric_decision_def gate_request_def Let_def)
  then show ?thesis by (auto simp: Decision_def)
qed

definition gated_step :: node where
  "gated_step = Node ACTION ''deploy'' [] [] None [] None
     [(''metric_pass'', JInt 9), (''metric_hold'', JInt 5)] [] []"

theorem metric_gate_holds_exactly_witness:
  "capacity (\<lambda>_. None) (\<lambda>_. None) (MetricGate (idle_state\<lparr>metrics := [(''root'', 7)]\<rparr>))
     (gate_request ''root'' gated_step) = Some 0"
proof -
  have pass: "metric_pass (step_of (\<lambda>_. None) (\<lambda>_. None) gated_step) = Some 9"
    and hold: "metric_hold (step_of (\<lambda>_. None) (\<lambda>_. None) gated_step) = Some 5"
    by (simp_all add: step_of_def step_config_from_phase_def gated_step_def cfg_get_def)
  have "map_of (metrics (idle_state\<lparr>metrics := [(''root'', 7)]\<rparr>)) ''root'' = Some 7" by simp
  from metric_gate_holds_exactly [OF pass this] show ?thesis by (simp add: hold)
qed

text \<open>
  The gate is not monotone in its metric: with a pass mark of nine and a hold mark of five, a step
  whose metric reads seven is held, and one that reads one, with no floor known, is let through.
\<close>

theorem metric_gate_admits_what_is_worse:
  "capacity pf pint (MetricGate (idle_state\<lparr>metrics := [(''root'', 7)]\<rparr>)) (gate_request ''root'' gated_step) = Some 0 \<and>
   capacity pf pint (MetricGate (idle_state\<lparr>metrics := [(''root'', 1)]\<rparr>)) (gate_request ''root'' gated_step) = None"
proof -
  let ?cfg = "step_of pf pint gated_step"
  have cfg: "metric_pass ?cfg = Some 9" "metric_hold ?cfg = Some 5"
    by (simp_all add: step_of_def step_config_from_phase_def gated_step_def cfg_get_def)
  have "metric_decision pf pint (idle_state\<lparr>metrics := [(''root'', m)]\<rparr>) (gate_request ''root'' gated_step)
      = Some (if m \<ge> 9 then Decision ADVANCE 1 (StepGatePassed 0) (Some m)
              else if 5 \<le> m then Decision HOLD 0 (MetricMarginal m 9) (Some m)
              else Decision EXECUTE 0 ContinueStep (Some m))" for m
    using gate_evaluate [OF cfg(1), where fl = None and m = m and now = 0 and rb = 0 and cap = 3]
    by (simp add: metric_decision_def gate_request_def cfg idle_state_def Let_def)
  then show ?thesis by (simp add: Decision_def)
qed

end
