(* ===== verification/Frontier.thy ===== *)
theory Frontier
  imports Admission
begin

text \<open>
  \<^verbatim>\<open>workflows/tick.py\<close>: the frontier, a pure function from the spec tree and the states of its
  instances to what may run now. The data a step binds is reached only through two parameters, the
  reader of a named value and the scoping of the binding context to a fan-out item (both in
  \<^verbatim>\<open>workflows/bindings.py\<close>), and the list of ordering edges of the spec (\<^verbatim>\<open>workflows/validator.py\<close>) is an
  argument: no fact below assumes anything about them. The states are an association list in the
  order of the code's dict.
\<close>

section \<open>Deriving a container's state\<close>

definition tolerate_failures :: "node list \<Rightarrow> inst_state list \<Rightarrow> inst_state list" where
  "tolerate_failures children sts =
     (if children = [] \<or> length children \<noteq> length sts then sts
      else map (\<lambda>(c, st). if yes_or_no (cfg_get (nd_config c) ''allow_failure'') = Some True \<and> st = FAILED
                          then DEGRADED else st) (zip children sts))"

definition SEVERITY :: "inst_state list" where
  "SEVERITY = [CANCELLED, DECLINED, BLOCKED, ESCALATED, SCOPE_VIOLATION, FAILED, SKIPPED, DISCARDED,
     NO_CHANGE, DEGRADED, DONE]"

definition worst :: "inst_state list \<Rightarrow> inst_state" where
  "worst sts = (case find (\<lambda>c. c \<in> set sts) SEVERITY of Some c \<Rightarrow> c | None \<Rightarrow> DONE)"

definition container_outcome :: "inst_state list \<Rightarrow> join_mode \<Rightarrow> int \<Rightarrow> inst_state" where
  "container_outcome sts join quorum =
     (if sts = [] then DONE
      else if DECLINED \<in> set sts then DECLINED
      else if list_ex (\<lambda>st. st \<in> {PENDING, READY, RUNNING, WfModels.WAITING}) sts then RUNNING
      else
        let successes = filter success sts in
        case join of
          JoinAny \<Rightarrow> if successes \<noteq> [] then DONE else worst sts
        | JoinQuorum \<Rightarrow> if int (length successes) \<ge> max 1 quorum then DONE else worst sts
        | JoinAll \<Rightarrow>
            if length successes = length sts then (if DEGRADED \<in> set sts then DEGRADED else DONE)
            else if list_all (\<lambda>st. st = SKIPPED) sts then SKIPPED
            else worst sts)"

definition foreach_outcome :: "item_policy \<Rightarrow> inst_state list \<Rightarrow> inst_state" where
  "foreach_outcome policy sts =
     (if DECLINED \<in> set sts then DECLINED
      else case policy of
        HaltItems \<Rightarrow> container_outcome sts JoinAll 0
      | SkipItems \<Rightarrow>
          if \<not> list_all terminal sts then RUNNING
          else if FAILED \<in> set sts then DEGRADED
          else container_outcome sts JoinAll 0
      | CollectItems \<Rightarrow>
          if \<not> list_all terminal sts then RUNNING else container_outcome sts JoinAll 0)"

section \<open>What a decision reads\<close>

text \<open>
  \<open>read\<close> is \<open>read_named_value\<close> (\<open>None\<close> for a \<open>BindingError\<close>), \<open>scoped_to\<close> the method of the binding
  context, \<open>to_str\<close> is \<open>str()\<close> of a value that is no string.
\<close>

record 'c world =
  w_states :: "(string \<times> inst_state) list"
  w_iterations :: "(string \<times> nat) list"
  declined_edges :: "string list"
  scoped_to :: "'c \<Rightarrow> string \<Rightarrow> 'c"
  read_value :: "string \<Rightarrow> 'c \<Rightarrow> json option"
  to_str :: "json \<Rightarrow> string"

definition state_of :: "(string \<times> inst_state) list \<Rightarrow> string \<Rightarrow> inst_state" where
  "state_of states path = (case map_of states path of Some st \<Rightarrow> st | None \<Rightarrow> PENDING)"

definition iteration_of :: "'c world \<Rightarrow> string \<Rightarrow> nat" where
  "iteration_of w path = (case map_of (w_iterations w) path of Some n \<Rightarrow> n | None \<Rightarrow> 0)"

definition item_path :: "string \<Rightarrow> nat \<Rightarrow> string" where
  "item_path path i = path @ ''.body#'' @ nat_str i"

definition cycle_path :: "string \<Rightarrow> nat \<Rightarrow> string" where
  "cycle_path path i = path @ ''.body@'' @ nat_str i"

definition DEFAULT_CASE :: string where
  "DEFAULT_CASE = ''__default__''"

definition case_path :: "string \<Rightarrow> string \<Rightarrow> string" where
  "case_path path label = (if label = DEFAULT_CASE then default_path path else cases_path path label)"

definition case_key :: "(json \<Rightarrow> string) \<Rightarrow> json \<Rightarrow> string" where
  "case_key str v = (case v of JBool b \<Rightarrow> if b then ''true'' else ''false'' | _ \<Rightarrow> text_of str v)"

definition case_for :: "(json \<Rightarrow> string) \<Rightarrow> node \<Rightarrow> json \<Rightarrow> (string \<times> node) option" where
  "case_for str n v =
     (case map_of (nd_cases n) (case_key str v) of
        Some c \<Rightarrow> Some (case_key str v, c)
      | None \<Rightarrow> map_option (\<lambda>c. (DEFAULT_CASE, c)) (nd_default n))"

text \<open>\<open>str(cfg.get(key, "") or "")\<close>, and with a default that is not empty.\<close>

definition str_or :: "(json \<Rightarrow> string) \<Rightarrow> config \<Rightarrow> string \<Rightarrow> string \<Rightarrow> string" where
  "str_or str cfg key dflt = (let v = cfg_get cfg key in if truthy v then text_of str v else dflt)"

definition select_case :: "'c world \<Rightarrow> 'c \<Rightarrow> node \<Rightarrow> (string \<times> node) option" where
  "select_case w ctx n =
     (let expr = str_or (to_str w) (nd_config n) ''on'' [] in
      if expr = [] then None
      else case read_value w expr ctx of None \<Rightarrow> None | Some v \<Rightarrow> case_for (to_str w) n v)"

definition taken_case :: "'c world \<Rightarrow> 'c \<Rightarrow> node \<Rightarrow> string \<Rightarrow> (string \<times> string \<times> node) option" where
  "taken_case w ctx n path =
     map_option (\<lambda>(l, c). (l, case_path path l, c)) (select_case w ctx n)"

definition resolve_items :: "'c world \<Rightarrow> 'c \<Rightarrow> node \<Rightarrow> json list option" where
  "resolve_items w ctx n =
     (case cfg_get (nd_config n) ''items'' of
        JList xs \<Rightarrow> Some xs
      | JStr s \<Rightarrow>
          if strip s = [] then None
          else (case read_value w s ctx of
                  None \<Rightarrow> None
                | Some (JList xs) \<Rightarrow> Some xs
                | Some JNull \<Rightarrow> None
                | Some v \<Rightarrow> Some [v])
      | _ \<Rightarrow> None)"

definition item_error_policy :: "(json \<Rightarrow> string) \<Rightarrow> node \<Rightarrow> item_policy" where
  "item_error_policy str n =
     (case item_policy_of (str_or str (nd_config n) ''on_item_error'' ''skip'') of
        Some p \<Rightarrow> p | None \<Rightarrow> SkipItems)"

definition join_mode_for :: "(json \<Rightarrow> string) \<Rightarrow> config \<Rightarrow> join_mode" where
  "join_mode_for str cfg = (case join_of (str_or str cfg ''join'' ''all'') of Some j \<Rightarrow> j | None \<Rightarrow> JoinAll)"

definition quorum_of :: "config \<Rightarrow> int" where
  "quorum_of cfg = (case as_int (cfg_get cfg ''quorum'') of Some i \<Rightarrow> i | None \<Rightarrow> 0)"

definition fails_the_run :: "node \<Rightarrow> bool" where
  "fails_the_run n = (cfg_get (nd_config n) ''on_error'' = JStr ''fail_run'')"

section \<open>The derivation\<close>

lemma child_size [termination_simp]: "c \<in> set (nd_children n) \<Longrightarrow> size c < size n"
  by (cases n) (auto dest: size_list_estimation' [where f = size, OF _ order_refl])

lemma zip_child_size [termination_simp]: "(i :: nat, c) \<in> set (zip js (nd_children n)) \<Longrightarrow> size c < size n"
  by (drule set_zip_rightD) (rule child_size)

lemma body_size [termination_simp]: "nd_body n = Some b \<Longrightarrow> size b < size n"
  by (cases n) simp

lemma case_size: "(l, c) \<in> set (nd_cases n) \<Longrightarrow> size c < size n"
  by (cases n) (auto dest: case_node_size)

lemma default_size: "nd_default n = Some c \<Longrightarrow> size c < size n"
  by (cases n) simp

lemma case_for_size: "case_for str n v = Some (l, c) \<Longrightarrow> size c < size n"
  by (auto simp: case_for_def default_size dest: map_of_SomeD case_size split: option.splits)

lemma select_case_size: "select_case w ctx n = Some (l, c) \<Longrightarrow> size c < size n"
  by (auto simp: select_case_def Let_def case_for_size split: if_splits option.splits)

lemma taken_case_size [termination_simp]: "taken_case w ctx n path = Some (l, p, c) \<Longrightarrow> size c < size n"
  by (auto simp: taken_case_def select_case_size)

definition enum_children :: "node \<Rightarrow> (nat \<times> node) list" where
  "enum_children n = zip [0..<length (nd_children n)] (nd_children n)"

lemma enum_child_size [termination_simp]: "(i, c) \<in> set (enum_children n) \<Longrightarrow> size c < size n"
  by (auto simp: enum_children_def zip_child_size)

function derive :: "'c world \<Rightarrow> 'c \<Rightarrow> node \<Rightarrow> string \<Rightarrow> inst_state" where
  "derive w ctx n path =
     (let stored = state_of (w_states w) path in
      if \<not> is_container n then stored
      else if stored \<in> {SKIPPED, CANCELLED, DISCARDED} then stored
      else case nd_kind n of
        SEQUENCE \<Rightarrow>
          container_outcome (tolerate_failures (nd_children n)
            (map (\<lambda>(i, c). derive w ctx c (child_path path i)) (enum_children n))) JoinAll 0
      | PARALLEL \<Rightarrow>
          container_outcome (tolerate_failures (nd_children n)
            (map (\<lambda>(i, c). derive w ctx c (child_path path i)) (enum_children n)))
            (join_mode_for (to_str w) (nd_config n)) (quorum_of (nd_config n))
      | FOREACH \<Rightarrow>
          (case nd_body n of
             None \<Rightarrow> DONE
           | Some b \<Rightarrow>
               (case resolve_items w ctx n of
                  None \<Rightarrow> PENDING
                | Some items \<Rightarrow>
                    if items = [] then DONE
                    else foreach_outcome (item_error_policy (to_str w) n)
                           (map (\<lambda>i. derive w (scoped_to w ctx (item_path path i)) b (item_path path i))
                              [0..<length items])))
      | LOOP \<Rightarrow>
          (case nd_body n of
             None \<Rightarrow> DONE
           | Some b \<Rightarrow>
               (let ist = derive w ctx b (cycle_path path (iteration_of w path)) in
                if \<not> terminal ist then (if ist = RUNNING then RUNNING else stored)
                else if terminal stored then stored else RUNNING))
      | BRANCH \<Rightarrow>
          if \<not> success stored then stored
          else (case taken_case w ctx n path of
                  None \<Rightarrow> PENDING
                | Some (l, cpath, c) \<Rightarrow> derive w ctx c cpath)
      | _ \<Rightarrow> stored)"
  by pat_completeness auto
termination
  by (relation "measure (\<lambda>(w, ctx, n, path). size n)")
    (auto simp: enum_child_size body_size taken_case_size)

declare derive.simps [simp del]

section \<open>The derived ordering\<close>

text \<open>One edge as \<open>dep_edges_for_root\<close> reports it.\<close>

record dep_edge =
  reader_path :: string
  producer_path :: string
  producer_id :: string
  ordered :: bool
  is_binding :: bool

type_synonym dep = "string \<times> string \<times> bool"

record ordering =
  od_deps :: "(string \<times> dep list) list"
  od_nodes :: "(string \<times> node) list"
  iterated :: "string list"

fun add_dep :: "string \<Rightarrow> dep \<Rightarrow> (string \<times> dep list) list \<Rightarrow> (string \<times> dep list) list" where
  "add_dep k e [] = [(k, [e])]"
| "add_dep k e ((k', es) # ds) = (if k' = k then (k', push_new e es) # ds else (k', es) # add_dep k e ds)"

text \<open>\<open>dict(pairs)\<close>: a key keeps its first place and takes its last value.\<close>

definition dict_of :: "(string \<times> 'v) list \<Rightarrow> (string \<times> 'v) list" where
  "dict_of kvs = map (\<lambda>k. (k, the (map_of (rev kvs) k))) (push_all (map fst kvs) [])"

definition ordering_for :: "dep_edge list \<Rightarrow> node \<Rightarrow> ordering" where
  "ordering_for dep_edges tree =
     (let nodes = dict_of (walk tree ''root'') in
      \<lparr>od_deps = fold (\<lambda>e ds. if ordered e
          then add_dep (reader_path e) (producer_path e, producer_id e, is_binding e) ds else ds) dep_edges [],
       od_nodes = nodes,
       iterated = sort_key (\<lambda>p. - int (length p))
         (map (\<lambda>(p, n). body_path p)
           (filter (\<lambda>(p, n). nd_body n \<noteq> None \<and> nd_kind n \<in> {FOREACH, LOOP}) nodes))\<rparr>)"

definition starts_with :: "string \<Rightarrow> string \<Rightarrow> bool" where
  "starts_with s p = prefix p s"

text \<open>\<open>_producer_instance\<close>: the innermost enclosing fan-out decides.\<close>

definition producer_instance :: "string \<Rightarrow> ordering \<Rightarrow> (string \<times> string) list \<Rightarrow> string option" where
  "producer_instance pspec ord inst =
     (case find (\<lambda>body. pspec = body \<or> starts_with pspec (body @ ''.'')) (iterated ord) of
        Some body \<Rightarrow> map_option (\<lambda>base. base @ drop (length body) pspec) (map_of inst body)
      | None \<Rightarrow> Some pspec)"

definition edge_key :: "string \<Rightarrow> string \<Rightarrow> string" where
  "edge_key src dst = src @ ''->'' @ dst"

definition edge_declined :: "string list \<Rightarrow> string \<Rightarrow> string \<Rightarrow> bool" where
  "edge_declined declined src dst = (edge_key src dst \<in> set declined)"

datatype order_verdict = Satisfied | NotYet | Unreachable

definition producer_state ::
  "'c world \<Rightarrow> 'c \<Rightarrow> ordering \<Rightarrow> string \<Rightarrow> string \<Rightarrow> inst_state" where
  "producer_state w ctx ord pspec ppath =
     (case map_of (od_nodes ord) pspec of
        Some pn \<Rightarrow> derive w ctx pn ppath
      | None \<Rightarrow> state_of (w_states w) ppath)"

text \<open>The loop of \<open>_ordering_satisfied\<close>; \<open>ok\<close> is what the producers so far said.\<close>

fun order_check ::
  "'c world \<Rightarrow> 'c \<Rightarrow> ordering \<Rightarrow> (string \<times> string) list \<Rightarrow> string \<Rightarrow> bool \<Rightarrow> dep list \<Rightarrow> order_verdict" where
  "order_check w ctx ord inst nid ok [] = (if ok then Satisfied else NotYet)"
| "order_check w ctx ord inst nid ok ((pspec, pid, carries_data) # ds) =
     (if nid \<noteq> [] \<and> edge_declined (declined_edges w) pid nid then Unreachable
      else case producer_instance pspec ord inst of
             None \<Rightarrow> order_check w ctx ord inst nid ok ds
           | Some ppath \<Rightarrow>
               (let st = producer_state w ctx ord pspec ppath in
                if carries_data \<and> terminal st \<and> \<not> success st then Unreachable
                else if st = DECLINED then Unreachable
                else order_check w ctx ord inst nid (ok \<and> terminal st) ds))"

definition ordering_verdict ::
  "'c world \<Rightarrow> 'c \<Rightarrow> ordering \<Rightarrow> (string \<times> string) list \<Rightarrow> node \<Rightarrow> string \<Rightarrow> order_verdict" where
  "ordering_verdict w ctx ord inst n spec =
     (case map_of (od_deps ord) spec of
        None \<Rightarrow> Satisfied
      | Some ds \<Rightarrow> order_check w ctx ord inst (nd_id n) True ds)"

section \<open>The frontier\<close>

record item_ctx =
  ic_item :: json
  has_item :: bool
  iter_index :: "nat option"
  item_total :: "nat option"

definition no_item :: item_ctx where
  "no_item = \<lparr>ic_item = JNull, has_item = False, iter_index = None, item_total = None\<rparr>"

record ready_node =
  rn_path :: string
  rn_node :: node
  rn_lane :: lane
  rn_item :: item_ctx

record frontier =
  fr_ready :: "ready_node list"
  fr_deferred :: "ready_node list"
  wip_held :: "string list"
  fr_running :: "string list"
  fr_waiting :: "string list"
  to_skip :: "string list"
  fr_complete :: bool
  fr_blocked :: bool
  fr_outcome :: "inst_state option"

definition empty_frontier :: frontier where
  "empty_frontier = \<lparr>fr_ready = [], fr_deferred = [], wip_held = [], fr_running = [], fr_waiting = [],
     to_skip = [], fr_complete = False, fr_blocked = False, fr_outcome = None\<rparr>"

definition mark_unreachable :: "(string \<times> inst_state) list \<Rightarrow> string \<Rightarrow> frontier \<Rightarrow> frontier" where
  "mark_unreachable states path fr =
     (if \<not> terminal (state_of states path) \<and> path \<notin> set (to_skip fr)
      then fr\<lparr>to_skip := to_skip fr @ [path]\<rparr> else fr)"

definition add_ready :: "string \<Rightarrow> node \<Rightarrow> item_ctx \<Rightarrow> frontier \<Rightarrow> frontier" where
  "add_ready path n ic fr =
     fr\<lparr>fr_ready := fr_ready fr @ [\<lparr>rn_path = path, rn_node = n, rn_lane = lane_for (nd_kind n), rn_item = ic\<rparr>]\<rparr>"

text \<open>\<open>_started\<close>: some state is recorded for the item or below it.\<close>

definition started :: "(string \<times> inst_state) list \<Rightarrow> string \<Rightarrow> bool" where
  "started states ipath = list_ex (\<lambda>(p, st). p = ipath \<or> starts_with p (ipath @ ''.'')) states"

definition halted :: "'c world \<Rightarrow> node \<Rightarrow> string \<Rightarrow> nat \<Rightarrow> bool" where
  "halted w n path k \<longleftrightarrow> item_error_policy (to_str w) n = HaltItems \<and>
     list_ex (\<lambda>i. state_of (w_states w) (item_path path i) = FAILED) [0..<k]"

definition container_verdict :: "policy list \<Rightarrow> node \<Rightarrow> string \<Rightarrow> admission" where
  "container_verdict policies n path =
     compose (\<lambda>_. None) (\<lambda>_. None) policies \<lparr>rq_scope = ScopeContainer, rq_key = path, rq_node = Some n\<rparr>"

definition items_in_flight :: "'c world \<Rightarrow> 'c \<Rightarrow> node \<Rightarrow> string \<Rightarrow> nat \<Rightarrow> nat" where
  "items_in_flight w ctx b path k =
     length (filter (\<lambda>i. started (w_states w) (item_path path i) \<and>
         \<not> terminal (derive w (scoped_to w ctx (item_path path i)) b (item_path path i))) [0..<k])"

text \<open>
  The loop over the items of a fan-out: which are visited and which are refused by name, in order. A new
  item takes a slot, an item under way keeps its own.
\<close>

datatype item_move = VisitItem nat | HoldItem nat

fun plan_items ::
  "'c world \<Rightarrow> admission \<Rightarrow> string \<Rightarrow> nat list \<Rightarrow> nat \<Rightarrow> item_move list" where
  "plan_items w verdict path [] in_flight = []"
| "plan_items w verdict path (i # is) in_flight =
     (let ipath = item_path path i in
      if terminal (state_of (w_states w) ipath) then plan_items w verdict path is in_flight
      else if bounded verdict \<and> \<not> started (w_states w) ipath then
        (if \<not> admits verdict (int in_flight) then
           (if admission_hold verdict = WipHeld then [HoldItem i] else []) @ plan_items w verdict path is in_flight
         else VisitItem i # plan_items w verdict path is (Suc in_flight))
      else VisitItem i # plan_items w verdict path is in_flight)"

definition foreach_plan :: "'c world \<Rightarrow> 'c \<Rightarrow> policy list \<Rightarrow> node \<Rightarrow> node \<Rightarrow> string \<Rightarrow> nat \<Rightarrow> item_move list" where
  "foreach_plan w ctx policies n b path k =
     (if halted w n path k then []
      else let verdict = container_verdict policies n path
           in plan_items w verdict path [0..<k]
                (if bounded verdict then items_in_flight w ctx b path k else 0))"

definition skip_cases :: "(string \<times> inst_state) list \<Rightarrow> node \<Rightarrow> string \<Rightarrow> string \<Rightarrow> string list" where
  "skip_cases states n path cpath =
     filter (\<lambda>p. p \<noteq> cpath \<and> \<not> terminal (state_of states p))
       (map (\<lambda>(l, c). cases_path path l) (nd_cases n)
        @ (case nd_default n of None \<Rightarrow> [] | Some c \<Rightarrow> [default_path path]))"

text \<open>
  \<open>_visit\<close> and the visits of the container kinds. \<open>enabled\<close> is true at every call in the code. A spec
  position and an instance path travel together; \<open>inst\<close> maps the fan-out bodies around to their
  instance.
\<close>

function visit ::
  "'c world \<Rightarrow> ordering \<Rightarrow> policy list \<Rightarrow> (string \<times> string) list \<Rightarrow> 'c \<Rightarrow> item_ctx \<Rightarrow> node \<Rightarrow>
     string \<Rightarrow> string \<Rightarrow> frontier \<Rightarrow> frontier" where
  "visit w ord policies inst ctx ic n spec path fr =
     (let st = state_of (w_states w) path in
      if st = RUNNING then fr\<lparr>fr_running := fr_running fr @ [path]\<rparr>
      else if st = WfModels.WAITING then fr\<lparr>fr_waiting := fr_waiting fr @ [path]\<rparr>
      else if terminal (if is_container n then derive w ctx n path else st) then fr
      else case ordering_verdict w ctx ord inst n spec of
        NotYet \<Rightarrow> fr
      | Unreachable \<Rightarrow> mark_unreachable (w_states w) path fr
      | Satisfied \<Rightarrow>
          (case nd_kind n of
             SEQUENCE \<Rightarrow>
               scan (\<lambda>(i, c) fr.
                 (visit w ord policies inst ctx ic c (child_path spec i) (child_path path i) fr,
                  let d = derive w ctx c (child_path path i) in
                  terminal d \<and> d \<noteq> DECLINED \<and>
                    \<not> (state_of (w_states w) (child_path path i) = FAILED \<and> fails_the_run c)))
                 (enum_children n) fr
           | PARALLEL \<Rightarrow>
               scan (\<lambda>(i, c) fr.
                 (if terminal (derive w ctx c (child_path path i)) then fr
                  else visit w ord policies inst ctx ic c (child_path spec i) (child_path path i) fr, True))
                 (enum_children n) fr
           | FOREACH \<Rightarrow>
               (case nd_body n of
                  None \<Rightarrow> fr
                | Some b \<Rightarrow>
                    (case resolve_items w ctx n of
                       None \<Rightarrow> fr
                     | Some items \<Rightarrow>
                         scan (\<lambda>move fr.
                           (case move of
                              HoldItem i \<Rightarrow> (fr\<lparr>wip_held := wip_held fr @ [item_path path i]\<rparr>, True)
                            | VisitItem i \<Rightarrow>
                                (visit w ord policies ((body_path spec, item_path path i) # inst)
                                   (scoped_to w ctx (item_path path i))
                                   \<lparr>ic_item = (if i < length items then items ! i else JNull), has_item = True,
                                    iter_index = Some i, item_total = Some (length items)\<rparr>
                                   b (body_path spec) (item_path path i) fr, True)))
                           (foreach_plan w ctx policies n b path (length items)) fr))
           | LOOP \<Rightarrow>
               (case nd_body n of
                  None \<Rightarrow> fr
                | Some b \<Rightarrow>
                    (let k = iteration_of w path; ipath = cycle_path path k in
                     if terminal (state_of (w_states w) ipath) then fr
                     else visit w ord policies ((body_path spec, ipath) # inst) ctx
                            \<lparr>ic_item = ic_item ic, has_item = has_item ic, iter_index = Some k,
                             item_total = None\<rparr>
                            b (body_path spec) ipath fr))
           | BRANCH \<Rightarrow>
               if \<not> terminal st then add_ready path n ic fr
               else if \<not> success st then fr
               else (case taken_case w ctx n path of
                       None \<Rightarrow> fr
                     | Some (l, cpath, c) \<Rightarrow>
                         (let fr' = fr\<lparr>to_skip := to_skip fr @ skip_cases (w_states w) n path cpath\<rparr> in
                          if terminal (state_of (w_states w) cpath) then fr'
                          else visit w ord policies inst ctx ic c (case_path spec l) cpath fr'))
           | _ \<Rightarrow> add_ready path n ic fr))"
  by pat_completeness auto
termination
  by (relation "measure (\<lambda>(w, ord, policies, inst, ctx, ic, n, spec, path, fr). size n)")
    (auto simp: enum_child_size body_size taken_case_size)

declare visit.simps [simp del]

text \<open>Lane admission: the ready nodes by path, each taking a place in its lane while there is one.\<close>

definition lane_verdict :: "policy list \<Rightarrow> lane \<Rightarrow> admission" where
  "lane_verdict policies l =
     compose (\<lambda>_. None) (\<lambda>_. None) policies \<lparr>rq_scope = ScopeLane, rq_key = lane_name l, rq_node = None\<rparr>"

fun admit_lanes ::
  "policy list \<Rightarrow> (lane \<Rightarrow> nat) \<Rightarrow> ready_node list \<Rightarrow> ready_node list \<times> ready_node list" where
  "admit_lanes policies used [] = ([], [])"
| "admit_lanes policies used (r # rs) =
     (if admits (lane_verdict policies (rn_lane r)) (int (used (rn_lane r))) then
        (case admit_lanes policies (used(rn_lane r := Suc (used (rn_lane r)))) rs of
           (adm, def) \<Rightarrow> (r # adm, def))
      else (case admit_lanes policies used rs of (adm, def) \<Rightarrow> (adm, r # def)))"

definition frontier_of ::
  "'c world \<Rightarrow> dep_edge list \<Rightarrow> limits \<Rightarrow> bool \<Rightarrow> (lane \<Rightarrow> nat) \<Rightarrow> 'c \<Rightarrow> node \<Rightarrow> frontier" where
  "frontier_of w dep_edges lims single_active running_lanes ctx tree =
     (let policies = default_policies lims single_active None;
          fr = visit w (ordering_for dep_edges tree) policies [] ctx no_item tree ''root'' ''root'' empty_frontier;
          root_state = derive w ctx tree ''root''
      in case admit_lanes policies running_lanes (sort_key rn_path (fr_ready fr)) of
           (adm, def) \<Rightarrow>
             fr\<lparr>fr_ready := adm, fr_deferred := def,
                fr_complete := terminal root_state,
                fr_outcome := (if terminal root_state then Some root_state else None),
                fr_blocked := (\<not> terminal root_state \<and> adm = [] \<and> def = [] \<and> fr_running fr = []
                                 \<and> fr_waiting fr = [] \<and> to_skip fr = [])\<rparr>)"

section \<open>When a loop goes on, and when a watcher is stopped\<close>

datatype loop_stop =
    LoopGoesOn | CountedComplete | MissingCondition | ConditionUnresolvable | ConditionMet
  | DryStreakReached | MaxIterations

definition positive_int :: "json \<Rightarrow> int option" where
  "positive_int v = (case as_int v of Some i \<Rightarrow> if i > 0 then Some i else None | None \<Rightarrow> None)"

text \<open>
  \<open>_loop_exit_test\<close>; \<open>cond\<close> is \<open>conditions.evaluate\<close> (\<open>None\<close> for a \<open>BindingError\<close>). The code's pair of a flag
  and a reason is one value here: it goes on exactly when the reason is \<open>LoopGoesOn\<close>.
\<close>

definition loop_exit_test ::
  "(json \<Rightarrow> string) \<Rightarrow> (string \<Rightarrow> 'c \<Rightarrow> bool option) \<Rightarrow> node \<Rightarrow> int \<Rightarrow> int \<Rightarrow> 'c \<Rightarrow> loop_stop" where
  "loop_exit_test str cond n dry_streak iteration ctx =
     (let cfg = nd_config n in
      case (case loop_mode_of (str_or str cfg ''mode'' ''counted'') of Some m \<Rightarrow> m | None \<Rightarrow> Counted) of
        Counted \<Rightarrow>
          (let total = (case positive_int (cfg_get cfg ''n'') of Some i \<Rightarrow> i | None \<Rightarrow> 1) in
           if iteration < total then LoopGoesOn else CountedComplete)
      | Until \<Rightarrow>
          (let expr = str_or str cfg ''condition'' [] in
           if expr = [] then MissingCondition
           else case cond expr ctx of
                  None \<Rightarrow> ConditionUnresolvable
                | Some met \<Rightarrow> if met then ConditionMet else LoopGoesOn)
      | UntilCancelled \<Rightarrow> LoopGoesOn
      | UntilDry \<Rightarrow>
          (let need = (case positive_int (cfg_get cfg ''streak'') of Some i \<Rightarrow> i | None \<Rightarrow> 1) in
           if dry_streak < need then LoopGoesOn else DryStreakReached))"

definition loop_should_continue ::
  "(json \<Rightarrow> string) \<Rightarrow> (string \<Rightarrow> 'c \<Rightarrow> bool option) \<Rightarrow> node \<Rightarrow> int \<Rightarrow> int \<Rightarrow> 'c \<Rightarrow> loop_stop" where
  "loop_should_continue str cond n dry_streak iteration ctx =
     (case loop_exit_test str cond n dry_streak iteration ctx of
        LoopGoesOn \<Rightarrow>
          (case positive_int (cfg_get (nd_config n) ''max_iterations'') of
             Some cap \<Rightarrow> if iteration \<ge> cap then MaxIterations else LoopGoesOn
           | None \<Rightarrow> LoopGoesOn)
      | stop \<Rightarrow> stop)"

definition is_until_cancelled :: "(json \<Rightarrow> string) \<Rightarrow> node \<Rightarrow> bool" where
  "is_until_cancelled str n \<longleftrightarrow> nd_kind n = LOOP \<and> str_or str (nd_config n) ''mode'' [] = ''until_cancelled''"

text \<open>\<open>ctx0\<close> is the empty \<open>BindingContext()\<close> the reap decision derives with.\<close>

definition reap_in :: "'c world \<Rightarrow> 'c \<Rightarrow> string \<Rightarrow> node \<Rightarrow> string list" where
  "reap_in w ctx0 path n =
     (let join = join_mode_for (to_str w) (nd_config n);
          watchers = filter (\<lambda>(i, c). is_until_cancelled (to_str w) c) (enum_children n);
          workers = map (\<lambda>(i, c). derive w ctx0 c (child_path path i))
                      (filter (\<lambda>(i, c). \<not> is_until_cancelled (to_str w) c) (enum_children n));
          need = (if join = JoinQuorum then max 1 (quorum_of (nd_config n)) else 1)
      in if nd_kind n \<noteq> PARALLEL \<or> join = JoinAll \<or> watchers = [] \<or> workers = []
            \<or> int (length (filter success workers)) < need
         then []
         else filter (\<lambda>p. \<not> terminal (state_of (w_states w) p))
                (map (\<lambda>(i, c). child_path path i) watchers))"

definition reap_watchers :: "'c world \<Rightarrow> 'c \<Rightarrow> node \<Rightarrow> string list" where
  "reap_watchers w ctx0 tree = concat (map (\<lambda>(p, n). reap_in w ctx0 p n) (walk tree ''root''))"

end
