(* ===== verification/FrontierFacts.thy ===== *)
theory FrontierFacts
  imports Frontier
begin

text \<open>
  What the frontier promises: how a container's state follows from its children's, what a node on a
  list of the frontier is, that no reader starts before its producers are done, that lanes and
  fan-outs keep their caps, and that a bounded loop stops. The general lemma is \<open>visit_preserves\<close>: what
  every update of the walk keeps, the whole walk keeps. Two facts at the end show where the code
  falls short of what its comments say.
\<close>

section \<open>Outcomes\<close>

lemma terminal_ranked: "terminal st \<Longrightarrow> st \<in> set SEVERITY"
  by (cases st) (simp_all add: SEVERITY_def)

lemma worst_in: "sts \<noteq> [] \<Longrightarrow> list_all terminal sts \<Longrightarrow> worst sts \<in> set sts"
proof -
  assume "sts \<noteq> []" "list_all terminal sts"
  then obtain st where st: "st \<in> set sts" "terminal st" by (cases sts) auto
  then have "st \<in> set SEVERITY" by (simp add: terminal_ranked)
  then have "find (\<lambda>c. c \<in> set sts) SEVERITY \<noteq> None" using st(1) by (auto simp: find_None_iff)
  then obtain c where c: "find (\<lambda>c. c \<in> set sts) SEVERITY = Some c" by blast
  then have "c \<in> set sts" by (auto simp: find_Some_iff)
  then show ?thesis by (simp add: worst_def c)
qed

lemma unfinished_states: "st \<in> {PENDING, READY, RUNNING, WfModels.WAITING} \<longleftrightarrow> \<not> terminal st"
  by (cases st) simp_all

lemma ex_unfinished:
  "list_ex (\<lambda>st. st \<in> {PENDING, READY, RUNNING, WfModels.WAITING}) sts \<longleftrightarrow> \<not> list_all terminal sts"
  by (simp only: unfinished_states list_ex_iff list_all_iff) blast

lemma container_outcome_settled:
  assumes "sts \<noteq> []" and "DECLINED \<notin> set sts" and "list_all terminal sts"
  shows "container_outcome sts j q =
    (let k = length (filter success sts) in
     case j of
       JoinAny \<Rightarrow> if k > 0 then DONE else worst sts
     | JoinQuorum \<Rightarrow> if int k \<ge> max 1 q then DONE else worst sts
     | JoinAll \<Rightarrow> if k = length sts then (if DEGRADED \<in> set sts then DEGRADED else DONE)
         else if list_all (\<lambda>st. st = SKIPPED) sts then SKIPPED else worst sts)"
proof -
  have "\<not> list_ex (\<lambda>st. st \<in> {PENDING, READY, RUNNING, WfModels.WAITING}) sts"
    using assms(3) ex_unfinished by blast
  then show ?thesis using assms(1,2) by (simp add: container_outcome_def Let_def split: join_mode.split)
qed

lemma settled_terminal:
  assumes "sts \<noteq> []" and "DECLINED \<notin> set sts" and "list_all terminal sts"
  shows "terminal (container_outcome sts j q) \<and> container_outcome sts j q \<noteq> DECLINED"
proof -
  have "worst sts \<in> set sts" by (rule worst_in [OF assms(1,3)])
  then have "terminal (worst sts)" "worst sts \<noteq> DECLINED" using assms(2,3) by (auto simp: list_all_iff)
  then show ?thesis
    unfolding container_outcome_settled [OF assms] by (simp add: Let_def split: join_mode.split)
qed

lemma unsettled_running:
  "sts \<noteq> [] \<Longrightarrow> DECLINED \<notin> set sts \<Longrightarrow> \<not> list_all terminal sts \<Longrightarrow> container_outcome sts j q = RUNNING"
  using ex_unfinished [of sts] by (simp add: container_outcome_def)

lemma outcome_declined: "DECLINED \<in> set sts \<Longrightarrow> container_outcome sts j q = DECLINED"
  by (cases sts) (auto simp: container_outcome_def)

text \<open>
  A container waits for all it holds and for nothing else: under every join mode its state is
  terminal exactly when every child's is, or when one was declined, and until then it is RUNNING. So a
  join never fires early on a leg that is still working, and never waits on one that is not.
\<close>

theorem containers_wait_for_everyone:
  "terminal (container_outcome sts j q) = (DECLINED \<in> set sts \<or> list_all terminal sts) \<and>
   (container_outcome sts j q = DECLINED) = (DECLINED \<in> set sts) \<and>
   (\<not> terminal (container_outcome sts j q)) = (container_outcome sts j q = RUNNING)"
proof -
  consider (nil) "sts = []" | (dec) "DECLINED \<in> set sts"
    | (run) "sts \<noteq> []" "DECLINED \<notin> set sts" "\<not> list_all terminal sts"
    | (set) "sts \<noteq> []" "DECLINED \<notin> set sts" "list_all terminal sts" by blast
  then show ?thesis
  proof cases
    case nil
    then show ?thesis by (simp add: container_outcome_def)
  next
    case dec
    then show ?thesis by (simp add: outcome_declined)
  next
    case run
    then show ?thesis by (simp add: unsettled_running)
  next
    case set
    then show ?thesis using settled_terminal [OF set, of j q] by auto
  qed
qed

text \<open>
  The three item policies give three verdicts on the same items. Once every item has ended and none
  was declined: with a failure among them \<open>skip\<close> reports the fan-out DEGRADED, a success, while
  \<open>collect\<close> and \<open>halt\<close> report no success; without a failure all three agree. A declined item ends the
  fan-out under every policy.
\<close>

theorem item_policies_differ_on_failure:
  assumes "list_all terminal sts" and "sts \<noteq> []"
  shows "(DECLINED \<in> set sts \<longrightarrow> foreach_outcome p sts = DECLINED) \<and>
    (DECLINED \<notin> set sts \<longrightarrow> FAILED \<in> set sts \<longrightarrow>
       foreach_outcome SkipItems sts = DEGRADED \<and>
       \<not> success (foreach_outcome CollectItems sts) \<and> \<not> success (foreach_outcome HaltItems sts)) \<and>
    (FAILED \<notin> set sts \<longrightarrow> foreach_outcome p sts = foreach_outcome SkipItems sts)"
proof -
  have lost: "\<not> success (container_outcome sts JoinAll 0)" if "FAILED \<in> set sts" "DECLINED \<notin> set sts"
  proof -
    have "length (filter success sts) \<noteq> length sts"
    proof
      assume "length (filter success sts) = length sts"
      then show False using that(1) length_filter_less [of FAILED sts success] by simp
    qed
    moreover have "\<not> success (worst sts)"
      using that by (auto simp: worst_def SEVERITY_def)
    ultimately show ?thesis
      using container_outcome_settled [OF assms(2) that(2) assms(1), of JoinAll 0] by (simp add: Let_def)
  qed
  then show ?thesis
    using assms by (auto simp: foreach_outcome_def split: item_policy.split)
qed

theorem item_policies_differ_on_failure_witness:
  "foreach_outcome SkipItems [DONE, FAILED] = DEGRADED \<and> \<not> success (foreach_outcome CollectItems [DONE, FAILED])"
  using item_policies_differ_on_failure [of "[DONE, FAILED]" SkipItems] by simp

section \<open>What the walk keeps\<close>

text \<open>The kinds of node the frontier can hand out: the leaves, and a branch whose selection is to be made.\<close>

definition launchable :: "node \<Rightarrow> bool" where
  "launchable n \<longleftrightarrow> \<not> is_container n \<or> nd_kind n = BRANCH"

lemma launchable_kinds: "launchable n \<longleftrightarrow> nd_kind n \<notin> {SEQUENCE, PARALLEL, FOREACH, LOOP}"
  by (cases "nd_kind n") (simp_all add: launchable_def is_container_def CONTAINER_KINDS_def)

definition idle :: "'c world \<Rightarrow> string \<Rightarrow> bool" where
  "idle w path \<longleftrightarrow> state_of (w_states w) path = PENDING \<or> state_of (w_states w) path = READY"

lemma idleI:
  "state_of (w_states w) p \<noteq> RUNNING \<Longrightarrow> state_of (w_states w) p \<noteq> WfModels.WAITING \<Longrightarrow>
   \<not> terminal (state_of (w_states w) p) \<Longrightarrow> idle w p"
  by (cases "state_of (w_states w) p") (simp_all add: idle_def)

lemma skip_cases_open: "p \<in> set (skip_cases states n path cpath) \<Longrightarrow> \<not> terminal (state_of states p)"
  by (auto simp: skip_cases_def)

lemma held_items_open:
  "HoldItem i \<in> set (plan_items w v path is k) \<Longrightarrow>
     \<not> terminal (state_of (w_states w) (item_path path i)) \<and> \<not> started (w_states w) (item_path path i)"
  by (induction "is" arbitrary: k) (auto simp: Let_def split: if_splits)

lemma visit_preserves:
  assumes "P fr"
    and "\<And>p fr. state_of (w_states w) p = RUNNING \<Longrightarrow> P fr \<Longrightarrow> P (fr\<lparr>fr_running := fr_running fr @ [p]\<rparr>)"
    and "\<And>p fr. state_of (w_states w) p = WfModels.WAITING \<Longrightarrow> P fr \<Longrightarrow> P (fr\<lparr>fr_waiting := fr_waiting fr @ [p]\<rparr>)"
    and "\<And>c inst m sp p i fr. idle w p \<Longrightarrow> launchable m \<Longrightarrow>
           ordering_verdict w c ord inst m sp = Satisfied \<Longrightarrow> P fr \<Longrightarrow> P (add_ready p m i fr)"
    and "\<And>p fr. \<not> terminal (state_of (w_states w) p) \<Longrightarrow> \<not> started (w_states w) p \<Longrightarrow> P fr \<Longrightarrow>
           P (fr\<lparr>wip_held := wip_held fr @ [p]\<rparr>)"
    and "\<And>ps fr. \<forall>p \<in> set ps. \<not> terminal (state_of (w_states w) p) \<Longrightarrow> P fr \<Longrightarrow>
           P (fr\<lparr>to_skip := to_skip fr @ ps\<rparr>)"
  shows "P (visit w ord policies inst ctx ic n spec path fr)"
  using assms(1)
proof (induction "size n" arbitrary: inst ctx ic n spec path fr rule: less_induct)
  case less
  let ?st = "state_of (w_states w) path"
  let ?gone = "terminal (if is_container n then derive w ctx n path else ?st)"
  consider (run) "?st = RUNNING" | (wait) "?st = WfModels.WAITING"
    | (gone) "?st \<noteq> RUNNING" "?st \<noteq> WfModels.WAITING" "?gone"
    | (held) "?st \<noteq> RUNNING" "?st \<noteq> WfModels.WAITING" "\<not> ?gone" "ordering_verdict w ctx ord inst n spec \<noteq> Satisfied"
    | (fit) "?st \<noteq> RUNNING" "?st \<noteq> WfModels.WAITING" "\<not> ?gone" "ordering_verdict w ctx ord inst n spec = Satisfied"
    by blast
  then show ?case
  proof cases
    case run
    then show ?thesis using less.prems by (subst visit.simps) (simp add: assms(2))
  next
    case wait
    then show ?thesis using less.prems by (subst visit.simps) (simp add: assms(3))
  next
    case gone
    then show ?thesis using less.prems by (subst visit.simps) simp
  next
    case held
    then show ?thesis using less.prems assms(6) [of "[path]"]
      by (subst visit.simps) (cases "ordering_verdict w ctx ord inst n spec";
          simp add: mark_unreachable_def)
  next
    case fit
    note fire = assms(4) [OF _ _ fit(4)]
    have leaf: "P (add_ready path n ic fr)" if "launchable n" "\<not> terminal ?st"
      using that less.prems fit(1,2) by (intro fire idleI)
    show ?thesis
    proof (cases "nd_kind n")
      case SEQUENCE
      show ?thesis 
        by (subst visit.simps)
          (simp add: fit SEQUENCE Let_def, rule scan_preserves [where P = P, OF less.prems],
            clarsimp simp: less.hyps enum_child_size)
    next
      case PARALLEL
      show ?thesis 
        by (subst visit.simps)
          (simp add: fit PARALLEL Let_def, rule scan_preserves [where P = P, OF less.prems],
            clarsimp simp: less.hyps enum_child_size)
    next
      case FOREACH
      show ?thesis
      proof (cases "nd_body n = None \<or> resolve_items w ctx n = None")
        case True
        then show ?thesis using fit FOREACH less.prems
          by (subst visit.simps) (auto split: option.splits)
      next
        case False
        then obtain b items where b: "nd_body n = Some b" "resolve_items w ctx n = Some items" by auto
        have move: "P (fst (case move of
              HoldItem i \<Rightarrow> (u\<lparr>wip_held := wip_held u @ [item_path path i]\<rparr>, True)
            | VisitItem i \<Rightarrow> (visit w ord policies ((body_path spec, item_path path i) # inst)
                 (scoped_to w ctx (item_path path i))
                 \<lparr>ic_item = (if i < length items then items ! i else JNull), has_item = True,
                  iter_index = Some i, item_total = Some (length items)\<rparr>
                 b (body_path spec) (item_path path i) u, True)))"
          if "move \<in> set (foreach_plan w ctx policies n b path (length items))" "P u" for move u
        proof (cases move)
          case (HoldItem i)
          then have "\<not> terminal (state_of (w_states w) (item_path path i)) \<and> \<not> started (w_states w) (item_path path i)"
            using that(1) by (auto simp: foreach_plan_def Let_def split: if_splits dest: held_items_open)
          then show ?thesis using that(2) HoldItem by (simp add: assms(5))
        next
          case (VisitItem i)
          have "size b < size n" using b(1) by (rule body_size)
          then show ?thesis using that(2) VisitItem by (simp add: less.hyps)
        qed
        show ?thesis
          by (subst visit.simps) (simp add: fit FOREACH b, rule scan_preserves [where P = P, OF less.prems], rule move)
      qed
    next
      case LOOP
      show ?thesis using fit LOOP less.prems
        by (subst visit.simps) (auto simp: Let_def body_size split: option.splits intro!: less.hyps)
    next
      case BRANCH
      note skip = assms(6) [OF _ less.prems, of "skip_cases (w_states w) n path p" for p]
      show ?thesis using fit BRANCH less.prems leaf
        by (subst visit.simps)
          (auto simp: Let_def launchable_def taken_case_size split: option.splits prod.splits
             intro!: less.hyps skip dest: skip_cases_open)
    qed (use fit leaf in \<open>(subst visit.simps, simp add: launchable_def is_container_def CONTAINER_KINDS_def)+\<close>)
  qed
qed

section \<open>The lists of the frontier\<close>

text \<open>What holds of every list at every point of the walk.\<close>

definition truthful :: "'c world \<Rightarrow> frontier \<Rightarrow> bool" where
  "truthful w fr \<longleftrightarrow>
     list_all (\<lambda>r. idle w (rn_path r) \<and> launchable (rn_node r) \<and> rn_lane r = lane_for (nd_kind (rn_node r)))
       (fr_ready fr) \<and>
     list_all (\<lambda>p. state_of (w_states w) p = RUNNING) (fr_running fr) \<and>
     list_all (\<lambda>p. state_of (w_states w) p = WfModels.WAITING) (fr_waiting fr) \<and>
     list_all (\<lambda>p. \<not> terminal (state_of (w_states w) p)) (to_skip fr) \<and>
     list_all (\<lambda>p. \<not> started (w_states w) p) (wip_held fr)"

lemma truthful_visit:
  "truthful w fr \<Longrightarrow> truthful w (visit w ord policies inst ctx ic n spec path fr)"
  by (rule visit_preserves [where P = "truthful w"])
    (auto simp: truthful_def add_ready_def list_all_iff)

lemma truthful_empty: "truthful w empty_frontier"
  by (simp add: truthful_def empty_frontier_def)

lemma admit_lanes_set:
  "admit_lanes policies used rs = (adm, df) \<Longrightarrow> mset adm + mset df = mset rs \<and> subseq adm rs \<and> subseq df rs"
  by (induction rs arbitrary: used adm df) (auto simp: Let_def split: if_splits prod.splits)

text \<open>
  C30. A frontier tells the truth about the states it was computed from: what is ready or deferred is a
  leaf or an undecided branch that nobody has started, in its own lane; what is listed as running or
  waiting is; what is to be skipped has not ended; what is held for WIP has not begun. No node that
  is ready or deferred is also listed as running or waiting.
\<close>

theorem frontier_lists_tell_the_truth:
  "let fr = frontier_of w es lims sf lanes ctx tree;
       st = (\<lambda>p. state_of (w_states w) p)
   in list_all (\<lambda>r. (st (rn_path r) = PENDING \<or> st (rn_path r) = READY)
          \<and> nd_kind (rn_node r) \<notin> {SEQUENCE, PARALLEL, FOREACH, LOOP}
          \<and> rn_lane r = lane_for (nd_kind (rn_node r))) (fr_ready fr @ fr_deferred fr)
      \<and> list_all (\<lambda>p. st p = RUNNING) (fr_running fr)
      \<and> list_all (\<lambda>p. st p = WfModels.WAITING) (fr_waiting fr)
      \<and> list_all (\<lambda>p. \<not> terminal (st p)) (to_skip fr)
      \<and> list_all (\<lambda>p. \<not> started (w_states w) p) (wip_held fr)
      \<and> set (map rn_path (fr_ready fr @ fr_deferred fr)) \<inter> (set (fr_running fr) \<union> set (fr_waiting fr)) = {}"
proof -
  let ?ps = "default_policies lims sf None"
  define v where "v = visit w (ordering_for es tree) ?ps [] ctx no_item tree ''root'' ''root'' empty_frontier"
  obtain adm df where split: "admit_lanes ?ps lanes (sort_key rn_path (fr_ready v)) = (adm, df)"
    by fastforce
  have "mset adm + mset df = mset (sort_key rn_path (fr_ready v))" using admit_lanes_set [OF split] by blast
  then have parts: "set adm \<union> set df = set (fr_ready v)" by (metis mset_sort set_mset_mset set_mset_union)
  have truth: "truthful w v" unfolding v_def by (rule truthful_visit [OF truthful_empty])
  have fr: "fr_ready (frontier_of w es lims sf lanes ctx tree) = adm"
    "fr_deferred (frontier_of w es lims sf lanes ctx tree) = df"
    "fr_running (frontier_of w es lims sf lanes ctx tree) = fr_running v"
    "fr_waiting (frontier_of w es lims sf lanes ctx tree) = fr_waiting v"
    "to_skip (frontier_of w es lims sf lanes ctx tree) = to_skip v"
    "wip_held (frontier_of w es lims sf lanes ctx tree) = wip_held v"
    by (simp_all add: frontier_of_def Let_def split v_def [symmetric])
  have ready: "idle w (rn_path r) \<and> launchable (rn_node r) \<and> rn_lane r = lane_for (nd_kind (rn_node r))"
    if "r \<in> set adm \<union> set df" for r
    using that truth by (simp add: parts truthful_def list_all_iff)
  have clash: "set (map rn_path (adm @ df)) \<inter> (set (fr_running v) \<union> set (fr_waiting v)) = {}"
    using ready truth by (fastforce simp: idle_def truthful_def list_all_iff)
  show ?thesis
    unfolding Let_def fr
    using clash truth ready by (auto simp: truthful_def list_all_iff idle_def launchable_kinds)
qed

section \<open>Lanes\<close>

abbreviation lane_count :: "lane \<Rightarrow> ready_node list \<Rightarrow> nat" where
  "lane_count l rs \<equiv> length (filter (\<lambda>r. rn_lane r = l) rs)"

lemma lane_count_le: "lane_count l (filter P rs) \<le> lane_count l rs"
  by (induction rs) auto

lemma admits_antimono: "admits a k \<Longrightarrow> j \<le> k \<Longrightarrow> admits a j"
  by (auto simp: admits_def split: option.splits)

lemma admit_lanes_bounds:
  assumes "admit_lanes policies used rs = (adm, df)"
  shows "ad_capacity (lane_verdict policies l) = Some c \<Longrightarrow>
           int (used l + lane_count l adm) \<le> max (int (used l)) c"
    and "\<forall>r \<in> set df. \<not> admits (lane_verdict policies (rn_lane r)) (int (used (rn_lane r) + lane_count (rn_lane r) adm))"
  using assms
proof (induction rs arbitrary: used adm df)
  case Nil
  { case 1 then show ?case by simp }
  { case 2 then show ?case by simp }
next
  case (Cons r rs)
  { case 1
    show ?case
    proof (cases "admits (lane_verdict policies (rn_lane r)) (int (used (rn_lane r)))")
      case True
      obtain a d where rest: "admit_lanes policies (used(rn_lane r := Suc (used (rn_lane r)))) rs = (a, d)"
        by fastforce
      from Cons.IH(1) [OF 1(1) rest] 1 True rest show ?thesis
        by (auto simp: admits_def split: if_splits)
    next
      case False
      obtain a d where rest: "admit_lanes policies used rs = (a, d)" by fastforce
      from Cons.IH(1) [OF 1(1) rest] 1 False rest show ?thesis by auto
    qed }
  { case 2
    show ?case
    proof (cases "admits (lane_verdict policies (rn_lane r)) (int (used (rn_lane r)))")
      case True
      obtain a d where rest: "admit_lanes policies (used(rn_lane r := Suc (used (rn_lane r)))) rs = (a, d)"
        by fastforce
      have eqs: "adm = r # a" "df = d" using 2 True rest by simp_all
      show ?thesis
      proof
        fix x assume "x \<in> set df"
        then show "\<not> admits (lane_verdict policies (rn_lane x)) (int (used (rn_lane x) + lane_count (rn_lane x) adm))"
          using bspec [OF Cons.IH(2) [OF rest], of x] eqs
          by (cases "rn_lane x = rn_lane r") (simp_all add: ac_simps)
      qed
    next
      case False
      obtain a d where rest: "admit_lanes policies used rs = (a, d)" by fastforce
      have "\<not> admits (lane_verdict policies (rn_lane r)) (int (used (rn_lane r) + lane_count (rn_lane r) adm))"
        using False by (rule contrapos_nn) (erule admits_antimono, simp)
      then show ?thesis using Cons.IH(2) [OF rest] 2 False rest by auto
    qed }
qed

text \<open>
  C39. Lane admission splits the ready nodes, in order and losing none, into admitted and deferred; with
  what already runs, the admitted nodes never take a lane past its cap (and never more than was running
  if that was already past it); and it defers a node only when its lane is full, so no slot is left
  free while a node waits for it.
\<close>

theorem lanes_are_filled_and_never_overrun:
  assumes "admit_lanes policies used rs = (adm, df)"
  shows "mset adm + mset df = mset rs \<and> subseq adm rs \<and> subseq df rs \<and>
    (case ad_capacity (lane_verdict policies l) of
       None \<Rightarrow> lane_count l df = 0
     | Some c \<Rightarrow> int (used l + lane_count l adm) \<le> max (int (used l)) c \<and>
                 (lane_count l df > 0 \<longrightarrow> int (used l + lane_count l adm) \<ge> c))"
proof -
  have "\<exists>r \<in> set df. rn_lane r = l" if "lane_count l df > 0"
    using that by (auto simp: filter_empty_conv)
  then have full: "lane_count l df > 0 \<Longrightarrow> \<not> admits (lane_verdict policies l) (int (used l + lane_count l adm))"
    using admit_lanes_bounds(2) [OF assms] by blast
  show ?thesis
    using admit_lanes_set [OF assms] admit_lanes_bounds(1) [OF assms] full
    by (cases "ad_capacity (lane_verdict policies l)") (auto simp: admits_def)
qed

definition stage_leaf :: "string \<Rightarrow> node" where
  "stage_leaf nid = Node STAGE nid [] [] None [] None [] [] []"

definition waiting_stages :: "ready_node list" where
  "waiting_stages = map (\<lambda>p. \<lparr>rn_path = p, rn_node = stage_leaf p, rn_lane = LANE_LLM, rn_item = no_item\<rparr>)
     [''root.children[0]'', ''root.children[1]'']"

definition one_llm_slot :: "policy list" where
  "one_llm_slot = default_policies [(''llm'', 1)] False None"

lemma one_llm_slot_admits_one:
  "map_prod (map rn_path) (map rn_path) (admit_lanes one_llm_slot (\<lambda>_. 0) waiting_stages)
     = ([''root.children[0]''], [''root.children[1]''])"
  "ad_capacity (lane_verdict one_llm_slot LANE_LLM) = Some 1"
  by code_simp+

theorem lanes_are_filled_and_never_overrun_witness:
  "case admit_lanes one_llm_slot (\<lambda>_. 0) waiting_stages of
     (adm, df) \<Rightarrow> map rn_path df = [''root.children[1]''] \<and> lane_count LANE_LLM adm \<le> 1"
proof -
  obtain adm df where split: "admit_lanes one_llm_slot (\<lambda>_. 0) waiting_stages = (adm, df)" by fastforce
  show ?thesis
    using one_llm_slot_admits_one lanes_are_filled_and_never_overrun [OF split, of LANE_LLM]
    by (simp add: split)
qed

section \<open>Fan-outs\<close>

fun visited :: "item_move list \<Rightarrow> nat list" where
  "visited [] = []"
| "visited (VisitItem i # ms) = i # visited ms"
| "visited (HoldItem i # ms) = visited ms"

lemma visited_append [simp]: "visited (ms @ ns) = visited ms @ visited ns"
  by (induction ms rule: visited.induct) auto

definition fresh_items :: "'c world \<Rightarrow> string \<Rightarrow> nat list \<Rightarrow> nat list" where
  "fresh_items w path is = filter (\<lambda>i. \<not> started (w_states w) (item_path path i)) is"

definition open_items :: "'c world \<Rightarrow> string \<Rightarrow> nat list \<Rightarrow> nat list" where
  "open_items w path is = filter (\<lambda>i. \<not> terminal (state_of (w_states w) (item_path path i))) is"

lemma fresh_items_simps [simp]:
  "fresh_items w path [] = []"
  "fresh_items w path (i # is) = (if started (w_states w) (item_path path i) then fresh_items w path is
     else i # fresh_items w path is)"
  by (simp_all add: fresh_items_def)

lemma plan_items_cap:
  assumes "ad_capacity v = Some c"
  shows "int (k + length (fresh_items w path (visited (plan_items w v path is k)))) \<le> max (int k) c"
proof (induction "is" arbitrary: k)
  case Nil
  then show ?case by simp
next
  case (Cons i "is")
  show ?case using Cons.IH [of k] Cons.IH [of "Suc k"] assms
    by (auto simp: Let_def bounded_def admits_def)
qed

lemma plan_items_busy:
  "subseq (visited (plan_items w v path is k)) (open_items w path is) \<and>
   {i \<in> set (open_items w path is). started (w_states w) (item_path path i)} \<subseteq> set (visited (plan_items w v path is k))"
  by (induction "is" arbitrary: k) (auto simp: Let_def open_items_def)

lemma plan_items_full:
  assumes "i \<in> set (open_items w path is) - set (visited (plan_items w v path is k))"
  shows "\<not> admits v (int (k + length (fresh_items w path (visited (plan_items w v path is k)))))"
  using assms
proof (induction "is" arbitrary: k)
  case Nil
  then show ?case by (simp add: open_items_def)
next
  case (Cons j "is")
  let ?p = "item_path path j"
  consider (gone) "terminal (state_of (w_states w) ?p)"
    | (busy) "\<not> terminal (state_of (w_states w) ?p)" "\<not> (bounded v \<and> \<not> started (w_states w) ?p)"
    | (full) "\<not> terminal (state_of (w_states w) ?p)" "bounded v" "\<not> started (w_states w) ?p" "\<not> admits v (int k)"
    | (slot) "\<not> terminal (state_of (w_states w) ?p)" "bounded v" "\<not> started (w_states w) ?p" "admits v (int k)"
    by blast
  then show ?case
  proof cases
    case gone
    then show ?thesis using Cons.prems Cons.IH [of k] by (simp add: open_items_def)
  next
    case busy
    then have "i \<in> set (open_items w path is) - set (visited (plan_items w v path is k))"
      using Cons.prems by (auto simp: open_items_def Let_def)
    then show ?thesis using busy Cons.IH [of k] 
      by (auto simp: Let_def admits_def bounded_def split: option.splits)
  next
    case full
    then show ?thesis by (auto simp: Let_def admits_def split: option.splits)
  next
    case slot
    then have "i \<in> set (open_items w path is) - set (visited (plan_items w v path is (Suc k)))"
      using Cons.prems by (auto simp: open_items_def Let_def)
    then show ?thesis using slot Cons.IH [of "Suc k"] by (simp add: Let_def)
  qed
qed

text \<open>
  C8. A fan-out that has not halted keeps its concurrency cap and its promises to the items under way. Of its k
  items it visits only ones that have not ended, in order; every started one among them is visited whether
  or not a slot is free; the new ones it opens never take the count under way past the cap; and if an item
  that could run is left out, the cap is reached. Without a cap every open item is visited. A fan-out halted
  by a failed item opens nothing and visits nothing, not even what still runs
  (\<open>halted_fan_out_hides_its_running_item\<close>).
\<close>

theorem fan_outs_keep_their_cap:
  "if halted w n path k then visited (foreach_plan w ctx policies n b path k) = []
   else let v = container_verdict policies n path;
             moves = visited (foreach_plan w ctx policies n b path k);
             under_way = (if bounded v then items_in_flight w ctx b path k else 0);
             new = length (fresh_items w path moves)
         in subseq moves (open_items w path [0..<k])
          \<and> {i \<in> set (open_items w path [0..<k]). started (w_states w) (item_path path i)} \<subseteq> set moves
          \<and> (case ad_capacity v of
               None \<Rightarrow> set moves = set (open_items w path [0..<k])
             | Some c \<Rightarrow> int (under_way + new) \<le> max (int under_way) c
                 \<and> (set moves = set (open_items w path [0..<k]) \<or> c \<le> int (under_way + new)))"
proof (cases "halted w n path k")
  case True
  then show ?thesis by (simp add: foreach_plan_def)
next
  case running: False
  let ?v = "container_verdict policies n path"
  let ?u = "if bounded ?v then items_in_flight w ctx b path k else 0"
  let ?m = "visited (plan_items w ?v path [0..<k] ?u)"
  have plan: "visited (foreach_plan w ctx policies n b path k) = ?m"
    using running by (simp add: foreach_plan_def Let_def)
  have sub: "subseq ?m (open_items w path [0..<k])" using plan_items_busy by blast
  then have "set ?m \<subseteq> set (open_items w path [0..<k])" using set_nths_subset subseq_conv_nths by metis
  then have all: "set ?m = set (open_items w path [0..<k]) \<or>
      \<not> admits ?v (int (?u + length (fresh_items w path ?m)))"
    using plan_items_full [of _ w path "[0..<k]" ?v ?u] by blast
  show ?thesis
    unfolding Let_def plan
    using running plan_items_busy [of w ?v path "[0..<k]" ?u] all plan_items_cap [of ?v _ ?u w path "[0..<k]"]
    by (cases "ad_capacity ?v") (simp_all add: admits_def not_less)
qed

definition plain_world :: "(string \<times> inst_state) list \<Rightarrow> unit world" where
  "plain_world sts = \<lparr>w_states = sts, w_iterations = [], declined_edges = [], scoped_to = (\<lambda>c _. c),
     read_value = (\<lambda>_ _. None), to_str = (\<lambda>_. [])\<rparr>"

definition capped_fan :: node where
  "capped_fan = Node FOREACH ''fan'' [] [] (Some (stage_leaf ''each'')) [] None
     [(''items'', JList [JInt 1, JInt 2, JInt 3]), (''max_concurrency'', JInt 2)] [] []"

definition one_item_running :: "unit world" where
  "one_item_running = plain_world [(''root.body#0'', RUNNING)]"

lemma capped_fan_facts:
  "\<not> halted one_item_running capped_fan ''root'' 3"
  "ad_capacity (container_verdict one_llm_slot capped_fan ''root'') = Some 2"
  "bounded (container_verdict one_llm_slot capped_fan ''root'')"
  "items_in_flight one_item_running () (stage_leaf ''each'') ''root'' 3 = 1"
  "open_items one_item_running ''root'' [0..<3] = [0, 1, 2]"
  "fresh_items one_item_running ''root'' (visited (foreach_plan one_item_running () one_llm_slot capped_fan
     (stage_leaf ''each'') ''root'' 3)) = [1]"
  by code_simp+

theorem fan_outs_keep_their_cap_witness:
  "let new = length (fresh_items one_item_running ''root''
     (visited (foreach_plan one_item_running () one_llm_slot capped_fan (stage_leaf ''each'') ''root'' 3)))
   in 1 + new \<le> 2 \<and> new = 1"
  using fan_outs_keep_their_cap [of one_item_running capped_fan "''root''" 3 "()" one_llm_slot "stage_leaf ''each''"]
  by (simp add: capped_fan_facts Let_def)

section \<open>Readers and their producers\<close>

definition dep_met :: "'c world \<Rightarrow> 'c \<Rightarrow> ordering \<Rightarrow> (string \<times> string) list \<Rightarrow> string \<Rightarrow> dep \<Rightarrow> bool" where
  "dep_met w ctx ord inst nid d = (case d of (pspec, pid, carries_data) \<Rightarrow>
     \<not> (nid \<noteq> [] \<and> edge_declined (declined_edges w) pid nid) \<and>
     (case producer_instance pspec ord inst of
        None \<Rightarrow> True
      | Some ppath \<Rightarrow>
          (let st = producer_state w ctx ord pspec ppath in
           terminal st \<and> st \<noteq> DECLINED \<and> (carries_data \<longrightarrow> success st))))"

lemma order_check_not_ok: "order_check w ctx ord inst nid False ds \<noteq> Satisfied"
proof (induction ds)
  case (Cons d ds)
  then show ?case by (cases d; cases "nid = []") (simp_all add: Let_def split: option.split)
qed simp

lemma order_check_step:
  "order_check w ctx ord inst nid ok (d # ds) = Satisfied \<longleftrightarrow>
   dep_met w ctx ord inst nid d \<and> order_check w ctx ord inst nid ok ds = Satisfied"
proof (cases d)
  case (fields pspec pid data)
  show ?thesis
  proof (cases "producer_instance pspec ord inst")
    case None
    then show ?thesis by (simp add: fields dep_met_def)
  next
    case (Some p)
    then show ?thesis
      by (cases "terminal (producer_state w ctx ord pspec p)") (simp_all add: fields dep_met_def Let_def order_check_not_ok)
  qed
qed

lemma order_check_Satisfied:
  "order_check w ctx ord inst nid True ds = Satisfied \<longleftrightarrow> (\<forall>d \<in> set ds. dep_met w ctx ord inst nid d)"
  by (induction ds) (simp_all add: order_check_step del: order_check.simps(2))

lemma visit_unless_satisfied:
  "ordering_verdict w ctx ord inst n spec \<noteq> Satisfied \<Longrightarrow>
   fr_ready (visit w ord policies inst ctx ic n spec path fr) = fr_ready fr"
  by (subst visit.simps) (cases "ordering_verdict w ctx ord inst n spec"; simp add: Let_def mark_unreachable_def)

text \<open>
  C2. No reader starts before what it reads is there. Whenever visiting a node makes anything in its subtree
  ready, no edge to this node from a producer the spec's ordering gives it was declined, and the producer's
  instance has ended, was not declined, and ended in success where its output is bound here. The one
  exception is the code's own, that of \<open>_producer_instance\<close>: a producer that stands in the body of a fan-out or
  a loop the walk is not inside has no single instance, and its reader is not held for it.
\<close>

theorem no_reader_before_its_producers:
  assumes "map_of (od_deps ord) spec = Some ds"
    and "fr_ready (visit w ord policies inst ctx ic n spec path fr) \<noteq> fr_ready fr"
    and "(pspec, pid, carries_data) \<in> set ds"
  shows "\<not> (nd_id n \<noteq> [] \<and> edge_declined (declined_edges w) pid (nd_id n)) \<and>
    (case producer_instance pspec ord inst of
       Some ppath \<Rightarrow> terminal (producer_state w ctx ord pspec ppath) \<and>
         producer_state w ctx ord pspec ppath \<noteq> DECLINED \<and>
         (carries_data \<longrightarrow> success (producer_state w ctx ord pspec ppath))
     | None \<Rightarrow> \<exists>body \<in> set (iterated ord). (pspec = body \<or> starts_with pspec (body @ ''.'')) \<and> map_of inst body = None)"
proof -
  have "ordering_verdict w ctx ord inst n spec = Satisfied"
    using assms(2) by (rule contrapos_np) (rule visit_unless_satisfied)
  then have "order_check w ctx ord inst (nd_id n) True ds = Satisfied"
    by (simp add: ordering_verdict_def assms(1))
  then have met: "dep_met w ctx ord inst (nd_id n) (pspec, pid, carries_data)"
    using assms(3) by (simp only: order_check_Satisfied)
  show ?thesis
  proof (cases "producer_instance pspec ord inst")
    case None
    then obtain body where "find (\<lambda>body. pspec = body \<or> starts_with pspec (body @ ''.'')) (iterated ord) = Some body"
        "map_of inst body = None"
      by (auto simp: producer_instance_def split: option.splits)
    then show ?thesis using met None by (auto simp: dep_met_def find_Some_iff)
  next
    case (Some ppath)
    then show ?thesis using met by (simp add: dep_met_def Let_def)
  qed
qed

definition two_step_order :: ordering where
  "two_step_order = \<lparr>od_deps = [(''root.children[1]'', [(''root.children[0]'', ''a'', True)])],
     od_nodes = [(''root.children[0]'', stage_leaf ''a'')], iterated = []\<rparr>"

lemma second_step_is_ready:
  "map rn_path (fr_ready (visit (plain_world [(''root.children[0]'', DONE)]) two_step_order one_llm_slot []
     () no_item (stage_leaf ''b'') ''root.children[1]'' ''root.children[1]'' empty_frontier))
   = [''root.children[1]'']"
  by code_simp

theorem no_reader_before_its_producers_witness:
  "success (producer_state (plain_world [(''root.children[0]'', DONE)]) () two_step_order
     ''root.children[0]'' ''root.children[0]'')"
proof -
  let ?v = "visit (plain_world [(''root.children[0]'', DONE)]) two_step_order one_llm_slot []
     () no_item (stage_leaf ''b'') ''root.children[1]'' ''root.children[1]'' empty_frontier"
  have "fr_ready ?v \<noteq> fr_ready empty_frontier"
    using second_step_is_ready by (auto simp: empty_frontier_def)
  then show ?thesis
    using no_reader_before_its_producers [where w = "plain_world [(''root.children[0]'', DONE)]"
        and ord = two_step_order and spec = "''root.children[1]''" and pspec = "''root.children[0]''"
        and pid = "''a''" and carries_data = True and inst = "[]"]
    by (auto simp: two_step_order_def producer_instance_def)
qed

section \<open>Loops\<close>

text \<open>
  The cycles a loop runs when its exit test alone decides: cycle i ends, the test is asked with i + 1,
  and the loop ends with i + 1 cycles done or goes on. \<open>dry\<close> and \<open>ctx\<close> are what the streak and the
  binding context are at each boundary. \<open>None\<close> is a loop that never ends.
\<close>

partial_function (option) cycles_from ::
  "(json \<Rightarrow> string) \<Rightarrow> (string \<Rightarrow> 'c \<Rightarrow> bool option) \<Rightarrow> node \<Rightarrow> (nat \<Rightarrow> int) \<Rightarrow> (nat \<Rightarrow> 'c) \<Rightarrow> nat \<Rightarrow> nat option"
where
  "cycles_from str cond n dry ctx i =
     (if loop_should_continue str cond n (dry (Suc i)) (int (Suc i)) (ctx (Suc i)) = LoopGoesOn
      then cycles_from str cond n dry ctx (Suc i)
      else Some (Suc i))"

lemma cycles_first_stop:
  assumes "\<And>j. i < j \<Longrightarrow> j < m \<Longrightarrow> loop_should_continue str cond n (dry j) (int j) (ctx j) = LoopGoesOn"
    and "loop_should_continue str cond n (dry m) (int m) (ctx m) \<noteq> LoopGoesOn" and "i < m"
  shows "cycles_from str cond n dry ctx i = Some m"
  using assms
proof (induction "m - i" arbitrary: i)
  case 0
  then show ?case by simp
next
  case (Suc k)
  show ?case
  proof (cases "Suc i = m")
    case True
    then show ?thesis using Suc.prems(2) by (subst cycles_from.simps) simp
  next
    case False
    then have "cycles_from str cond n dry ctx (Suc i) = Some m" using Suc by (intro Suc.hyps) auto
    moreover have "loop_should_continue str cond n (dry (Suc i)) (int (Suc i)) (ctx (Suc i)) = LoopGoesOn"
      using False Suc.prems(1) [of "Suc i"] Suc.prems(3) by simp
    ultimately show ?thesis by (subst cycles_from.simps) simp
  qed
qed

lemma cycles_end_at_a_stop:
  assumes "cycles_from str cond n dry ctx i = Some k"
  shows "i < k \<and> loop_should_continue str cond n (dry k) (int k) (ctx k) \<noteq> LoopGoesOn"
proof (rule cycles_from.raw_induct
    [where P = "\<lambda>s c m d x i k. i < k \<and> loop_should_continue s c m (d k) (int k) (x k) \<noteq> LoopGoesOn", OF _ assms])
  fix f :: "(json \<Rightarrow> string) \<Rightarrow> (string \<Rightarrow> 'a \<Rightarrow> bool option) \<Rightarrow> node \<Rightarrow> (nat \<Rightarrow> int) \<Rightarrow> (nat \<Rightarrow> 'a) \<Rightarrow> nat \<Rightarrow> nat option"
    and s c m d x i k
  assume hyp: "\<And>s c m d x i k. f s c m d x i = Some k \<Longrightarrow>
      i < k \<and> loop_should_continue s c m (d k) (int k) (x k) \<noteq> LoopGoesOn"
    and "(if loop_should_continue s c m (d (Suc i)) (int (Suc i)) (x (Suc i)) = LoopGoesOn
          then f s c m d x (Suc i) else Some (Suc i)) = Some k"
  then show "i < k \<and> loop_should_continue s c m (d k) (int k) (x k) \<noteq> LoopGoesOn"
    by (auto split: if_splits dest!: hyp)
qed

lemma until_cancelled_goes_on:
  "loop_mode_of (str_or str (nd_config n) ''mode'' ''counted'') = Some UntilCancelled \<Longrightarrow>
   positive_int (cfg_get (nd_config n) ''max_iterations'') = None \<Longrightarrow>
   loop_should_continue str cond n dry i ctx = LoopGoesOn"
  by (simp add: loop_should_continue_def loop_exit_test_def Let_def)

lemma capped_loop_stops:
  "positive_int (cfg_get (nd_config n) ''max_iterations'') = Some cap \<Longrightarrow> cap \<le> i \<Longrightarrow>
   loop_should_continue str cond n dry i ctx \<noteq> LoopGoesOn"
  by (auto simp: loop_should_continue_def split: loop_stop.split)

lemma first_stop_before:
  fixes P :: "nat \<Rightarrow> bool"
  assumes "P m" and "i < m"
  obtains k where "i < k" "k \<le> m" "P k" "\<And>j. i < j \<Longrightarrow> j < k \<Longrightarrow> \<not> P j"
proof -
  define k where "k = (LEAST k. i < k \<and> P k)"
  have "i < k \<and> P k" unfolding k_def by (rule LeastI [of _ m]) (use assms in simp)
  moreover have "k \<le> m" unfolding k_def by (rule Least_le) (use assms in simp)
  moreover have "\<not> P j" if "i < j" "j < k" for j
    using not_less_Least [of j "\<lambda>k. i < k \<and> P k"] that k_def by auto
  ultimately show ?thesis using that by blast
qed

text \<open>
  Every loop with an iteration cap ends, whatever its mode, its condition and its streak say, after
  at least one cycle and at most \<open>max_iterations\<close> of them; a counted loop without a smaller cap runs
  exactly its n cycles.
\<close>

theorem capped_loops_end:
  assumes "positive_int (cfg_get (nd_config n) ''max_iterations'') = Some cap"
  shows "\<exists>k. cycles_from str cond n dry ctx 0 = Some k \<and> 1 \<le> k \<and> int k \<le> cap \<and>
    (loop_mode_of (str_or str (nd_config n) ''mode'' ''counted'') = Some Counted \<longrightarrow>
       int k = min cap (case positive_int (cfg_get (nd_config n) ''n'') of Some t \<Rightarrow> t | None \<Rightarrow> 1))"
proof -
  let ?go = "\<lambda>j. loop_should_continue str cond n (dry j) (int j) (ctx j) = LoopGoesOn"
  have pos: "0 < cap" using assms by (auto simp: positive_int_def split: option.splits if_splits)
  have "\<not> ?go (nat cap)" using assms pos by (simp add: capped_loop_stops)
  then obtain k where k: "0 < k" "k \<le> nat cap" "\<not> ?go k" "\<And>j. 0 < j \<Longrightarrow> j < k \<Longrightarrow> \<not> \<not> ?go j"
    using first_stop_before [of "\<lambda>j. \<not> ?go j" "nat cap" 0] pos by auto
  have run: "cycles_from str cond n dry ctx 0 = Some k" using k by (intro cycles_first_stop) auto
  have counted: "int k = min cap (case positive_int (cfg_get (nd_config n) ''n'') of Some t \<Rightarrow> t | None \<Rightarrow> 1)"
    if mode: "loop_mode_of (str_or str (nd_config n) ''mode'' ''counted'') = Some Counted"
  proof -
    define t where "t = (case positive_int (cfg_get (nd_config n) ''n'') of Some t \<Rightarrow> t | None \<Rightarrow> 1)"
    have tpos: "0 < t" by (auto simp: t_def positive_int_def split: option.split)
    have go: "?go j \<longleftrightarrow> int j < t \<and> int j < cap" for j
      using assms mode by (simp add: loop_should_continue_def loop_exit_test_def Let_def t_def)
    have "\<not> (int k < t \<and> int k < cap)" using k(3) by (simp only: go) simp
    moreover have "int k \<le> t"
    proof (rule ccontr)
      assume "\<not> int k \<le> t"
      then have "0 < nat t" "nat t < k" using tpos by simp_all
      then have "?go (nat t)" using k(4) by blast
      then have "int (nat t) < t" by (simp only: go)
      then show False using tpos by simp
    qed
    ultimately show ?thesis using k(2) pos unfolding t_def [symmetric] by (simp add: min_def) linarith
  qed
  show ?thesis using run k(1,2) pos counted by (intro exI [of _ k]) auto
qed

definition three_times :: node where
  "three_times = Node LOOP ''poll'' [] [] (Some (stage_leaf ''try'')) [] None
     [(''mode'', JStr ''counted''), (''n'', JInt 3), (''max_iterations'', JInt 5)] [] []"

theorem capped_loops_end_witness:
  "cycles_from (\<lambda>_. []) (\<lambda>_ _. None) three_times (\<lambda>_. 0) (\<lambda>_. ()) 0 = Some 3"
proof -
  have cap: "positive_int (cfg_get (nd_config three_times) ''max_iterations'') = Some 5" by code_simp
  have "positive_int (cfg_get (nd_config three_times) ''n'') = Some 3"
    "loop_mode_of (str_or (\<lambda>_. []) (nd_config three_times) ''mode'' ''counted'') = Some Counted"
    by code_simp+
  then obtain k where "cycles_from (\<lambda>_. []) (\<lambda>_ _. None) three_times (\<lambda>_. 0) (\<lambda>_. ()) 0 = Some k" "int k = 3"
    using capped_loops_end [OF cap, of "\<lambda>_. []" "\<lambda>_ _. None" "\<lambda>_. 0" "\<lambda>_. ()"] by auto
  then show ?thesis by simp
qed

text \<open>
  An \<open>until_cancelled\<close> loop with no iteration cap never ends of its own: its exit test goes on at
  every boundary, so the run depends on the reaper of watchers.
\<close>

theorem watchers_never_end_alone:
  assumes "loop_mode_of (str_or str (nd_config n) ''mode'' ''counted'') = Some UntilCancelled"
    and "positive_int (cfg_get (nd_config n) ''max_iterations'') = None"
  shows "cycles_from str cond n dry ctx i = None"
  using cycles_end_at_a_stop [of str cond n dry ctx i] until_cancelled_goes_on [OF assms, where cond = cond]
  by (cases "cycles_from str cond n dry ctx i") auto

definition a_watcher :: node where
  "a_watcher = Node LOOP ''watch'' [] [] (Some (stage_leaf ''look'')) [] None
     [(''mode'', JStr ''until_cancelled'')] [] []"

theorem watchers_never_end_alone_witness:
  "cycles_from (\<lambda>_. []) (\<lambda>_ _. None) a_watcher (\<lambda>_. 0) (\<lambda>_. ()) 0 = None"
proof -
  have m: "loop_mode_of (str_or (\<lambda>_. []) (nd_config a_watcher) ''mode'' ''counted'') = Some UntilCancelled"
    "positive_int (cfg_get (nd_config a_watcher) ''max_iterations'') = None"
    by code_simp+
  show ?thesis by (rule watchers_never_end_alone [OF m])
qed

section \<open>Where the code falls short of its comments\<close>

definition halting_fan :: "node \<Rightarrow> node" where
  "halting_fan b = Node FOREACH ''fan'' [] [] (Some b) [] None
     [(''items'', JList [JInt 1, JInt 2, JInt 3]), (''on_item_error'', JStr ''halt'')] [] []"

text \<open>
  \<open>halt\<close> promises that the items in flight finish and that the run ends through the deadlock path
  only then. With three items on one step each, the first failed and the second still running, the
  fan-out is left before its running item is listed, so the frontier reports the run blocked, with
  nothing running, while an item runs. A spawned stage is not among the controller's awaited tasks, so
  the run is failed as deadlocked under it.
\<close>

theorem halted_fan_out_hides_its_running_item:
  "let w = plain_world [(''root.body#0'', FAILED), (''root.body#1'', RUNNING)];
       fr = frontier_of w [] DEFAULT_LANE_CAPS False (\<lambda>_. 0) () (halting_fan (stage_leaf ''each''))
   in fr_blocked fr \<and> fr_running fr = [] \<and> state_of (w_states w) ''root.body#1'' = RUNNING"
  by code_simp

text \<open>
  \<open>halt\<close> stops nothing when the body of the fan-out is a container. The test reads the state stored
  for the item, and a container stores none: with the first item's sequence failed, the frontier still
  makes the second and third items ready.
\<close>

theorem halt_misses_container_items:
  "let b = Node SEQUENCE ''item'' [] [stage_leaf ''work''] None [] None [] [] [];
       w = plain_world [(''root.body#0.children[0]'', FAILED)];
       fr = frontier_of w [] DEFAULT_LANE_CAPS False (\<lambda>_. 0) () (halting_fan b)
   in derive w () b ''root.body#0'' = FAILED
      \<and> map rn_path (fr_ready fr) = [''root.body#1.children[0]'', ''root.body#2.children[0]'']"
  by code_simp

definition watched_work :: node where
  "watched_work = Node PARALLEL ''both'' [] [stage_leaf ''work'', a_watcher] None [] None
     [(''join'', JStr ''any'')] [] []"

text \<open>
  A watcher beside finished work is reaped when its parallel stands in the spec tree as written, and
  never when the parallel is the body of a fan-out: the reap walks the paths of the spec, where the
  states are kept by item. The fan-out then waits on its watcher without end.
\<close>

theorem watcher_in_a_fan_out_is_never_reaped:
  "reap_watchers (plain_world [(''root.children[0]'', DONE)]) () watched_work = [''root.children[1]''] \<and>
   reap_watchers (plain_world [(''root.body#0.children[0]'', DONE)]) ()
     (Node FOREACH ''fan'' [] [] (Some watched_work) [] None [(''items'', JList [JInt 1])] [] []) = [] \<and>
   derive (plain_world [(''root.body#0.children[0]'', DONE), (''root.body#0.children[1].body@0'', RUNNING)]) ()
     (Node FOREACH ''fan'' [] [] (Some watched_work) [] None [(''items'', JList [JInt 1])] [] []) ''root'' = RUNNING"
  by code_simp

end
