(* ===== verification/TaskGraph.thy ===== *)
theory TaskGraph
  imports Prelude
begin

text \<open>
  \<^verbatim>\<open>tasks/reconcile.py\<close>, with the task fields it reads (\<^verbatim>\<open>tasks/models.py\<close>) and the writes that call it
  (\<^verbatim>\<open>tasks/native.py\<close>): the search for a dependency cycle, the automatic block and unblock of dependents,
  what is ready, and the analysis behind the graph view. A dict of tasks is an association list with
  distinct keys, in the dict's order; a task mutated in place is the list with that entry replaced.
\<close>

section \<open>Tasks\<close>

datatype task_status = OPEN | IN_PROGRESS | DONE | CANCELLED | BLOCKED | SKIPPED

fun task_status_value :: "task_status \<Rightarrow> string" where
  "task_status_value OPEN = ''open''"
| "task_status_value IN_PROGRESS = ''in_progress''"
| "task_status_value DONE = ''done''"
| "task_status_value CANCELLED = ''cancelled''"
| "task_status_value BLOCKED = ''blocked''"
| "task_status_value SKIPPED = ''skipped''"

definition TERMINAL_STATUSES :: "task_status list" where
  "TERMINAL_STATUSES = [DONE, CANCELLED]"

definition STARTABLE_STATUSES :: "task_status list" where
  "STARTABLE_STATUSES = [OPEN, IN_PROGRESS]"

definition HELD_STATUSES :: "task_status list" where
  "HELD_STATUSES = [BLOCKED, SKIPPED]"

datatype dependency_type = BLOCKS | REQUIRED_FOR

record task_dependency =
  depends_on :: string
  dependency_type :: dependency_type

text \<open>\<open>blocked_reason_kind\<close> is text: empty, \<open>auto\<close>, \<open>manual\<close>, or whatever else a write put there.\<close>

datatype block_kind = NoBlock | AutoBlock | ManualBlock | OtherBlock string

record task =
  tk_title :: string
  tk_status :: task_status
  tk_dependencies :: "task_dependency list"
  exit_criteria :: "json list"
  blocked_reason_kind :: block_kind

type_synonym tasks = "(string \<times> task) list"

definition prerequisite_ids :: "task \<Rightarrow> string list" where
  "prerequisite_ids t =
     map depends_on (filter (\<lambda>d. dependency_type d = BLOCKS \<and> depends_on d \<noteq> []) (tk_dependencies t))"

definition ids :: "tasks \<Rightarrow> string list" where
  "ids ts = map fst ts"

text \<open>
  \<open>normalize_exit_criterion\<close>, its \<open>status\<close> alone: a criterion that is text is unmet, one with a \<open>status\<close>
  is met by one of five words, an older one by a yes in \<open>met\<close>.
\<close>

definition criterion_met :: "(json \<Rightarrow> string) \<Rightarrow> json \<Rightarrow> bool" where
  "criterion_met str item =
     (case item of
        JObj kvs \<Rightarrow>
          (case map_of kvs ''status'' of
             Some raw \<Rightarrow> map ascii_lower (strip (text_of str raw))
                 \<in> {''complete'', ''completed'', ''done'', ''true'', ''met''}
           | None \<Rightarrow> yes_or_no (cfg_get kvs ''met'') = Some True)
      | _ \<Rightarrow> False)"

definition can_mark_complete :: "(json \<Rightarrow> string) \<Rightarrow> task \<Rightarrow> bool" where
  "can_mark_complete str t = list_all (criterion_met str) (exit_criteria t)"

section \<open>The graph\<close>

definition prereq_map :: "tasks \<Rightarrow> string \<Rightarrow> string list" where
  "prereq_map ts tid =
     (case map_of ts tid of
        None \<Rightarrow> []
      | Some t \<Rightarrow> filter (\<lambda>p. p \<in> set (ids ts)) (prerequisite_ids t))"

text \<open>
  The depth-first search of \<open>detect_cycle\<close> and \<open>would_create_cycle\<close>. The fuel bounds the depth of the
  recursion; \<open>None\<close> is a search cut short by it. A node the colour map does not know reads as BLACK.
\<close>

datatype color = WHITE | GRAY | BLACK

record dfs =
  colors :: "string \<Rightarrow> color"
  path :: "string list"

fun dfs_visit :: "(string \<Rightarrow> string list) \<Rightarrow> nat \<Rightarrow> string \<Rightarrow> dfs \<Rightarrow> (dfs \<times> string list) option"
  and dfs_nexts :: "(string \<Rightarrow> string list) \<Rightarrow> nat \<Rightarrow> string list \<Rightarrow> dfs \<Rightarrow> (dfs \<times> string list) option" where
  "dfs_visit pre 0 n s = None"
| "dfs_visit pre (Suc k) n s =
     (case dfs_nexts pre k (pre n) (s\<lparr>colors := (colors s)(n := GRAY), path := path s @ [n]\<rparr>) of
        None \<Rightarrow> None
      | Some (s', c) \<Rightarrow>
          if c \<noteq> [] then Some (s', c)
          else Some (s'\<lparr>colors := (colors s')(n := BLACK), path := butlast (path s')\<rparr>, []))"
| "dfs_nexts pre k [] s = Some (s, [])"
| "dfs_nexts pre k (x # xs) s =
     (if colors s x = GRAY then Some (s, dropWhile (\<lambda>y. y \<noteq> x) (path s) @ [x])
      else if colors s x = WHITE then
        (case dfs_visit pre k x s of
           None \<Rightarrow> None
         | Some (s', c) \<Rightarrow> if c \<noteq> [] then Some (s', c) else dfs_nexts pre k xs s')
      else dfs_nexts pre k xs s)"

definition fresh_dfs :: "string list \<Rightarrow> dfs" where
  "fresh_dfs known = \<lparr>colors = (\<lambda>x. if x \<in> set known then WHITE else BLACK), path = []\<rparr>"

text \<open>The loop over all tasks in \<open>detect_cycle\<close> is \<open>dfs_nexts\<close> on the ids: no node is GRAY between its steps.\<close>

definition detect_cycle :: "tasks \<Rightarrow> string list option" where
  "detect_cycle ts =
     map_option snd (dfs_nexts (prereq_map ts) (Suc (length ts)) (ids ts) (fresh_dfs (ids ts)))"

definition would_create_cycle :: "tasks \<Rightarrow> string \<Rightarrow> string list \<Rightarrow> string list option" where
  "would_create_cycle ts tid new =
     map_option snd (dfs_visit ((prereq_map ts)(tid := filter (\<lambda>p. p \<in> set (ids ts)) new))
       (Suc (length ts)) tid (fresh_dfs (ids ts)))"

definition dependents_map :: "tasks \<Rightarrow> string \<Rightarrow> string list" where
  "dependents_map ts p =
     (if p \<in> set (ids ts)
      then concat (map (\<lambda>(tid, t). replicate (length (filter (\<lambda>q. q = p) (prerequisite_ids t))) tid) ts)
      else [])"

section \<open>Blocking\<close>

definition unfinished :: "tasks \<Rightarrow> task \<Rightarrow> string list" where
  "unfinished ts t =
     filter (\<lambda>p. case map_of ts p of None \<Rightarrow> False | Some q \<Rightarrow> tk_status q \<notin> set TERMINAL_STATUSES)
       (prerequisite_ids t)"

text \<open>The queue of \<open>reconcile_blocked_status\<close>: a breadth-first walk that a cycle does not trap.\<close>

function affected_from :: "tasks \<Rightarrow> string list \<Rightarrow> string list \<Rightarrow> string list" where
  "affected_from ts [] seen = []"
| "affected_from ts (tid # queue) seen =
     (if tid \<in> set seen then affected_from ts queue seen
      else tid # affected_from ts (queue @ dependents_map ts tid) (tid # seen))"
  by pat_completeness auto
termination
proof (relation "inv_image (less_than <*lex*> less_than)
    (\<lambda>(ts, queue, seen). (card (set (ids ts) - set seen), length queue))", goal_cases)
  case 1
  then show ?case by (intro wf_inv_image wf_lex_prod wf_less_than)
next
  case (2 ts tid queue seen)
  then show ?case by simp
next
  case (3 ts tid queue seen)
  show ?case
  proof (cases "tid \<in> set (ids ts)")
    case True
    then have "set (ids ts) - set (tid # seen) \<subset> set (ids ts) - set seen" using 3 by auto
    then show ?thesis by (simp add: psubset_card_mono)
  next
    case False
    then have "dependents_map ts tid = []" "set (ids ts) - set (tid # seen) = set (ids ts) - set seen"
      by (auto simp: dependents_map_def)
    then show ?thesis by simp
  qed
qed

definition set_task :: "string \<Rightarrow> task \<Rightarrow> tasks \<Rightarrow> tasks" where
  "set_task tid t ts = map (\<lambda>(k, u). if k = tid then (k, t) else (k, u)) ts"

definition settle_one :: "tasks \<Rightarrow> task \<Rightarrow> task option" where
  "settle_one ts t =
     (if blocked_reason_kind t = ManualBlock then None
      else if unfinished ts t \<noteq> [] \<and> tk_status t \<in> {OPEN, IN_PROGRESS} then
        Some (t\<lparr>tk_status := BLOCKED, blocked_reason_kind := AutoBlock\<rparr>)
      else if unfinished ts t = [] \<and> tk_status t = BLOCKED \<and> blocked_reason_kind t = AutoBlock then
        Some (t\<lparr>tk_status := OPEN, blocked_reason_kind := NoBlock\<rparr>)
      else None)"

definition settle_step :: "string \<Rightarrow> tasks \<times> string list \<Rightarrow> tasks \<times> string list" where
  "settle_step tid st =
     (case st of (ts, changed) \<Rightarrow>
        case map_of ts tid of
          None \<Rightarrow> st
        | Some t \<Rightarrow> (case settle_one ts t of
                       None \<Rightarrow> st
                     | Some t' \<Rightarrow> (set_task tid t' ts, changed @ [tid])))"

definition reconcile_blocked_status :: "tasks \<Rightarrow> string \<Rightarrow> tasks \<times> string list" where
  "reconcile_blocked_status ts changed_id =
     (if changed_id \<notin> set (ids ts) then (ts, [])
      else fold settle_step (affected_from ts [changed_id] []) (ts, []))"

definition classify_manual_block :: "tasks \<Rightarrow> task \<Rightarrow> task" where
  "classify_manual_block ts t =
     (if tk_status t \<noteq> BLOCKED then
        (if blocked_reason_kind t = ManualBlock then t\<lparr>blocked_reason_kind := NoBlock\<rparr> else t)
      else t\<lparr>blocked_reason_kind := (if unfinished ts t \<noteq> [] then AutoBlock else ManualBlock)\<rparr>)"

definition ready_task_ids :: "tasks \<Rightarrow> string list" where
  "ready_task_ids ts =
     map fst (filter (\<lambda>(tid, t). tk_status t \<in> set STARTABLE_STATUSES
       \<and> list_all (\<lambda>p. case map_of ts p of None \<Rightarrow> False | Some q \<Rightarrow> tk_status q \<in> set TERMINAL_STATUSES)
           (filter (\<lambda>p. p \<in> set (ids ts)) (prerequisite_ids t))) ts)"

section \<open>The writes\<close>

text \<open>
  What a write of a task changes of the fields this engine reads: its dependencies, its criteria, its status
  and the kind of its block, as they are once coerced. A write names a field or leaves it; a value that is
  refused, a write over a copy gone stale, and the fields the engine never reads are left out.
\<close>

record task_edit =
  ed_dependencies :: "task_dependency list option"
  ed_criteria :: "json list option"
  ed_status :: "task_status option"
  ed_blocked_kind :: "block_kind option"

datatype task_error = TaskNotFound | UnfinishedCriteria | WaitingOnPrerequisite | CycleFound "string list"
  | SearchExhausted

text \<open>\<open>update_task\<close>: the fields, then the gates of \<open>done\<close>, then the cycle check, then the cascade.\<close>

definition update_task ::
  "(json \<Rightarrow> string) \<Rightarrow> tasks \<Rightarrow> string \<Rightarrow> task_edit \<Rightarrow> task_error + tasks" where
  "update_task str ts tid e =
     (case map_of ts tid of
        None \<Rightarrow> Inl TaskNotFound
      | Some t0 \<Rightarrow>
          (let t1 = t0\<lparr>tk_dependencies := (case ed_dependencies e of None \<Rightarrow> tk_dependencies t0 | Some ds \<Rightarrow> ds),
                       exit_criteria := (case ed_criteria e of None \<Rightarrow> exit_criteria t0 | Some cs \<Rightarrow> cs),
                       blocked_reason_kind := (case ed_blocked_kind e of None \<Rightarrow> blocked_reason_kind t0 | Some k \<Rightarrow> k)\<rparr>;
               ts1 = set_task tid t1 ts
           in if ed_status e = Some DONE \<and> \<not> can_mark_complete str t1 then Inl UnfinishedCriteria
              else if ed_status e = Some DONE \<and> unfinished ts1 t1 \<noteq> [] then Inl WaitingOnPrerequisite
              else
                let t2 = (case ed_status e of None \<Rightarrow> t1 | Some s \<Rightarrow> t1\<lparr>tk_status := s\<rparr>);
                    ts2 = set_task tid t2 ts
                in case would_create_cycle ts2 tid (prerequisite_ids t2) of
                     None \<Rightarrow> Inl SearchExhausted
                   | Some (c # cs) \<Rightarrow> Inl (CycleFound (c # cs))
                   | Some [] \<Rightarrow>
                       (let ts3 = (if ed_status e = None then ts2
                                   else set_task tid (classify_manual_block ts2 t2) ts2)
                        in Inr (if ed_status e = None \<and> ed_dependencies e = None then ts3
                                else fst (reconcile_blocked_status ts3 tid)))))"

text \<open>
  \<open>create_task\<close>: the new id is one no task has (\<open>uuid4\<close>), and the kind of block is not a field a caller
  can set.
\<close>

definition create_task :: "(json \<Rightarrow> string) \<Rightarrow> tasks \<Rightarrow> string \<Rightarrow> task \<Rightarrow> task_error + tasks" where
  "create_task str ts tid given =
     (let t = given\<lparr>blocked_reason_kind := NoBlock\<rparr>;
          ts1 = ts @ [(tid, t)] in
      case would_create_cycle ts1 tid (prerequisite_ids t) of
        None \<Rightarrow> Inl SearchExhausted
      | Some (c # cs) \<Rightarrow> Inl (CycleFound (c # cs))
      | Some [] \<Rightarrow>
          if tk_status t = DONE \<and> \<not> can_mark_complete str t then Inl UnfinishedCriteria
          else if tk_status t = DONE \<and> unfinished ts1 t \<noteq> [] then Inl WaitingOnPrerequisite
          else Inr (fst (reconcile_blocked_status (set_task tid (classify_manual_block ts1 t) ts1) tid)))"

text \<open>\<open>delete_task\<close>: the edges to the task go with it, then every task is reconciled.\<close>

definition delete_task :: "tasks \<Rightarrow> string \<Rightarrow> tasks option" where
  "delete_task ts tid =
     (if tid \<notin> set (ids ts) then None
      else
        let ts1 = map (\<lambda>(k, t). (k, t\<lparr>tk_dependencies := filter (\<lambda>d. depends_on d \<noteq> tid) (tk_dependencies t)\<rparr>))
              (filter (\<lambda>(k, t). k \<noteq> tid) ts)
        in Some (fold (\<lambda>k u. fst (reconcile_blocked_status u k)) (ids ts1) ts1))"

end
