(* ===== verification/TaskGraphFacts.thy ===== *)
theory TaskGraphFacts
  imports TaskGraph
begin

text \<open>
  The task graph: the depth-first search finds a cycle exactly when there is one, no write that is
  accepted closes one, the cascade settles exactly the tasks a write can affect, and in every state the
  writes lead to a task can be started exactly when its status says so.
\<close>

section \<open>The search\<close>

abbreviation edges_of :: "(string \<Rightarrow> string list) \<Rightarrow> (string \<times> string) set" where
  "edges_of pre \<equiv> {(a, b). b \<in> set (pre a)}"

definition black :: "dfs \<Rightarrow> string set" where
  "black s = {x. colors s x = BLACK}"

definition white :: "dfs \<Rightarrow> string set" where
  "white s = {x. colors s x = WHITE}"

text \<open>Finished nodes lead only to finished nodes and lie on no cycle.\<close>

definition finished_ok :: "(string \<Rightarrow> string list) \<Rightarrow> dfs \<Rightarrow> bool" where
  "finished_ok pre s \<longleftrightarrow>
     (\<forall>a \<in> black s. set (pre a) \<subseteq> black s \<and> (a, a) \<notin> (edges_of pre)\<^sup>+)"

text \<open>What a search without a find leaves as it was.\<close>

definition kept :: "dfs \<Rightarrow> dfs \<Rightarrow> bool" where
  "kept s s' \<longleftrightarrow> (\<forall>x. colors s x \<noteq> WHITE \<longrightarrow> colors s' x = colors s x) \<and>
     (\<forall>x. colors s' x = GRAY \<longrightarrow> colors s x = GRAY) \<and> path s' = path s"

lemma kept_refl: "kept s s"
  by (simp add: kept_def)

lemma keptD: "kept s t \<Longrightarrow> colors s x \<noteq> WHITE \<Longrightarrow> colors t x = colors s x"
  unfolding kept_def by blast

lemma kept_trans:
  assumes "kept s t" and "kept t u"
  shows "kept s u"
proof -
  have "colors u x = colors s x" if "colors s x \<noteq> WHITE" for x
  proof -
    have st: "colors t x = colors s x" by (rule keptD [OF assms(1) that])
    have "colors t x \<noteq> WHITE" using that by (simp only: st simp_thms)
    then have "colors u x = colors t x" by (rule keptD [OF assms(2)])
    then show ?thesis using st by (rule trans)
  qed
  moreover have "colors s x = GRAY" if "colors u x = GRAY" for x
    using assms that unfolding kept_def by blast
  moreover have "path u = path s" using assms by (simp add: kept_def)
  ultimately show ?thesis unfolding kept_def by blast
qed

lemma black_step: "finished_ok pre s \<Longrightarrow> a \<in> black s \<Longrightarrow> b \<in> set (pre a) \<Longrightarrow> b \<in> black s"
  unfolding finished_ok_def by blast

lemma closed_black:
  assumes "finished_ok pre s" and "(a, b) \<in> (edges_of pre)\<^sup>*" and "a \<in> black s"
  shows "b \<in> black s"
  using assms(2,3)
proof (induction rule: rtrancl_induct)
  case base
  then show ?case .
next
  case (step y z)
  then show ?case using black_step [OF assms(1)] by blast
qed

lemma finish_node:
  assumes "finished_ok pre s" and "colors s n = GRAY" and "set (pre n) \<subseteq> black s"
  shows "finished_ok pre (s\<lparr>colors := (colors s)(n := BLACK), path := p\<rparr>)"
proof -
  have "(n, n) \<notin> (edges_of pre)\<^sup>+"
  proof
    assume "(n, n) \<in> (edges_of pre)\<^sup>+"
    then obtain b where "b \<in> set (pre n)" "(b, n) \<in> (edges_of pre)\<^sup>*" by (auto dest: tranclD)
    then have "n \<in> black s" using assms(1,3) closed_black by blast
    then show False using assms(2) by (simp add: black_def)
  qed
  moreover have "black (s\<lparr>colors := (colors s)(n := BLACK), path := p\<rparr>) = insert n (black s)"
    by (auto simp: black_def)
  ultimately show ?thesis using assms(1,3) unfolding finished_ok_def by auto
qed

lemma search_finishes:
  "dfs_visit pre k n s = Some (s', []) \<Longrightarrow> finished_ok pre s \<Longrightarrow> colors s n = WHITE \<Longrightarrow>
     finished_ok pre s' \<and> n \<in> black s' \<and> kept s s'"
  "dfs_nexts pre k xs s = Some (s', []) \<Longrightarrow> finished_ok pre s \<Longrightarrow>
     finished_ok pre s' \<and> set xs \<subseteq> black s' \<and> kept s s'"
proof (induction pre k n s and pre k xs s arbitrary: s' and s' rule: dfs_visit_dfs_nexts.induct)
  case (1 pre n s)
  then show ?case by simp
next
  case (2 pre k n s)
  let ?s1 = "s\<lparr>colors := (colors s)(n := GRAY), path := path s @ [n]\<rparr>"
  obtain s2 where run: "dfs_nexts pre k (pre n) ?s1 = Some (s2, [])"
    and s': "s' = s2\<lparr>colors := (colors s2)(n := BLACK), path := butlast (path s2)\<rparr>"
    using 2(2) by (auto split: option.splits if_splits)
  have "black ?s1 = black s" using 2(4) by (auto simp: black_def)
  then have "finished_ok pre ?s1" using 2(3) by (simp add: finished_ok_def)
  from 2(1) [OF run this] have s2: "finished_ok pre s2" "set (pre n) \<subseteq> black s2" "kept ?s1 s2" by blast+
  have gray: "colors s2 n = GRAY" using s2(3) by (simp add: kept_def)
  have "finished_ok pre s'" unfolding s' by (rule finish_node [OF s2(1) gray s2(2)])
  moreover have "n \<in> black s'" by (simp add: s' black_def)
  moreover have "kept s s'" using s2(3) 2(4) by (auto simp: kept_def s' split: if_splits)
  ultimately show ?case by blast
next
  case (3 pre k s)
  then show ?case by (simp add: kept_refl)
next
  case (4 pre k x xs s)
  have notgray: "colors s x \<noteq> GRAY" using 4(4) by (auto split: if_splits)
  show ?case
  proof (cases "colors s x = WHITE")
    case True
    obtain s1 where visit: "dfs_visit pre k x s = Some (s1, [])" and rest: "dfs_nexts pre k xs s1 = Some (s', [])"
      using 4(4) True by (auto split: option.splits if_splits prod.splits)
    have v: "finished_ok pre s1" "x \<in> black s1" "kept s s1" using 4(1) [OF notgray True visit 4(5) True] by blast+
    have r: "finished_ok pre s'" "set xs \<subseteq> black s'" "kept s1 s'"
      using 4(2) [OF notgray True visit refl _ rest v(1)] by auto
    have "x \<in> black s'" using v(2) r(3) by (simp add: black_def kept_def)
    then show ?thesis using r kept_trans [OF v(3) r(3)] by auto
  next
    case False
    then have black: "colors s x = BLACK" using notgray by (cases "colors s x") auto
    then have "dfs_nexts pre k xs s = Some (s', [])" using 4(4) by simp
    then have r: "finished_ok pre s'" "set xs \<subseteq> black s'" "kept s s'"
      using 4(3) [OF notgray False _ 4(5)] by auto
    then have "x \<in> black s'" using black by (simp add: black_def kept_def)
    then show ?thesis using r by auto
  qed
qed

text \<open>A closed walk: an answer of the search, its first node again at the end.\<close>

definition closed_walk :: "(string \<Rightarrow> string list) \<Rightarrow> string list \<Rightarrow> bool" where
  "closed_walk pre c \<longleftrightarrow> 2 \<le> length c \<and> hd c = last c \<and> successively (\<lambda>a b. b \<in> set (pre a)) c"

definition on_path :: "(string \<Rightarrow> string list) \<Rightarrow> string list \<Rightarrow> dfs \<Rightarrow> bool" where
  "on_path pre xs s \<longleftrightarrow> (\<forall>x. colors s x = GRAY \<longleftrightarrow> x \<in> set (path s)) \<and>
     successively (\<lambda>a b. b \<in> set (pre a)) (path s) \<and>
     (path s \<noteq> [] \<longrightarrow> set xs \<subseteq> set (pre (last (path s))))"

lemma walk_reaches:
  "successively (\<lambda>a b. b \<in> set (pre a)) c \<Longrightarrow> c \<noteq> [] \<Longrightarrow> (hd c, last c) \<in> (edges_of pre)\<^sup>*"
proof (induction c)
  case (Cons a c)
  then show ?case by (cases c) (auto intro: converse_rtrancl_into_rtrancl)
qed simp

lemma closed_walk_cycle:
  assumes "closed_walk pre c"
  shows "\<exists>x. (x, x) \<in> (edges_of pre)\<^sup>+"
proof -
  obtain a b r where c: "c = a # b # r" using assms by (cases c rule: remdups_adj.cases) (auto simp: closed_walk_def)
  have "(b, last (b # r)) \<in> (edges_of pre)\<^sup>*"
    using walk_reaches [of pre "b # r"] assms by (simp add: closed_walk_def c)
  moreover have "last (b # r) = a" "(a, b) \<in> edges_of pre" using assms by (auto simp: closed_walk_def c)
  ultimately have "(a, a) \<in> (edges_of pre)\<^sup>+" by (metis rtrancl_into_trancl2)
  then show ?thesis by blast
qed

lemma back_edge:
  assumes "on_path pre (x # xs) s" and "colors s x = GRAY"
  shows "closed_walk pre (dropWhile (\<lambda>y. y \<noteq> x) (path s) @ [x])"
proof -
  have x: "x \<in> set (path s)" using assms by (simp add: on_path_def)
  then obtain r where drop: "dropWhile (\<lambda>y. y \<noteq> x) (path s) = x # r"
    using hd_dropWhile [of "\<lambda>y. y \<noteq> x" "path s"] dropWhile_eq_Nil_conv [of "\<lambda>y. y \<noteq> x" "path s"]
    by (cases "dropWhile (\<lambda>y. y \<noteq> x) (path s)") auto
  obtain l where l: "path s = l @ x # r" by (metis drop takeWhile_dropWhile_id)
  have "successively (\<lambda>a b. b \<in> set (pre a)) (x # r)" "x \<in> set (pre (last (x # r)))"
    using assms(1) by (auto simp: on_path_def l successively_append_iff)
  then have "successively (\<lambda>a b. b \<in> set (pre a)) ((x # r) @ [x])" by (simp only: successively_append_iff) simp
  then show ?thesis by (simp add: drop closed_walk_def)
qed

lemma on_path_kept: "on_path pre xs s \<Longrightarrow> kept s s' \<Longrightarrow> set ys \<subseteq> set xs \<Longrightarrow> on_path pre ys s'"
  unfolding on_path_def kept_def by (metis color.distinct(1) order_trans)

lemma search_finds_walks:
  "dfs_visit pre k n s = Some (s', c) \<Longrightarrow> on_path pre [n] s \<Longrightarrow> finished_ok pre s \<Longrightarrow>
     colors s n = WHITE \<Longrightarrow> c \<noteq> [] \<Longrightarrow> closed_walk pre c"
  "dfs_nexts pre k xs s = Some (s', c) \<Longrightarrow> on_path pre xs s \<Longrightarrow> finished_ok pre s \<Longrightarrow> c \<noteq> [] \<Longrightarrow> closed_walk pre c"
proof (induction pre k n s and pre k xs s arbitrary: s' c and s' c rule: dfs_visit_dfs_nexts.induct)
  case (1 pre n s)
  then show ?case by simp
next
  case (2 pre k n s)
  let ?s1 = "s\<lparr>colors := (colors s)(n := GRAY), path := path s @ [n]\<rparr>"
  obtain s2 where run: "dfs_nexts pre k (pre n) ?s1 = Some (s2, c)"
    using 2(2,6) by (auto split: option.splits if_splits)
  have "black ?s1 = black s" using 2(5) by (auto simp: black_def)
  then have ok: "finished_ok pre ?s1" using 2(4) by (simp add: finished_ok_def)
  have "on_path pre (pre n) ?s1"
    using 2(3,5) by (auto simp: on_path_def successively_append_iff)
  from 2(1) [OF run this ok 2(6)] show ?case .
next
  case (3 pre k s)
  then show ?case by simp
next
  case (4 pre k x xs s)
  show ?case
  proof (cases "colors s x")
    case GRAY
    then show ?thesis using 4(4,5) back_edge by auto
  next
    case WHITE
    then have notgray: "colors s x \<noteq> GRAY" by simp
    obtain s1 c1 where visit: "dfs_visit pre k x s = Some (s1, c1)"
      using 4(4) WHITE by (auto split: option.splits)
    have here: "on_path pre [x] s" using 4(5) by (auto simp: on_path_def)
    show ?thesis
    proof (cases "c1 = []")
      case False
      then have "c = c1" using 4(4) WHITE visit by simp
      then show ?thesis using 4(1) [OF notgray WHITE visit here 4(6) WHITE] False by simp
    next
      case True
      then have rest: "dfs_nexts pre k xs s1 = Some (s', c)" using 4(4) WHITE visit by simp
      from search_finishes(1) [OF visit [unfolded True] 4(6) WHITE]
      have s1: "finished_ok pre s1" "kept s s1" by blast+
      have "on_path pre xs s1" using on_path_kept [OF 4(5) s1(2)] by auto
      from 4(2) [OF notgray WHITE visit refl _ rest this s1(1) 4(7)] True show ?thesis by simp
    qed
  next
    case BLACK
    then have "dfs_nexts pre k xs s = Some (s', c)" using 4(4) by simp
    moreover have "on_path pre xs s" using 4(5) by (auto simp: on_path_def)
    ultimately show ?thesis using 4(3) 4(6,7) BLACK by simp
  qed
qed

text \<open>The recursion goes no deeper than there are unvisited nodes.\<close>

lemma white_shrinks: "kept s s' \<Longrightarrow> white s' \<subseteq> white s"
  using keptD [of s s'] unfolding white_def by fastforce

lemma search_returns:
  "finite (white s) \<Longrightarrow> card (white s) \<le> k \<Longrightarrow> n \<in> white s \<Longrightarrow> finished_ok pre s \<Longrightarrow> dfs_visit pre k n s \<noteq> None"
  "finite (white s) \<Longrightarrow> card (white s) \<le> k \<Longrightarrow> finished_ok pre s \<Longrightarrow> dfs_nexts pre k xs s \<noteq> None"
proof (induction pre k n s and pre k xs s rule: dfs_visit_dfs_nexts.induct)
  case (1 pre n s)
  then show ?case by auto
next
  case (2 pre k n s)
  let ?s1 = "s\<lparr>colors := (colors s)(n := GRAY), path := path s @ [n]\<rparr>"
  have w: "white ?s1 = white s - {n}" by (auto simp: white_def)
  have "black ?s1 = black s" using 2(4) by (auto simp: black_def white_def)
  then have "finished_ok pre ?s1" using 2(5) by (simp add: finished_ok_def)
  then have "dfs_nexts pre k (pre n) ?s1 \<noteq> None" using 2(1) 2(2,3,4) by (simp add: w)
  then show ?case by (auto split: option.splits)
next
  case (3 pre k s)
  then show ?case by simp
next
  case (4 pre k x xs s)
  show ?case
  proof (cases "colors s x")
    case GRAY
    then show ?thesis by simp
  next
    case WHITE
    then have notgray: "colors s x \<noteq> GRAY" by simp
    then obtain s1 c1 where visit: "dfs_visit pre k x s = Some (s1, c1)"
      using 4(1) WHITE 4(4,5,6) by (fastforce simp: white_def)
    show ?thesis
    proof (cases "c1 = []")
      case False
      then show ?thesis by (simp add: WHITE visit)
    next
      case True
      from search_finishes(1) [OF visit [unfolded True] 4(6) WHITE]
      have s1: "finished_ok pre s1" "white s1 \<subseteq> white s" using white_shrinks by blast+
      have "finite (white s1)" "card (white s1) \<le> k"
        using 4(4,5) s1(2) by (auto intro: finite_subset dest: card_mono)
      then have "dfs_nexts pre k xs s1 \<noteq> None"
        using 4(2) [OF notgray WHITE visit refl] s1(1) True by simp
      then show ?thesis using True by (simp add: WHITE visit)
    qed
  next
    case BLACK
    then show ?thesis using 4 by simp
  qed
qed

section \<open>The answer is exact\<close>

abbreviation task_edges :: "tasks \<Rightarrow> (string \<times> string) set" where
  "task_edges ts \<equiv> edges_of (prereq_map ts)"

lemma prereq_known: "b \<in> set (prereq_map ts a) \<Longrightarrow> a \<in> set (ids ts) \<and> b \<in> set (ids ts)"
  by (cases "map_of ts a") (auto simp: prereq_map_def ids_def dest: map_of_SomeD intro: rev_image_eqI)

lemma prereq_unknown: "a \<notin> set (ids ts) \<Longrightarrow> prereq_map ts a = []"
  using prereq_known [of _ ts a] by (cases "prereq_map ts a") auto

lemma fresh_ok:
  assumes "\<And>a. a \<notin> set known \<Longrightarrow> pre a = []"
  shows "finished_ok pre (fresh_dfs known)"
proof -
  have "(a, a) \<notin> (edges_of pre)\<^sup>+" if "a \<notin> set known" for a
    using that assms [of a] by (auto dest: tranclD)
  then show ?thesis using assms by (auto simp: finished_ok_def black_def fresh_dfs_def)
qed

lemma fresh_white: "white (fresh_dfs known) = set known"
  by (auto simp: white_def fresh_dfs_def)

lemma fresh_path: "on_path pre xs (fresh_dfs known)"
  by (simp add: on_path_def fresh_dfs_def)

lemma card_ids: "card (set (ids ts)) \<le> length ts"
  using card_length [of "ids ts"] by (simp add: ids_def)

lemma black_acyclic:
  assumes "finished_ok pre s" and "\<And>a b. (a, b) \<in> edges_of pre \<Longrightarrow> a \<in> black s"
  shows "acyclic (edges_of pre)"
proof (rule acyclicI, intro allI notI)
  fix x assume x: "(x, x) \<in> (edges_of pre)\<^sup>+"
  then obtain b where "(x, b) \<in> edges_of pre" by (meson tranclD)
  then show False using assms x unfolding finished_ok_def by blast
qed

text \<open>
  C11. \<open>detect_cycle\<close> is exact on every set of tasks: it returns, it returns the empty path exactly when
  the dependency graph has no cycle, and any other answer is a cycle of the graph, written from its first
  task around to the same task.
\<close>

theorem detect_cycle_is_exact:
  "\<exists>c. detect_cycle ts = Some c \<and> (c = []) = acyclic (task_edges ts) \<and>
       (if c = [] then True else closed_walk (prereq_map ts) c)"
proof -
  let ?pre = "prereq_map ts"
  let ?s = "fresh_dfs (ids ts)"
  have ok: "finished_ok ?pre ?s" by (rule fresh_ok) (rule prereq_unknown)
  obtain s' c where run: "dfs_nexts ?pre (Suc (length ts)) (ids ts) ?s = Some (s', c)"
    using search_returns(2) [of ?s "Suc (length ts)" ?pre "ids ts"] ok card_ids [of ts] by (auto simp: fresh_white)
  show ?thesis
  proof (cases "c = []")
    case True
    have "finished_ok ?pre s'" "set (ids ts) \<subseteq> black s'"
      using search_finishes(2) [OF run [unfolded True] ok] by blast+
    then have "acyclic (task_edges ts)" using prereq_known by (intro black_acyclic) blast+
    then show ?thesis using run True by (simp add: detect_cycle_def)
  next
    case False
    have walk: "closed_walk ?pre c" by (rule search_finds_walks(2) [OF run fresh_path ok False])
    then have "\<not> acyclic (task_edges ts)" using closed_walk_cycle unfolding acyclic_def by blast
    then show ?thesis using run False walk by (simp add: detect_cycle_def)
  qed
qed

lemma trancl_changed_node:
  assumes "(x, y) \<in> (edges_of (pre(n := ps)))\<^sup>+"
  shows "(x, y) \<in> (edges_of pre)\<^sup>+ \<or>
    ((x, n) \<in> (edges_of (pre(n := ps)))\<^sup>* \<and> (n, y) \<in> (edges_of (pre(n := ps)))\<^sup>+)"
  using assms
proof (induction rule: trancl_induct)
  case (base y)
  then show ?case by (cases "x = n") auto
next
  case (step y z)
  let ?E = "edges_of (pre(n := ps))"
  show ?case
  proof (cases "y = n")
    case True
    then show ?thesis using step.hyps by (auto intro: trancl_into_rtrancl)
  next
    case False
    then have "(y, z) \<in> edges_of pre" using step.hyps(2) by simp
    then show ?thesis using step.IH step.hyps(2) by (meson trancl.trancl_into_trancl)
  qed
qed

lemma cycle_check_exact:
  fixes new :: "string list"
  assumes "acyclic (edges_of ((prereq_map ts)(tid := [])))" and "tid \<in> set (ids ts)"
    and pre'_def: "pre' = (prereq_map ts)(tid := filter (\<lambda>p. p \<in> set (ids ts)) new)"
  shows "\<exists>c. would_create_cycle ts tid new = Some c \<and> (c = []) = acyclic (edges_of pre') \<and>
    (if c = [] then True else closed_walk pre' c)"
proof -
  let ?s = "fresh_dfs (ids ts)"
  let ?base = "(prereq_map ts)(tid := [])"
  have pre': "pre' = ?base(tid := filter (\<lambda>p. p \<in> set (ids ts)) new)" by (simp add: pre'_def)
  have "pre' a = []" if "a \<notin> set (ids ts)" for a
    using that assms(2) prereq_unknown by (auto simp: pre'_def)
  then have ok: "finished_ok pre' ?s" by (rule fresh_ok)
  have white: "tid \<in> white ?s" using assms(2) by (simp add: fresh_white)
  obtain s' c where run: "dfs_visit pre' (Suc (length ts)) tid ?s = Some (s', c)"
    using search_returns(1) [of ?s "Suc (length ts)" tid pre'] ok white card_ids [of ts] by (auto simp: fresh_white)
  show ?thesis
  proof (cases "c = []")
    case True
    have fin: "finished_ok pre' s'" "tid \<in> black s'"
      using search_finishes(1) [OF run [unfolded True] ok] white by (auto simp: white_def)
    then have notid: "(tid, tid) \<notin> (edges_of pre')\<^sup>+" unfolding finished_ok_def by blast
    have "acyclic (edges_of pre')"
    proof (rule acyclicI, intro allI notI)
      fix x assume "(x, x) \<in> (edges_of pre')\<^sup>+"
      then consider "(x, x) \<in> (edges_of ?base)\<^sup>+" | "(x, tid) \<in> (edges_of pre')\<^sup>*" "(tid, x) \<in> (edges_of pre')\<^sup>+"
        unfolding pre' by (blast dest: trancl_changed_node)
      then show False
      proof cases
        case 1
        then show ?thesis using assms(1) unfolding acyclic_def by blast
      next
        case 2
        then show ?thesis using notid by (meson trancl_rtrancl_trancl)
      qed
    qed
    then show ?thesis using run True by (simp add: would_create_cycle_def pre'_def)
  next
    case False
    have walk: "closed_walk pre' c"
      by (rule search_finds_walks(1) [OF run fresh_path ok _ False]) (use white in \<open>simp add: white_def\<close>)
    then have "\<not> acyclic (edges_of pre')" using closed_walk_cycle unfolding acyclic_def by blast
    then show ?thesis using run False walk by (simp add: would_create_cycle_def pre'_def)
  qed
qed

lemma acyclic_without_row: "acyclic (edges_of pre) \<Longrightarrow> acyclic (edges_of (pre(n := [])))"
  by (erule acyclic_subset) (auto split: if_splits)

text \<open>
  The check on a write is exact too: on a board without a cycle, giving a task new prerequisites is
  refused exactly when it would close one, the refusal names a cycle of the graph that would result, and
  the search always returns.
\<close>

theorem cycle_check_refuses_exactly_cycles:
  assumes "acyclic (task_edges ts)" and "tid \<in> set (ids ts)"
  shows "\<exists>c. would_create_cycle ts tid new = Some c \<and>
    (c = []) = acyclic (edges_of ((prereq_map ts)(tid := filter (\<lambda>p. p \<in> set (ids ts)) new))) \<and>
    (if c = [] then True else closed_walk ((prereq_map ts)(tid := filter (\<lambda>p. p \<in> set (ids ts)) new)) c)"
  by (rule cycle_check_exact [OF acyclic_without_row [OF assms(1)] assms(2) refl])

section \<open>The cascade\<close>

definition live :: "tasks \<Rightarrow> string \<Rightarrow> bool" where
  "live ts p = (case map_of ts p of None \<Rightarrow> False | Some q \<Rightarrow> tk_status q \<notin> set TERMINAL_STATUSES)"

lemma unfinished_live: "unfinished ts t = filter (live ts) (prerequisite_ids t)"
  by (simp add: unfinished_def live_def [abs_def])

text \<open>The task after its turn in the loop.\<close>

definition settle :: "tasks \<Rightarrow> task \<Rightarrow> task" where
  "settle ts t = (case settle_one ts t of None \<Rightarrow> t | Some t' \<Rightarrow> t')"

lemma settle_one_live: "live ts = live us \<Longrightarrow> settle_one ts t = settle_one us t"
  by (simp add: settle_one_def unfinished_live)

lemma settle_live: "live ts = live us \<Longrightarrow> settle ts t = settle us t"
  using settle_one_live [of ts us t] by (simp only: settle_def)

lemma settle_prereqs [simp]: "prerequisite_ids (settle ts t) = prerequisite_ids t"
  by (simp add: settle_def settle_one_def prerequisite_ids_def split: option.split)

lemma unfinished_settle [simp]: "unfinished ts (settle us t) = unfinished ts t"
  by (simp add: unfinished_live)

lemma settle_cases:
  obtains (same) "settle_one ts t = None" "settle ts t = t"
  | (block) "unfinished ts t \<noteq> []" "settle ts t = t\<lparr>tk_status := BLOCKED, blocked_reason_kind := AutoBlock\<rparr>"
  | (open_again) "unfinished ts t = []" "settle ts t = t\<lparr>tk_status := OPEN, blocked_reason_kind := NoBlock\<rparr>"
  by (cases "settle_one ts t") (auto simp: settle_def settle_one_def split: if_splits)

lemma settle_settled: "settle_one ts (settle ts t) = None"
proof (cases rule: settle_cases [of ts t])
  case same
  then show ?thesis by simp
next
  case block
  have "unfinished ts (settle ts t) \<noteq> []" using block(1) by (simp only: unfinished_settle not_False_eq_True)
  then show ?thesis using block(2) by (simp add: settle_one_def)
next
  case open_again
  have "unfinished ts (settle ts t) = []" using open_again(1) by (simp only: unfinished_settle)
  then show ?thesis using open_again(2) by (simp add: settle_one_def)
qed

lemma settle_terminal:
  "tk_status (settle ts t) \<in> set TERMINAL_STATUSES \<longleftrightarrow> tk_status t \<in> set TERMINAL_STATUSES"
  by (auto simp: settle_def settle_one_def TERMINAL_STATUSES_def split: option.split)

lemma settle_none: "settle_one ts t = None \<Longrightarrow> settle ts t = t"
  by (simp add: settle_def)

lemma settle_idem [simp]: "settle ts (settle ts t) = settle ts t"
  by (rule settle_none) (rule settle_settled)

lemma set_task_simps:
  "set_task tid t [] = []"
  "set_task tid t ((k, u) # ts) = (k, if k = tid then t else u) # set_task tid t ts"
  by (simp_all add: set_task_def)

lemma ids_simps [simp]: "ids [] = []" "ids ((k, u) # ts) = k # ids ts"
  by (simp_all add: ids_def)

lemma map_of_set_task [simp]:
  "map_of (set_task tid t ts) k = (if k = tid \<and> tid \<in> set (ids ts) then Some t else map_of ts k)"
proof (induction ts)
  case Nil
  then show ?case by (simp add: set_task_simps)
next
  case (Cons x ts)
  then show ?case by (cases x; cases "k = tid"; cases "tid \<in> set (ids ts)") (simp_all add: set_task_simps)
qed

lemma ids_set_task [simp]: "ids (set_task tid t ts) = ids ts"
proof (induction ts)
  case Nil
  then show ?case by (simp add: set_task_simps)
next
  case (Cons x ts)
  then show ?case by (cases x) (simp add: set_task_simps)
qed

lemma map_of_ids: "map_of ts k = None \<longleftrightarrow> k \<notin> set (ids ts)"
  by (simp add: ids_def map_of_eq_None_iff)

lemma settle_step_map:
  "map_of (fst (settle_step tid (ts, c))) k =
     (if k = tid then map_option (settle ts) (map_of ts k) else map_of ts k)"
proof (cases "map_of ts tid")
  case None
  then show ?thesis by (simp add: settle_step_def)
next
  case (Some t)
  then have "tid \<in> set (ids ts)" using map_of_ids [of ts tid] by simp
  then show ?thesis using Some by (cases "settle_one ts t") (auto simp: settle_step_def settle_def)
qed

lemma settle_step_ids [simp]: "ids (fst (settle_step tid st)) = ids (fst st)"
  by (auto simp: settle_step_def split: option.split prod.split)

lemma live_map:
  "(\<And>k. map_of us k = map_of ts k \<or> map_of us k = map_option (settle ts) (map_of ts k)) \<Longrightarrow> live us = live ts"
proof
  fix p
  assume same: "\<And>k. map_of us k = map_of ts k \<or> map_of us k = map_option (settle ts) (map_of ts k)"
  show "live us p = live ts p"
    using same [of p] settle_terminal by (cases "map_of ts p") (auto simp: live_def)
qed

lemma live_settle_step: "live (fst (settle_step tid (ts, c))) = live ts"
  by (rule live_map) (simp add: settle_step_map)

lemma fold_settle:
  "map_of (fst (fold settle_step xs (ts, c))) k =
     (if k \<in> set xs then map_option (settle ts) (map_of ts k) else map_of ts k)"
proof (induction xs arbitrary: ts c)
  case Nil
  then show ?case by simp
next
  case (Cons x xs)
  obtain us d where step: "settle_step x (ts, c) = (us, d)" by fastforce
  have live: "live us = live ts" using live_settle_step [of x ts c] by (simp add: step)
  have us: "map_of us k = (if k = x then map_option (settle ts) (map_of ts k) else map_of ts k)" for k
    using settle_step_map [of x ts c k] by (simp add: step)
  show ?case
    using Cons.IH [of us d] us settle_live [OF live]
    by (cases "map_of ts k") (auto simp: step)
qed

lemma fold_settle_ids [simp]: "ids (fst (fold settle_step xs st)) = ids (fst st)"
  by (induction xs arbitrary: st) simp_all

lemma fold_settle_changed:
  "set (snd (fold settle_step xs (ts, c))) = set c \<union> {k \<in> set xs. \<exists>t. map_of ts k = Some t \<and> settle_one ts t \<noteq> None}"
proof (induction xs arbitrary: ts c)
  case (Cons x xs)
  obtain us d where step: "settle_step x (ts, c) = (us, d)" by fastforce
  have live: "live us = live ts" using live_settle_step [of x ts c] by (simp add: step)
  have us: "map_of us k = (if k = x then map_option (settle ts) (map_of ts k) else map_of ts k)" for k
    using settle_step_map [of x ts c k] by (simp add: step)
  have d: "set d = set c \<union> {k. k = x \<and> (\<exists>t. map_of ts k = Some t \<and> settle_one ts t \<noteq> None)}"
    using step by (auto simp: settle_step_def split: option.splits)
  have "(\<exists>t. map_of us k = Some t \<and> settle_one us t \<noteq> None) \<longleftrightarrow>
      k \<noteq> x \<and> (\<exists>t. map_of ts k = Some t \<and> settle_one ts t \<noteq> None)" for k
    using settle_settled by (auto simp: us settle_one_live [OF live])
  then show ?case using Cons.IH [of us d] d by (auto simp: step)
qed simp

text \<open>The breadth-first walk: the changed task and everything that waits on it, directly or not.\<close>

abbreviation waits_on :: "tasks \<Rightarrow> (string \<times> string) set" where
  "waits_on ts \<equiv> {(p, t). t \<in> set (dependents_map ts p)}"

lemma affected_sound:
  "x \<in> set (affected_from ts queue seen) \<Longrightarrow> \<exists>q \<in> set queue. (q, x) \<in> (waits_on ts)\<^sup>*"
proof (induction ts queue seen rule: affected_from.induct)
  case (1 ts seen)
  then show ?case by simp
next
  case (2 ts tid queue seen)
  show ?case
  proof (cases "tid \<in> set seen")
    case True
    then show ?thesis using 2(1) 2(3) by auto
  next
    case False
    then consider "x = tid" | "x \<in> set (affected_from ts (queue @ dependents_map ts tid) (tid # seen))"
      using 2(3) by auto
    then show ?thesis
    proof cases
      case 2
      then obtain q where "q \<in> set queue \<union> set (dependents_map ts tid)" "(q, x) \<in> (waits_on ts)\<^sup>*"
        using "2.IH"(2) [OF False] by auto
      then show ?thesis by (auto intro: converse_rtrancl_into_rtrancl)
    qed auto
  qed
qed

lemma affected_closed:
  assumes "\<And>x. x \<in> set seen \<Longrightarrow> set (dependents_map ts x) \<subseteq> set seen \<union> set queue"
  shows "set queue \<subseteq> set seen \<union> set (affected_from ts queue seen) \<and>
    (\<forall>x \<in> set seen \<union> set (affected_from ts queue seen).
       set (dependents_map ts x) \<subseteq> set seen \<union> set (affected_from ts queue seen))"
  using assms
proof (induction ts queue seen rule: affected_from.induct)
  case (1 ts seen)
  then show ?case by auto
next
  case (2 ts tid queue seen)
  show ?case
  proof (cases "tid \<in> set seen")
    case True
    have "\<And>x. x \<in> set seen \<Longrightarrow> set (dependents_map ts x) \<subseteq> set seen \<union> set queue"
      using 2(3) True by fastforce
    then show ?thesis using 2(1) True by simp
  next
    case False
    have "\<And>x. x \<in> set (tid # seen) \<Longrightarrow>
        set (dependents_map ts x) \<subseteq> set (tid # seen) \<union> set (queue @ dependents_map ts tid)"
      using 2(3) by fastforce
    from 2(2) [OF False this] show ?thesis using False by auto
  qed
qed

declare affected_from.simps [simp del]

lemma affected_is_reachable:
  "set (affected_from ts [tid] []) = {x. (tid, x) \<in> (waits_on ts)\<^sup>*}"
proof
  show "set (affected_from ts [tid] []) \<subseteq> {x. (tid, x) \<in> (waits_on ts)\<^sup>*}"
    using affected_sound [of _ ts "[tid]" "[]"] by auto
  have "set [tid] \<subseteq> set [] \<union> set (affected_from ts [tid] []) \<and>
    (\<forall>x \<in> set [] \<union> set (affected_from ts [tid] []).
       set (dependents_map ts x) \<subseteq> set [] \<union> set (affected_from ts [tid] []))"
    by (rule affected_closed) simp
  then have start: "tid \<in> set (affected_from ts [tid] [])"
    and onward: "\<forall>x \<in> set (affected_from ts [tid] []). set (dependents_map ts x) \<subseteq> set (affected_from ts [tid] [])"
    by simp_all
  have "x \<in> set (affected_from ts [tid] [])" if "(tid, x) \<in> (waits_on ts)\<^sup>*" for x
    using that by (induction rule: rtrancl_induct) (use start onward in blast)+
  then show "{x. (tid, x) \<in> (waits_on ts)\<^sup>*} \<subseteq> set (affected_from ts [tid] [])" by blast
qed

lemma reconcile_map:
  assumes "tid \<in> set (ids ts)"
  shows "map_of (fst (reconcile_blocked_status ts tid)) k =
    (if (tid, k) \<in> (waits_on ts)\<^sup>* then map_option (settle ts) (map_of ts k) else map_of ts k)"
  using assms fold_settle [of "affected_from ts [tid] []" ts "[]" k]
  by (simp add: reconcile_blocked_status_def affected_is_reachable)

lemma settle_moves: "settle_one ts t \<noteq> None \<longleftrightarrow> settle ts t \<noteq> t"
proof -
  have "tk_status t' \<noteq> tk_status t" if "settle_one ts t = Some t'" for t'
    using that by (auto simp: settle_one_def split: if_splits)
  then show ?thesis by (auto simp: settle_def split: option.splits)
qed

lemma reconcile_changed:
  assumes "tid \<in> set (ids ts)"
  shows "set (snd (reconcile_blocked_status ts tid)) =
    {k. map_of (fst (reconcile_blocked_status ts tid)) k \<noteq> map_of ts k}"
proof -
  have "map_of (fst (reconcile_blocked_status ts tid)) k \<noteq> map_of ts k \<longleftrightarrow>
      (tid, k) \<in> (waits_on ts)\<^sup>* \<and> (\<exists>t. map_of ts k = Some t \<and> settle_one ts t \<noteq> None)" for k
    by (cases "map_of ts k") (simp_all add: reconcile_map [OF assms] settle_moves del: not_None_eq)
  moreover have "set (snd (reconcile_blocked_status ts tid)) =
      {k. (tid, k) \<in> (waits_on ts)\<^sup>* \<and> (\<exists>t. map_of ts k = Some t \<and> settle_one ts t \<noteq> None)}"
    using assms fold_settle_changed [of "affected_from ts [tid] []" ts "[]"]
    by (simp add: reconcile_blocked_status_def affected_is_reachable)
  ultimately show ?thesis by blast
qed

section \<open>The board under any writes\<close>

definition settled :: "tasks \<Rightarrow> bool" where
  "settled ts \<longleftrightarrow> (\<forall>k t. map_of ts k = Some t \<longrightarrow>
     settle_one ts t = None \<and> (blocked_reason_kind t = ManualBlock \<longrightarrow> tk_status t = BLOCKED))"

definition board_wf :: "tasks \<Rightarrow> bool" where
  "board_wf ts \<longleftrightarrow> distinct (ids ts) \<and> acyclic (task_edges ts) \<and> settled ts"

lemma dependents_mem:
  "map_of ts k = Some t \<Longrightarrow> p \<in> set (prerequisite_ids t) \<Longrightarrow> p \<in> set (ids ts) \<Longrightarrow> k \<in> set (dependents_map ts p)"
  by (force simp: dependents_map_def filter_empty_conv dest: map_of_SomeD)

lemma live_reconcile: "live (fst (reconcile_blocked_status ts tid)) = live ts"
proof (cases "tid \<in> set (ids ts)")
  case True
  then show ?thesis by (intro live_map) (simp add: reconcile_map)
next
  case False
  then show ?thesis by (simp add: reconcile_blocked_status_def)
qed

lemma reconcile_ids [simp]: "ids (fst (reconcile_blocked_status ts tid)) = ids ts"
  by (simp add: reconcile_blocked_status_def)

lemma manual_settle:
  "blocked_reason_kind (settle ts t) = ManualBlock \<Longrightarrow> settle ts t = t"
  by (cases rule: settle_cases [of ts t]) auto

lemma reconcile_settled:
  assumes "settled ts" and "tid \<in> set (ids us)"
    and same: "\<And>k. k \<noteq> tid \<Longrightarrow> map_of us k = map_of ts k"
    and mine: "\<And>t. map_of us tid = Some t \<Longrightarrow> blocked_reason_kind t = ManualBlock \<Longrightarrow> tk_status t = BLOCKED"
  shows "settled (fst (reconcile_blocked_status us tid))"
  unfolding settled_def
proof (intro allI impI)
  fix k t' assume t': "map_of (fst (reconcile_blocked_status us tid)) k = Some t'"
  have one: "settle_one (fst (reconcile_blocked_status us tid)) t' = settle_one us t'"
    by (rule settle_one_live) (rule live_reconcile)
  have manual: "tk_status t = BLOCKED" if "map_of us k = Some t" "blocked_reason_kind t = ManualBlock" for t
    using that mine same [of k] assms(1) by (cases "k = tid") (auto simp: settled_def)
  show "settle_one (fst (reconcile_blocked_status us tid)) t' = None \<and>
      (blocked_reason_kind t' = ManualBlock \<longrightarrow> tk_status t' = BLOCKED)"
  proof (cases "(tid, k) \<in> (waits_on us)\<^sup>*")
    case True
    then obtain t where t: "map_of us k = Some t" "t' = settle us t"
      using t' by (auto simp: reconcile_map [OF assms(2)])
    then show ?thesis unfolding one using manual [OF t(1)] manual_settle [of us t] by (auto simp: settle_settled)
  next
    case False
    then have t: "map_of us k = Some t'" using t' by (simp add: reconcile_map [OF assms(2)])
    have k: "k \<noteq> tid" using False by auto
    have notdep: "tid \<notin> set (prerequisite_ids t')"
      using dependents_mem [OF t _ assms(2)] False by blast
    have "unfinished us t' = unfinished ts t'"
      unfolding unfinished_live
    proof (intro filter_cong refl)
      fix x assume "x \<in> set (prerequisite_ids t')"
      then have "x \<noteq> tid" using notdep by blast
      then show "live us x = live ts x" using same by (simp add: live_def)
    qed
    then have "settle_one us t' = settle_one ts t'" by (simp add: settle_one_def)
    then show ?thesis using assms(1) t same [OF k] manual [OF t] by (auto simp: settled_def one)
  qed
qed

lemma prereq_map_cong:
  assumes "ids us = ids ts" and "\<And>k. map_option prerequisite_ids (map_of us k) = map_option prerequisite_ids (map_of ts k)"
  shows "prereq_map us = prereq_map ts"
proof
  fix k
  show "prereq_map us k = prereq_map ts k"
    using assms(2) [of k] by (cases "map_of us k"; cases "map_of ts k") (simp_all add: prereq_map_def assms(1))
qed

lemma prereq_map_reconcile [simp]: "prereq_map (fst (reconcile_blocked_status ts tid)) = prereq_map ts"
proof (cases "tid \<in> set (ids ts)")
  case True
  then show ?thesis by (intro prereq_map_cong) (simp_all add: reconcile_map option.map_comp comp_def)
next
  case False
  then show ?thesis by (simp add: reconcile_blocked_status_def)
qed

inductive task_step :: "(json \<Rightarrow> string) \<Rightarrow> tasks \<Rightarrow> tasks \<Rightarrow> bool" for str where
  create: "tid \<notin> set (ids ts) \<Longrightarrow> create_task str ts tid t = Inr ts' \<Longrightarrow> task_step str ts ts'"
| update: "update_task str ts tid e = Inr ts' \<Longrightarrow> ed_blocked_kind e = None \<or> ed_status e \<noteq> None \<Longrightarrow>
    task_step str ts ts'"
| delete: "delete_task ts tid = Some ts' \<Longrightarrow> task_step str ts ts'"

lemma reconcile_keeps:
  assumes "settled ts" and "distinct (ids us)" and "acyclic (task_edges us)" and "tid \<in> set (ids us)"
    and "\<And>k. k \<noteq> tid \<Longrightarrow> map_of us k = map_of ts k"
    and "\<And>t. map_of us tid = Some t \<Longrightarrow> blocked_reason_kind t = ManualBlock \<Longrightarrow> tk_status t = BLOCKED"
  shows "board_wf (fst (reconcile_blocked_status us tid))"
proof -
  have "settled (fst (reconcile_blocked_status us tid))" by (rule reconcile_settled [OF assms(1,4-6)])
  then show ?thesis using assms(2,3) by (simp add: board_wf_def)
qed

lemma classified_manual:
  "blocked_reason_kind (classify_manual_block ts t) = ManualBlock \<Longrightarrow>
   tk_status (classify_manual_block ts t) = BLOCKED"
  by (auto simp: classify_manual_block_def split: if_splits)

lemma classified_prereqs [simp]: "prerequisite_ids (classify_manual_block ts t) = prerequisite_ids t"
  by (simp add: classify_manual_block_def prerequisite_ids_def)

lemma prereq_map_set_task:
  assumes "tid \<in> set (ids ts)"
  shows "prereq_map (set_task tid t ts) =
    (prereq_map ts)(tid := filter (\<lambda>p. p \<in> set (ids ts)) (prerequisite_ids t))"
  using assms by (auto simp: prereq_map_def fun_eq_iff split: option.split)

text \<open>Acceptance by the check leaves the written row in an acyclic graph.\<close>

lemma accepted_acyclic:
  assumes "would_create_cycle ts tid new = Some []" and "acyclic (edges_of ((prereq_map ts)(tid := [])))"
    and "tid \<in> set (ids ts)"
  shows "acyclic (edges_of ((prereq_map ts)(tid := filter (\<lambda>p. p \<in> set (ids ts)) new)))"
  using cycle_check_exact [OF assms(2,3) refl, of new] assms(1) by auto

lemma create_task_keeps:
  assumes "tid \<notin> set (ids ts)" and "board_wf ts" and "create_task str ts tid given = Inr ts'"
  shows "board_wf ts'"
proof -
  define t where "t = given\<lparr>blocked_reason_kind := NoBlock\<rparr>"
  define us where "us = ts @ [(tid, t)]"
  define c where "c = classify_manual_block us t"
  have known: "tid \<in> set (ids us)" "ids us = ids ts @ [tid]" by (simp_all add: us_def ids_def)
  have other: "map_of us k = map_of ts k" if "k \<noteq> tid" for k
    using that by (simp add: us_def map_add_def split: option.split)
  have mine: "map_of us tid = Some t" using assms(1) by (simp add: us_def map_of_ids [symmetric] map_add_def)
  have accepted: "would_create_cycle us tid (prerequisite_ids t) = Some []"
    and result: "ts' = fst (reconcile_blocked_status (set_task tid c us) tid)"
    using assms(3) by (auto simp: create_task_def Let_def t_def us_def c_def split: option.splits list.splits if_splits)
  let ?base = "(prereq_map us)(tid := [])"
  have "acyclic (edges_of ?base)"
  proof (rule acyclicI, intro allI notI)
    fix x assume "(x, x) \<in> (edges_of ?base)\<^sup>+"
    moreover have "(x, y) \<in> (task_edges ts)\<^sup>+ \<or> y = tid" if "(x, y) \<in> (edges_of ?base)\<^sup>+" for y
      using that
    proof (induction rule: trancl_induct)
      case (base y)
      then show ?case by (auto simp: prereq_map_def other known split: if_splits option.splits)
    next
      case (step y z)
      then have "y \<noteq> tid" by auto
      then have "(y, z) \<in> task_edges ts \<or> z = tid"
        using step.hyps(2) by (auto simp: prereq_map_def other known split: if_splits option.splits)
      then show ?case using step.IH \<open>y \<noteq> tid\<close> by (meson trancl.trancl_into_trancl)
    qed
    ultimately have "x = tid \<and> (tid, tid) \<in> (edges_of ?base)\<^sup>+"
      using assms(2) unfolding board_wf_def acyclic_def by blast
    then show False by (auto dest: tranclD)
  qed
  then have "acyclic (task_edges (set_task tid c us))"
    using accepted_acyclic [OF accepted _ known(1)] by (simp add: prereq_map_set_task [OF known(1)] c_def)
  then show ?thesis
    unfolding result using assms(1,2) known other classified_manual
    by (intro reconcile_keeps [where ts = ts]) (auto simp: board_wf_def c_def)
qed

lemma update_task_keeps:
  assumes "board_wf ts" and "update_task str ts tid e = Inr ts'" and "ed_blocked_kind e = None \<or> ed_status e \<noteq> None"
  shows "board_wf ts'"
proof -
  obtain t0 where t0: "map_of ts tid = Some t0"
    using assms(2) by (auto simp: update_task_def split: option.splits)
  then have known: "tid \<in> set (ids ts)" using map_of_ids [of ts tid] by simp
  define t1 where "t1 = t0\<lparr>tk_dependencies := (case ed_dependencies e of None \<Rightarrow> tk_dependencies t0 | Some ds \<Rightarrow> ds),
    exit_criteria := (case ed_criteria e of None \<Rightarrow> exit_criteria t0 | Some cs \<Rightarrow> cs),
    blocked_reason_kind := (case ed_blocked_kind e of None \<Rightarrow> blocked_reason_kind t0 | Some k \<Rightarrow> k)\<rparr>"
  define t2 where "t2 = (case ed_status e of None \<Rightarrow> t1 | Some s \<Rightarrow> t1\<lparr>tk_status := s\<rparr>)"
  define ts2 where "ts2 = set_task tid t2 ts"
  define t3 where "t3 = (if ed_status e = None then t2 else classify_manual_block ts2 t2)"
  define ts3 where "ts3 = set_task tid t3 ts"
  have ts3_eq: "(if ed_status e = None then ts2 else set_task tid (classify_manual_block ts2 t2) ts2) = ts3"
    by (simp add: ts3_def t3_def ts2_def set_task_def comp_def case_prod_beta if_distrib cong: if_cong)
  have accepted: "would_create_cycle ts2 tid (prerequisite_ids t2) = Some []"
    and result: "ts' = (if ed_status e = None \<and> ed_dependencies e = None then ts3
                        else fst (reconcile_blocked_status ts3 tid))"
    using assms(2) unfolding ts3_eq [symmetric]
    by (auto simp: update_task_def t0 Let_def ts2_def t2_def t1_def split: option.splits list.splits if_splits)
  have "acyclic (edges_of ((prereq_map ts2)(tid := [])))"
    using acyclic_without_row [of "prereq_map ts" tid] assms(1)
    by (simp add: ts2_def prereq_map_set_task [OF known] board_wf_def)
  from accepted_acyclic [OF accepted this] have row: "acyclic (edges_of ((prereq_map ts2)
      (tid := filter (\<lambda>p. p \<in> set (ids ts2)) (prerequisite_ids t2))))"
    using known by (simp add: ts2_def)
  have "prerequisite_ids t3 = prerequisite_ids t2" by (simp add: t3_def)
  then have "prereq_map ts3 = (prereq_map ts2)(tid := filter (\<lambda>p. p \<in> set (ids ts2)) (prerequisite_ids t2))"
    by (simp add: ts2_def ts3_def prereq_map_set_task [OF known])
  then have acyc: "acyclic (task_edges ts3)" using row by (simp only:)
  have manual: "tk_status t3 = BLOCKED" if "blocked_reason_kind t3 = ManualBlock"
  proof (cases "ed_status e")
    case None
    then have "tk_status t3 = tk_status t0" "blocked_reason_kind t3 = blocked_reason_kind t0"
      using assms(3) by (simp_all add: t3_def t2_def t1_def)
    then show ?thesis using assms(1) t0 that by (auto simp: board_wf_def settled_def)
  next
    case (Some s)
    then show ?thesis using that classified_manual by (simp add: t3_def)
  qed
  have other: "map_of ts3 k = map_of ts k" if "k \<noteq> tid" for k
    using that by (simp add: ts3_def)
  show ?thesis
  proof (cases "ed_status e = None \<and> ed_dependencies e = None")
    case False
    have "board_wf (fst (reconcile_blocked_status ts3 tid))"
    proof (rule reconcile_keeps [where ts = ts])
      show "settled ts" "distinct (ids ts3)" "tid \<in> set (ids ts3)"
        using assms(1) known by (simp_all add: board_wf_def ts3_def)
      show "tk_status t = BLOCKED" if "map_of ts3 tid = Some t" "blocked_reason_kind t = ManualBlock" for t
        using that manual known by (auto simp: ts3_def)
    qed (use acyc other in auto)
    then show ?thesis using result False by simp
  next
    case True
    have same: "tk_status t3 = tk_status t0" "prerequisite_ids t3 = prerequisite_ids t0"
      "blocked_reason_kind t3 = blocked_reason_kind t0"
      using True assms(3) by (simp_all add: t3_def t2_def t1_def prerequisite_ids_def)
    have "live ts3 = live ts" using t0 same(1) by (auto simp: live_def ts3_def fun_eq_iff)
    then have step: "settle_one ts3 t = settle_one ts t" for t by (rule settle_one_live)
    have "settle_one ts t0 = None" using assms(1) t0 by (simp add: board_wf_def settled_def)
    then have "settle_one ts t3 = None" using same by (auto simp: settle_one_def unfinished_live split: if_splits)
    moreover have "map_of ts3 k = (if k = tid then Some t3 else map_of ts k)" for k
      using known by (simp add: ts3_def)
    ultimately have "settled ts3"
      using assms(1) manual by (auto simp: settled_def board_wf_def step split: if_splits)
    then show ?thesis
      using result True assms(1) acyc by (simp add: board_wf_def ts3_def)
  qed
qed

lemma fold_reconcile:
  "map_of (fold (\<lambda>k u. fst (reconcile_blocked_status u k)) xs us) k \<in>
     (if k \<in> set xs \<inter> set (ids us) then {map_option (settle us) (map_of us k)}
      else {map_of us k, map_option (settle us) (map_of us k)}) \<and>
   live (fold (\<lambda>k u. fst (reconcile_blocked_status u k)) xs us) = live us \<and>
   prereq_map (fold (\<lambda>k u. fst (reconcile_blocked_status u k)) xs us) = prereq_map us \<and>
   ids (fold (\<lambda>k u. fst (reconcile_blocked_status u k)) xs us) = ids us"
proof (induction xs arbitrary: us)
  case Nil
  then show ?case by simp
next
  case (Cons x xs)
  define vs where "vs = fst (reconcile_blocked_status us x)"
  have vs: "live vs = live us" "prereq_map vs = prereq_map us" "ids vs = ids us"
    by (simp_all add: vs_def live_reconcile)
  have settle: "settle vs = settle us" by (rule ext, rule settle_live) (rule vs(1))
  have entry: "map_of vs k \<in> (if k = x \<and> x \<in> set (ids us) then {map_option (settle us) (map_of us k)}
      else {map_of us k, map_option (settle us) (map_of us k)})"
    by (cases "x \<in> set (ids us)") (auto simp: vs_def reconcile_map, simp add: reconcile_blocked_status_def)
  have twice: "map_option (settle vs) (map_of vs k) = map_option (settle us) (map_of us k)"
    using entry by (auto simp: settle option.map_comp comp_def split: if_splits)
  show ?case
    using Cons.IH [of vs] entry twice vs by (auto simp: vs_def [symmetric] split: if_splits)
qed

lemma delete_task_keeps:
  assumes "board_wf ts" and "delete_task ts tid = Some ts'"
  shows "board_wf ts'"
proof -
  define cut where "cut t = t\<lparr>tk_dependencies := filter (\<lambda>d. depends_on d \<noteq> tid) (tk_dependencies t)\<rparr>" for t :: task
  define us where "us = map (\<lambda>(k, t). (k, cut t)) (filter (\<lambda>(k, t). k \<noteq> tid) ts)"
  have ts': "ts' = fold (\<lambda>k u. fst (reconcile_blocked_status u k)) (ids us) us"
    using assms(2) by (simp add: delete_task_def us_def cut_def Let_def split: if_splits)
  have entry: "map_of us k = (if k = tid then None else map_option cut (map_of ts k))" for k
    unfolding us_def by (induction ts) auto
  have ids: "ids us = filter (\<lambda>k. k \<noteq> tid) (ids ts)"
    by (simp add: us_def ids_def filter_map comp_def split_def)
  have fewer: "p \<in> set (prerequisite_ids t)" if "p \<in> set (prerequisite_ids (cut t))" for p t
    using that by (auto simp: cut_def prerequisite_ids_def)
  have "b \<in> set (prereq_map ts a)" if "b \<in> set (prereq_map us a)" for a b
    using that fewer by (cases "map_of ts a") (auto simp: prereq_map_def entry ids split: if_splits)
  then have "task_edges us \<subseteq> task_edges ts" by blast
  then have "acyclic (task_edges us)" using assms(1) by (auto simp: board_wf_def intro: acyclic_subset)
  moreover have "settled ts'"
    unfolding settled_def
  proof (intro allI impI)
    fix k t' assume t': "map_of ts' k = Some t'"
    have "k \<in> set (ids us)"
      using t' map_of_ids [of ts' k] fold_reconcile [of "ids us" us k] by (simp add: ts')
    then have "map_option (settle us) (map_of us k) = Some t'"
      using t' fold_reconcile [of "ids us" us k] by (simp add: ts')
    then obtain t where t: "map_of us k = Some t" "t' = settle us t" by (cases "map_of us k") auto
    have "settle_one ts' t' = settle_one us t'"
      by (rule settle_one_live) (use fold_reconcile [of "ids us" us] in \<open>simp add: ts'\<close>)
    moreover have "tk_status t = BLOCKED" if "blocked_reason_kind t = ManualBlock"
      using t(1) that assms(1) by (auto simp: entry board_wf_def settled_def cut_def split: if_splits)
    ultimately show "settle_one ts' t' = None \<and> (blocked_reason_kind t' = ManualBlock \<longrightarrow> tk_status t' = BLOCKED)"
      using manual_settle [of us t] by (auto simp: t(2) settle_settled)
  qed
  ultimately show ?thesis
    using assms(1) fold_reconcile [of "ids us" us] by (simp add: board_wf_def ts' ids)
qed

section \<open>The claims on the writes\<close>

lemma settle_spelled_out:
  "settle ts t =
     (if blocked_reason_kind t \<noteq> ManualBlock \<and> tk_status t \<in> {OPEN, IN_PROGRESS} \<and> (\<exists>p \<in> set (prerequisite_ids t). live ts p)
      then t\<lparr>tk_status := BLOCKED, blocked_reason_kind := AutoBlock\<rparr>
      else if blocked_reason_kind t = AutoBlock \<and> tk_status t = BLOCKED \<and> (\<forall>p \<in> set (prerequisite_ids t). \<not> live ts p)
      then t\<lparr>tk_status := OPEN, blocked_reason_kind := NoBlock\<rparr>
      else t)"
  by (auto simp: settle_def settle_one_def unfinished_live filter_empty_conv)

text \<open>
  C31. The cascade does exactly what a write can call for. After \<open>reconcile_blocked_status\<close>, of the tasks that are the
  changed one or wait on it, directly or through others, and that no person blocked: one that is open or in
  progress with an unfinished prerequisite is blocked automatically; one that was blocked automatically and has no
  unfinished prerequisite left is open, with no block; every other one, and every task not among them, is as
  before. An unfinished prerequisite is one that is on the board, neither done nor cancelled; the cascade
  finishes and reopens none, loses and adds none, and changes no dependency; and the list it returns, which
  is what is then written, names exactly the tasks it changed.
\<close>

theorem cascade_settles_exactly_the_affected:
  assumes "tid \<in> set (ids ts)"
  shows "let us = fst (reconcile_blocked_status ts tid) in
    ids us = ids ts \<and> prereq_map us = prereq_map ts \<and> live us = live ts \<and>
    set (snd (reconcile_blocked_status ts tid)) = {k. map_of us k \<noteq> map_of ts k} \<and>
    (\<forall>k t. map_of ts k = Some t \<longrightarrow> map_of us k = Some
       (if (tid, k) \<notin> (waits_on ts)\<^sup>* \<or> blocked_reason_kind t = ManualBlock then t
        else if tk_status t \<in> {OPEN, IN_PROGRESS} \<and> (\<exists>p \<in> set (prerequisite_ids t). live us p)
        then t\<lparr>tk_status := BLOCKED, blocked_reason_kind := AutoBlock\<rparr>
        else if tk_status t = BLOCKED \<and> blocked_reason_kind t = AutoBlock \<and> (\<forall>p \<in> set (prerequisite_ids t). \<not> live us p)
        then t\<lparr>tk_status := OPEN, blocked_reason_kind := NoBlock\<rparr>
        else t))"
  unfolding Let_def live_reconcile
proof (intro conjI allI impI)
  fix k t assume t: "map_of ts k = Some t"
  show "map_of (fst (reconcile_blocked_status ts tid)) k = Some
       (if (tid, k) \<notin> (waits_on ts)\<^sup>* \<or> blocked_reason_kind t = ManualBlock then t
        else if tk_status t \<in> {OPEN, IN_PROGRESS} \<and> (\<exists>p \<in> set (prerequisite_ids t). live ts p)
        then t\<lparr>tk_status := BLOCKED, blocked_reason_kind := AutoBlock\<rparr>
        else if tk_status t = BLOCKED \<and> blocked_reason_kind t = AutoBlock \<and> (\<forall>p \<in> set (prerequisite_ids t). \<not> live ts p)
        then t\<lparr>tk_status := OPEN, blocked_reason_kind := NoBlock\<rparr>
        else t)"
    using t by (simp add: reconcile_map [OF assms(1)] settle_spelled_out)
qed (simp_all add: reconcile_changed [OF assms(1)])

text \<open>
  C32. Whatever tasks are created, edited and deleted, in any order, the board keeps its shape: ids are
  distinct, the dependencies form no cycle, every task is as the cascade leaves it, so none stays blocked
  automatically with no unfinished prerequisite and none that may start has one, and a task whose block is a
  person's is BLOCKED until a person says otherwise. An edit may change dependencies, criteria and status as it
  likes, and name the kind of block when it also names a status; the edit that names the kind alone, which
  a client of the interface can send, is not among them (\<open>kind_alone_breaks_the_board\<close>).
\<close>

theorem task_writes_keep_the_board:
  assumes "task_step str ts ts'" and "board_wf ts"
  shows "board_wf ts'"
  using assms by (induction rule: task_step.induct) (blast intro: create_task_keeps update_task_keeps delete_task_keeps)+

text \<open>
  On a board the writes lead to, what is offered as ready is exactly what is in a startable status: a
  task that is OPEN or IN_PROGRESS never has an unfinished prerequisite, so the second test of
  \<open>ready_task_ids\<close> refuses nothing.
\<close>

theorem startable_means_ready:
  assumes "board_wf ts"
  shows "ready_task_ids ts = map fst (filter (\<lambda>(tid, t). tk_status t \<in> set STARTABLE_STATUSES) ts)"
proof -
  have "list_all (\<lambda>p. case map_of ts p of None \<Rightarrow> False | Some q \<Rightarrow> tk_status q \<in> set TERMINAL_STATUSES)
      (filter (\<lambda>p. p \<in> set (ids ts)) (prerequisite_ids t))"
    if "(tid, t) \<in> set ts" "tk_status t \<in> set STARTABLE_STATUSES" for tid t
  proof -
    have "map_of ts tid = Some t" using that(1) assms by (simp add: board_wf_def ids_def)
    then have "settle_one ts t = None" "blocked_reason_kind t = ManualBlock \<longrightarrow> tk_status t = BLOCKED"
      using assms by (simp_all add: board_wf_def settled_def)
    then have "unfinished ts t = []" using that(2) by (auto simp: settle_one_def STARTABLE_STATUSES_def split: if_splits)
    then have "\<not> live ts p" if "p \<in> set (prerequisite_ids t)" for p
      using that by (simp add: unfinished_live filter_empty_conv)
    then show ?thesis
      using map_of_ids by (fastforce simp: list_all_iff live_def split: option.splits)
  qed
  then show ?thesis unfolding ready_task_ids_def by (intro arg_cong [where f = "map fst"] filter_cong refl) auto
qed

section \<open>A board, and what an edit can do to it\<close>

definition blocks_on :: "string \<Rightarrow> task_dependency" where
  "blocks_on p = \<lparr>depends_on = p, dependency_type = BLOCKS\<rparr>"

definition a_task :: "string \<Rightarrow> task_status \<Rightarrow> string list \<Rightarrow> block_kind \<Rightarrow> task" where
  "a_task title st ps kind = \<lparr>tk_title = title, tk_status = st, tk_dependencies = map blocks_on ps,
     exit_criteria = [], blocked_reason_kind = kind\<rparr>"

definition chain_board :: tasks where
  "chain_board = [(''a'', a_task ''dig'' OPEN [] NoBlock), (''b'', a_task ''lay'' BLOCKED [''a''] AutoBlock),
     (''c'', a_task ''paint'' BLOCKED [''b''] AutoBlock), (''d'', a_task ''plan'' DONE [] NoBlock)]"

lemma chain_prereqs:
  "prereq_map chain_board k = (if k = ''b'' then [''a''] else if k = ''c'' then [''b''] else [])"
  by (simp add: prereq_map_def chain_board_def a_task_def blocks_on_def prerequisite_ids_def)

lemma chain_acyclic: "acyclic (task_edges chain_board)"
proof -
  define r where "r = inv_image less_than (\<lambda>k. if k = ''a'' then 0 else if k = ''b'' then 1 else (2 :: nat))"
  have "acyclic r" unfolding r_def by (intro wf_acyclic wf_inv_image wf_less_than)
  then have "acyclic (r\<inverse>)" by (simp only: acyclic_converse)
  moreover have "task_edges chain_board \<subseteq> r\<inverse>"
    by (auto simp: chain_prereqs r_def split: if_splits)
  ultimately show ?thesis by (rule acyclic_subset)
qed

lemma chain_settled: "settled chain_board"
  unfolding settled_def chain_board_def
  by (auto simp: settle_one_def unfinished_def a_task_def blocks_on_def prerequisite_ids_def TERMINAL_STATUSES_def
      split: if_splits)

lemma chain_wf: "board_wf chain_board"
  using chain_acyclic chain_settled by (simp add: board_wf_def) (simp add: chain_board_def)

theorem cycle_check_refuses_exactly_cycles_witness:
  "would_create_cycle chain_board ''a'' [''c''] = Some [''a'', ''c'', ''b'', ''a''] \<and>
   \<not> acyclic (edges_of ((prereq_map chain_board)(''a'' := [''c''])))"
proof -
  have run: "would_create_cycle chain_board ''a'' [''c''] = Some [''a'', ''c'', ''b'', ''a'']" by code_simp
  have known: "''a'' \<in> set (ids chain_board)" by (simp add: chain_board_def)
  have "filter (\<lambda>p. p \<in> set (ids chain_board)) [''c''] = [''c'']" by (simp add: chain_board_def)
  then show ?thesis
    using cycle_check_refuses_exactly_cycles [OF chain_acyclic known, of "[''c'']"] run by auto
qed

theorem task_writes_keep_the_board_witness:
  "\<exists>ts'. task_step (\<lambda>_. []) chain_board ts' \<and> board_wf ts' \<and> map (tk_status \<circ> snd) ts' = [DONE, OPEN, BLOCKED, DONE]"
proof -
  define e where "e = \<lparr>ed_dependencies = None, ed_criteria = None, ed_status = Some DONE, ed_blocked_kind = None\<rparr>"
  have "case update_task (\<lambda>_. []) chain_board ''a'' e of
      Inr ts' \<Rightarrow> map (tk_status \<circ> snd) ts' = [DONE, OPEN, BLOCKED, DONE] | Inl _ \<Rightarrow> False"
    unfolding e_def by code_simp
  then obtain ts' where run: "update_task (\<lambda>_. []) chain_board ''a'' e = Inr ts'"
    and st: "map (tk_status \<circ> snd) ts' = [DONE, OPEN, BLOCKED, DONE]" by (auto split: sum.splits)
  have step: "task_step (\<lambda>_. []) chain_board ts'" using run by (rule task_step.update) (simp add: e_def)
  then have wf: "board_wf ts'" using chain_wf by (rule task_writes_keep_the_board)
  show ?thesis by (intro exI [of _ ts'] conjI step wf st)
qed

theorem cascade_settles_exactly_the_affected_witness:
  "let us = fst (reconcile_blocked_status (set_task ''a'' (a_task ''dig'' DONE [] NoBlock) chain_board) ''a'') in
   map_of us ''b'' = Some (a_task ''lay'' OPEN [''a''] NoBlock) \<and> map_of us ''c'' = Some (a_task ''paint'' BLOCKED [''b''] AutoBlock)"
proof -
  let ?ts = "set_task ''a'' (a_task ''dig'' DONE [] NoBlock) chain_board"
  let ?us = "fst (reconcile_blocked_status ?ts ''a'')"
  have known: "''a'' \<in> set (ids ?ts)" by (simp add: chain_board_def)
  have rows: "map_of ?ts ''b'' = Some (a_task ''lay'' BLOCKED [''a''] AutoBlock)"
    "map_of ?ts ''c'' = Some (a_task ''paint'' BLOCKED [''b''] AutoBlock)"
    "map_of ?ts ''a'' = Some (a_task ''dig'' DONE [] NoBlock)" by code_simp+
  have waits: "(''a'', ''b'') \<in> (waits_on ?ts)\<^sup>*"
    by (rule r_into_rtrancl) code_simp
  have live: "live ?us = live ?ts" by (rule live_reconcile)
  note spelled = cascade_settles_exactly_the_affected [OF known, unfolded Let_def live, THEN conjunct2, THEN conjunct2,
      THEN conjunct2, THEN conjunct2, rule_format]
  have "live ?ts ''b''" "\<not> live ?ts ''a''"
    by (simp_all only: live_def rows option.case) (simp_all add: a_task_def TERMINAL_STATUSES_def)
  then show ?thesis
    using spelled [OF rows(1)] spelled [OF rows(2)] waits
    by (simp add: Let_def a_task_def prerequisite_ids_def blocks_on_def)
qed

theorem startable_means_ready_witness: "ready_task_ids chain_board = [''a'']"
  unfolding startable_means_ready [OF chain_wf] by code_simp

text \<open>
  The rule that a task is not DONE over an unfinished prerequisite is asked only when a write sets the
  status. An edit of the dependencies alone gives a finished task an open prerequisite, is accepted, and
  no cascade takes it back.
\<close>

theorem finished_task_takes_an_open_prerequisite:
  "case update_task (\<lambda>_. []) chain_board ''d''
      \<lparr>ed_dependencies = Some [blocks_on ''a''], ed_criteria = None, ed_status = None, ed_blocked_kind = None\<rparr> of
     Inl _ \<Rightarrow> False
   | Inr ts' \<Rightarrow> map_option tk_status (map_of ts' ''d'') = Some DONE
       \<and> map_option (unfinished ts') (map_of ts' ''d'') = Some [''a'']"
  by code_simp

text \<open>
  The kind of a task's block is one of the fields a write may set, and a write that sets it without a status
  classifies nothing. With the kind of a person's block a task keeps the status it has, and the cascade passes
  it by: one write of kind and dependencies leaves a task open, and offered to start, that waits on an
  unfinished prerequisite.
\<close>

theorem kind_alone_breaks_the_board:
  "case update_task (\<lambda>_. []) [(''a'', a_task ''dig'' OPEN [] NoBlock), (''b'', a_task ''lay'' OPEN [] NoBlock)] ''b''
      \<lparr>ed_dependencies = Some [blocks_on ''a''], ed_criteria = None, ed_status = None, ed_blocked_kind = Some ManualBlock\<rparr> of
     Inl _ \<Rightarrow> False
   | Inr ts' \<Rightarrow> map_option tk_status (map_of ts' ''b'') = Some OPEN \<and>
       map_option (unfinished ts') (map_of ts' ''b'') = Some [''a''] \<and>
       map_option blocked_reason_kind (map_of ts' ''b'') = Some ManualBlock"
  by code_simp

end
