(* ===== verification/Breaker.thy ===== *)
theory Breaker
  imports Prelude
begin

text \<open>
  \<^verbatim>\<open>guardrails/breaker.py\<close>: the circuit breaker in front of a model provider, a three-state machine whose
  move from OPEN to HALF_OPEN happens when it is read, and the registry of one breaker per provider. The
  clock is an argument of every operation that reads it. The facts say when it refuses, for how long,
  and what a failure or a success does; the last one shows what HALF_OPEN does not limit.
\<close>

section \<open>The machine\<close>

definition DEFAULT_THRESHOLD :: int where "DEFAULT_THRESHOLD = 5"
definition DEFAULT_RECOVERY_SECS :: rat where "DEFAULT_RECOVERY_SECS = 30"

datatype breaker_state = CLOSED | OPEN | HALF_OPEN

record breaker =
  br_name :: string
  threshold :: int
  recovery_secs :: rat
  br_state :: breaker_state
  consecutive_failures :: int
  opened_at :: rat

definition CircuitBreaker :: "string \<Rightarrow> int \<Rightarrow> rat \<Rightarrow> breaker" where
  "CircuitBreaker name thr rec =
     \<lparr>br_name = name, threshold = max 1 thr, recovery_secs = max 0 rec, br_state = CLOSED,
      consecutive_failures = 0, opened_at = 0\<rparr>"

definition state :: "rat \<Rightarrow> breaker \<Rightarrow> breaker \<times> breaker_state" where
  "state now b =
     (let b' = (if br_state b = OPEN \<and> now - opened_at b \<ge> recovery_secs b then b\<lparr>br_state := HALF_OPEN\<rparr> else b)
      in (b', br_state b'))"

definition is_open :: "rat \<Rightarrow> breaker \<Rightarrow> breaker \<times> bool" where
  "is_open now b = (case state now b of (b', s) \<Rightarrow> (b', s = OPEN))"

definition retry_after :: "rat \<Rightarrow> breaker \<Rightarrow> breaker \<times> rat" where
  "retry_after now b =
     (case state now b of
        (b', s) \<Rightarrow> (b', if s \<noteq> OPEN then 0 else max 0 (recovery_secs b' - (now - opened_at b'))))"

definition breaker_record_success :: "breaker \<Rightarrow> breaker \<times> bool" where
  "breaker_record_success b =
     (b\<lparr>br_state := CLOSED, consecutive_failures := 0, opened_at := 0\<rparr>, br_state b \<noteq> CLOSED)"

definition breaker_record_failure :: "rat \<Rightarrow> breaker \<Rightarrow> breaker \<times> bool" where
  "breaker_record_failure now b =
     (let b1 = b\<lparr>consecutive_failures := consecutive_failures b + 1\<rparr> in
      if br_state b = HALF_OPEN then (b1\<lparr>br_state := OPEN, opened_at := now\<rparr>, False)
      else if consecutive_failures b1 \<ge> threshold b then
        (b1\<lparr>br_state := OPEN, opened_at := now\<rparr>, br_state b \<noteq> OPEN)
      else (b1, False))"

section \<open>The registry\<close>

type_synonym breakers = "(string \<times> breaker) list"

definition get_breaker :: "string \<Rightarrow> int \<Rightarrow> rat \<Rightarrow> breakers \<Rightarrow> breakers \<times> breaker" where
  "get_breaker name thr rec bs =
     (if name = [] then (bs, CircuitBreaker [] thr rec)
      else case map_of bs name of
             Some b \<Rightarrow> (bs, b)
           | None \<Rightarrow> (bs @ [(name, CircuitBreaker name thr rec)], CircuitBreaker name thr rec))"

section \<open>Calls through the breaker\<close>

text \<open>What the calls of one provider do to its breaker, in the order they do it.\<close>

datatype event = Ask rat | Succeed | Fail rat

fun on_event :: "event \<Rightarrow> breaker \<Rightarrow> breaker" where
  "on_event (Ask now) b = fst (is_open now b)"
| "on_event Succeed b = fst (breaker_record_success b)"
| "on_event (Fail now) b = fst (breaker_record_failure now b)"

definition run :: "event list \<Rightarrow> breaker \<Rightarrow> breaker" where
  "run es b = fold on_event es b"

inductive reached :: "string \<Rightarrow> int \<Rightarrow> rat \<Rightarrow> breaker \<Rightarrow> bool" for name thr rec where
  start: "reached name thr rec (CircuitBreaker name thr rec)"
| step: "reached name thr rec b \<Longrightarrow> reached name thr rec (on_event e b)"

definition breaker_wf :: "breaker \<Rightarrow> bool" where
  "breaker_wf b \<longleftrightarrow> 1 \<le> threshold b \<and> 0 \<le> recovery_secs b \<and> 0 \<le> consecutive_failures b \<and>
     (br_state b = CLOSED \<longrightarrow> consecutive_failures b < threshold b) \<and>
     (br_state b \<noteq> CLOSED \<longrightarrow> threshold b \<le> consecutive_failures b)"

named_theorems breaker_defs
lemmas [breaker_defs] = state_def is_open_def retry_after_def breaker_record_success_def breaker_record_failure_def

lemma on_event_wf: "breaker_wf b \<Longrightarrow> breaker_wf (on_event e b)"
  by (cases e; cases "br_state b") (auto simp: breaker_wf_def breaker_defs Let_def)

lemma on_event_tuning [simp]:
  "threshold (on_event e b) = threshold b" "recovery_secs (on_event e b) = recovery_secs b"
  "br_name (on_event e b) = br_name b"
  by (cases e; simp add: breaker_defs Let_def)+

text \<open>
  In every state a breaker can reach, whatever calls ask, succeed and fail in whatever order, it has
  tripped exactly when the failures since the last success have reached its threshold, and its tuning is
  the one it was made with, read as at least one failure and no negative wait.
\<close>

theorem tripped_exactly_at_the_threshold:
  assumes "reached name thr rec b"
  shows "(br_state b \<noteq> CLOSED) = (consecutive_failures b \<ge> threshold b) \<and>
    threshold b = max 1 thr \<and> recovery_secs b = max 0 rec \<and> br_name b = name"
proof -
  have "breaker_wf b \<and> threshold b = max 1 thr \<and> recovery_secs b = max 0 rec \<and> br_name b = name"
    using assms
  proof (induction rule: reached.induct)
    case start
    then show ?case by (simp add: breaker_wf_def CircuitBreaker_def)
  next
    case (step b e)
    then show ?case by (simp add: on_event_wf)
  qed
  then show ?thesis by (auto simp: breaker_wf_def not_le)
qed

theorem tripped_exactly_at_the_threshold_witness:
  "br_state (run [Fail 1, Fail 2] (CircuitBreaker ''p'' 2 30)) = OPEN"
proof -
  have "reached ''p'' 2 30 (on_event (Fail 2) (on_event (Fail 1) (CircuitBreaker ''p'' 2 30)))"
    by (intro reached.step reached.start)
  from tripped_exactly_at_the_threshold [OF this] show ?thesis
    by (simp add: run_def breaker_record_failure_def CircuitBreaker_def)
qed

text \<open>Failures one after another, none of them answered in between.\<close>

lemma failures_count:
  assumes "br_state b = CLOSED" and "consecutive_failures b + int (length ts) < threshold b"
  shows "run (map Fail ts) b = b\<lparr>consecutive_failures := consecutive_failures b + int (length ts)\<rparr>"
  using assms
proof (induction ts arbitrary: b)
  case Nil
  then show ?case by (simp add: run_def)
next
  case (Cons t ts)
  let ?b = "fst (breaker_record_failure t b)"
  have "?b = b\<lparr>consecutive_failures := consecutive_failures b + 1\<rparr>"
    using Cons.prems by (simp add: breaker_record_failure_def)
  then show ?case using Cons.IH [of ?b] Cons.prems by (simp add: run_def)
qed

text \<open>
  An outage costs a bounded number of calls. From a healthy breaker the first failures are let
  through, and it trips at exactly the n-th of n failures in a row, n its threshold; from then on every
  ask before the recovery time is refused, and is told how long to wait; the first ask after it is let
  through.
\<close>

theorem outage_trips_and_recovers:
  assumes "br_state b = CLOSED" and "consecutive_failures b = 0" and "int (length ts) + 1 = threshold b"
  shows "let down = run (map Fail (ts @ [t0])) b in
    br_state (run (map Fail ts) b) = CLOSED \<and> br_state down = OPEN \<and>
    snd (is_open now down) = (now < t0 + recovery_secs b) \<and>
    snd (retry_after now down) = max 0 (t0 + recovery_secs b - now)"
proof -
  let ?b = "b\<lparr>consecutive_failures := int (length ts)\<rparr>"
  have before: "run (map Fail ts) b = ?b"
    using failures_count [of b ts] assms by simp
  have "run (map Fail (ts @ [t0])) b = fst (breaker_record_failure t0 ?b)"
    using before by (simp add: run_def)
  then have down: "run (map Fail (ts @ [t0])) b =
      ?b\<lparr>consecutive_failures := threshold b, br_state := OPEN, opened_at := t0\<rparr>"
    using assms by (simp add: breaker_record_failure_def Let_def)
  show ?thesis
    unfolding Let_def before down using assms(1) by (auto simp: breaker_defs Let_def)
qed

theorem outage_trips_and_recovers_witness:
  "br_state (run [Fail 0, Fail 1, Fail 2] (CircuitBreaker ''p'' 3 30)) = OPEN"
  using outage_trips_and_recovers [of "CircuitBreaker ''p'' 3 30" "[0, 1]" 2 3]
  by (simp add: CircuitBreaker_def Let_def)

text \<open>
  A probe decides alone: on a breaker that is HALF_OPEN one success closes it with no failure on
  record, and one failure opens it again for a whole recovery time from that moment, whatever the
  threshold, and is not reported as a new trip.
\<close>

theorem probe_decides:
  assumes "br_state b = HALF_OPEN"
  shows "br_state (fst (breaker_record_success b)) = CLOSED \<and> consecutive_failures (fst (breaker_record_success b)) = 0 \<and>
    snd (breaker_record_success b) \<and> br_state (fst (breaker_record_failure t b)) = OPEN \<and> \<not> snd (breaker_record_failure t b) \<and>
    snd (is_open now (fst (breaker_record_failure t b))) = (now < t + recovery_secs b)"
  using assms by (auto simp: breaker_defs Let_def)

theorem probe_decides_witness:
  "br_state (fst (breaker_record_failure 40 (run [Fail 2, Ask 32] (CircuitBreaker ''p'' 1 30)))) = OPEN"
proof -
  have "br_state (run [Fail 2, Ask 32] (CircuitBreaker ''p'' 1 30)) = HALF_OPEN"
    by (simp add: run_def breaker_defs CircuitBreaker_def Let_def)
  from probe_decides [OF this, of 40 0] show ?thesis by blast
qed

lemma ask_half_open: "br_state b = HALF_OPEN \<Longrightarrow> fst (is_open t b) = b \<and> \<not> snd (is_open t b)"
  by (simp add: breaker_defs Let_def)

text \<open>
  HALF_OPEN does not admit one probe: it admits every caller that asks before the first of them is
  answered. Once the recovery time is over, any number of asks in a row all pass.
\<close>

theorem half_open_admits_every_caller:
  assumes "br_state b = OPEN" and "opened_at b + recovery_secs b \<le> now"
  shows "\<not> snd (is_open t (run (map Ask (now # asks)) b)) \<and> br_state (run (map Ask (now # asks)) b) = HALF_OPEN"
proof -
  have half: "br_state (on_event (Ask now) b) = HALF_OPEN"
    using assms(1,2) by (simp add: breaker_defs Let_def)
  have "run (map Ask xs) c = c" if "br_state c = HALF_OPEN" for xs c
    using that by (induction xs) (simp_all add: run_def ask_half_open)
  then have "run (map Ask (now # asks)) b = on_event (Ask now) b"
    using half by (simp add: run_def)
  then show ?thesis using half ask_half_open by simp
qed

theorem half_open_admits_every_caller_witness:
  "\<not> snd (is_open 33 (run (map Ask [32, 33, 33]) (fst (breaker_record_failure 2 (CircuitBreaker ''p'' 1 30)))))"
  using half_open_admits_every_caller [where b = "fst (breaker_record_failure 2 (CircuitBreaker ''p'' 1 30))"
      and now = 32 and asks = "[33, 33]" and t = 33]
  by (simp add: breaker_record_failure_def CircuitBreaker_def Let_def)

end
