(* ===== verification/LocalQueue.thy ===== *)
theory LocalQueue
  imports Prelude
begin

text \<open>
  \<^verbatim>\<open>guardrails/local_queue.py\<close>: the queue in front of a model that runs on this machine. A call takes the
  model's one turn, or waits in the lane of calls somebody is waiting for or in the background lane;
  every change happens under one lock, so each operation here is one locked section of the code. A call
  is a number; a waiter's future and the loop it wakes on are outside the model: a call that waits may
  stop waiting at any moment, because it was granted its turn, ran out of time, was moved on or was
  cancelled, and the section it runs then is \<open>wait_over\<close>.
\<close>

definition TURNS_PER_MODEL :: nat where "TURNS_PER_MODEL = 1"

record model_queue =
  holders :: "nat list"
  attended :: "nat list"
  background :: "nat list"

definition new_queue :: model_queue where
  "new_queue = \<lparr>holders = [], attended = [], background = []\<rparr>"

definition idle_queue :: "model_queue \<Rightarrow> bool" where
  "idle_queue q \<longleftrightarrow> holders q = [] \<and> attended q = [] \<and> background q = []"

text \<open>\<open>_grant\<close>: free turns go to the attended lane first. The answer is who was granted one.\<close>

function grant :: "model_queue \<Rightarrow> model_queue \<times> nat list" where
  "grant q =
     (if length (holders q) < TURNS_PER_MODEL \<and> (attended q \<noteq> [] \<or> background q \<noteq> []) then
        (case (case attended q of
                 w # ws \<Rightarrow> (w, q\<lparr>attended := ws\<rparr>)
               | [] \<Rightarrow> (hd (background q), q\<lparr>background := tl (background q)\<rparr>)) of
           (w, q1) \<Rightarrow>
             (case grant (q1\<lparr>holders := holders q1 @ [w]\<rparr>) of (q2, ws) \<Rightarrow> (q2, w # ws)))
      else (q, []))"
  by pat_completeness auto
termination
  by (relation "measure (\<lambda>q. length (attended q) + length (background q))") (auto split: list.splits)

declare grant.simps [simp del]

datatype call_state = Waiting string bool | Holding string | Ended

text \<open>The process: the queues by key, which waiters were granted a turn, and where each call is.\<close>

record lq_world =
  queues :: "string \<Rightarrow> model_queue option"
  granted :: "nat list"
  calls :: "nat \<Rightarrow> call_state option"

definition put_queue :: "string \<Rightarrow> model_queue \<Rightarrow> lq_world \<Rightarrow> lq_world" where
  "put_queue key q w = w\<lparr>queues := (queues w)(key := if idle_queue q then None else Some q)\<rparr>"

definition queue_at :: "lq_world \<Rightarrow> string \<Rightarrow> model_queue" where
  "queue_at w key = (case queues w key of Some q \<Rightarrow> q | None \<Rightarrow> new_queue)"

definition set_call :: "nat \<Rightarrow> call_state \<Rightarrow> lq_world \<Rightarrow> lq_world" where
  "set_call c s w = w\<lparr>calls := (calls w)(c := Some s)\<rparr>"

text \<open>\<open>_give_back\<close>: a turn that is not held is given back without effect.\<close>

definition give_back :: "string \<Rightarrow> nat \<Rightarrow> lq_world \<Rightarrow> lq_world" where
  "give_back key c w =
     (case queues w key of
        None \<Rightarrow> w
      | Some q \<Rightarrow>
          if c \<notin> set (holders q) then w
          else (case grant (q\<lparr>holders := remove1 c (holders q)\<rparr>) of
                  (q', ws) \<Rightarrow> (put_queue key q' w)\<lparr>granted := granted w @ ws\<rparr>))"

text \<open>\<open>take_turn\<close>, its first section: the turn at once, or a place in a lane.\<close>

definition take_turn :: "string \<Rightarrow> bool \<Rightarrow> nat \<Rightarrow> lq_world \<Rightarrow> lq_world" where
  "take_turn key is_attended c w =
     (let q = queue_at w key in
      if length (holders q) < TURNS_PER_MODEL \<and> attended q = [] \<and> background q = [] then
        set_call c (Holding key) (put_queue key (q\<lparr>holders := holders q @ [c]\<rparr>) w)
      else
        set_call c (Waiting key is_attended)
          (put_queue key (if is_attended then q\<lparr>attended := attended q @ [c]\<rparr>
                          else q\<lparr>background := background q @ [c]\<rparr>) w))"

text \<open>
  \<open>take_turn\<close>, its second section. A call that was granted its turn takes it, and gives it back at once
  when it was cancelled; one that was not leaves its lane.
\<close>

definition wait_over :: "string \<Rightarrow> bool \<Rightarrow> bool \<Rightarrow> nat \<Rightarrow> lq_world \<Rightarrow> lq_world" where
  "wait_over key is_attended cancelled c w =
     (if c \<in> set (granted w) then
        (if cancelled then give_back key c (set_call c Ended w) else set_call c (Holding key) w)
      else
        let q = queue_at w key;
            q1 = (if is_attended then q\<lparr>attended := remove1 c (attended q)\<rparr>
                  else q\<lparr>background := remove1 c (background q)\<rparr>)
        in case grant q1 of
             (q2, ws) \<Rightarrow> set_call c Ended ((put_queue key q2 w)\<lparr>granted := granted w @ ws\<rparr>))"

text \<open>\<open>Turn.release\<close>.\<close>

definition release_turn :: "string \<Rightarrow> nat \<Rightarrow> lq_world \<Rightarrow> lq_world" where
  "release_turn key c w = give_back key c (set_call c Ended w)"

definition no_calls :: lq_world where
  "no_calls = \<lparr>queues = (\<lambda>_. None), granted = [], calls = (\<lambda>_. None)\<rparr>"

text \<open>\<open>waits\<close>: the calls somebody is waiting for, each with the number of calls ahead of it.\<close>

definition waits :: "model_queue \<Rightarrow> (nat \<times> nat) list" where
  "waits q = map (\<lambda>(place, c). (c, length (holders q) + place)) (enumerate 0 (attended q))"

text \<open>
  The steps. \<open>lost\<close> is \<open>_wake\<close> on a waiter whose loop has closed: nobody will use its turn, so it goes
  back at once.
\<close>

inductive lq_step :: "lq_world \<Rightarrow> lq_world \<Rightarrow> bool" where
  enter: "calls w c = None \<Longrightarrow> lq_step w (take_turn key is_attended c w)"
| over: "calls w c = Some (Waiting key is_attended) \<Longrightarrow> lq_step w (wait_over key is_attended cancelled c w)"
| release: "calls w c = Some (Holding key) \<Longrightarrow> lq_step w (release_turn key c w)"
| lost: "calls w c = Some (Waiting key is_attended) \<Longrightarrow> c \<in> set (granted w) \<Longrightarrow>
    lq_step w (give_back key c (set_call c Ended w))"

section \<open>One queue\<close>

text \<open>The line of calls before a model: the one that holds it, then the lanes.\<close>

definition line :: "model_queue \<Rightarrow> nat list" where
  "line q = holders q @ attended q @ background q"

definition served :: "model_queue \<Rightarrow> bool" where
  "served q \<longleftrightarrow> length (holders q) \<le> 1 \<and> (holders q = [] \<longrightarrow> attended q = [] \<and> background q = [])"

lemma grant_held: "holders q \<noteq> [] \<Longrightarrow> grant q = (q, [])"
  by (subst grant.simps) (simp add: TURNS_PER_MODEL_def)

lemma grant_free:
  "holders q = [] \<Longrightarrow> grant q =
     (case attended q of
        w # ws \<Rightarrow> (q\<lparr>holders := [w], attended := ws\<rparr>, [w])
      | [] \<Rightarrow> (case background q of
                 w # ws \<Rightarrow> (q\<lparr>holders := [w], background := ws\<rparr>, [w])
               | [] \<Rightarrow> (q, [])))"
  by (subst grant.simps) (auto simp: TURNS_PER_MODEL_def grant_held split: list.split)

lemma grant_line:
  assumes "grant q = (q', ws)" and "length (holders q) \<le> 1"
  shows "line q' = line q \<and> served q' \<and> holders q' = holders q @ ws
    \<and> set ws \<subseteq> set (attended q) \<union> set (background q)"
proof (cases "holders q = []")
  case True
  then show ?thesis using assms(1) grant_free [OF True]
    by (cases q) (auto simp: line_def served_def split: list.splits)
next
  case False
  then show ?thesis using assms grant_held by (auto simp: line_def served_def)
qed

section \<open>The process\<close>

lemma idle_new: "idle_queue q \<longleftrightarrow> q = new_queue"
  by (cases q) (simp add: idle_queue_def new_queue_def)

lemma queue_at_put [simp]: "queue_at (put_queue key q w) k = (if k = key then q else queue_at w k)"
  by (auto simp: queue_at_def put_queue_def idle_new)

lemma queue_at_simps [simp]:
  "queue_at (set_call c st w) k = queue_at w k" "queue_at (w\<lparr>granted := g\<rparr>) k = queue_at w k"
  "calls (put_queue key q w) = calls w" "granted (put_queue key q w) = granted w"
  "granted (set_call c st w) = granted w" "calls (w\<lparr>granted := g\<rparr>) = calls w"
  "calls (set_call c st w) = (calls w)(c := Some st)"
  by (simp_all add: queue_at_def set_call_def put_queue_def)

text \<open>
  Where a call is and where the queues have it agree: the holder of a turn is the call that has it or
  was granted it, a lane holds the calls that still wait. \<open>placed\<close> leaves open whether turns are taken.
\<close>

definition placed :: "lq_world \<Rightarrow> bool" where
  "placed w \<longleftrightarrow> (\<forall>key. length (holders (queue_at w key)) \<le> 1 \<and> distinct (line (queue_at w key))) \<and>
     (\<forall>key c. c \<in> set (holders (queue_at w key)) \<longleftrightarrow> calls w c = Some (Holding key) \<or>
        ((\<exists>a. calls w c = Some (Waiting key a)) \<and> c \<in> set (granted w))) \<and>
     (\<forall>key c. c \<in> set (attended (queue_at w key)) \<longleftrightarrow>
        calls w c = Some (Waiting key True) \<and> c \<notin> set (granted w)) \<and>
     (\<forall>key c. c \<in> set (background (queue_at w key)) \<longleftrightarrow>
        calls w c = Some (Waiting key False) \<and> c \<notin> set (granted w)) \<and>
     (\<forall>c \<in> set (granted w). calls w c \<noteq> None)"

definition lq_inv :: "lq_world \<Rightarrow> bool" where
  "lq_inv w \<longleftrightarrow> placed w \<and> (\<forall>key. served (queue_at w key))"

lemma placedD:
  assumes "placed w"
  shows "length (holders (queue_at w key)) \<le> 1" and "distinct (line (queue_at w key))"
    and "c \<in> set (holders (queue_at w key)) \<longleftrightarrow> calls w c = Some (Holding key) \<or>
        ((\<exists>a. calls w c = Some (Waiting key a)) \<and> c \<in> set (granted w))"
    and "c \<in> set (attended (queue_at w key)) \<longleftrightarrow>
        calls w c = Some (Waiting key True) \<and> c \<notin> set (granted w)"
    and "c \<in> set (background (queue_at w key)) \<longleftrightarrow>
        calls w c = Some (Waiting key False) \<and> c \<notin> set (granted w)"
    and "c \<in> set (granted w) \<Longrightarrow> calls w c \<noteq> None"
  using assms unfolding placed_def by blast+

lemma placedI:
  assumes "\<And>key. length (holders (queue_at w key)) \<le> 1" and "\<And>key. distinct (line (queue_at w key))"
    and "\<And>key c. c \<in> set (holders (queue_at w key)) \<longleftrightarrow> calls w c = Some (Holding key) \<or>
        ((\<exists>a. calls w c = Some (Waiting key a)) \<and> c \<in> set (granted w))"
    and "\<And>key c. c \<in> set (attended (queue_at w key)) \<longleftrightarrow>
        calls w c = Some (Waiting key True) \<and> c \<notin> set (granted w)"
    and "\<And>key c. c \<in> set (background (queue_at w key)) \<longleftrightarrow>
        calls w c = Some (Waiting key False) \<and> c \<notin> set (granted w)"
    and "\<And>c. c \<in> set (granted w) \<Longrightarrow> calls w c \<noteq> None"
  shows "placed w"
  using assms unfolding placed_def by blast

text \<open>Granting a free turn restores the whole invariant.\<close>

lemma grant_restores:
  assumes "placed w" and "\<And>k. k \<noteq> key \<Longrightarrow> served (queue_at w k)"
    and run: "grant (queue_at w key) = (q', ws)"
  shows "lq_inv ((put_queue key q' w)\<lparr>granted := granted w @ ws\<rparr>)"
proof -
  let ?q = "queue_at w key"
  let ?w = "(put_queue key q' w)\<lparr>granted := granted w @ ws\<rparr>"
  note P = placedD [OF assms(1)]
  have q': "line q' = line ?q" "served q'" "holders q' = holders ?q @ ws"
    "set ws \<subseteq> set (attended ?q) \<union> set (background ?q)"
    using grant_line [OF run P(1)] by blast+
  have dist: "distinct (holders ?q @ attended ?q @ background ?q)" using P(2) [of key] by (simp add: line_def)
  have lanes: "set (attended q') = set (attended ?q) - set ws" "set (background q') = set (background ?q) - set ws"
  proof -
    have "set (attended q') = set (attended ?q) - set ws \<and> set (background q') = set (background ?q) - set ws"
    proof (cases "holders ?q = []")
      case True
      then show ?thesis using run dist unfolding grant_free [OF True]
        by (cases "attended ?q"; cases "background ?q") auto
    next
      case False
      then show ?thesis using run grant_held by auto
    qed
    then show "set (attended q') = set (attended ?q) - set ws" "set (background q') = set (background ?q) - set ws"
      by blast+
  qed
  have mine: "calls w c = Some (Waiting key True) \<or> calls w c = Some (Waiting key False)" if "c \<in> set ws" for c
    using q'(4) that P(4,5) [of c key] by blast
  have "placed ?w"
  proof (rule placedI)
    fix k c
    show "length (holders (queue_at ?w k)) \<le> 1" using P(1) q'(2) by (simp add: served_def)
    show "distinct (line (queue_at ?w k))" using P(2) q'(1) by simp
    show "c \<in> set (holders (queue_at ?w k)) \<longleftrightarrow> calls ?w c = Some (Holding k) \<or>
        ((\<exists>a. calls ?w c = Some (Waiting k a)) \<and> c \<in> set (granted ?w))"
      using mine [of c] by (cases "k = key"; cases "c \<in> set ws") (simp_all add: P(3) q'(3), auto)
    show "c \<in> set (attended (queue_at ?w k)) \<longleftrightarrow> calls ?w c = Some (Waiting k True) \<and> c \<notin> set (granted ?w)"
      using mine [of c] by (cases "k = key"; cases "c \<in> set ws") (simp_all add: P(4) lanes, auto)
    show "c \<in> set (background (queue_at ?w k)) \<longleftrightarrow> calls ?w c = Some (Waiting k False) \<and> c \<notin> set (granted ?w)"
      using mine [of c] by (cases "k = key"; cases "c \<in> set ws") (simp_all add: P(5) lanes, auto)
    show "calls ?w c \<noteq> None" if "c \<in> set (granted ?w)" using that P(6) [of c] mine [of c] by auto
  qed
  then show ?thesis using assms(2) q'(2) by (simp add: lq_inv_def)
qed

lemma put_put [simp]: "put_queue key a (put_queue key b w) = put_queue key a w"
  by (simp add: put_queue_def)

lemma put_set: "put_queue key a (set_call c st w) = set_call c st (put_queue key a w)"
  by (simp add: put_queue_def set_call_def)

lemma set_call_moves:
  "set_call c st ((put_queue key a w)\<lparr>granted := g\<rparr>) = (put_queue key a (set_call c st w))\<lparr>granted := g\<rparr>"
  by (simp add: put_queue_def set_call_def)

lemma grant_after:
  assumes "lq_inv w" and "placed (put_queue key q v)" and "\<And>k. k \<noteq> key \<Longrightarrow> queue_at v k = queue_at w k"
    and "grant q = (q', ws)"
  shows "lq_inv ((put_queue key q' v)\<lparr>granted := granted v @ ws\<rparr>)"
  using grant_restores [of "put_queue key q v" key q' ws] assms by (simp add: lq_inv_def)

lemma line_simps [simp]:
  "line (q\<lparr>holders := hs\<rparr>) = hs @ attended q @ background q"
  "line (q\<lparr>attended := as\<rparr>) = holders q @ as @ background q"
  "line (q\<lparr>background := bs\<rparr>) = holders q @ attended q @ bs"
  by (simp_all add: line_def)

text \<open>One call changes place, at one key: only its own place has to be looked at.\<close>

definition here :: "string \<Rightarrow> call_state option \<Rightarrow> bool" where
  "here key s \<longleftrightarrow> s = None \<or> s = Some Ended \<or> s = Some (Holding key) \<or> (\<exists>a. s = Some (Waiting key a))"

lemma placed_move:
  assumes "placed w" and "here key (calls w c)" and "here key (calls w' c)" and "granted w' = granted w"
    and calls: "\<And>d. d \<noteq> c \<Longrightarrow> calls w' d = calls w d"
    and queues: "\<And>k. k \<noteq> key \<Longrightarrow> queue_at w' k = queue_at w k"
    and "length (holders (queue_at w' key)) \<le> 1" and "distinct (line (queue_at w' key))"
    and holders: "set (holders (queue_at w' key)) - {c} = set (holders (queue_at w key)) - {c}"
    and attended: "set (attended (queue_at w' key)) - {c} = set (attended (queue_at w key)) - {c}"
    and background: "set (background (queue_at w' key)) - {c} = set (background (queue_at w key)) - {c}"
    and mine: "c \<in> set (holders (queue_at w' key)) \<longleftrightarrow> calls w' c = Some (Holding key) \<or>
        ((\<exists>a. calls w' c = Some (Waiting key a)) \<and> c \<in> set (granted w))"
      "c \<in> set (attended (queue_at w' key)) \<longleftrightarrow> calls w' c = Some (Waiting key True) \<and> c \<notin> set (granted w)"
      "c \<in> set (background (queue_at w' key)) \<longleftrightarrow> calls w' c = Some (Waiting key False) \<and> c \<notin> set (granted w)"
      "c \<in> set (granted w) \<Longrightarrow> calls w' c \<noteq> None"
  shows "placed w'"
proof (rule placedI)
  note P = placedD [OF assms(1)]
  fix k d
  have away: "c \<notin> set (holders (queue_at w k)) \<and> c \<notin> set (attended (queue_at w k)) \<and> c \<notin> set (background (queue_at w k))"
    if "k \<noteq> key" using that assms(2) by (auto simp: P(3-5) here_def)
  have mem: "(d \<in> set (holders (queue_at w' key))) = (d \<in> set (holders (queue_at w key)))"
    "(d \<in> set (attended (queue_at w' key))) = (d \<in> set (attended (queue_at w key)))"
    "(d \<in> set (background (queue_at w' key))) = (d \<in> set (background (queue_at w key)))" if "d \<noteq> c"
    using that holders attended background by blast+
  show "length (holders (queue_at w' k)) \<le> 1" using P(1) assms(7) queues by (cases "k = key") auto
  show "distinct (line (queue_at w' k))" using P(2) assms(8) queues by (cases "k = key") auto
  show "d \<in> set (holders (queue_at w' k)) \<longleftrightarrow> calls w' d = Some (Holding k) \<or>
        ((\<exists>a. calls w' d = Some (Waiting k a)) \<and> d \<in> set (granted w'))"
    by (cases "d = c"; cases "k = key")
      (use mine(1) away assms(3) in \<open>auto simp: queues calls mem P(3) assms(4) here_def\<close>)
  show "d \<in> set (attended (queue_at w' k)) \<longleftrightarrow> calls w' d = Some (Waiting k True) \<and> d \<notin> set (granted w')"
    by (cases "d = c"; cases "k = key")
      (use mine(2) away assms(3) in \<open>auto simp: queues calls mem P(4) assms(4) here_def\<close>)
  show "d \<in> set (background (queue_at w' k)) \<longleftrightarrow> calls w' d = Some (Waiting k False) \<and> d \<notin> set (granted w')"
    by (cases "d = c"; cases "k = key")
      (use mine(3) away assms(3) in \<open>auto simp: queues calls mem P(5) assms(4) here_def\<close>)
  show "calls w' d \<noteq> None" if "d \<in> set (granted w')"
    using that mine(4) P(6) [of d] calls assms(4) by (cases "d = c") auto
qed

lemma lq_invD: "lq_inv w \<Longrightarrow> placed w" "lq_inv w \<Longrightarrow> served (queue_at w k)"
  by (simp_all add: lq_inv_def)

lemma distinct_line:
  "placed w \<Longrightarrow> distinct (holders (queue_at w k) @ attended (queue_at w k) @ background (queue_at w k))"
  using placedD(2) [of w k] by (simp add: line_def)

lemma take_turn_keeps:
  assumes "lq_inv w" and new: "calls w c = None"
  shows "lq_inv (take_turn key a c w)"
proof -
  note P = placedD [OF lq_invD(1) [OF assms(1)]] and D = distinct_line [OF lq_invD(1) [OF assms(1)], of key]
  have S: "served (queue_at w k)" for k using assms(1) by (rule lq_invD)
  let ?q = "queue_at w key"
  have absent: "c \<notin> set (granted w)" "c \<notin> set (holders ?q)" "c \<notin> set (attended ?q)" "c \<notin> set (background ?q)"
    using new P(6) [of c] by (auto simp: P(3-5))
  show ?thesis
  proof (cases "length (holders ?q) < TURNS_PER_MODEL \<and> attended ?q = [] \<and> background ?q = []")
    case True
    then have empty: "holders ?q = []" "attended ?q = []" "background ?q = []" by (simp_all add: TURNS_PER_MODEL_def)
    let ?w = "set_call c (Holding key) (put_queue key (?q\<lparr>holders := [c]\<rparr>) w)"
    have "placed ?w"
      by (rule placed_move [OF lq_invD(1) [OF assms(1)], where c = c and key = key])
        (use absent empty in \<open>simp_all add: here_def new\<close>)
    moreover have "served (queue_at ?w k)" for k using S by (simp add: served_def)
    ultimately show ?thesis using True empty by (simp add: take_turn_def Let_def lq_inv_def)
  next
    case False
    have held: "holders ?q \<noteq> []"
    proof
      assume none: "holders ?q = []"
      then have "attended ?q = [] \<and> background ?q = []" using S [of key] by (simp only: served_def simp_thms)
      then show False using False none by (simp add: TURNS_PER_MODEL_def)
    qed
    let ?q1 = "if a then ?q\<lparr>attended := attended ?q @ [c]\<rparr> else ?q\<lparr>background := background ?q @ [c]\<rparr>"
    let ?w = "set_call c (Waiting key a) (put_queue key ?q1 w)"
    have "placed ?w"
      apply (rule placed_move [OF lq_invD(1) [OF assms(1)], where c = c and key = key and w' = ?w])
      subgoal by (simp add: here_def new)
      subgoal by (simp add: here_def)
      subgoal by simp
      subgoal by simp
      subgoal by simp
      subgoal using P(1) [of key] by simp
      subgoal using D absent by (cases a) auto
      subgoal by simp
      subgoal by auto
      subgoal by auto
      subgoal using absent by simp
      subgoal using absent by simp
      subgoal using absent by simp
      subgoal using absent by simp
      done
    moreover have "served (queue_at ?w k)" for k using S held P(1) by (simp add: served_def)
    ultimately have "lq_inv ?w" by (simp add: lq_inv_def)
    moreover have "take_turn key a c w = ?w" using False by (simp only: take_turn_def Let_def if_False)
    ultimately show ?thesis by simp
  qed
qed

lemma one_holder:
  assumes "placed w" and "c \<in> set (holders (queue_at w key))"
  shows "holders (queue_at w key) = [c]"
  using assms(2) placedD(1) [OF assms(1), of key] by (cases "holders (queue_at w key)") auto

text \<open>A turn given back: the caller is done with it, and the next in line gets it.\<close>

lemma give_back_keeps:
  assumes "lq_inv w" and "c \<in> set (holders (queue_at w key))" and "here key (calls w c)"
  shows "lq_inv (give_back key c (set_call c Ended w))"
proof -
  let ?q = "queue_at w key"
  note P = placedD [OF lq_invD(1) [OF assms(1)]] and D = distinct_line [OF lq_invD(1) [OF assms(1)], of key]
  have one: "holders ?q = [c]" by (rule one_holder [OF lq_invD(1) [OF assms(1)] assms(2)])
  have q: "queues (set_call c Ended w) key = Some ?q"
    using assms(2) by (auto simp: queue_at_def set_call_def new_queue_def split: option.splits)
  let ?q1 = "?q\<lparr>holders := []\<rparr>"
  obtain q' ws where run: "grant ?q1 = (q', ws)" by fastforce
  have "placed (put_queue key ?q1 (set_call c Ended w))"
    by (rule placed_move [OF lq_invD(1) [OF assms(1)] assms(3)])
      (use one D in \<open>auto simp: here_def P(4,5)\<close>)
  from grant_after [OF assms(1) this _ run] show ?thesis
    using one run by (simp add: give_back_def q)
qed

lemma wait_over_keeps:
  assumes "lq_inv w" and waiting: "calls w c = Some (Waiting key a)"
  shows "lq_inv (wait_over key a cancelled c w)"
proof -
  let ?q = "queue_at w key"
  note P = placedD [OF lq_invD(1) [OF assms(1)]] and D = distinct_line [OF lq_invD(1) [OF assms(1)], of key]
  have here: "here key (calls w c)" by (simp add: here_def waiting)
  show ?thesis
  proof (cases "c \<in> set (granted w)")
    case True
    have "c \<in> set (holders ?q)" using waiting True by (auto simp: P(3))
    note cancel = give_back_keeps [OF assms(1) this here]
    have "placed (set_call c (Holding key) w)"
      by (rule placed_move [OF lq_invD(1) [OF assms(1)] here])
        (use \<open>c \<in> set (holders ?q)\<close> True P(1) D in \<open>auto simp: here_def line_def P(4,5) waiting\<close>)
    then have "lq_inv (set_call c (Holding key) w)" using assms(1) by (simp add: lq_inv_def)
    then show ?thesis using True cancel by (simp add: wait_over_def)
  next
    case False
    let ?q1 = "if a then ?q\<lparr>attended := remove1 c (attended ?q)\<rparr> else ?q\<lparr>background := remove1 c (background ?q)\<rparr>"
    obtain q' ws where run: "grant ?q1 = (q', ws)" by fastforce
    have nowhere: "c \<notin> set (holders ?q)" "c \<notin> set (if a then background ?q else attended ?q)"
      using waiting False by (auto simp: P(3-5))
    have "placed (put_queue key ?q1 (set_call c Ended w))"
      by (rule placed_move [OF lq_invD(1) [OF assms(1)] here])
        (use nowhere P(1) D False in \<open>auto simp: here_def split: if_splits\<close>)
    then have "lq_inv ((put_queue key q' (set_call c Ended w))\<lparr>granted := granted (set_call c Ended w) @ ws\<rparr>)"
      by (rule grant_after [OF assms(1) _ _ run]) simp
    then show ?thesis using False by (simp add: wait_over_def Let_def run set_call_moves)
  qed
qed

lemma no_calls_inv: "lq_inv no_calls"
  by (simp add: lq_inv_def placed_def no_calls_def queue_at_def new_queue_def line_def served_def)

lemma lq_step_inv: "lq_step w w' \<Longrightarrow> lq_inv w \<Longrightarrow> lq_inv w'"
proof (induction rule: lq_step.induct)
  case (enter w c key a)
  then show ?case by (simp add: take_turn_keeps)
next
  case (over w c key a cancelled)
  then show ?case by (simp add: wait_over_keeps)
next
  case (release w c key)
  have "c \<in> set (holders (queue_at w key))"
    using release.hyps placedD(3) [OF lq_invD(1) [OF release.prems]] by blast
  then show ?case
    unfolding release_turn_def using release.hyps release.prems
    by (intro give_back_keeps) (simp_all add: here_def)
next
  case (lost w c key a)
  have "c \<in> set (holders (queue_at w key))"
    using lost.hyps placedD(3) [OF lq_invD(1) [OF lost.prems]] by blast
  then show ?case using lost.hyps lost.prems by (intro give_back_keeps) (simp_all add: here_def)
qed

lemma lq_reach_inv: "lq_step\<^sup>*\<^sup>* no_calls w \<Longrightarrow> lq_inv w"
  by (induction rule: rtranclp_induct) (simp_all add: no_calls_inv lq_step_inv)

text \<open>An attended call that found the model busy with one background call, before another.\<close>

definition busy_world :: lq_world where
  "busy_world = take_turn ''m'' True 3 (take_turn ''m'' False 2 (take_turn ''m'' False 1 no_calls))"

lemmas lq_eval = busy_world_def take_turn_def put_queue_def set_call_def queue_at_def no_calls_def new_queue_def
  idle_queue_def TURNS_PER_MODEL_def Let_def

lemma busy_calls:
  "calls busy_world = (calls no_calls)(1 \<mapsto> Holding ''m'', 2 \<mapsto> Waiting ''m'' False, 3 \<mapsto> Waiting ''m'' True)"
  "granted busy_world = []"
  "queue_at busy_world ''m'' = \<lparr>holders = [1], attended = [3], background = [2]\<rparr>"
  by (simp_all add: lq_eval)

lemma busy_reached: "lq_step\<^sup>*\<^sup>* no_calls busy_world"
proof -
  let ?a = "take_turn ''m'' False 1 no_calls"
  let ?b = "take_turn ''m'' False 2 ?a"
  have "lq_step no_calls ?a" by (rule lq_step.enter) (simp add: no_calls_def)
  moreover have "lq_step ?a ?b" by (rule lq_step.enter) (simp add: lq_eval)
  moreover have "lq_step ?b busy_world" unfolding busy_world_def by (rule lq_step.enter) (simp add: lq_eval)
  ultimately show ?thesis by (meson converse_rtranclp_into_rtranclp rtranclp.rtrancl_refl)
qed

section \<open>What the queue promises\<close>

text \<open>
  One turn per model: in every state the process can reach, whatever calls entered, gave up, were
  cancelled or gave their turn back and in whatever order, two calls that hold a turn for the same
  model are the same call.
\<close>

theorem one_turn_per_model:
  assumes "lq_step\<^sup>*\<^sup>* no_calls w"
    and "calls w c = Some (Holding key)" and "calls w d = Some (Holding key)"
  shows "c = d"
proof -
  note inv = lq_invD(1) [OF lq_reach_inv [OF assms(1)]]
  have "c \<in> set (holders (queue_at w key))" "d \<in> set (holders (queue_at w key))"
    using assms(2,3) by (simp_all add: placedD(3) [OF inv])
  then show ?thesis using one_holder [OF inv, of _ key] by fastforce
qed

lemma one_turn_per_model_witness:
  "calls busy_world 1 = Some (Holding ''m'') \<and> (\<forall>c. calls busy_world c = Some (Holding ''m'') \<longleftrightarrow> c = 1)"
proof (intro conjI allI)
  show held: "calls busy_world 1 = Some (Holding ''m'')" by (simp add: busy_calls)
  show "calls busy_world c = Some (Holding ''m'') \<longleftrightarrow> c = 1" for c
    using one_turn_per_model [OF busy_reached _ held, of c] held by blast
qed

text \<open>
  No turn is lost: while a call waits that was granted nothing, somebody has the model, either a
  call that holds its turn or one that was granted it and is about to wake. And every call in a lane is
  a call that still waits, so a call that gave up or ended is never granted a turn.
\<close>

theorem no_turn_is_lost:
  assumes "lq_step\<^sup>*\<^sup>* no_calls w" and "calls w c = Some (Waiting key a)" and "c \<notin> set (granted w)"
  shows "\<exists>d. holders (queue_at w key) = [d] \<and>
      (calls w d = Some (Holding key) \<or> ((\<exists>b. calls w d = Some (Waiting key b)) \<and> d \<in> set (granted w)))
    \<and> c \<in> set (if a then attended (queue_at w key) else background (queue_at w key))"
proof -
  note inv = lq_reach_inv [OF assms(1)] and P = placedD [OF lq_invD(1) [OF lq_reach_inv [OF assms(1)]]]
  have lane: "c \<in> set (if a then attended (queue_at w key) else background (queue_at w key))"
    using assms(2,3) by (cases a) (simp_all add: P(4,5))
  then have "attended (queue_at w key) \<noteq> [] \<or> background (queue_at w key) \<noteq> []" by (cases a) auto
  then have "holders (queue_at w key) \<noteq> []"
    using lq_invD(2) [OF inv, of key] unfolding served_def by blast
  then obtain d where "d \<in> set (holders (queue_at w key))" by (cases "holders (queue_at w key)") auto
  then show ?thesis using one_holder [OF lq_invD(1) [OF inv]] P(3) lane by blast
qed

lemma no_turn_is_lost_witness:
  "\<exists>d. holders (queue_at busy_world ''m'') = [d] \<and> calls busy_world d = Some (Holding ''m'')"
  using no_turn_is_lost [OF busy_reached, of 3 "''m''" True] by (simp add: busy_calls)

lemma give_back_head:
  assumes "holders (queue_at w key) = [c]" and same: "queue_at v key = queue_at w key"
  shows "line (queue_at (give_back key c v) key) = attended (queue_at w key) @ background (queue_at w key)
    \<and> served (queue_at (give_back key c v) key)"
proof -
  let ?q = "queue_at w key"
  have q: "queues v key = Some ?q"
    using assms same by (auto simp: queue_at_def new_queue_def split: option.splits)
  obtain q' ws where run: "grant (?q\<lparr>holders := []\<rparr>) = (q', ws)" by fastforce
  then show ?thesis using grant_line [OF run] assms by (simp add: give_back_def q)
qed

lemma served_line: "served q \<Longrightarrow> holders q = take 1 (line q)"
  by (cases "holders q") (auto simp: served_def line_def)

text \<open>The holder of a model's turn gives it back; nobody arrives or leaves.\<close>

definition serve_next :: "string \<Rightarrow> lq_world \<Rightarrow> lq_world" where
  "serve_next key w = (case holders (queue_at w key) of [] \<Rightarrow> w | c # _ \<Rightarrow> release_turn key c w)"

lemma serve_next_line:
  assumes "served (queue_at w key)"
  shows "line (queue_at (serve_next key w) key) = tl (line (queue_at w key))
    \<and> served (queue_at (serve_next key w) key)"
proof (cases "holders (queue_at w key)")
  case Nil
  then show ?thesis using assms by (simp add: serve_next_def line_def served_def)
next
  case (Cons c cs)
  then have "holders (queue_at w key) = [c]" using assms by (simp add: served_def)
  then show ?thesis
    using give_back_head [of w key c "set_call c Ended w"]
    by (simp add: serve_next_def release_turn_def line_def)
qed

lemma serve_next_lines:
  assumes "served (queue_at w key)"
  shows "line (queue_at ((serve_next key ^^ n) w) key) = drop n (line (queue_at w key))
    \<and> served (queue_at ((serve_next key ^^ n) w) key)"
proof (induction n)
  case (Suc n)
  then show ?case using serve_next_line [of "(serve_next key ^^ n) w" key]
    by (simp add: drop_Suc tl_drop)
qed (use assms in simp)

text \<open>
  The number of calls a page shows ahead of a waiting call is exact: when that many calls have had
  the model and given it back, and nobody new is asked for in between, the model is that call's; after
  any smaller number it is another's. Background calls are never among them.
\<close>

theorem ahead_is_exact:
  assumes "lq_step\<^sup>*\<^sup>* no_calls w" and "(c, n) \<in> set (waits (queue_at w key))" and "m \<le> n"
  shows "\<exists>d. holders (queue_at ((serve_next key ^^ m) w) key) = [d] \<and> (d = c \<longleftrightarrow> m = n)
    \<and> d \<notin> set (background (queue_at w key))"
proof -
  let ?q = "queue_at w key"
  note inv = lq_reach_inv [OF assms(1)] and S = lq_invD(2) [OF lq_reach_inv [OF assms(1)], of key]
  have dist: "distinct (line ?q)" using placedD(2) [OF lq_invD(1) [OF inv]] .
  obtain place where place: "place < length (attended ?q)" "attended ?q ! place = c" "n = length (holders ?q) + place"
    using assms(2) by (auto simp: waits_def in_set_enumerate_eq)
  let ?front = "holders ?q @ attended ?q"
  have front: "n < length ?front" "?front ! n = c" using place by (simp_all add: nth_append)
  then have m: "m < length ?front" using assms(3) by simp
  have at: "line ?q ! k = ?front ! k" if "k < length ?front" for k
    using that nth_append_left [of k ?front "background ?q"] by (simp add: line_def)
  have "holders (queue_at ((serve_next key ^^ m) w) key) = take 1 (drop m (line ?q))"
    using serve_next_lines [OF S, of m] served_line by metis
  moreover have "take 1 (drop m (line ?q)) = [?front ! m]"
  proof -
    have "m < length (line ?q)" using m by (simp add: line_def)
    then have "drop m (line ?q) = line ?q ! m # drop (Suc m) (line ?q)" by (rule Cons_nth_drop_Suc [symmetric])
    then show ?thesis by (simp add: at [OF m])
  qed
  moreover have "?front ! m = c \<longleftrightarrow> m = n"
    using dist front m by (metis distinct_append append_assoc line_def nth_eq_iff_index_eq)
  moreover have "?front ! m \<notin> set (background ?q)"
    using dist nth_mem [OF m] by (auto simp: line_def)
  ultimately show ?thesis by simp
qed

lemma ahead_is_exact_witness:
  "waits (queue_at busy_world ''m'') = [(3, 1)] \<and>
   holders (queue_at ((serve_next ''m'' ^^ 1) busy_world) ''m'') = [3]"
proof -
  have "waits (queue_at busy_world ''m'') = [(3, 1)]" by (simp add: busy_calls waits_def)
  then show ?thesis using ahead_is_exact [OF busy_reached, of 3 1 "''m''" 1] by simp
qed

text \<open>
  C18. A model's queue behaves as one line of calls. A call somebody waits for joins it ahead of every
  background call and behind those already waited for, a background call joins at its end, a turn given
  back moves the line up by one, and a call that gives up leaves it; the head of the line, and nobody
  else, has the model.
\<close>

theorem queue_is_one_line:
  assumes "lq_step\<^sup>*\<^sup>* no_calls w"
  shows "holders (queue_at w key) = take 1 (line (queue_at w key))
    \<and> line (queue_at (take_turn key True c w) key) =
       (let q = queue_at w key in holders q @ attended q @ [c] @ background q)
    \<and> line (queue_at (take_turn key False c w) key) = line (queue_at w key) @ [c]
    \<and> (calls w d = Some (Holding key) \<longrightarrow>
         line (queue_at (release_turn key d w) key) = tl (line (queue_at w key)))
    \<and> (calls w d = Some (Waiting key a) \<and> d \<notin> set (granted w) \<longrightarrow>
         line (queue_at (wait_over key a cancelled d w) key) = remove1 d (line (queue_at w key)))"
proof -
  let ?q = "queue_at w key"
  note inv = lq_reach_inv [OF assms] and P = placedD [OF lq_invD(1) [OF lq_reach_inv [OF assms]]]
  note S = lq_invD(2) [OF inv, of key]
  have give: "line (queue_at (release_turn key d w) key) = tl (line ?q)" if "calls w d = Some (Holding key)"
  proof -
    have one: "holders ?q = [d]" using one_holder [OF lq_invD(1) [OF inv]] that P(3) by blast
    then show ?thesis using give_back_head [OF one, of "set_call d Ended w"]
      by (simp add: release_turn_def line_def)
  qed
  have leave: "line (queue_at (wait_over key a cancelled d w) key) = remove1 d (line ?q)"
    if "calls w d = Some (Waiting key a) \<and> d \<notin> set (granted w)"
  proof -
    let ?q1 = "if a then ?q\<lparr>attended := remove1 d (attended ?q)\<rparr> else ?q\<lparr>background := remove1 d (background ?q)\<rparr>"
    obtain q' ws where run: "grant ?q1 = (q', ws)" by fastforce
    have "d \<notin> set (holders ?q)" "a \<or> d \<notin> set (attended ?q)" "\<not> a \<or> d \<in> set (attended ?q)"
      using that by (auto simp: P(3,4))
    then have "line ?q1 = remove1 d (line ?q)" by (cases a) (simp_all add: line_def remove1_append)
    moreover have "line q' = line ?q1" using grant_line [OF run] P(1) [of key] by (cases a) simp_all
    ultimately show ?thesis using that by (simp add: wait_over_def Let_def run)
  qed
  show ?thesis using served_line [OF S] give leave
    by (simp add: take_turn_def Let_def line_def)
qed

lemma queue_is_one_line_witness:
  "line (queue_at (take_turn ''m'' True 4 busy_world) ''m'') = [1, 3, 4, 2] \<and>
   line (queue_at (release_turn ''m'' 1 busy_world) ''m'') = [3, 2]"
  using queue_is_one_line [OF busy_reached, of "''m''" 4 1 True False]
  by (simp add: busy_calls line_def)

end
