(* ===== verification/Merge.thy ===== *)
theory Merge
  imports Prelude
begin

text \<open>
  \<^verbatim>\<open>durability/merge.py\<close>: the deterministic merge of this home's rows with a peer's. A row is a dict, kept
  as an association list; \<open>py_str\<close> is \<open>str()\<close> of a value that is no string. A peer's row is never the very
  object this home holds, so \<open>winner is not cur\<close> is "the peer's row won".
\<close>

type_synonym row = config

definition id_of :: "(json \<Rightarrow> string) \<Rightarrow> row \<Rightarrow> string" where
  "id_of py_str row = text_of py_str (get_or row ''id'' (JStr []))"

text \<open>\<open>_field\<close>: at the top of the row, or else under its \<open>data\<close>.\<close>

definition field_of :: "row \<Rightarrow> string \<Rightarrow> json" where
  "field_of row name =
     (case map_of row name of
        Some v \<Rightarrow> v
      | None \<Rightarrow> (case map_of row ''data'' of Some (JObj d) \<Rightarrow> cfg_get d name | _ \<Rightarrow> JNull))"

definition is_tombstone :: "row \<Rightarrow> bool" where
  "is_tombstone row = truthy (field_of row ''deleted_at'')"

definition lww_key :: "(json \<Rightarrow> string) \<Rightarrow> string \<Rightarrow> row \<Rightarrow> string" where
  "lww_key py_str field row = (let v = field_of row field in if truthy v then text_of py_str v else [])"

definition tomb_time :: "(json \<Rightarrow> string) \<Rightarrow> row \<Rightarrow> string" where
  "tomb_time py_str row = (let v = field_of row ''deleted_at'' in if truthy v then text_of py_str v else [])"

text \<open>\<open>_resolve_pair\<close>; \<open>lww = []\<close> is a store without a last-write field.\<close>

definition resolve_pair :: "(json \<Rightarrow> string) \<Rightarrow> string \<Rightarrow> row \<Rightarrow> row \<Rightarrow> row" where
  "resolve_pair py_str lww mine theirs =
     (if is_tombstone mine \<or> is_tombstone theirs then
        (if is_tombstone mine \<and> is_tombstone theirs then
           (if tomb_time py_str mine < tomb_time py_str theirs then theirs else mine)
         else if is_tombstone mine then mine else theirs)
      else if lww \<noteq> [] then
        (if lww_key py_str lww mine < lww_key py_str lww theirs then theirs else mine)
      else mine)"

datatype origin = From_local | From_remote | From_both

record merge_result =
  rows :: "row list"
  added :: nat
  updated :: nat
  kept :: nat
  tombstoned :: nat

text \<open>One round of each loop of \<open>merge_union_by_id\<close>; \<open>by_id\<close> and \<open>origin\<close> have the same keys.\<close>

definition put_local :: "(json \<Rightarrow> string) \<Rightarrow> row \<Rightarrow> (string \<times> row \<times> origin) list \<Rightarrow> (string \<times> row \<times> origin) list" where
  "put_local py_str row by_id = dict_set by_id (id_of py_str row) (row, From_local)"

definition put_remote ::
  "(json \<Rightarrow> string) \<Rightarrow> string \<Rightarrow> row \<Rightarrow> (string \<times> row \<times> origin) list \<Rightarrow> (string \<times> row \<times> origin) list" where
  "put_remote py_str lww row by_id =
     (let rid = id_of py_str row in
      case map_of by_id rid of
        None \<Rightarrow> dict_set by_id rid (row, From_remote)
      | Some (cur, _) \<Rightarrow>
          (let winner = resolve_pair py_str lww cur row in
           if winner \<noteq> cur then dict_set by_id rid (winner, From_both) else by_id))"

definition tally :: "(string \<times> row \<times> origin) list \<Rightarrow> merge_result" where
  "tally by_id =
     (let settled = map (\<lambda>rid. the (map_of by_id rid)) (sort (map fst by_id)) in
      \<lparr>rows = map fst settled,
       added = length (filter (\<lambda>(_, og). og = From_remote) settled),
       updated = length (filter (\<lambda>(_, og). og = From_both) settled),
       kept = length (filter (\<lambda>(_, og). og = From_local) settled),
       tombstoned = length (filter (\<lambda>(r, _). is_tombstone r) settled)\<rparr>)"

definition merge_union_by_id :: "(json \<Rightarrow> string) \<Rightarrow> string \<Rightarrow> row list \<Rightarrow> row list \<Rightarrow> merge_result" where
  "merge_union_by_id py_str lww local remote =
     tally (fold (put_remote py_str lww) remote (fold (put_local py_str) local []))"

definition merge_lww_by_updated_at :: "(json \<Rightarrow> string) \<Rightarrow> string \<Rightarrow> row list \<Rightarrow> row list \<Rightarrow> merge_result" where
  "merge_lww_by_updated_at py_str field local remote = merge_union_by_id py_str field local remote"

text \<open>\<open>forward\<close>: the peer's edit over this home's row.\<close>

definition forward_key :: "row \<Rightarrow> row \<Rightarrow> string \<Rightarrow> row \<Rightarrow> row" where
  "forward_key mine theirs key out =
     (case map_of theirs key of
        None \<Rightarrow> dict_del out key
      | Some v \<Rightarrow>
          (case map_of mine key of
             Some u \<Rightarrow> if json_eq u v then out else dict_set out key v
           | None \<Rightarrow> dict_set out key v))"

definition forward :: "(row \<Rightarrow> row) option \<Rightarrow> row \<Rightarrow> row \<Rightarrow> row" where
  "forward compared local remote =
     (let mine = (case compared of None \<Rightarrow> local | Some f \<Rightarrow> f local);
          theirs = (case compared of None \<Rightarrow> remote | Some f \<Rightarrow> f remote);
          keys = map fst mine @ filter (\<lambda>k. k \<notin> set (map fst mine)) (map fst theirs)
      in fold (forward_key mine theirs) keys local)"

text \<open>\<open>merge_append_dedup\<close>: the state of its loop is what was seen and the rows appended.\<close>

definition dedup_key :: "(json \<Rightarrow> string) \<Rightarrow> string \<Rightarrow> row \<Rightarrow> string option" where
  "dedup_key py_str key row = (case cfg_get row key of JNull \<Rightarrow> None | v \<Rightarrow> Some (text_of py_str v))"

definition append_new ::
  "(json \<Rightarrow> string) \<Rightarrow> string \<Rightarrow> row \<Rightarrow> string list \<times> row list \<Rightarrow> string list \<times> row list" where
  "append_new py_str key row st =
     (case st of (seen, out) \<Rightarrow>
        (case dedup_key py_str key row of
           None \<Rightarrow> (seen, out @ [row])
         | Some k \<Rightarrow> if k \<in> set seen then (seen, out) else (k # seen, out @ [row])))"

definition merge_append_dedup :: "(json \<Rightarrow> string) \<Rightarrow> string \<Rightarrow> row list \<Rightarrow> row list \<Rightarrow> merge_result" where
  "merge_append_dedup py_str key local remote =
     (let appended = snd (fold (append_new py_str key) remote (List.map_filter (dedup_key py_str key) local, []))
      in \<lparr>rows = local @ appended, added = length appended, updated = 0, kept = length local, tombstoned = 0\<rparr>)"

datatype strategy = Union_by_id | Lww_by_updated_at | Append_dedup | Sqlite_attach_ignore | Replace_only

fun merge_rows ::
  "(json \<Rightarrow> string) \<Rightarrow> strategy \<Rightarrow> row list \<Rightarrow> row list \<Rightarrow> string \<Rightarrow> string \<Rightarrow> decode_error + merge_result" where
  "merge_rows py_str Union_by_id local remote dedup lww = Inr (merge_union_by_id py_str [] local remote)"
| "merge_rows py_str Lww_by_updated_at local remote dedup lww = Inr (merge_lww_by_updated_at py_str lww local remote)"
| "merge_rows py_str Append_dedup local remote dedup lww = Inr (merge_append_dedup py_str dedup local remote)"
| "merge_rows py_str Sqlite_attach_ignore local remote dedup lww = Inl ValueError"
| "merge_rows py_str Replace_only local remote dedup lww = Inl ValueError"

end
