(* ===== verification/Sync.thy ===== *)
theory Sync
  imports Merge
begin

text \<open>
  The sync of two homes: what this home last agreed on with each peer (\<^verbatim>\<open>durability/ancestors.py\<close>), the
  conflicts and the deletes between them (\<^verbatim>\<open>conflicts.py\<close>), and the three-way reconcile of one entry's
  rows (\<^verbatim>\<open>reconcile.py\<close>). A Python dict is an association list. Standard-library text functions are the
  \<open>codec\<close>: \<open>str()\<close>, the canonical JSON of a row, and sha256. Reading and writing the store's files is not
  modelled: a reconcile here is over rows read whole, and its write finds every file as it was read.
\<close>

record codec =
  py_str :: "json \<Rightarrow> string"
  canonical_json :: "row \<Rightarrow> string"
  sha256 :: "string \<Rightarrow> string"

type_synonym 'v dict = "(string \<times> 'v) list"

text \<open>\<open>d.get(k, {})\<close> of a dict of dicts.\<close>

definition family :: "'v list dict \<Rightarrow> string \<Rightarrow> 'v list" where
  "family d k = (case map_of d k of None \<Rightarrow> [] | Some f \<Rightarrow> f)"

section \<open>What this home knows of each record\<close>

definition PUBLISHED_VERSIONS :: nat where "PUBLISHED_VERSIONS = 16"

definition DELETE_HORIZON_SECS :: rat where "DELETE_HORIZON_SECS = 90 * 24 * 60 * 60"

record deletion =
  del_at :: string
  del_held :: "string list"
  del_by :: string

record ancestors =
  peers :: "string dict dict dict"
  published :: "string list dict dict"
  deleted :: "deletion dict dict"

definition agreed_of :: "ancestors \<Rightarrow> string \<Rightarrow> string \<Rightarrow> string dict" where
  "agreed_of a peer entry = family (family (peers a) peer) entry"

definition record_agreement :: "string \<Rightarrow> string \<Rightarrow> string dict \<Rightarrow> ancestors \<Rightarrow> ancestors" where
  "record_agreement peer entry shas a =
     (if peer = [] \<or> shas = [] then a
      else
        let fam = fold (\<lambda>(rid, sha) f. if rid \<noteq> [] \<and> sha \<noteq> [] then dict_set f rid sha else f) shas
                    (agreed_of a peer entry)
        in a\<lparr>peers := dict_set (peers a) peer (dict_set (family (peers a) peer) entry fam)\<rparr>)"

text \<open>The versions of \<open>rid\<close> any machine agreed on with this home.\<close>

definition agreed_versions :: "ancestors \<Rightarrow> string \<Rightarrow> string \<Rightarrow> string list" where
  "agreed_versions a entry rid =
     List.map_filter (\<lambda>(peer, families). map_of (family families entry) rid) (peers a)"

definition agreed_ids :: "ancestors \<Rightarrow> string \<Rightarrow> string list" where
  "agreed_ids a entry = concat (map (\<lambda>(peer, families). map fst (family families entry)) (peers a))"

definition mark_held :: "ancestors \<Rightarrow> string \<Rightarrow> string \<Rightarrow> string list" where
  "mark_held a entry rid =
     (case map_of (family (deleted a) entry) rid of None \<Rightarrow> [] | Some m \<Rightarrow> del_held m)"

definition versions_held :: "ancestors \<Rightarrow> string \<Rightarrow> string \<Rightarrow> string list" where
  "versions_held a entry rid =
     sort (remdups (family (family (published a) entry) rid @ agreed_versions a entry rid @ mark_held a entry rid))"

definition known_ids :: "ancestors \<Rightarrow> string \<Rightarrow> string list" where
  "known_ids a entry =
     remdups (map fst (family (published a) entry) @ agreed_ids a entry @ map fst (family (deleted a) entry))"

definition held :: "ancestors \<Rightarrow> string \<Rightarrow> string list dict" where
  "held a entry = map (\<lambda>rid. (rid, versions_held a entry rid)) (known_ids a entry)"

definition own_deletions :: "ancestors \<Rightarrow> deletion dict dict" where
  "own_deletions a =
     filter (\<lambda>(entry, own). own \<noteq> [])
       (map (\<lambda>(entry, marks). (entry, filter (\<lambda>(rid, m). del_by m = []) marks)) (deleted a))"

definition took_deletion :: "string \<Rightarrow> deletion dict \<Rightarrow> ancestors \<Rightarrow> ancestors" where
  "took_deletion entry marks a =
     (if marks = [] then a
      else a\<lparr>deleted := dict_set (deleted a) entry (dict_update (family (deleted a) entry) marks)\<rparr>)"

text \<open>\<open>Ancestors.publish\<close>, its three results: the versions, the marks, and the agreements that stay.\<close>

definition next_versions :: "string list \<Rightarrow> string \<Rightarrow> string list" where
  "next_versions versions sha =
     (if versions = [] \<or> last versions \<noteq> sha
      then (let vs = versions @ [sha] in drop (length vs - PUBLISHED_VERSIONS) vs) else versions)"

definition published_after :: "string list dict \<Rightarrow> string dict \<Rightarrow> string list \<Rightarrow> string list dict" where
  "published_after before shas unread =
     (let after = fold (\<lambda>(rid, sha) f. if rid \<noteq> [] \<and> sha \<noteq> [] then dict_set f rid (next_versions (family before rid) sha)
                                   else f) shas []
      in fold (\<lambda>rid f. if map_of before rid \<noteq> None \<and> map_of f rid = None then dict_set f rid (family before rid) else f)
           unread after)"

definition mark_gone :: "ancestors \<Rightarrow> string \<Rightarrow> string \<Rightarrow> string \<Rightarrow> deletion" where
  "mark_gone a entry now rid =
     (case map_of (family (deleted a) entry) rid of
        None \<Rightarrow> \<lparr>del_at = now, del_held = versions_held a entry rid, del_by = []\<rparr>
      | Some m \<Rightarrow> \<lparr>del_at = del_at m, del_held = versions_held a entry rid, del_by = del_by m\<rparr>)"

definition marks_after :: "ancestors \<Rightarrow> string \<Rightarrow> string dict \<Rightarrow> string \<Rightarrow> string list \<Rightarrow> deletion dict" where
  "marks_after a entry shas now unread =
     (let kept = filter (\<lambda>(rid, m). rid \<notin> set (map fst shas)) (family (deleted a) entry);
          gone = filter (\<lambda>rid. rid \<notin> set (map fst shas) \<and> rid \<notin> set unread) (known_ids a entry)
      in fold (\<lambda>rid marks. dict_set marks rid (mark_gone a entry now rid)) gone kept)"

definition publish :: "string \<Rightarrow> string dict \<Rightarrow> string \<Rightarrow> string list \<Rightarrow> ancestors \<Rightarrow> ancestors" where
  "publish entry shas now unread a =
     (let after = published_after (family (published a) entry) shas unread;
          marks = marks_after a entry shas now unread;
          forget = (\<lambda>fam. filter (\<lambda>(rid, sha). rid \<notin> set (map fst marks)) fam)
      in a\<lparr>published := (if after = family (published a) entry then published a
                          else dict_set (published a) entry after),
           deleted := (if marks = family (deleted a) entry then deleted a
                       else if marks = [] then dict_del (deleted a) entry
                       else dict_set (deleted a) entry marks),
           peers := map (\<lambda>(peer, families). (peer, map (\<lambda>(e, fam). (e, if e = entry then forget fam else fam)) families))
                      (peers a)\<rparr>)"

text \<open>\<open>forget_old_deletes\<close>; \<open>moment\<close> reads an ISO-8601 time, in seconds.\<close>

definition past_the_horizon :: "(string \<Rightarrow> rat option) \<Rightarrow> string \<Rightarrow> string \<Rightarrow> bool" where
  "past_the_horizon moment start now =
     (case (moment start, moment now) of
        (Some s, Some e) \<Rightarrow> e - s > DELETE_HORIZON_SECS
      | _ \<Rightarrow> False)"

definition forget_old_deletes :: "(string \<Rightarrow> rat option) \<Rightarrow> string \<Rightarrow> ancestors \<Rightarrow> ancestors" where
  "forget_old_deletes moment now a =
     a\<lparr>deleted := List.map_filter
        (\<lambda>(entry, marks).
           let kept = filter (\<lambda>(rid, m). \<not> past_the_horizon moment (del_at m) now) marks
           in if kept \<noteq> marks \<and> kept = [] then None else Some (entry, kept)) (deleted a)\<rparr>"

section \<open>Conflicts and deletes\<close>

text \<open>The fields of an inventory entry a sync reads; the functions are each store's own rule.\<close>

record state_entry =
  se_id :: string
  se_domain :: string
  se_merge :: strategy
  se_compared :: "(row \<Rightarrow> row) option"
  se_arrives :: "(row \<Rightarrow> row) option"
  se_edit_arrives :: "(row \<Rightarrow> row \<Rightarrow> row) option"

definition ID_KEYED_MERGES :: "strategy list" where
  "ID_KEYED_MERGES = [Union_by_id, Lww_by_updated_at]"

definition row_id :: "codec \<Rightarrow> row \<Rightarrow> string" where
  "row_id L row = id_of (py_str L) row"

definition row_sha :: "codec \<Rightarrow> row \<Rightarrow> string" where
  "row_sha L row = sha256 L (canonical_json L row)"

definition compared :: "state_entry \<Rightarrow> row \<Rightarrow> row" where
  "compared e row = (case se_compared e of None \<Rightarrow> row | Some f \<Rightarrow> if is_tombstone row then row else f row)"

text \<open>The sha two homes compare.\<close>

definition seen_sha :: "codec \<Rightarrow> state_entry \<Rightarrow> row \<Rightarrow> string" where
  "seen_sha L e row = row_sha L (compared e row)"

definition surface_for_domain :: "string \<Rightarrow> string" where
  "surface_for_domain domain =
     (if domain = ''memory'' then ''memory'' else if domain = ''knowledge'' then ''knowledge'' else ''durability'')"

datatype conflict_status = Needs_review | Resolved

datatype deleted_side = Two_edits | Deleted_here | Deleted_there

record conflict_record =
  cr_entry :: string
  cr_entity :: string
  cr_surface :: string
  cr_ancestor :: string
  cr_local_sha :: string
  cr_remote_sha :: string
  cr_local :: row
  cr_remote :: row
  cr_at :: string
  cr_status :: conflict_status
  cr_deleted :: deleted_side

definition conflict_id :: "codec \<Rightarrow> conflict_record \<Rightarrow> string" where
  "conflict_id L c =
     take 16 (sha256 L (cr_entry c @ ''|'' @ cr_entity c @ ''|'' @ cr_ancestor c @ ''|'' @ cr_local_sha c @ ''|'' @ cr_remote_sha c))"

definition by_row_id :: "codec \<Rightarrow> row list \<Rightarrow> row dict" where
  "by_row_id L rs = fold (\<lambda>r m. if row_id L r \<noteq> [] then dict_set m (row_id L r) r else m) rs []"

definition edit_conflict :: "codec \<Rightarrow> state_entry \<Rightarrow> string dict \<Rightarrow> string \<Rightarrow> string \<Rightarrow> row \<Rightarrow> row \<Rightarrow> conflict_record option" where
  "edit_conflict L e ancestors now rid mine theirs =
     (let ancestor = (case map_of ancestors rid of None \<Rightarrow> [] | Some a \<Rightarrow> a);
          lsha = seen_sha L e mine; rsha = seen_sha L e theirs
      in if ancestor = [] then None
         else if lsha = rsha then None
         else if lsha = ancestor \<or> rsha = ancestor then None
         else Some \<lparr>cr_entry = se_id e, cr_entity = rid, cr_surface = surface_for_domain (se_domain e),
                    cr_ancestor = ancestor, cr_local_sha = lsha, cr_remote_sha = rsha,
                    cr_local = compared e mine, cr_remote = compared e theirs, cr_at = now,
                    cr_status = Needs_review, cr_deleted = Two_edits\<rparr>)"

definition detect_conflicts ::
  "codec \<Rightarrow> state_entry \<Rightarrow> row list \<Rightarrow> row list \<Rightarrow> string dict \<Rightarrow> string \<Rightarrow> conflict_record list" where
  "detect_conflicts L e local remote ancestors now =
     (if se_merge e \<notin> set ID_KEYED_MERGES then []
      else
        let here = by_row_id L local; there = by_row_id L remote
        in List.map_filter
             (\<lambda>rid. edit_conflict L e ancestors now rid (the (map_of here rid)) (the (map_of there rid)))
             (sort (filter (\<lambda>rid. map_of there rid \<noteq> None) (map fst here))))"

record weighed =
  wd_declined :: "string list"
  wd_applied :: "row dict"
  wd_moot :: "string list"
  wd_conflicts :: "conflict_record list"

text \<open>\<open>held_by_the_delete\<close>: the non-empty strings of the tombstone's list.\<close>

definition held_by_the_delete :: "row \<Rightarrow> string list" where
  "held_by_the_delete row =
     (case cfg_get row ''held'' of
        JList vs \<Rightarrow> List.map_filter (\<lambda>v. case v of JStr s \<Rightarrow> if s \<noteq> [] then Some s else None | _ \<Rightarrow> None) vs
      | _ \<Rightarrow> [])"

definition deleted_row :: "string \<Rightarrow> string \<Rightarrow> row" where
  "deleted_row rid moment = [(''id'', JStr rid), (''deleted_at'', JStr moment)]"

definition deletion_conflict ::
  "codec \<Rightarrow> state_entry \<Rightarrow> string \<Rightarrow> row \<Rightarrow> row \<Rightarrow> deleted_side \<Rightarrow> string \<Rightarrow> conflict_record" where
  "deletion_conflict L e rid mine theirs side now =
     \<lparr>cr_entry = se_id e, cr_entity = rid, cr_surface = surface_for_domain (se_domain e), cr_ancestor = [],
      cr_local_sha = row_sha L mine, cr_remote_sha = row_sha L theirs, cr_local = mine, cr_remote = theirs,
      cr_at = now, cr_status = Needs_review, cr_deleted = side\<rparr>"

text \<open>One row of the peer's, weighed.\<close>

definition weigh_row ::
  "codec \<Rightarrow> state_entry \<Rightarrow> row dict \<Rightarrow> deletion dict \<Rightarrow> string \<Rightarrow> row \<Rightarrow> weighed \<Rightarrow> weighed" where
  "weigh_row L e live removed now row w =
     (let rid = row_id L row in
      if rid = [] then w
      else if is_tombstone row then
        (case map_of live rid of
           None \<Rightarrow> w\<lparr>wd_moot := wd_moot w @ [rid]\<rparr>
         | Some here \<Rightarrow>
             if seen_sha L e here \<in> set (held_by_the_delete row)
             then w\<lparr>wd_applied := dict_set (wd_applied w) rid row\<rparr>
             else w\<lparr>wd_conflicts := wd_conflicts w @
               [deletion_conflict L e rid (compared e here)
                  (deleted_row rid (text_of (py_str L) (get_or row ''deleted_at'' (JStr []))))
                  Deleted_there now]\<rparr>)
      else
        (case map_of removed rid of
           None \<Rightarrow> w
         | Some mark \<Rightarrow>
             if map_of live rid \<noteq> None then w
             else if seen_sha L e row \<in> set (del_held mark) then w\<lparr>wd_declined := wd_declined w @ [rid]\<rparr>
             else w\<lparr>wd_conflicts := wd_conflicts w @
               [deletion_conflict L e rid (deleted_row rid (del_at mark)) (compared e row) Deleted_here now]\<rparr>))"

definition weigh_deletions ::
  "codec \<Rightarrow> state_entry \<Rightarrow> row dict \<Rightarrow> row list \<Rightarrow> deletion dict \<Rightarrow> string \<Rightarrow> weighed" where
  "weigh_deletions L e live remote removed now =
     (let none = \<lparr>wd_declined = [], wd_applied = [], wd_moot = [], wd_conflicts = []\<rparr> in
      if se_merge e \<notin> set ID_KEYED_MERGES then none
      else fold (weigh_row L e live removed now) (sort_key (row_id L) remote) none)"

text \<open>The queue: the records of \<^verbatim>\<open>sync/conflicts.jsonl\<close>, oldest first.\<close>

definition queue_record :: "codec \<Rightarrow> conflict_record \<Rightarrow> conflict_record list \<Rightarrow> conflict_record list \<times> bool" where
  "queue_record L c q =
     (if conflict_id L c \<in> conflict_id L ` set q then (q, False) else (q @ [c], True))"

fun queue_update :: "codec \<Rightarrow> conflict_record \<Rightarrow> conflict_record list \<Rightarrow> conflict_record list \<times> bool" where
  "queue_update L c [] = ([], False)"
| "queue_update L c (x # q) =
     (if conflict_id L x = conflict_id L c then (c # q, True)
      else case queue_update L c q of (q', found) \<Rightarrow> (x # q', found))"

definition held_ids :: "string \<Rightarrow> conflict_record list \<Rightarrow> string list" where
  "held_ids entry q = map cr_entity (filter (\<lambda>c. cr_entry c = entry \<and> cr_status c = Needs_review) q)"

section \<open>The reconcile of one entry\<close>

text \<open>\<open>versions[len(versions) - versions[::-1].index(agreed):]\<close>: what was published after \<open>agreed\<close>.\<close>

definition since :: "string \<Rightarrow> string list \<Rightarrow> string list" where
  "since agreed versions = rev (takeWhile (\<lambda>v. v \<noteq> agreed) (rev versions))"

definition in_common_row ::
  "codec \<Rightarrow> state_entry \<Rightarrow> string list dict \<Rightarrow> string dict \<Rightarrow> row \<Rightarrow> string dict \<times> string dict \<Rightarrow> string dict \<times> string dict" where
  "in_common_row L e publ agreed_there row st =
     (case st of (bases, handed_back) \<Rightarrow>
        if is_tombstone row then st
        else
          let rid = row_id L row; versions = family publ rid in
          case map_of bases rid of
            None \<Rightarrow> st
          | Some agreed \<Rightarrow>
              if agreed = [] \<or> agreed \<notin> set versions then st
              else
                let sha = seen_sha L e row in
                if sha \<in> set (since agreed versions)
                then (dict_set bases rid sha, dict_set handed_back rid sha)
                else case map_of agreed_there rid of
                       None \<Rightarrow> st
                     | Some there \<Rightarrow> if there \<in> set (since agreed versions) then (dict_set bases rid there, handed_back)
                                     else st)"

definition in_common ::
  "codec \<Rightarrow> state_entry \<Rightarrow> row list \<Rightarrow> string dict \<Rightarrow> string list dict \<Rightarrow> string dict \<Rightarrow> string dict \<times> string dict" where
  "in_common L e remote agreed publ agreed_there =
     fold (in_common_row L e publ agreed_there) remote (agreed, [])"

definition edited_there :: "state_entry \<Rightarrow> row \<Rightarrow> row \<Rightarrow> row" where
  "edited_there e here there =
     (let edited = forward (se_compared e) here there
      in case se_edit_arrives e of None \<Rightarrow> edited | Some f \<Rightarrow> f here edited)"

definition one_side_row ::
  "codec \<Rightarrow> state_entry \<Rightarrow> row dict \<Rightarrow> string dict \<Rightarrow> row \<Rightarrow> row dict \<times> string list \<Rightarrow> row dict \<times> string list" where
  "one_side_row L e here bases there st =
     (case st of (ahead, behind) \<Rightarrow>
        let rid = row_id L there in
        case (map_of here rid, map_of bases rid) of
          (Some mine, Some agreed) \<Rightarrow>
            if agreed = [] \<or> is_tombstone mine \<or> is_tombstone there then st
            else if seen_sha L e mine = seen_sha L e there then st
            else if seen_sha L e mine = agreed then (dict_set ahead rid (edited_there e mine there), behind)
            else if seen_sha L e there = agreed then (ahead, rid # behind)
            else st
        | _ \<Rightarrow> st)"

definition one_side_changed ::
  "codec \<Rightarrow> state_entry \<Rightarrow> row list \<Rightarrow> row list \<Rightarrow> string dict \<Rightarrow> row dict \<times> string list" where
  "one_side_changed L e local remote bases =
     (if bases = [] \<or> se_merge e \<notin> set ID_KEYED_MERGES then ([], [])
      else fold (one_side_row L e (by_row_id L local) bases) remote ([], []))"

definition as_they_arrive :: "state_entry \<Rightarrow> row list \<Rightarrow> row list" where
  "as_they_arrive e remote =
     (case se_arrives e of None \<Rightarrow> remote | Some f \<Rightarrow> map (\<lambda>r. if is_tombstone r then r else f r) remote)"

definition agreed_shas :: "codec \<Rightarrow> state_entry \<Rightarrow> row list \<Rightarrow> row list \<Rightarrow> string list \<Rightarrow> string dict" where
  "agreed_shas L e remote merged hold =
     (let remote_shas = fold (\<lambda>r m. if row_id L r \<noteq> [] \<and> \<not> is_tombstone r
                                   then dict_set m (row_id L r) (seen_sha L e r) else m) remote []
      in fold (\<lambda>r m. if row_id L r = [] \<or> row_id L r \<in> set hold \<or> is_tombstone r then m
                     else if map_of remote_shas (row_id L r) = Some (seen_sha L e r)
                          then dict_set m (row_id L r) (seen_sha L e r) else m) merged [])"

text \<open>\<open>_record_conflicts\<close>; no queue holds nothing.\<close>

definition record_conflicts ::
  "codec \<Rightarrow> state_entry \<Rightarrow> row list \<Rightarrow> row list \<Rightarrow> string dict \<Rightarrow> conflict_record list option \<Rightarrow> string \<Rightarrow>
   conflict_record list \<Rightarrow> string list \<times> nat \<times> conflict_record list option" where
  "record_conflicts L e local edits bases queue now deletions =
     (case queue of
        None \<Rightarrow> ([], 0, None)
      | Some q \<Rightarrow>
          let detected = detect_conflicts L e local edits bases now @ deletions;
              (recorded, q') = fold (\<lambda>c (n, q). case queue_record L c q of (q', new) \<Rightarrow> (if new then n + 1 else n, q'))
                                 detected (0, q)
          in (map cr_entity detected @ held_ids (se_id e) q', recorded, Some q'))"

text \<open>What a pull knows when it reconciles the rows of one peer.\<close>

record pull =
  pl_peer :: string
  pl_now :: string
  pl_history :: "string list dict"
  pl_deleted :: "deletion dict"
  pl_unknown :: "string \<Rightarrow> bool"

text \<open>\<open>removed_here\<close>: the records this home deleted, by its marks or by what it held and no longer holds.\<close>

definition removed_here :: "pull \<Rightarrow> string list \<Rightarrow> deletion dict" where
  "removed_here pl live =
     filter (\<lambda>(rid, m). rid \<notin> set live \<and> \<not> pl_unknown pl rid \<and> \<not> (del_by m \<noteq> [] \<and> del_by m = pl_peer pl)) (pl_deleted pl) @
     map (\<lambda>(rid, versions). (rid, \<lparr>del_at = pl_now pl, del_held = versions, del_by = []\<rparr>))
       (filter (\<lambda>(rid, versions). map_of (pl_deleted pl) rid = None \<and> rid \<notin> set live \<and> \<not> pl_unknown pl rid) (pl_history pl))"

record outcome =
  oc_rows :: "row list"
  oc_added :: nat
  oc_updated :: int
  oc_kept :: int
  oc_tombstoned :: nat
  oc_held :: "string list"
  oc_recorded :: nat
  oc_queue :: "conflict_record list option"
  oc_remote :: "row list"
  oc_live :: "string list"
  oc_applied :: "string list"
  oc_kept_deleted :: nat

text \<open>\<open>merge_into\<close>, the core of \<open>reconcile_entry\<close>.\<close>

definition merge_into ::
  "codec \<Rightarrow> state_entry \<Rightarrow> pull \<Rightarrow> string dict \<Rightarrow> conflict_record list option \<Rightarrow> row list \<Rightarrow> row list \<Rightarrow>
   decode_error + outcome" where
  "merge_into L e pl bases queue local remote =
     (let live = by_row_id L local;
          weighed = weigh_deletions L e live remote (removed_here pl (map fst live)) (pl_now pl);
          edits = filter (\<lambda>r. \<not> is_tombstone r) remote;
          (hold, recorded, queue') = record_conflicts L e local edits bases queue (pl_now pl) (wd_conflicts weighed);
          applied = map fst (wd_applied weighed) @
            (if queue = None then map cr_entity (filter (\<lambda>c. cr_deleted c = Deleted_there) (wd_conflicts weighed)) else []);
          dropped = hold @ wd_declined weighed @ wd_moot weighed;
          effective = filter (\<lambda>r. row_id L r \<notin> set dropped \<and> (row_id L r \<in> set applied \<or> \<not> is_tombstone r)) remote;
          (ahead, behind) = one_side_changed L e local effective bases;
          decided = map fst ahead @ behind;
          mine = map (\<lambda>r. case map_of ahead (row_id L r) of None \<Rightarrow> r | Some r' \<Rightarrow> r') local;
          theirs = as_they_arrive e (filter (\<lambda>r. row_id L r \<notin> set decided) effective)
      in case merge_rows (py_str L) (se_merge e) mine theirs ''id'' ''updated_at'' of
           Inl err \<Rightarrow> Inl err
         | Inr m \<Rightarrow> Inr
             \<lparr>oc_rows = rows m, oc_added = added m,
              oc_updated = int (updated m) + int (length ahead) - int (tombstoned m),
              oc_kept = int (kept m) - int (length ahead), oc_tombstoned = tombstoned m,
              oc_held = hold, oc_recorded = recorded, oc_queue = queue', oc_remote = effective,
              oc_live = map fst live, oc_applied = applied,
              oc_kept_deleted = length (remdups (filter (\<lambda>rid. rid \<notin> set hold) (wd_declined weighed)))\<rparr>)"

text \<open>
  \<open>reconcile_entry\<close> over rows read whole: what it ends on, what the two homes now agree on, and the deletes
  of the peer's that it took.
\<close>

record reconciled =
  rc_outcome :: outcome
  rc_ancestors :: "string dict"
  rc_deleted_there :: "deletion dict"

definition reconcile ::
  "codec \<Rightarrow> state_entry \<Rightarrow> pull \<Rightarrow> string dict \<Rightarrow> string list dict \<Rightarrow> string dict \<Rightarrow> conflict_record list option \<Rightarrow>
   row list \<Rightarrow> row list \<Rightarrow> decode_error + reconciled" where
  "reconcile L e pl agreed publ agreed_there queue local remote =
     (let (bases, handed_back) = in_common L e remote agreed publ agreed_there in
      case merge_into L e pl bases queue local remote of
        Inl err \<Rightarrow> Inl err
      | Inr oc \<Rightarrow>
          let by_id = fold (\<lambda>r m. dict_set m (row_id L r) r) (oc_remote oc) [];
              taken = remdups (filter (\<lambda>rid. rid \<notin> set (oc_held oc) \<and>
                        (case map_of by_id rid of None \<Rightarrow> False | Some r \<Rightarrow> is_tombstone r)) (oc_applied oc))
          in Inr \<lparr>rc_outcome = oc,
                  rc_ancestors = dict_update (filter (\<lambda>(rid, sha). rid \<notin> set (oc_held oc) \<and> rid \<in> set (oc_live oc)) handed_back)
                    (agreed_shas L e (oc_remote oc) (oc_rows oc) (oc_held oc)),
                  rc_deleted_there = map (\<lambda>rid. (rid,
                      \<lparr>del_at = pl_now pl, del_held = sort (remdups (held_by_the_delete (the (map_of by_id rid)))),
                       del_by = pl_peer pl\<rparr>)) (sort taken)\<rparr>)"

end
