(* ===== verification/MergeFacts.thy ===== *)
theory MergeFacts
  imports Merge
begin

text \<open>
  What the sync relies on in the merge. \<open>newest_wins\<close> is the contract of the pairwise choice: the version
  of the greater rank, this home's where they tie. Everything a person can say of a merged store follows
  from it and from the loops of \<^verbatim>\<open>merge_union_by_id\<close>: no id is lost, the newest version of each is kept, a
  second merge of the same rows changes nothing, and two homes that merge each other's rows end on the
  same ones.
\<close>

section \<open>The version of the greatest rank\<close>

locale newest_wins =
  fixes rank :: "'row \<Rightarrow> 'k :: linorder"
    and newer :: "'row \<Rightarrow> 'row \<Rightarrow> 'row"
  assumes newer: "newer mine theirs = (if rank mine < rank theirs then theirs else mine)"
begin

definition settle :: "'row list \<Rightarrow> 'row \<Rightarrow> 'row" where
  "settle versions start = fold (\<lambda>v cur. newer cur v) versions start"

lemma settle_mem: "settle vs s \<in> insert s (set vs)"
  unfolding settle_def by (induction vs arbitrary: s) (auto simp: newer split: if_splits)

lemma settle_rank: "x \<in> insert s (set vs) \<Longrightarrow> rank x \<le> rank (settle vs s)"
  unfolding settle_def
proof (induction vs arbitrary: s x)
  case (Cons v vs)
  have "rank s \<le> rank (newer s v)" "rank v \<le> rank (newer s v)" by (auto simp: newer)
  moreover have "rank (newer s v) \<le> rank (fold (\<lambda>v cur. newer cur v) vs (newer s v))"
    by (rule Cons.IH) simp
  ultimately show ?case using Cons by (auto intro: order_trans)
qed simp

lemma settle_stays: "(\<And>v. v \<in> set vs \<Longrightarrow> rank v \<le> rank s) \<Longrightarrow> settle vs s = s"
  unfolding settle_def by (induction vs) (auto simp: newer leD)

lemma settle_beats: "settle vs s \<noteq> s \<Longrightarrow> rank s < rank (settle vs s)"
proof (rule ccontr)
  assume moved: "settle vs s \<noteq> s" and "\<not> rank s < rank (settle vs s)"
  then have "rank v \<le> rank s" if "v \<in> set vs" for v
    using that settle_rank [of v s vs] by auto
  then show False using settle_stays moved by blast
qed

lemma settle_again: "settle vs (settle vs s) = settle vs s"
  by (rule settle_stays) (auto intro: settle_rank)

text \<open>Two sides that settle on each other's version agree, when versions of one rank are one version.\<close>

lemma settle_agree: "(rank a = rank b \<Longrightarrow> a = b) \<Longrightarrow> newer a b = newer b a"
  by (auto simp: newer)

end

text \<open>
  The rank of a row: a tombstone over a live row, the later delete over the earlier, and among live rows
  the greater last-write stamp, where the store has one.
\<close>

definition row_rank :: "(json \<Rightarrow> string) \<Rightarrow> string \<Rightarrow> row \<Rightarrow> bool \<times> string" where
  "row_rank py_str lww row =
     (is_tombstone row,
      if is_tombstone row then tomb_time py_str row else if lww \<noteq> [] then lww_key py_str lww row else [])"

interpretation versions: newest_wins "row_rank py_str lww" "resolve_pair py_str lww" for py_str lww
  by unfold_locales (auto simp: resolve_pair_def row_rank_def less_prod_def' Let_def)

section \<open>The loops of the union\<close>

text \<open>What the loops leave under one id: the last of this home's rows, then the peer's in turn.\<close>

lemma put_locals:
  "map_of (fold (put_local py_str) local m) rid =
     (case rev (filter (\<lambda>r. id_of py_str r = rid) local) of
        [] \<Rightarrow> map_of m rid | r # _ \<Rightarrow> Some (r, From_local))"
  by (induction local arbitrary: m rule: rev_induct) (auto simp: put_local_def)

definition met :: "(json \<Rightarrow> string) \<Rightarrow> string \<Rightarrow> row \<Rightarrow> (row \<times> origin) option \<Rightarrow> (row \<times> origin) option" where
  "met py_str lww row cell =
     (case cell of
        None \<Rightarrow> Some (row, From_remote)
      | Some (cur, og) \<Rightarrow>
          if resolve_pair py_str lww cur row \<noteq> cur then Some (resolve_pair py_str lww cur row, From_both)
          else Some (cur, og))"

lemma put_remote_at:
  "map_of (put_remote py_str lww row m) rid =
     (if id_of py_str row = rid then met py_str lww row (map_of m rid) else map_of m rid)"
  by (auto simp: put_remote_def met_def Let_def split: option.splits prod.splits)

lemma put_remotes:
  "map_of (fold (put_remote py_str lww) remote m) rid =
     fold (met py_str lww) (filter (\<lambda>r. id_of py_str r = rid) remote) (map_of m rid)"
  by (induction remote arbitrary: m) (auto simp: put_remote_at)

lemma met_some:
  "\<exists>og'. fold (met py_str lww) rs (Some (s, og)) = Some (versions.settle py_str lww rs s, og') \<and>
     (og' = og \<or> og' = From_both) \<and> (versions.settle py_str lww rs s = s \<longrightarrow> og' = og)"
proof (induction rs arbitrary: s og)
  case (Cons r rs)
  let ?n = "resolve_pair py_str lww s r"
  show ?case
  proof (cases "?n = s")
    case True
    then show ?thesis using Cons [of s og] by (simp add: met_def versions.settle_def)
  next
    case False
    then have "row_rank py_str lww s < row_rank py_str lww ?n" by (auto simp: versions.newer split: if_splits)
    also have "\<dots> \<le> row_rank py_str lww (versions.settle py_str lww rs ?n)"
      by (rule versions.settle_rank) simp
    finally have "versions.settle py_str lww rs ?n \<noteq> s" by auto
    then show ?thesis using Cons [of ?n From_both] False by (auto simp: met_def versions.settle_def)
  qed
qed (simp add: versions.settle_def)

lemma met_not_none: "fold (met py_str lww) rs (Some c) \<noteq> None"
  using met_some [of py_str lww rs "fst c" "snd c"] by auto

definition merged_map :: "(json \<Rightarrow> string) \<Rightarrow> string \<Rightarrow> row list \<Rightarrow> row list \<Rightarrow> (string \<times> row \<times> origin) list" where
  "merged_map py_str lww local remote =
     fold (put_remote py_str lww) remote (fold (put_local py_str) local [])"

text \<open>Where each entry of the union comes from.\<close>

lemma merged_at:
  "map_of (merged_map py_str lww local remote) rid =
     (case rev (filter (\<lambda>r. id_of py_str r = rid) local) of
        mine # _ \<Rightarrow> fold (met py_str lww) (filter (\<lambda>r. id_of py_str r = rid) remote) (Some (mine, From_local))
      | [] \<Rightarrow> (case filter (\<lambda>r. id_of py_str r = rid) remote of
                 [] \<Rightarrow> None
               | first # others \<Rightarrow> fold (met py_str lww) others (Some (first, From_remote))))"
  by (auto simp: merged_map_def put_remotes put_locals met_def split: list.splits)

lemma put_distinct:
  "distinct (map fst m) \<Longrightarrow> distinct (map fst (put_local py_str row m))"
  "distinct (map fst m) \<Longrightarrow> distinct (map fst (put_remote py_str lww row m))"
  by (auto simp: put_local_def put_remote_def Let_def split: option.splits prod.splits)

lemma merged_distinct: "distinct (map fst (merged_map py_str lww local remote))"
  unfolding merged_map_def
  by (rule fold_preserves [where P = "\<lambda>m. distinct (map fst m)"],
      rule fold_preserves [where P = "\<lambda>m. distinct (map fst m)"]) (simp_all add: put_distinct)

lemma merged_ids:
  "rid \<in> set (map fst (merged_map py_str lww local remote)) \<longleftrightarrow>
     rid \<in> id_of py_str ` set local \<union> id_of py_str ` set remote"
proof -
  have "map_of (merged_map py_str lww local remote) rid = None \<longleftrightarrow>
      filter (\<lambda>r. id_of py_str r = rid) local = [] \<and> filter (\<lambda>r. id_of py_str r = rid) remote = []"
    by (auto simp: merged_at met_not_none split: list.splits)
  then show ?thesis by (auto simp: map_of_eq_None_iff filter_empty_conv)
qed

text \<open>The row under an id, the last of this home's or the first of the peer's, settled.\<close>

lemma merged_row:
  assumes "map_of (merged_map py_str lww local remote) rid = Some (row, og)"
  obtains start others where "row = versions.settle py_str lww others start"
    and "set others \<subseteq> set (filter (\<lambda>r. id_of py_str r = rid) remote)"
    and "set (filter (\<lambda>r. id_of py_str r = rid) remote) \<subseteq> insert start (set others)"
    and "start \<in> set (filter (\<lambda>r. id_of py_str r = rid) (local @ remote))"
    and "filter (\<lambda>r. id_of py_str r = rid) local \<noteq> [] \<Longrightarrow>
         start = last (filter (\<lambda>r. id_of py_str r = rid) local) \<and> (row = start \<longrightarrow> og = From_local)"
proof -
  let ?mine = "filter (\<lambda>r. id_of py_str r = rid) local"
  let ?theirs = "filter (\<lambda>r. id_of py_str r = rid) remote"
  show thesis
  proof (cases "rev ?mine")
    case Nil
    then have "?mine = []" by simp
    then obtain first others where theirs: "?theirs = first # others"
      and "fold (met py_str lww) others (Some (first, From_remote)) = Some (row, og)"
      using assms unfolding merged_at by (auto split: list.splits)
    then have "row = versions.settle py_str lww others first"
      using met_some [of py_str lww others first From_remote] by auto
    then show thesis using theirs \<open>?mine = []\<close> by (intro that) auto
  next
    case (Cons mine rest)
    then have last: "?mine \<noteq> []" "mine = last ?mine" by (auto simp: hd_rev [symmetric])
    have run: "fold (met py_str lww) ?theirs (Some (mine, From_local)) = Some (row, og)"
      using assms Cons unfolding merged_at by simp
    have row: "row = versions.settle py_str lww ?theirs mine" and "row = mine \<longrightarrow> og = From_local"
      using met_some [of py_str lww ?theirs mine From_local] run by auto
    moreover have "mine \<in> set ?mine" using last last_in_set by metis
    ultimately show thesis using last by (intro that [of ?theirs mine]) auto
  qed
qed

lemma merged_row_id: "map_of (merged_map py_str lww local remote) rid = Some (row, og) \<Longrightarrow> id_of py_str row = rid"
proof (erule merged_row)
  fix start others
  assume row: "row = versions.settle py_str lww others start"
    and others: "set others \<subseteq> set (filter (\<lambda>r. id_of py_str r = rid) remote)"
    and start: "start \<in> set (filter (\<lambda>r. id_of py_str r = rid) (local @ remote))"
  have "row \<in> insert start (set others)" unfolding row by (rule versions.settle_mem)
  then show ?thesis using others start by auto
qed

lemma merge_rows_map:
  "rows (merge_union_by_id py_str lww local remote) =
     map (\<lambda>rid. fst (the (map_of (merged_map py_str lww local remote) rid)))
       (sort (map fst (merged_map py_str lww local remote)))"
  by (simp add: merge_union_by_id_def tally_def merged_map_def Let_def comp_def)

lemma in_merge_rows:
  "row \<in> set (rows (merge_union_by_id py_str lww local remote)) \<longleftrightarrow>
     (\<exists>og. map_of (merged_map py_str lww local remote) (id_of py_str row) = Some (row, og))"
proof
  assume "row \<in> set (rows (merge_union_by_id py_str lww local remote))"
  then obtain rid where rid: "rid \<in> set (map fst (merged_map py_str lww local remote))"
    "row = fst (the (map_of (merged_map py_str lww local remote) rid))"
    by (auto simp: merge_rows_map)
  then obtain og where at: "map_of (merged_map py_str lww local remote) rid = Some (row, og)"
    by (cases "map_of (merged_map py_str lww local remote) rid") (auto simp: map_of_eq_None_iff)
  then show "\<exists>og. map_of (merged_map py_str lww local remote) (id_of py_str row) = Some (row, og)"
    using merged_row_id [OF at] by auto
next
  assume "\<exists>og. map_of (merged_map py_str lww local remote) (id_of py_str row) = Some (row, og)"
  then obtain og where at: "map_of (merged_map py_str lww local remote) (id_of py_str row) = Some (row, og)" ..
  then have "id_of py_str row \<in> set (map fst (merged_map py_str lww local remote))"
    by (metis domI dom_map_of_conv_image_fst list.set_map)
  moreover have "row = fst (the (map_of (merged_map py_str lww local remote) (id_of py_str row)))"
    using at by simp
  ultimately show "row \<in> set (rows (merge_union_by_id py_str lww local remote))"
    unfolding merge_rows_map by auto
qed

lemma merged_keys_sorted:
  "sort (map fst (merged_map py_str lww local remote)) =
     sorted_list_of_set (id_of py_str ` set local \<union> id_of py_str ` set remote)"
  (is "sort ?ids = _")
proof -
  have "set ?ids = id_of py_str ` set local \<union> id_of py_str ` set remote"
    using merged_ids [of _ py_str lww local remote] by (intro set_eqI) simp
  then show ?thesis by (metis merged_distinct sorted_list_of_set_sort_remdups distinct_remdups_id)
qed

lemma merged_cell:
  assumes "rid \<in> set (map fst (merged_map py_str lww local remote))"
  obtains row og where "map_of (merged_map py_str lww local remote) rid = Some (row, og)" and "id_of py_str row = rid"
proof -
  have "map_of (merged_map py_str lww local remote) rid \<noteq> None"
    using assms unfolding map_of_eq_None_iff by simp
  then obtain row og where "map_of (merged_map py_str lww local remote) rid = Some (row, og)" by auto
  then show thesis using merged_row_id that by blast
qed

lemma merge_rows_ids:
  "map (id_of py_str) (rows (merge_union_by_id py_str lww local remote)) =
     sort (map fst (merged_map py_str lww local remote))"
proof -
  have "id_of py_str (fst (the (map_of (merged_map py_str lww local remote) rid))) = rid"
    if "rid \<in> set (sort (map fst (merged_map py_str lww local remote)))" for rid
  proof -
    from that have "rid \<in> set (map fst (merged_map py_str lww local remote))" by simp
    then show ?thesis by (rule merged_cell) simp
  qed
  then show ?thesis unfolding merge_rows_map map_map comp_def by (rule map_idI)
qed

lemma origin_counts:
  "length (filter (\<lambda>(_, og). og = From_remote) xs) + length (filter (\<lambda>(_, og). og = From_both) xs)
     + length (filter (\<lambda>(_, og). og = From_local) xs) = length xs"
proof (induction xs)
  case (Cons x xs)
  then show ?case by (cases "snd x") (auto simp: case_prod_beta)
qed simp

lemma tally_counts: "added (tally m) + updated (tally m) + kept (tally m) = length (rows (tally m))"
  unfolding tally_def Let_def merge_result.simps
  using origin_counts [of "map (\<lambda>rid. the (map_of m rid)) (sort (map fst m))"] by (simp only: length_map)

section \<open>What the merge promises\<close>

text \<open>
  A merge loses no record and invents none: the merged store holds exactly one row for every id that
  either side has, in the order of the ids, and each of its rows is counted as added, updated or kept.
\<close>

theorem merge_keeps_every_id:
  "let m = merge_union_by_id py_str lww local remote in
     map (id_of py_str) (rows m) = sorted_list_of_set (id_of py_str ` set local \<union> id_of py_str ` set remote) \<and>
     added m + updated m + kept m = length (rows m)"
proof -
  have "map (id_of py_str) (rows (merge_union_by_id py_str lww local remote)) =
      sorted_list_of_set (id_of py_str ` set local \<union> id_of py_str ` set remote)"
    by (simp add: merge_rows_ids merged_keys_sorted)
  then show ?thesis
    using tally_counts by (simp add: merge_union_by_id_def Let_def)
qed

lemma merged_rank:
  assumes "row \<in> set (rows (merge_union_by_id py_str lww local remote))"
  shows "row \<in> set local \<union> set remote"
    and "r \<in> set remote \<Longrightarrow> id_of py_str r = id_of py_str row \<Longrightarrow> row_rank py_str lww r \<le> row_rank py_str lww row"
    and "filter (\<lambda>r. id_of py_str r = id_of py_str row) local \<noteq> [] \<Longrightarrow>
      row = last (filter (\<lambda>r. id_of py_str r = id_of py_str row) local) \<or>
      row_rank py_str lww (last (filter (\<lambda>r. id_of py_str r = id_of py_str row) local)) < row_rank py_str lww row"
proof -
  obtain og where cell: "map_of (merged_map py_str lww local remote) (id_of py_str row) = Some (row, og)"
    using assms unfolding in_merge_rows by blast
  from cell obtain start others where row: "row = versions.settle py_str lww others start"
    and sub: "set others \<subseteq> set (filter (\<lambda>r. id_of py_str r = id_of py_str row) remote)"
    and all: "set (filter (\<lambda>r. id_of py_str r = id_of py_str row) remote) \<subseteq> insert start (set others)"
    and start: "start \<in> set (filter (\<lambda>r. id_of py_str r = id_of py_str row) (local @ remote))"
    and mine: "filter (\<lambda>r. id_of py_str r = id_of py_str row) local \<noteq> [] \<Longrightarrow>
         start = last (filter (\<lambda>r. id_of py_str r = id_of py_str row) local)"
    by (rule merged_row) blast
  have "row \<in> insert start (set others)" unfolding row by (rule versions.settle_mem)
  then show "row \<in> set local \<union> set remote" using sub start by auto
  show "row_rank py_str lww r \<le> row_rank py_str lww row"
    if "r \<in> set remote" "id_of py_str r = id_of py_str row"
  proof -
    have "r \<in> insert start (set others)" using that all by auto
    then show ?thesis unfolding row by (rule versions.settle_rank)
  qed
  show "row = last (filter (\<lambda>r. id_of py_str r = id_of py_str row) local) \<or>
      row_rank py_str lww (last (filter (\<lambda>r. id_of py_str r = id_of py_str row) local)) < row_rank py_str lww row"
    if "filter (\<lambda>r. id_of py_str r = id_of py_str row) local \<noteq> []"
    using versions.settle_beats [of py_str lww others start] mine [OF that] row by metis
qed

text \<open>
  The row a merge keeps is the newest version of the record: it is one of the versions it was given, no
  version of either side outranks it (a delete outranks a live row, a later stamp an earlier one), and this
  home's own row gives way only to a version that strictly outranks it. So a delete on either side survives.
\<close>

theorem merge_keeps_the_newest:
  assumes "row \<in> set (rows (merge_union_by_id py_str lww local remote))" and "distinct (map (id_of py_str) local)"
  shows "row \<in> set local \<union> set remote \<and>
     (\<forall>v \<in> set local \<union> set remote. id_of py_str v = id_of py_str row \<longrightarrow>
        row_rank py_str lww v \<le> row_rank py_str lww row \<and> (is_tombstone v \<longrightarrow> is_tombstone row)) \<and>
     (\<forall>v \<in> set local. id_of py_str v = id_of py_str row \<longrightarrow>
        row = v \<or> row_rank py_str lww v < row_rank py_str lww row)"
proof -
  have mine: "row = v \<or> row_rank py_str lww v < row_rank py_str lww row"
    if "v \<in> set local" "id_of py_str v = id_of py_str row" for v
  proof -
    have "filter (\<lambda>r. id_of py_str r = id_of py_str row) local = [v]"
      using filter_one_key [OF assms(2) that(1)] that(2) by simp
    then show ?thesis using merged_rank(3) [OF assms(1)] by simp
  qed
  have rank: "row_rank py_str lww v \<le> row_rank py_str lww row"
    if "v \<in> set local \<union> set remote" "id_of py_str v = id_of py_str row" for v
    using that mine merged_rank(2) [OF assms(1)] by fastforce
  have "is_tombstone row" if "row_rank py_str lww v \<le> row_rank py_str lww row" "is_tombstone v" for v
    using that by (auto simp: row_rank_def less_eq_prod_def)
  then show ?thesis using merged_rank(1) [OF assms(1)] mine rank by blast
qed

definition str_of_none :: "json \<Rightarrow> string" where
  "str_of_none v = ''None''"

definition live_row :: "string \<Rightarrow> string \<Rightarrow> row" where
  "live_row rid stamp = [(''id'', JStr rid), (''updated_at'', JStr stamp)]"

definition dead_row :: "string \<Rightarrow> string \<Rightarrow> row" where
  "dead_row rid stamp = [(''id'', JStr rid), (''deleted_at'', JStr stamp)]"

lemma sample_rows [simp]:
  "id_of str_of_none (live_row rid s) = rid" "id_of str_of_none (dead_row rid s) = rid"
  "s \<noteq> [] \<Longrightarrow> row_rank str_of_none ''updated_at'' (live_row rid s) = (False, s)"
  "s \<noteq> [] \<Longrightarrow> row_rank str_of_none ''updated_at'' (dead_row rid s) = (True, s)"
  by (simp_all add: live_row_def dead_row_def id_of_def get_or_def row_rank_def is_tombstone_def field_of_def
      lww_key_def tomb_time_def cfg_get_def)

lemma merge_keeps_the_newest_witness:
  "rows (merge_union_by_id str_of_none ''updated_at'' [live_row ''a'' ''5''] [dead_row ''a'' ''3'']) =
     [dead_row ''a'' ''3''] \<and>
   row_rank str_of_none ''updated_at'' (live_row ''a'' ''5'') < row_rank str_of_none ''updated_at'' (dead_row ''a'' ''3'')"
proof -
  have eval: "rows (merge_union_by_id str_of_none ''updated_at'' [live_row ''a'' ''5''] [dead_row ''a'' ''3'']) =
      [dead_row ''a'' ''3'']" by code_simp
  then have "dead_row ''a'' ''3'' = live_row ''a'' ''5'' \<or>
      row_rank str_of_none ''updated_at'' (live_row ''a'' ''5'') < row_rank str_of_none ''updated_at'' (dead_row ''a'' ''3'')"
    using merge_keeps_the_newest [of "dead_row ''a'' ''3''" str_of_none "''updated_at''" "[live_row ''a'' ''5'']"
        "[dead_row ''a'' ''3'']"] by simp
  then show ?thesis using eval by (simp add: live_row_def dead_row_def)
qed

text \<open>
  A merge of unchanged state is a no-op: merging the same peer rows into the merged store again gives
  the same rows, with nothing added and nothing updated, which is what lets the sync cycle retry freely.
\<close>

theorem remerge_is_a_no_op:
  "let once = merge_union_by_id py_str lww local remote;
       twice = merge_union_by_id py_str lww (rows once) remote
   in rows twice = rows once \<and> added twice = 0 \<and> updated twice = 0"
proof -
  let ?once = "merge_union_by_id py_str lww local remote"
  let ?m = "merged_map py_str lww local remote" and ?m' = "merged_map py_str lww (rows ?once) remote"
  have cell: "map_of ?m' rid = Some (fst (the (map_of ?m rid)), From_local)" if "rid \<in> set (map fst ?m)" for rid
  proof -
    obtain row og where at: "map_of ?m rid = Some (row, og)" and rid: "id_of py_str row = rid"
      using \<open>rid \<in> set (map fst ?m)\<close> by (rule merged_cell)
    have row: "row \<in> set (rows ?once)" unfolding in_merge_rows rid using at by blast
    have "distinct (map (id_of py_str) (rows ?once))" by (simp add: merge_rows_ids merged_distinct)
    then have "filter (\<lambda>r. id_of py_str r = rid) (rows ?once) = [row]"
      using filter_one_key [of "id_of py_str" _ row] row rid by blast
    then have "map_of ?m' rid = fold (met py_str lww) (filter (\<lambda>r. id_of py_str r = rid) remote) (Some (row, From_local))"
      by (simp add: merged_at)
    moreover have "versions.settle py_str lww (filter (\<lambda>r. id_of py_str r = rid) remote) row = row"
      by (rule versions.settle_stays) (use merged_rank(2) [OF row] rid in auto)
    ultimately show ?thesis
      using met_some [of py_str lww "filter (\<lambda>r. id_of py_str r = rid) remote" row From_local] at by auto
  qed
  have ids: "sort (map fst ?m') = sort (map fst ?m)"
  proof -
    have "id_of py_str ` set (rows ?once) = set (map (id_of py_str) (rows ?once))" by simp
    also have "\<dots> = id_of py_str ` set local \<union> id_of py_str ` set remote"
      unfolding merge_rows_ids set_sort using merged_ids by blast
    finally show ?thesis by (simp add: merged_keys_sorted Un_assoc)
  qed
  let ?settled = "map (\<lambda>rid. the (map_of ?m' rid)) (sort (map fst ?m))"
  have "?settled = map (\<lambda>rid. (fst (the (map_of ?m rid)), From_local)) (sort (map fst ?m))"
    using cell by (intro map_cong) simp_all
  then have "rows (tally ?m') = rows ?once" and "added (tally ?m') = 0" and "updated (tally ?m') = 0"
    unfolding tally_def Let_def ids by (simp_all add: merge_rows_map comp_def filter_empty_conv)
  then show ?thesis by (simp add: merge_union_by_id_def [of py_str lww "rows ?once"] merged_map_def [symmetric])
qed

text \<open>
  Two homes that take in each other's rows end on the same store: when no two versions of one record
  tie in rank without being the same, it does not matter which of the two homes merges.
\<close>

theorem homes_converge:
  assumes "distinct (map (id_of py_str) here)" and "distinct (map (id_of py_str) there)"
    and ties: "\<And>a b. a \<in> set here \<Longrightarrow> b \<in> set there \<Longrightarrow> id_of py_str a = id_of py_str b \<Longrightarrow>
      row_rank py_str lww a = row_rank py_str lww b \<Longrightarrow> a = b"
  shows "rows (merge_union_by_id py_str lww here there) = rows (merge_union_by_id py_str lww there here)"
proof -
  have ids: "sort (map fst (merged_map py_str lww here there)) = sort (map fst (merged_map py_str lww there here))"
    by (simp add: merged_keys_sorted Un_commute)
  have one: "filter (\<lambda>r. id_of py_str r = rid) xs = [] \<or> (\<exists>x \<in> set xs. filter (\<lambda>r. id_of py_str r = rid) xs = [x] \<and> id_of py_str x = rid)"
    if "distinct (map (id_of py_str) xs)" for xs rid
  proof (cases "filter (\<lambda>r. id_of py_str r = rid) xs")
    case (Cons x zs)
    then have "x \<in> set xs" "id_of py_str x = rid" by (auto dest: filter_eq_ConsD)
    then show ?thesis using filter_one_key [OF that, of x] by auto
  qed simp
  have "fst (the (map_of (merged_map py_str lww here there) rid)) = fst (the (map_of (merged_map py_str lww there here) rid))"
    for rid
  proof -
    consider "filter (\<lambda>r. id_of py_str r = rid) here = []" | "filter (\<lambda>r. id_of py_str r = rid) there = []"
      | a b where "filter (\<lambda>r. id_of py_str r = rid) here = [a]" "filter (\<lambda>r. id_of py_str r = rid) there = [b]"
        "a \<in> set here" "b \<in> set there" "id_of py_str a = rid" "id_of py_str b = rid"
      using one [OF assms(1), of rid] one [OF assms(2), of rid] by blast
    then show ?thesis
    proof cases
      case 1
      then show ?thesis using one [OF assms(2), of rid] by (auto simp: merged_at)
    next
      case 2
      then show ?thesis using one [OF assms(1), of rid] by (auto simp: merged_at)
    next
      case 3
      have "resolve_pair py_str lww a b = resolve_pair py_str lww b a"
        by (rule versions.settle_agree) (use 3 ties in simp)
      then show ?thesis using 3 by (simp add: merged_at met_def)
    qed
  qed
  then show ?thesis by (simp add: merge_rows_map ids)
qed

lemma homes_converge_witness:
  "rows (merge_union_by_id str_of_none ''updated_at'' [live_row ''a'' ''5''] [live_row ''a'' ''7'', live_row ''b'' ''1'']) =
   rows (merge_union_by_id str_of_none ''updated_at'' [live_row ''a'' ''7'', live_row ''b'' ''1''] [live_row ''a'' ''5''])"
proof (rule homes_converge)
  fix a b
  assume "a \<in> set [live_row ''a'' ''5'']" "b \<in> set [live_row ''a'' ''7'', live_row ''b'' ''1'']"
    "id_of str_of_none a = id_of str_of_none b"
    "row_rank str_of_none ''updated_at'' a = row_rank str_of_none ''updated_at'' b"
  then show "a = b" by (simp only: list.set insert_iff empty_iff, elim disjE FalseE) simp_all
qed simp_all

section \<open>Append-only streams\<close>

lemma append_new_fold:
  "\<exists>seen' new. fold (append_new py_str key) rs (seen, out) = (seen', out @ new) \<and>
     set seen' = set seen \<union> {k. \<exists>r \<in> set rs. dedup_key py_str key r = Some k} \<and>
     set seen' = set seen \<union> {k. \<exists>r \<in> set new. dedup_key py_str key r = Some k}"
proof (induction rs arbitrary: seen out)
  case (Cons r rs)
  show ?case
  proof (cases "dedup_key py_str key r")
    case None
    then show ?thesis using Cons [of seen "out @ [r]"] by (fastforce simp: append_new_def)
  next
    case (Some k)
    show ?thesis
    proof (cases "k \<in> set seen")
      case True
      then show ?thesis using Some Cons [of seen out] by (fastforce simp: append_new_def)
    next
      case False
      then show ?thesis using Some Cons [of "k # seen" "out @ [r]"] by (fastforce simp: append_new_def)
    qed
  qed
qed simp

lemma append_known:
  assumes "\<And>r k. r \<in> set rs \<Longrightarrow> dedup_key py_str key r = Some k \<Longrightarrow> k \<in> set seen"
  shows "fold (append_new py_str key) rs (seen, out) = (seen, out @ filter (\<lambda>r. dedup_key py_str key r = None) rs)"
  using assms
proof (induction rs arbitrary: out)
  case (Cons r rs)
  have rest: "fold (append_new py_str key) rs (seen, w) = (seen, w @ filter (\<lambda>r. dedup_key py_str key r = None) rs)"
    for w by (rule Cons.IH) (use Cons.prems in auto)
  show ?case
  proof (cases "dedup_key py_str key r")
    case None
    then have "append_new py_str key r (seen, out) = (seen, out @ [r])" by (simp add: append_new_def)
    then show ?thesis using None rest by simp
  next
    case (Some k)
    then have "append_new py_str key r (seen, out) = (seen, out)"
      using Cons.prems [of r k] by (simp add: append_new_def)
    then show ?thesis using Some rest by simp
  qed
qed simp

lemma set_map_filter: "set (List.map_filter f xs) = {y. \<exists>x \<in> set xs. f x = Some y}"
  by (induction xs) (auto simp: List.map_filter_simps split: option.splits)

text \<open>
  Importing a peer's append-only stream keeps this home's stream as it is, in front, and importing the
  same stream again appends exactly the rows that carry no key, every time once more.
\<close>

theorem reimport_appends_only_keyless:
  "let once = merge_append_dedup py_str key local remote;
       twice = merge_append_dedup py_str key (rows once) remote
   in prefix local (rows once) \<and>
      rows twice = rows once @ filter (\<lambda>r. dedup_key py_str key r = None) remote"
proof -
  let ?once = "merge_append_dedup py_str key local remote"
  let ?seen = "List.map_filter (dedup_key py_str key) local"
  obtain seen new where new: "fold (append_new py_str key) remote (?seen, []) = (seen, new)"
    "set seen = set ?seen \<union> {k. \<exists>r \<in> set remote. dedup_key py_str key r = Some k}"
    "set seen = set ?seen \<union> {k. \<exists>r \<in> set new. dedup_key py_str key r = Some k}"
    using append_new_fold [of py_str key remote ?seen "[]"] by auto
  have once: "rows ?once = local @ new" by (simp add: merge_append_dedup_def new(1))
  have "set (List.map_filter (dedup_key py_str key) (rows ?once)) = set seen"
    unfolding once new(3) by (auto simp: set_map_filter)
  then have "k \<in> set (List.map_filter (dedup_key py_str key) (rows ?once))"
    if "r \<in> set remote" "dedup_key py_str key r = Some k" for r k
    using that new(2) by auto
  then have "fold (append_new py_str key) remote (List.map_filter (dedup_key py_str key) (rows ?once), []) =
      (List.map_filter (dedup_key py_str key) (rows ?once), filter (\<lambda>r. dedup_key py_str key r = None) remote)"
    by (subst append_known) auto
  then show ?thesis using once by (simp add: merge_append_dedup_def Let_def)
qed

section \<open>Taking a peer's edit in\<close>

lemma forward_key_at:
  "map_of (forward_key mine theirs key out) k =
     (if k = key then map_of (forward_key mine theirs k out) k else map_of out k)"
  by (auto simp: forward_key_def split: option.splits)

lemma forward_keys:
  "k \<in> set (map fst m @ filter (\<lambda>k. k \<notin> set (map fst m)) (map fst t)) \<longleftrightarrow> map_of m k \<noteq> None \<or> map_of t k \<noteq> None"
  by (auto simp: map_of_eq_None_iff)

lemma forward_keys_at:
  "map_of (fold (forward_key mine theirs) keys out) k =
     (if k \<in> set keys
      then (case map_of theirs k of
              None \<Rightarrow> None
            | Some v \<Rightarrow> (case map_of mine k of Some u \<Rightarrow> if json_eq u v then map_of out k else Some v | None \<Rightarrow> Some v))
      else map_of out k)"
  by (induction keys arbitrary: out) (auto simp: forward_key_def split: option.splits)

lemma forward_keys_still:
  assumes "\<And>k. k \<in> set keys \<Longrightarrow> map_of out k =
      (case map_of theirs k of
         None \<Rightarrow> None
       | Some v \<Rightarrow> (case map_of mine k of Some u \<Rightarrow> if json_eq u v then map_of out k else Some v | None \<Rightarrow> Some v))"
  shows "fold (forward_key mine theirs) keys out = out"
proof -
  have "forward_key mine theirs k out = out" if "k \<in> set keys" for k
    using assms [OF that] by (auto simp: forward_key_def dict_set_same dict_del_absent split: option.splits if_splits)
  then show ?thesis by (induction keys) auto
qed

lemma project_lookup: "map_of (filter (\<lambda>(k, v). K k) d) k = (if K k then map_of d k else None)"
  by (induction d) auto

text \<open>
  A peer's edit taken in: of what two homes compare of a row, every key has the peer's value (or one
  Python calls equal to it) and a key the peer dropped is gone; what is one home's stays exactly as it is;
  and taking the same edit in again changes nothing.
\<close>

theorem forward_takes_the_edit:
  assumes "compared = Some (filter (\<lambda>(k, v). K k))"
  shows "(if K k then (case map_of there k of
              None \<Rightarrow> map_of (forward compared here there) k = None
            | Some v \<Rightarrow> \<exists>u. map_of (forward compared here there) k = Some u \<and> (u = v \<or> json_eq u v))
          else map_of (forward compared here there) k = map_of here k)
    \<and> forward compared (forward compared here there) there = forward compared here there"
proof -
  let ?out = "forward compared here there"
  have out: "map_of ?out k =
      (if K k then (case map_of there k of
          None \<Rightarrow> None
        | Some v \<Rightarrow> (case map_of here k of Some u \<Rightarrow> if json_eq u v then Some u else Some v | None \<Rightarrow> Some v))
       else map_of here k)" for k
    unfolding forward_def Let_def assms option.case forward_keys_at forward_keys project_lookup
    by (auto split: option.splits)
  define part where "part = filter (\<lambda>(k :: string, v :: json). K k)"
  have eq: "forward compared ?out there = fold (forward_key (part ?out) (part there))
      (map fst (part ?out) @ filter (\<lambda>k. k \<notin> set (map fst (part ?out))) (map fst (part there))) ?out"
    unfolding forward_def [of compared ?out there] Let_def part_def by (simp only: assms option.case)
  have part: "map_of (part d) k = (if K k then map_of d k else None)" for d k
    unfolding part_def by (rule project_lookup)
  have "forward compared ?out there = ?out"
    unfolding eq
  proof (rule forward_keys_still)
    fix k
    assume "k \<in> set (map fst (part ?out) @ filter (\<lambda>k. k \<notin> set (map fst (part ?out))) (map fst (part there)))"
    then have "K k" unfolding forward_keys by (simp add: part split: if_splits)
    then show "map_of ?out k =
        (case map_of (part there) k of
           None \<Rightarrow> None
         | Some v \<Rightarrow> (case map_of (part ?out) k of Some u \<Rightarrow> if json_eq u v then map_of ?out k else Some v | None \<Rightarrow> Some v))"
      using out [of k] by (auto simp: part split: option.splits if_splits)
  qed
  then show ?thesis using out [of k] by (auto split: option.splits)
qed

lemma forward_takes_the_edit_witness:
  "map_of (forward (Some (filter (\<lambda>(k, v). k = ''text''))) [(''text'', JStr ''old''), (''on'', JBool True)]
       [(''text'', JStr ''new''), (''on'', JBool False)]) ''on'' = Some (JBool True)"
  using forward_takes_the_edit [OF refl, of "\<lambda>k. k = ''text''" "''on''"] by simp

text \<open>
  A peer's edit that only retypes a value is not carried: \<open>1\<close> and \<open>true\<close> are equal to Python and differ
  in the bytes the two homes compare, so this home keeps \<open>1\<close> and its row goes on differing from the peer's.
\<close>

theorem retyped_value_is_not_carried:
  "let here = [(''id'', JStr ''a''), (''v'', JInt 1)]; there = [(''id'', JStr ''a''), (''v'', JBool True)]
   in here \<noteq> there \<and> forward None here there = here"
  by code_simp

end
