(* ===== verification/SyncFacts.thy ===== *)
theory SyncFacts
  imports Sync MergeFacts
begin

text \<open>
  What a sync promises of each record: the three-way merge takes the edit of the side that made it, holds
  what both sides edited for a person, never brings back what was deleted here and never drops an edit a
  delete did not see. Each loop of the code is first read at one record (\<open>fold_at_key\<close>).
\<close>

section \<open>Rows by id\<close>

lemma ids_match [simp]: "id_of (py_str L) = row_id L"
  by (simp add: row_id_def fun_eq_iff)

lemma by_row_id_at:
  "map_of (by_row_id L rs) k =
     (if k = [] then None else case rev (filter (\<lambda>r. row_id L r = k) rs) of [] \<Rightarrow> None | r # _ \<Rightarrow> Some r)"
proof (cases "k = []")
  case True
  then have "map_of (by_row_id L rs) k = fold (\<lambda>_ v. v) (filter (\<lambda>r. row_id L r = k) rs) (map_of [] k)"
    unfolding by_row_id_def by (intro fold_at_key [where view = "\<lambda>m. map_of m k"]) auto
  moreover have "fold (\<lambda>_ v. v) ys x = x" for ys :: "row list" and x :: "row option" by (induction ys) auto
  ultimately show ?thesis using True by simp
next
  case False
  then have "map_of (by_row_id L rs) k = fold (\<lambda>r _. Some r) (filter (\<lambda>r. row_id L r = k) rs) (map_of [] k)"
    unfolding by_row_id_def by (intro fold_at_key [where view = "\<lambda>m. map_of m k"]) auto
  moreover have "fold (\<lambda>r _. Some r) ys x = (case rev ys of [] \<Rightarrow> x | r # _ \<Rightarrow> Some r)"
    for ys :: "row list" and x :: "row option"
    by (induction ys rule: rev_induct) auto
  ultimately show ?thesis using False by simp
qed

lemma by_row_id_key: "map_of (by_row_id L rs) rid = Some r \<Longrightarrow> r \<in> set rs \<and> row_id L r = rid"
proof -
  assume "map_of (by_row_id L rs) rid = Some r"
  then obtain rest where "rev (filter (\<lambda>r. row_id L r = rid) rs) = r # rest"
    by (auto simp: by_row_id_at split: if_splits list.splits)
  then have "r \<in> set (rev (filter (\<lambda>r. row_id L r = rid) rs))" by (metis list.set_intros(1))
  then show ?thesis by simp
qed

lemma by_row_id_mem: "distinct (map (row_id L) rs) \<Longrightarrow> r \<in> set rs \<Longrightarrow> row_id L r \<noteq> [] \<Longrightarrow>
    map_of (by_row_id L rs) (row_id L r) = Some r"
  by (simp add: by_row_id_at filter_one_key)

lemma no_row: "rid \<notin> row_id L ` set rs \<Longrightarrow> filter (\<lambda>r. row_id L r = rid) rs = []"
  by (auto simp: filter_empty_conv)

lemma by_row_id_absent: "rid \<notin> row_id L ` set rs \<Longrightarrow> map_of (by_row_id L rs) rid = None"
  by (simp add: by_row_id_at no_row)

lemma only_row: "distinct (map (row_id L) rs) \<Longrightarrow> r \<in> set rs \<Longrightarrow> row_id L r = rid \<Longrightarrow>
    filter (\<lambda>r. row_id L r = rid) rs = [r]"
  using filter_one_key [of "row_id L" rs r] by simp

section \<open>What the union keeps under one id\<close>

lemma union_at:
  "filter (\<lambda>r. row_id L r = rid) (rows (merge_union_by_id (py_str L) lww local remote)) =
     (case map_of (merged_map (py_str L) lww local remote) rid of None \<Rightarrow> [] | Some (r, _) \<Rightarrow> [r])"
proof (cases "map_of (merged_map (py_str L) lww local remote) rid")
  case None
  then have "rid \<notin> set (map (row_id L) (rows (merge_union_by_id (py_str L) lww local remote)))"
    using merge_rows_ids [of "py_str L" lww local remote] by (simp add: map_of_eq_None_iff)
  then show ?thesis using None by (auto simp: filter_empty_conv)
next
  case (Some cell)
  then obtain r og where cell: "map_of (merged_map (py_str L) lww local remote) rid = Some (r, og)" by (cases cell) auto
  then have "row_id L r = rid" using merged_row_id by (metis ids_match)
  moreover have "r \<in> set (rows (merge_union_by_id (py_str L) lww local remote))"
    using cell calculation by (auto simp: in_merge_rows)
  moreover have "distinct (map (row_id L) (rows (merge_union_by_id (py_str L) lww local remote)))"
    using merge_rows_ids [of "py_str L" lww local remote] by (simp add: merged_distinct)
  ultimately show ?thesis using only_row cell by simp
qed

lemma union_cases:
  assumes "filter (\<lambda>r. row_id L r = rid) local = ls" and "filter (\<lambda>r. row_id L r = rid) remote = rs"
  shows "filter (\<lambda>r. row_id L r = rid) (rows (merge_union_by_id (py_str L) lww local remote)) =
    (case (ls, rs) of
       ([], []) \<Rightarrow> []
     | ([], r # rs) \<Rightarrow> [versions.settle (py_str L) lww rs r]
     | (ls, rs) \<Rightarrow> [versions.settle (py_str L) lww rs (last ls)])"
proof -
  have settle: "\<exists>og'. fold (met (py_str L) lww) ys (Some (s, og)) = Some (versions.settle (py_str L) lww ys s, og')"
    for ys s og using met_some [of "py_str L" lww ys s og] by blast
  show ?thesis
  proof (cases ls rule: rev_cases)
    case Nil
    show ?thesis
    proof (cases rs)
      case Nil
      then show ?thesis unfolding union_at merged_at using assms \<open>ls = []\<close> by simp
    next
      case (Cons r rs')
      obtain og where "fold (met (py_str L) lww) rs' (Some (r, From_remote)) = Some (versions.settle (py_str L) lww rs' r, og)"
        using settle by blast
      then show ?thesis unfolding union_at merged_at using assms \<open>ls = []\<close> Cons by simp
    qed
  next
    case (snoc us u)
    obtain og where "fold (met (py_str L) lww) rs (Some (u, From_local)) = Some (versions.settle (py_str L) lww rs u, og)"
      using settle by blast
    then show ?thesis unfolding union_at merged_at using assms snoc by (cases us) simp_all
  qed
qed

section \<open>The loops of the reconcile, at one record\<close>

text \<open>What \<open>one_side_row\<close> decides for the record it looks at.\<close>

definition side_verdict ::
  "codec \<Rightarrow> state_entry \<Rightarrow> row dict \<Rightarrow> string dict \<Rightarrow> row \<Rightarrow> row option \<times> bool \<Rightarrow> row option \<times> bool" where
  "side_verdict L e here bases there st =
     (case (map_of here (row_id L there), map_of bases (row_id L there)) of
        (Some mine, Some agreed) \<Rightarrow>
          if agreed = [] \<or> is_tombstone mine \<or> is_tombstone there then st
          else if seen_sha L e mine = seen_sha L e there then st
          else if seen_sha L e mine = agreed then (Some (edited_there e mine there), snd st)
          else if seen_sha L e there = agreed then (fst st, True) else st
      | _ \<Rightarrow> st)"

lemma one_side_at:
  assumes "one_side_changed L e local remote bases = (ahead, behind)"
    and "bases \<noteq> []" and "se_merge e \<in> set ID_KEYED_MERGES"
  shows "(map_of ahead rid, rid \<in> set behind) =
    fold (side_verdict L e (by_row_id L local) bases) (filter (\<lambda>r. row_id L r = rid) remote) (None, False)"
proof -
  let ?view = "\<lambda>st. (map_of (fst st) rid, rid \<in> set (snd st)) :: row option \<times> bool"
  have "?view (fold (one_side_row L e (by_row_id L local) bases) remote ([], [])) =
      fold (side_verdict L e (by_row_id L local) bases) (filter (\<lambda>r. row_id L r = rid) remote) (?view ([], []))"
    by (rule fold_at_key [where view = ?view])
      (auto simp: one_side_row_def side_verdict_def Let_def split: option.splits prod.splits)
  then show ?thesis using assms by (simp add: one_side_changed_def)
qed

lemma one_side_none:
  assumes "one_side_changed L e local remote bases = (ahead, behind)" and "rid \<notin> row_id L ` set remote"
  shows "map_of ahead rid = None \<and> rid \<notin> set behind"
proof (cases "bases = [] \<or> se_merge e \<notin> set ID_KEYED_MERGES")
  case False
  then have "(map_of ahead rid, rid \<in> set behind) = (None, False)"
    using one_side_at [OF assms(1), of rid] no_row [OF assms(2)] by simp
  then show ?thesis by simp
qed (use assms(1) in \<open>auto simp: one_side_changed_def\<close>)

lemma one_side_one:
  assumes "one_side_changed L e local remote bases = (ahead, behind)"
    and "distinct (map (row_id L) remote)" and "there \<in> set remote" and "row_id L there = rid"
    and "se_merge e \<in> set ID_KEYED_MERGES"
  shows "(map_of ahead rid, rid \<in> set behind) = side_verdict L e (by_row_id L local) bases there (None, False)"
proof (cases "bases = []")
  case True
  then show ?thesis using assms(1) by (auto simp: one_side_changed_def side_verdict_def split: option.splits)
next
  case False
  then show ?thesis using one_side_at [OF assms(1) _ assms(5), of rid] only_row [OF assms(2-4)] by simp
qed

text \<open>The queue after a reconcile: what was in it, and every conflict detected, each once.\<close>

lemma queue_record_facts:
  "queue_record L c q = (q', new) \<Longrightarrow>
     prefix q q' \<and> set q' \<subseteq> insert c (set q) \<and> conflict_id L c \<in> conflict_id L ` set q' \<and>
     (distinct (map (conflict_id L) q) \<longrightarrow> distinct (map (conflict_id L) q'))"
  by (auto simp: queue_record_def split: if_splits)

abbreviation recording :: "codec \<Rightarrow> conflict_record \<Rightarrow> nat \<times> conflict_record list \<Rightarrow> nat \<times> conflict_record list" where
  "recording L \<equiv> (\<lambda>c (n, q). case queue_record L c q of (q', new) \<Rightarrow> (if new then n + 1 else n, q'))"

lemma record_all:
  "fold (recording L) cs (n, q) = (n', q') \<Longrightarrow>
     prefix q q' \<and> set q' \<subseteq> set cs \<union> set q \<and> conflict_id L ` set cs \<subseteq> conflict_id L ` set q' \<and>
     (distinct (map (conflict_id L) q) \<longrightarrow> distinct (map (conflict_id L) q'))"
proof (induction cs arbitrary: n q)
  case (Cons c cs)
  obtain q1 new where step: "queue_record L c q = (q1, new)" by fastforce
  have rest: "fold (recording L) cs (if new then n + 1 else n, q1) = (n', q')" using Cons.prems step by simp
  note one = queue_record_facts [OF step] and many = Cons.IH [OF rest]
  have "conflict_id L c \<in> conflict_id L ` set q'"
    using one many by (meson image_mono set_mono_prefix subsetD)
  then show ?case using one many by (auto intro: prefix_order.trans)
qed simp

lemma record_none_new:
  "conflict_id L ` set cs \<subseteq> conflict_id L ` set q \<Longrightarrow> fold (recording L) cs (n, q) = (n, q)"
  by (induction cs) (auto simp: queue_record_def)

text \<open>What the weighing of the deletes says of one record: declined, applied, moot, its conflicts.\<close>

type_synonym verdict = "bool \<times> row option \<times> bool \<times> conflict_record list"

definition weigh_verdict ::
  "codec \<Rightarrow> state_entry \<Rightarrow> row dict \<Rightarrow> deletion dict \<Rightarrow> string \<Rightarrow> row \<Rightarrow> verdict \<Rightarrow> verdict" where
  "weigh_verdict L e live removed now row v =
     (case v of (d, a, m, cs) \<Rightarrow>
       let rid = row_id L row in
       if rid = [] then v
       else if is_tombstone row then
         (case map_of live rid of
            None \<Rightarrow> (d, a, True, cs)
          | Some here \<Rightarrow>
              if seen_sha L e here \<in> set (held_by_the_delete row) then (d, Some row, m, cs)
              else (d, a, m, cs @ [deletion_conflict L e rid (compared e here)
                     (deleted_row rid (text_of (py_str L) (get_or row ''deleted_at'' (JStr [])))) Deleted_there now]))
       else
         (case map_of removed rid of
            None \<Rightarrow> v
          | Some mark \<Rightarrow>
              if map_of live rid \<noteq> None then v
              else if seen_sha L e row \<in> set (del_held mark) then (True, a, m, cs)
              else (d, a, m, cs @ [deletion_conflict L e rid (deleted_row rid (del_at mark)) (compared e row)
                     Deleted_here now])))"

definition weighed_view :: "string \<Rightarrow> weighed \<Rightarrow> verdict" where
  "weighed_view rid w = (rid \<in> set (wd_declined w), map_of (wd_applied w) rid, rid \<in> set (wd_moot w),
     filter (\<lambda>c. cr_entity c = rid) (wd_conflicts w))"

lemma deletion_conflict_entity [simp]: "cr_entity (deletion_conflict L e rid mine theirs side now) = rid"
  by (simp add: deletion_conflict_def)

lemma weigh_row_other:
  "row_id L row \<noteq> rid \<Longrightarrow> weighed_view rid (weigh_row L e live removed now row w) = weighed_view rid w"
  by (auto simp: weighed_view_def weigh_row_def Let_def split: option.splits)

lemma weigh_row_own:
  "row_id L row = rid \<Longrightarrow>
     weighed_view rid (weigh_row L e live removed now row w) = weigh_verdict L e live removed now row (weighed_view rid w)"
  by (auto simp: weighed_view_def weigh_row_def weigh_verdict_def Let_def split: option.splits)

lemma weighed_at:
  "weighed_view rid (weigh_deletions L e live remote removed now) =
     (if se_merge e \<notin> set ID_KEYED_MERGES then (False, None, False, [])
      else fold (weigh_verdict L e live removed now) (filter (\<lambda>r. row_id L r = rid) remote) (False, None, False, []))"
proof -
  let ?none = "\<lparr>wd_declined = [], wd_applied = [], wd_moot = [], wd_conflicts = []\<rparr>"
  have "weighed_view rid (fold (weigh_row L e live removed now) (sort_key (row_id L) remote) ?none) =
      fold (weigh_verdict L e live removed now) (filter (\<lambda>r. row_id L r = rid) (sort_key (row_id L) remote))
        (weighed_view rid ?none)"
    by (rule fold_at_key [where view = "weighed_view rid"]) (simp_all add: weigh_row_other weigh_row_own)
  then show ?thesis by (simp add: weigh_deletions_def sort_key_stable) (simp add: weighed_view_def)
qed

text \<open>The conflicts of two edits, at one record.\<close>

lemma edit_conflict_entity: "edit_conflict L e bases now rid mine theirs = Some c \<Longrightarrow> cr_entity c = rid"
  by (auto simp: edit_conflict_def Let_def split: if_splits)

lemma detected_at:
  assumes "se_merge e \<in> set ID_KEYED_MERGES"
  shows "c \<in> set (detect_conflicts L e local remote bases now) \<and> cr_entity c = rid \<longleftrightarrow>
    (\<exists>mine theirs. map_of (by_row_id L local) rid = Some mine \<and> map_of (by_row_id L remote) rid = Some theirs \<and>
       edit_conflict L e bases now rid mine theirs = Some c)"
proof -
  have dom: "k \<in> set (map fst (by_row_id L local)) \<longleftrightarrow> map_of (by_row_id L local) k \<noteq> None" for k
    by (simp add: map_of_eq_None_iff)
  have mem: "c \<in> set (detect_conflicts L e local remote bases now) \<longleftrightarrow>
      (\<exists>k. map_of (by_row_id L local) k \<noteq> None \<and> map_of (by_row_id L remote) k \<noteq> None \<and>
         edit_conflict L e bases now k (the (map_of (by_row_id L local) k)) (the (map_of (by_row_id L remote) k)) = Some c)"
  proof -
    have "c \<in> set (detect_conflicts L e local remote bases now) \<longleftrightarrow>
        (\<exists>k \<in> set (map fst (by_row_id L local)). map_of (by_row_id L remote) k \<noteq> None \<and>
           edit_conflict L e bases now k (the (map_of (by_row_id L local) k)) (the (map_of (by_row_id L remote) k)) = Some c)"
      using assms by (auto simp: detect_conflicts_def Let_def set_map_filter simp del: set_map)
    then show ?thesis using dom by blast
  qed
  show ?thesis
  proof
    assume left: "c \<in> set (detect_conflicts L e local remote bases now) \<and> cr_entity c = rid"
    then obtain k where k: "map_of (by_row_id L local) k \<noteq> None" "map_of (by_row_id L remote) k \<noteq> None"
      "edit_conflict L e bases now k (the (map_of (by_row_id L local) k)) (the (map_of (by_row_id L remote) k)) = Some c"
      using mem by blast
    then have "k = rid" using edit_conflict_entity left by metis
    then show "\<exists>mine theirs. map_of (by_row_id L local) rid = Some mine \<and> map_of (by_row_id L remote) rid = Some theirs \<and>
        edit_conflict L e bases now rid mine theirs = Some c" using k by auto
  next
    assume "\<exists>mine theirs. map_of (by_row_id L local) rid = Some mine \<and> map_of (by_row_id L remote) rid = Some theirs \<and>
        edit_conflict L e bases now rid mine theirs = Some c"
    then obtain mine theirs where "map_of (by_row_id L local) rid = Some mine" "map_of (by_row_id L remote) rid = Some theirs"
      "edit_conflict L e bases now rid mine theirs = Some c" by blast
    then show "c \<in> set (detect_conflicts L e local remote bases now) \<and> cr_entity c = rid"
      unfolding mem using edit_conflict_entity by (intro conjI exI [of _ rid]) simp_all
  qed
qed

section \<open>The whole reconcile, at one record\<close>

text \<open>What a store's own rules must do: keep the id of the row they rewrite, and its being live.\<close>

definition keeps_records :: "codec \<Rightarrow> state_entry \<Rightarrow> bool" where
  "keeps_records L e \<longleftrightarrow>
     (\<forall>here there. row_id L there = row_id L here \<longrightarrow> row_id L (edited_there e here there) = row_id L here) \<and>
     (\<forall>f r. se_arrives e = Some f \<longrightarrow> row_id L (f r) = row_id L r \<and> (is_tombstone (f r) \<longrightarrow> is_tombstone r))"

definition id_keyed_pull :: "codec \<Rightarrow> state_entry \<Rightarrow> row list \<Rightarrow> row list \<Rightarrow> bool" where
  "id_keyed_pull L e local remote \<longleftrightarrow> se_merge e \<in> set ID_KEYED_MERGES \<and> keeps_records L e \<and>
     distinct (map (row_id L) local) \<and> distinct (map (row_id L) remote)"

definition lww_field :: "state_entry \<Rightarrow> string" where
  "lww_field e = (if se_merge e = Lww_by_updated_at then ''updated_at'' else [])"

definition arrived :: "state_entry \<Rightarrow> row \<Rightarrow> row" where
  "arrived e r = (case se_arrives e of None \<Rightarrow> r | Some f \<Rightarrow> if is_tombstone r then r else f r)"

lemma arrive_map: "as_they_arrive e rs = map (arrived e) rs"
proof (cases "se_arrives e")
  case None
  then have "arrived e = (\<lambda>r. r)" by (simp add: arrived_def fun_eq_iff)
  then show ?thesis using None by (simp add: as_they_arrive_def)
qed (simp add: as_they_arrive_def arrived_def)

lemma arrived_id: "keeps_records L e \<Longrightarrow> row_id L (arrived e r) = row_id L r"
  by (auto simp: arrived_def keeps_records_def split: option.splits)

lemma ahead_ids:
  assumes "one_side_changed L e local remote bases = (ahead, behind)" and "id_keyed_pull L e local rs"
    and "distinct (map (row_id L) remote)" and "map_of ahead rid = Some row"
  shows "row_id L row = rid"
proof -
  have keyed: "se_merge e \<in> set ID_KEYED_MERGES" "keeps_records L e" using assms(2) by (simp_all add: id_keyed_pull_def)
  have "rid \<in> row_id L ` set remote" using one_side_none [OF assms(1)] assms(4) by force
  then obtain there where there: "there \<in> set remote" "row_id L there = rid" by blast
  have verdict: "(map_of ahead rid, rid \<in> set behind) = side_verdict L e (by_row_id L local) bases there (None, False)"
    by (rule one_side_one [OF assms(1,3) there keyed(1)])
  then obtain mine where mine: "map_of (by_row_id L local) rid = Some mine" "row = edited_there e mine there"
    using assms(4) there by (auto simp: side_verdict_def split: option.splits if_splits)
  then have "row_id L mine = rid" using by_row_id_key by blast
  then show ?thesis using keyed(2) mine(2) there(2) by (simp add: keeps_records_def)
qed

text \<open>The row a record ends on, from this home's row and the peer's, where each side has one.\<close>

definition settled ::
  "codec \<Rightarrow> state_entry \<Rightarrow> row option \<Rightarrow> bool \<Rightarrow> row option \<Rightarrow> row option \<Rightarrow> row list" where
  "settled L e edit mine_newer mine there =
     (case (mine, there) of
        (None, None) \<Rightarrow> []
      | (None, Some r) \<Rightarrow> [arrived e r]
      | (Some m, None) \<Rightarrow> [case edit of None \<Rightarrow> m | Some r \<Rightarrow> r]
      | (Some m, Some r) \<Rightarrow>
          [case edit of
             Some r' \<Rightarrow> r'
           | None \<Rightarrow> if mine_newer then m else resolve_pair (py_str L) (lww_field e) m (arrived e r)])"

lemma filter_map_key: "(\<And>r. key (f r) = key r) \<Longrightarrow> filter (\<lambda>r. key r = k) (map f rs) = map f (filter (\<lambda>r. key r = k) rs)"
  by (induction rs) auto

lemma merge_rows_keyed:
  "se_merge e \<in> set ID_KEYED_MERGES \<Longrightarrow>
     merge_rows (py_str L) (se_merge e) local remote ''id'' ''updated_at'' = Inr (merge_union_by_id (py_str L) (lww_field e) local remote)"
  by (cases "se_merge e") (simp_all add: ID_KEYED_MERGES_def lww_field_def merge_lww_by_updated_at_def)

lemma settled_after:
  assumes pull: "id_keyed_pull L e local remote" and sub: "set effective \<subseteq> set remote" "distinct (map (row_id L) effective)"
    and sides: "one_side_changed L e local effective bases = (ahead, behind)"
    and mine: "filter (\<lambda>r. row_id L r = rid) local = (case mine of None \<Rightarrow> [] | Some m \<Rightarrow> [m])"
    and there: "filter (\<lambda>r. row_id L r = rid) effective = (case there of None \<Rightarrow> [] | Some r \<Rightarrow> [r])"
  shows "filter (\<lambda>r. row_id L r = rid)
      (rows (merge_union_by_id (py_str L) (lww_field e)
         (map (\<lambda>r. case map_of ahead (row_id L r) of None \<Rightarrow> r | Some r' \<Rightarrow> r') local)
         (as_they_arrive e (filter (\<lambda>r. row_id L r \<notin> set (map fst ahead @ behind)) effective)))) =
    settled L e (map_of ahead rid) (rid \<in> set behind) mine there"
proof -
  let ?new = "\<lambda>r. case map_of ahead (row_id L r) of None \<Rightarrow> r | Some r' \<Rightarrow> r'"
  let ?left = "filter (\<lambda>r. row_id L r \<notin> set (map fst ahead @ behind)) effective"
  have keeps: "keeps_records L e" using pull by (simp add: id_keyed_pull_def)
  have new_id: "row_id L (?new r) = row_id L r" for r
    using ahead_ids [OF sides pull sub(2)] by (auto split: option.splits)
  have "filter (\<lambda>r. row_id L r = rid) (map ?new local) = map ?new (filter (\<lambda>r. row_id L r = rid) local)"
    by (rule filter_map_key) (rule new_id)
  then have ls: "filter (\<lambda>r. row_id L r = rid) (map ?new local) =
      (case mine of None \<Rightarrow> [] | Some m \<Rightarrow> [case map_of ahead rid of None \<Rightarrow> m | Some r' \<Rightarrow> r'])"
  proof -
    have "mine = Some m \<Longrightarrow> row_id L m = rid" for m
      using mine filter_id_conv by (metis (mono_tags) filter_eq_ConsD option.simps(5))
    then show ?thesis using mine \<open>filter _ (map ?new local) = _\<close> by (auto split: option.splits)
  qed
  have "filter (\<lambda>r. row_id L r = rid) (as_they_arrive e ?left) = map (arrived e) (filter (\<lambda>r. row_id L r = rid) ?left)"
    unfolding arrive_map by (rule filter_map_key) (rule arrived_id [OF keeps])
  also have "filter (\<lambda>r. row_id L r = rid) ?left =
      (if map_of ahead rid \<noteq> None \<or> rid \<in> set behind then [] else filter (\<lambda>r. row_id L r = rid) effective)"
    by (auto simp: map_of_eq_None_iff filter_empty_conv intro!: filter_cong)
  finally have rs: "filter (\<lambda>r. row_id L r = rid) (as_they_arrive e ?left) =
      (if map_of ahead rid \<noteq> None \<or> rid \<in> set behind then []
       else case there of None \<Rightarrow> [] | Some r \<Rightarrow> [arrived e r])"
    using there by (simp split: option.splits)
  have alone: "map_of ahead rid = None \<and> rid \<notin> set behind" if "mine = None \<or> there = None"
  proof (cases there)
    case None
    then have "rid \<notin> row_id L ` set effective" using there by (auto simp: filter_empty_conv)
    then show ?thesis by (rule one_side_none [OF sides])
  next
    case (Some r)
    then have r: "r \<in> set effective" "row_id L r = rid" using there by (auto dest: filter_eq_ConsD)
    have "rid \<notin> row_id L ` set local" using that Some mine by (auto simp: filter_empty_conv)
    then have "map_of (by_row_id L local) rid = None" by (rule by_row_id_absent)
    moreover have "se_merge e \<in> set ID_KEYED_MERGES" using pull by (simp add: id_keyed_pull_def)
    ultimately show ?thesis
      using one_side_one [OF sides sub(2) r] r(2) by (simp add: side_verdict_def)
  qed
  show ?thesis
  proof (cases "mine = None \<or> there = None")
    case True
    show ?thesis unfolding union_cases [OF ls rs] settled_def
      using True alone [OF True] by (cases mine; cases there) (simp_all add: versions.settle_def)
  next
    case False
    then show ?thesis unfolding union_cases [OF ls rs] settled_def
      by (auto simp: versions.settle_def split: option.splits)
  qed
qed

lemma record_conflicts_facts:
  assumes "record_conflicts L e local edits bases (Some q) now deletions = (hold, recorded, queue)"
  obtains q' where "queue = Some q'" and "prefix q q'"
    and "\<And>c. c \<in> set (detect_conflicts L e local edits bases now @ deletions) \<Longrightarrow>
           conflict_id L c \<in> conflict_id L ` set q' \<and> cr_entity c \<in> set hold"
    and "\<And>rid. rid \<in> set hold \<Longrightarrow> rid \<in> set (held_ids (se_id e) q) \<or>
           (\<exists>c \<in> set (detect_conflicts L e local edits bases now @ deletions). cr_entity c = rid)"
    and "set (held_ids (se_id e) q) \<subseteq> set hold"
    and "distinct (map (conflict_id L) q) \<Longrightarrow> distinct (map (conflict_id L) q')"
    and "set q' \<subseteq> set (detect_conflicts L e local edits bases now @ deletions) \<union> set q"
proof -
  let ?cs = "detect_conflicts L e local edits bases now @ deletions"
  obtain n q' where run: "fold (recording L) ?cs (0, q) = (n, q')" by fastforce
  note all = record_all [OF run]
  have parts: "hold = map cr_entity ?cs @ held_ids (se_id e) q'" "queue = Some q'"
    using assms run by (simp_all add: record_conflicts_def Let_def)
  have "set (held_ids (se_id e) q) \<subseteq> set (held_ids (se_id e) q')"
    using all by (auto simp: held_ids_def dest: set_mono_prefix)
  moreover have "rid \<in> set (held_ids (se_id e) q) \<or> (\<exists>c \<in> set ?cs. cr_entity c = rid)"
    if "rid \<in> set (held_ids (se_id e) q')" for rid
    using that all by (auto simp: held_ids_def)
  ultimately show thesis using parts all
    by (intro that [of q']) (auto simp: image_iff)
qed

text \<open>A reconcile of an id-keyed store always returns; each record is where its own rule puts it.\<close>

lemma merge_into_at:
  assumes pull: "id_keyed_pull L e local remote"
  obtains oc w ahead behind where
    "merge_into L e pl bases queue local remote = Inr oc"
    and "w = weigh_deletions L e (by_row_id L local) remote (removed_here pl (map fst (by_row_id L local))) (pl_now pl)"
    and "record_conflicts L e local (filter (\<lambda>r. \<not> is_tombstone r) remote) bases queue (pl_now pl) (wd_conflicts w) =
          (oc_held oc, oc_recorded oc, oc_queue oc)"
    and "oc_applied oc = map fst (wd_applied w) @
          (if queue = None then map cr_entity (filter (\<lambda>c. cr_deleted c = Deleted_there) (wd_conflicts w)) else [])"
    and "oc_remote oc = filter (\<lambda>r. row_id L r \<notin> set (oc_held oc @ wd_declined w @ wd_moot w) \<and>
          (row_id L r \<in> set (oc_applied oc) \<or> \<not> is_tombstone r)) remote"
    and "oc_live oc = map fst (by_row_id L local)"
    and "one_side_changed L e local (oc_remote oc) bases = (ahead, behind)"
    and "\<And>rid mine there. filter (\<lambda>r. row_id L r = rid) local = (case mine of None \<Rightarrow> [] | Some m \<Rightarrow> [m]) \<Longrightarrow>
          filter (\<lambda>r. row_id L r = rid) (oc_remote oc) = (case there of None \<Rightarrow> [] | Some r \<Rightarrow> [r]) \<Longrightarrow>
          filter (\<lambda>r. row_id L r = rid) (oc_rows oc) = settled L e (map_of ahead rid) (rid \<in> set behind) mine there"
proof -
  define w where "w = weigh_deletions L e (by_row_id L local) remote (removed_here pl (map fst (by_row_id L local))) (pl_now pl)"
  obtain hold recorded q' where rec: "record_conflicts L e local (filter (\<lambda>r. \<not> is_tombstone r) remote) bases queue
      (pl_now pl) (wd_conflicts w) = (hold, recorded, q')" by (metis prod_cases3)
  define applied where "applied = map fst (wd_applied w) @
    (if queue = None then map cr_entity (filter (\<lambda>c. cr_deleted c = Deleted_there) (wd_conflicts w)) else [])"
  define effective where "effective = filter (\<lambda>r. row_id L r \<notin> set (hold @ wd_declined w @ wd_moot w) \<and>
    (row_id L r \<in> set applied \<or> \<not> is_tombstone r)) remote"
  obtain ahead behind where sides: "one_side_changed L e local effective bases = (ahead, behind)" by fastforce
  define m where "m = merge_union_by_id (py_str L) (lww_field e)
    (map (\<lambda>r. case map_of ahead (row_id L r) of None \<Rightarrow> r | Some r' \<Rightarrow> r') local)
    (as_they_arrive e (filter (\<lambda>r. row_id L r \<notin> set (map fst ahead @ behind)) effective))"
  have keyed: "se_merge e \<in> set ID_KEYED_MERGES" using pull by (simp add: id_keyed_pull_def)
  have eff: "set effective \<subseteq> set remote" "distinct (map (row_id L) effective)"
    using pull by (auto simp: effective_def id_keyed_pull_def distinct_map_filter)
  have run: "\<exists>oc. merge_into L e pl bases queue local remote = Inr oc \<and> oc_rows oc = rows m \<and> oc_held oc = hold \<and>
      oc_recorded oc = recorded \<and> oc_queue oc = q' \<and> oc_remote oc = effective \<and> oc_applied oc = applied \<and>
      oc_live oc = map fst (by_row_id L local)"
    unfolding merge_into_def Let_def w_def [symmetric] rec prod.case applied_def [symmetric] effective_def [symmetric]
      sides merge_rows_keyed [OF keyed] m_def [symmetric] sum.case by simp
  then obtain oc where oc: "merge_into L e pl bases queue local remote = Inr oc" "oc_rows oc = rows m" "oc_held oc = hold"
    "oc_recorded oc = recorded" "oc_queue oc = q'" "oc_remote oc = effective" "oc_applied oc = applied"
    "oc_live oc = map fst (by_row_id L local)" by blast
  show thesis
  proof (rule that [OF oc(1) w_def])
    fix rid mine there
    assume "filter (\<lambda>r. row_id L r = rid) local = (case mine of None \<Rightarrow> [] | Some m \<Rightarrow> [m])"
      "filter (\<lambda>r. row_id L r = rid) (oc_remote oc) = (case there of None \<Rightarrow> [] | Some r \<Rightarrow> [r])"
    then show "filter (\<lambda>r. row_id L r = rid) (oc_rows oc) = settled L e (map_of ahead rid) (rid \<in> set behind) mine there"
      unfolding oc m_def by (intro settled_after [OF pull eff sides])
  qed (use rec sides oc applied_def effective_def in simp_all)
qed

lemma arrived_tomb: "keeps_records L e \<Longrightarrow> is_tombstone (arrived e r) = is_tombstone r"
  by (auto simp: arrived_def keeps_records_def split: option.splits)

lemma removed_not_live: "map_of (removed_here pl live) rid = Some mark \<Longrightarrow> rid \<notin> set live"
  by (auto simp: removed_here_def dest!: map_of_SomeD)

lemma live_ids: "rid \<in> set (map fst (by_row_id L rs)) \<longleftrightarrow> map_of (by_row_id L rs) rid \<noteq> None"
  by (simp add: map_of_eq_None_iff)

text \<open>The deletes weighed, for one record of the peer's.\<close>

lemma weighed_one:
  assumes "id_keyed_pull L e local remote" and "there \<in> set remote" and "row_id L there = rid"
  shows "weighed_view rid (weigh_deletions L e live remote removed now) =
    weigh_verdict L e live removed now there (False, None, False, [])"
  using assms only_row [of L remote there rid] by (simp add: weighed_at id_keyed_pull_def)

lemma weighed_none:
  "rid \<notin> row_id L ` set remote \<Longrightarrow>
     weighed_view rid (weigh_deletions L e live remote removed now) = (False, None, False, [])"
  by (simp add: weighed_at no_row)

lemma merge_into_queued:
  assumes pull: "id_keyed_pull L e local remote"
  obtains oc w queue' ahead behind where "merge_into L e pl bases (Some queue) local remote = Inr oc"
    and "w = weigh_deletions L e (by_row_id L local) remote (removed_here pl (map fst (by_row_id L local))) (pl_now pl)"
    and "oc_queue oc = Some queue'"
    and "\<And>c. c \<in> set (detect_conflicts L e local (filter (\<lambda>r. \<not> is_tombstone r) remote) bases (pl_now pl) @ wd_conflicts w) \<Longrightarrow>
        conflict_id L c \<in> conflict_id L ` set queue' \<and> cr_entity c \<in> set (oc_held oc)"
    and "\<And>rid. rid \<in> set (oc_held oc) \<Longrightarrow> rid \<in> set (held_ids (se_id e) queue) \<or>
        (\<exists>c \<in> set (detect_conflicts L e local (filter (\<lambda>r. \<not> is_tombstone r) remote) bases (pl_now pl) @ wd_conflicts w). cr_entity c = rid)"
    and "oc_remote oc = filter (\<lambda>r. row_id L r \<notin> set (oc_held oc @ wd_declined w @ wd_moot w) \<and>
        (row_id L r \<in> set (map fst (wd_applied w)) \<or> \<not> is_tombstone r)) remote"
    and "oc_live oc = map fst (by_row_id L local)"
    and "one_side_changed L e local (oc_remote oc) bases = (ahead, behind)"
    and "\<And>rid mine there. filter (\<lambda>r. row_id L r = rid) local = (case mine of None \<Rightarrow> [] | Some m \<Rightarrow> [m]) \<Longrightarrow>
        filter (\<lambda>r. row_id L r = rid) (oc_remote oc) = (case there of None \<Rightarrow> [] | Some r \<Rightarrow> [r]) \<Longrightarrow>
        filter (\<lambda>r. row_id L r = rid) (oc_rows oc) = settled L e (map_of ahead rid) (rid \<in> set behind) mine there"
proof (rule merge_into_at [OF pull, of pl bases "Some queue"], goal_cases)
  case (1 oc w ahead behind)
  from 1(4) obtain queue' where queue': "oc_queue oc = Some queue'"
    and inq: "\<And>c. c \<in> set (detect_conflicts L e local (filter (\<lambda>r. \<not> is_tombstone r) remote) bases (pl_now pl) @ wd_conflicts w) \<Longrightarrow>
        conflict_id L c \<in> conflict_id L ` set queue' \<and> cr_entity c \<in> set (oc_held oc)"
    and onlyq: "\<And>rid. rid \<in> set (oc_held oc) \<Longrightarrow> rid \<in> set (held_ids (se_id e) queue) \<or>
        (\<exists>c \<in> set (detect_conflicts L e local (filter (\<lambda>r. \<not> is_tombstone r) remote) bases (pl_now pl) @ wd_conflicts w). cr_entity c = rid)"
    by (rule record_conflicts_facts) blast
  have applied: "oc_applied oc = map fst (wd_applied w)" using 1(5) by simp
  show ?case by (rule 1(1) [OF 1(2,3) queue' inq onlyq 1(6) [unfolded applied] 1(7,8,9)])
qed

text \<open>What the queue holds after it: nothing but what was there and what was found, which waits for a person.\<close>

lemma detected_open: "c \<in> set (detect_conflicts L e local remote bases now) \<Longrightarrow> cr_status c = Needs_review"
  by (auto simp: detect_conflicts_def Let_def set_map_filter edit_conflict_def split: if_splits)

lemma weighed_open: "c \<in> set (wd_conflicts (weigh_deletions L e live remote removed now)) \<Longrightarrow> cr_status c = Needs_review"
proof -
  let ?P = "\<lambda>w. \<forall>c \<in> set (wd_conflicts w). cr_status c = Needs_review"
  have step: "?P (weigh_row L e live removed now row w)" if "?P w" for row w
    using that by (auto simp: weigh_row_def deletion_conflict_def Let_def split: option.splits)
  have all: "?P (fold (weigh_row L e live removed now) rows w)" if "?P w" for rows w
    by (rule fold_invariant [where Q = "\<lambda>_. True" and P = ?P]) (simp, rule that, rule step)
  have "?P (weigh_deletions L e live remote removed now)"
    unfolding weigh_deletions_def Let_def by (split if_split) (intro conjI impI; (rule all)?; simp)
  then show "c \<in> set (wd_conflicts (weigh_deletions L e live remote removed now)) \<Longrightarrow> cr_status c = Needs_review" by blast
qed

lemma queue_after:
  assumes pull: "id_keyed_pull L e local remote" and run: "merge_into L e pl bases (Some queue) local remote = Inr oc"
    and queued: "oc_queue oc = Some queue'"
  shows "set (held_ids (se_id e) queue) \<subseteq> set (oc_held oc)"
    "c \<in> set queue' \<Longrightarrow> c \<in> set queue \<or> cr_status c = Needs_review"
proof -
  obtain w where w: "w = weigh_deletions L e (by_row_id L local) remote (removed_here pl (map fst (by_row_id L local))) (pl_now pl)"
    and rec: "record_conflicts L e local (filter (\<lambda>r. \<not> is_tombstone r) remote) bases (Some queue) (pl_now pl) (wd_conflicts w) =
          (oc_held oc, oc_recorded oc, oc_queue oc)"
    by (rule merge_into_at [OF pull, of pl bases "Some queue"]) (use run in auto)
  obtain q' where q': "oc_queue oc = Some q'" "set (held_ids (se_id e) queue) \<subseteq> set (oc_held oc)"
    "set q' \<subseteq> set (detect_conflicts L e local (filter (\<lambda>r. \<not> is_tombstone r) remote) bases (pl_now pl) @ wd_conflicts w) \<union> set queue"
    by (rule record_conflicts_facts [OF rec]) blast
  show "set (held_ids (se_id e) queue) \<subseteq> set (oc_held oc)" by (rule q'(2))
  show "c \<in> set queue \<or> cr_status c = Needs_review" if "c \<in> set queue'"
    using that q'(1,3) queued weighed_open detected_open by (auto simp: w)
qed

text \<open>A store without rules of its own keeps its records: what \<open>forward\<close> leaves has the id both rows have.\<close>

lemma forward_whole_at:
  "map_of (forward None here there) k =
     (case map_of there k of
        None \<Rightarrow> None
      | Some v \<Rightarrow> (case map_of here k of Some u \<Rightarrow> if json_eq u v then Some u else Some v | None \<Rightarrow> Some v))"
  unfolding forward_def Let_def option.case forward_keys_at forward_keys by (auto split: option.splits)

lemma plain_store_keeps_records:
  assumes "se_compared e = None" and "se_arrives e = None" and "se_edit_arrives e = None"
  shows "keeps_records L e"
  unfolding keeps_records_def
proof (intro conjI allI impI)
  fix here there
  assume "row_id L there = row_id L here"
  then show "row_id L (edited_there e here there) = row_id L here"
    using assms
    by (cases "map_of there ''id''"; cases "map_of here ''id''")
      (simp_all add: edited_there_def row_id_def id_of_def get_or_def forward_whole_at del: ids_match)
qed (simp_all add: assms)

section \<open>What a sync promises\<close>

text \<open>A small store to try the promises on.\<close>

definition plain_codec :: codec where
  "plain_codec = \<lparr>py_str = str_of_none,
     canonical_json = (\<lambda>row. concat (map (\<lambda>(k, v). k @ text_of str_of_none v) row)), sha256 = (\<lambda>s. s)\<rparr>"

definition notes_entry :: state_entry where
  "notes_entry = \<lparr>se_id = ''notes'', se_domain = ''work'', se_merge = Union_by_id, se_compared = None, se_arrives = None,
     se_edit_arrives = None\<rparr>"

definition memo :: "string \<Rightarrow> row" where
  "memo t = [(''id'', JStr ''a''), (''t'', JStr t)]"

definition some_pull :: "deletion dict \<Rightarrow> pull" where
  "some_pull marks = \<lparr>pl_peer = ''p'', pl_now = ''n'', pl_history = [], pl_deleted = marks, pl_unknown = (\<lambda>_. False)\<rparr>"

lemma notes_keep [simp]: "keeps_records L notes_entry"
  by (rule plain_store_keeps_records) (simp_all add: notes_entry_def)

lemma memo_facts [simp]:
  "row_id plain_codec (memo t) = ''a''" "\<not> is_tombstone (memo t)" "se_merge notes_entry = Union_by_id"
  "seen_sha plain_codec notes_entry (memo t) = ''idat'' @ t" "se_id notes_entry = ''notes''"
  "row_id plain_codec (dead_row ''a'' s) = ''a''"
  by (simp_all add: memo_def row_id_def id_of_def get_or_def is_tombstone_def field_of_def notes_entry_def plain_codec_def
      seen_sha_def row_sha_def compared_def dead_row_def del: ids_match)

lemma notes_pull [simp]:
  "id_keyed_pull plain_codec notes_entry [memo t] [memo u]" "id_keyed_pull plain_codec notes_entry [] [memo u]"
  "id_keyed_pull plain_codec notes_entry [memo t] [dead_row ''a'' s]"
  by (simp_all add: id_keyed_pull_def ID_KEYED_MERGES_def)

lemma edited_memo: "t \<noteq> u \<Longrightarrow> edited_there notes_entry (memo t) (memo u) = memo u"
  by (simp add: edited_there_def notes_entry_def forward_def memo_def forward_key_def)

lemma edits_at:
  assumes "distinct (map (row_id L) remote)" and "there \<in> set remote" and "row_id L there = rid" and "rid \<noteq> []"
  shows "map_of (by_row_id L (filter (\<lambda>r. \<not> is_tombstone r) remote)) rid = (if is_tombstone there then None else Some there)"
proof (cases "is_tombstone there")
  case True
  have "rid \<notin> row_id L ` set (filter (\<lambda>r. \<not> is_tombstone r) remote)"
  proof
    assume "rid \<in> row_id L ` set (filter (\<lambda>r. \<not> is_tombstone r) remote)"
    then obtain r where "r \<in> set remote" "\<not> is_tombstone r" "row_id L r = rid" by auto
    moreover have "r = there" using assms(1-3) calculation by (auto simp: distinct_map dest: inj_onD)
    ultimately show False using True by simp
  qed
  then show ?thesis using True by (simp add: by_row_id_absent)
next
  case False
  then show ?thesis
    using by_row_id_mem [of L "filter (\<lambda>r. \<not> is_tombstone r) remote" there] assms
    by (simp add: distinct_map_filter)
qed

lemma three_way_all:
  assumes pull: "id_keyed_pull L e local remote"
    and "mine \<in> set local" and "there \<in> set remote" and "row_id L mine = rid" and "row_id L there = rid" and "rid \<noteq> []"
    and "\<not> is_tombstone mine" and "\<not> is_tombstone there"
  shows "\<exists>oc queue'. merge_into L e pl bases (Some queue) local remote = Inr oc \<and> oc_queue oc = Some queue' \<and>
    (let lsha = seen_sha L e mine; rsha = seen_sha L e there;
         agreed = (case map_of bases rid of None \<Rightarrow> [] | Some a \<Rightarrow> a);
         both = (agreed \<noteq> [] \<and> lsha \<noteq> rsha \<and> lsha \<noteq> agreed \<and> rsha \<noteq> agreed);
         waiting = (rid \<in> set (held_ids (se_id e) queue)) in
       filter (\<lambda>r. row_id L r = rid) (oc_rows oc) =
         [if both \<or> waiting then mine
          else if agreed = [] \<or> lsha = rsha then resolve_pair (py_str L) (lww_field e) mine (arrived e there)
          else if lsha = agreed then edited_there e mine there else mine] \<and>
       filter (\<lambda>r. row_id L r = rid) (oc_remote oc) = (if both \<or> waiting then [] else [there]) \<and>
       rid \<in> set (oc_live oc) \<and>
       (rid \<in> set (oc_held oc) \<longleftrightarrow> both \<or> waiting) \<and>
       (both \<longrightarrow> (\<exists>c \<in> set queue'. conflict_id L c =
          conflict_id L (the (edit_conflict L e bases (pl_now pl) rid mine there)) \<and> (c \<in> set queue \<or> cr_status c = Needs_review))))"
proof -
  let ?lsha = "seen_sha L e mine" and ?rsha = "seen_sha L e there"
  define agreed where "agreed = (case map_of bases rid of None \<Rightarrow> [] | Some a \<Rightarrow> a)"
  let ?both = "agreed \<noteq> [] \<and> ?lsha \<noteq> ?rsha \<and> ?lsha \<noteq> agreed \<and> ?rsha \<noteq> agreed"
  let ?waiting = "rid \<in> set (held_ids (se_id e) queue)"
  note keyed = pull [unfolded id_keyed_pull_def]
  have live: "map_of (by_row_id L local) rid = Some mine" using by_row_id_mem keyed assms by metis
  obtain oc w queue' ahead behind where run: "merge_into L e pl bases (Some queue) local remote = Inr oc"
    and w: "w = weigh_deletions L e (by_row_id L local) remote (removed_here pl (map fst (by_row_id L local))) (pl_now pl)"
    and q': "oc_queue oc = Some queue'"
    and inq: "\<And>c. c \<in> set (detect_conflicts L e local (filter (\<lambda>r. \<not> is_tombstone r) remote) bases (pl_now pl) @ wd_conflicts w) \<Longrightarrow>
        conflict_id L c \<in> conflict_id L ` set queue' \<and> cr_entity c \<in> set (oc_held oc)"
    and onlyq: "\<And>rid. rid \<in> set (oc_held oc) \<Longrightarrow> rid \<in> set (held_ids (se_id e) queue) \<or>
        (\<exists>c \<in> set (detect_conflicts L e local (filter (\<lambda>r. \<not> is_tombstone r) remote) bases (pl_now pl) @ wd_conflicts w). cr_entity c = rid)"
    and eff: "oc_remote oc = filter (\<lambda>r. row_id L r \<notin> set (oc_held oc @ wd_declined w @ wd_moot w) \<and>
        (row_id L r \<in> set (map fst (wd_applied w)) \<or> \<not> is_tombstone r)) remote"
    and alive: "oc_live oc = map fst (by_row_id L local)"
    and sides: "one_side_changed L e local (oc_remote oc) bases = (ahead, behind)"
    and at: "\<And>rid mine there. filter (\<lambda>r. row_id L r = rid) local = (case mine of None \<Rightarrow> [] | Some m \<Rightarrow> [m]) \<Longrightarrow>
        filter (\<lambda>r. row_id L r = rid) (oc_remote oc) = (case there of None \<Rightarrow> [] | Some r \<Rightarrow> [r]) \<Longrightarrow>
        filter (\<lambda>r. row_id L r = rid) (oc_rows oc) = settled L e (map_of ahead rid) (rid \<in> set behind) mine there"
    by (fact merge_into_queued [OF pull])
  have "weighed_view rid w = (False, None, False, [])"
    unfolding w weighed_one [OF pull assms(3,5)] by (simp add: weigh_verdict_def assms live split: option.split)
  then have quiet: "rid \<notin> set (wd_declined w)" "rid \<notin> set (wd_moot w)" "c \<in> set (wd_conflicts w) \<Longrightarrow> cr_entity c \<noteq> rid" for c
    by (auto simp: weighed_view_def filter_empty_conv)
  have conflict: "edit_conflict L e bases (pl_now pl) rid mine there \<noteq> None \<longleftrightarrow> ?both"
    by (auto simp: edit_conflict_def Let_def agreed_def split: option.splits)
  have detected: "c \<in> set (detect_conflicts L e local (filter (\<lambda>r. \<not> is_tombstone r) remote) bases (pl_now pl)) \<and> cr_entity c = rid
      \<longleftrightarrow> edit_conflict L e bases (pl_now pl) rid mine there = Some c" for c
    using keyed by (simp add: detected_at edits_at [OF _ assms(3,5,6)] assms(8) live)
  note after = queue_after [OF pull run q']
  have held: "rid \<in> set (oc_held oc) \<longleftrightarrow> ?both \<or> ?waiting"
  proof
    assume "rid \<in> set (oc_held oc)"
    then consider ?waiting | c where "edit_conflict L e bases (pl_now pl) rid mine there = Some c"
      using onlyq [of rid] quiet(3) detected by auto
    then show "?both \<or> ?waiting" using conflict by cases auto
  next
    assume "?both \<or> ?waiting"
    then consider ?waiting | c where "edit_conflict L e bases (pl_now pl) rid mine there = Some c" using conflict by auto
    then show "rid \<in> set (oc_held oc)"
    proof cases
      case (2 c)
      then show ?thesis using detected [of c] inq [of c] by auto
    qed (use after(1) in blast)
  qed
  have queued: "\<exists>c \<in> set queue'. conflict_id L c = conflict_id L (the (edit_conflict L e bases (pl_now pl) rid mine there)) \<and>
      (c \<in> set queue \<or> cr_status c = Needs_review)" if both: ?both
  proof -
    obtain c where c: "edit_conflict L e bases (pl_now pl) rid mine there = Some c" using conflict both by auto
    then have "conflict_id L c \<in> conflict_id L ` set queue'" using detected [of c] inq [of c] by auto
    then obtain c' where "c' \<in> set queue'" "conflict_id L c' = conflict_id L c" by auto
    then show ?thesis using c after(2) [of c'] by (intro bexI [of _ c']) simp_all
  qed
  have ls: "filter (\<lambda>r. row_id L r = rid) local = [mine]" using only_row keyed assms by metis
  have eff_sub: "distinct (map (row_id L) (oc_remote oc))" using keyed by (simp add: eff distinct_map_filter)
  have row: "filter (\<lambda>r. row_id L r = rid) (oc_rows oc) =
      [if ?both \<or> ?waiting then mine
       else if agreed = [] \<or> ?lsha = ?rsha then resolve_pair (py_str L) (lww_field e) mine (arrived e there)
       else if ?lsha = agreed then edited_there e mine there else mine]"
  proof (cases "?both \<or> ?waiting")
    case True
    then have "rid \<notin> row_id L ` set (oc_remote oc)" using held by (auto simp: eff)
    then have "filter (\<lambda>r. row_id L r = rid) (oc_remote oc) = []" "map_of ahead rid = None"
      using no_row one_side_none [OF sides] by metis+
    then show ?thesis using at [of rid "Some mine" None] ls True by (simp add: settled_def)
  next
    case False
    then have here: "there \<in> set (oc_remote oc)" using assms held quiet by (simp add: eff)
    have rs: "filter (\<lambda>r. row_id L r = rid) (oc_remote oc) = [there]" by (rule only_row [OF eff_sub here assms(5)])
    have verdict: "(map_of ahead rid, rid \<in> set behind) = side_verdict L e (by_row_id L local) bases there (None, False)"
      using one_side_one [OF sides eff_sub here assms(5)] keyed by blast
    have "filter (\<lambda>r. row_id L r = rid) (oc_rows oc) = settled L e (map_of ahead rid) (rid \<in> set behind) (Some mine) (Some there)"
      by (rule at) (simp_all add: ls rs)
    then show ?thesis using verdict False assms live
      by (auto simp: settled_def side_verdict_def agreed_def split: if_splits option.splits)
  qed
  have left: "filter (\<lambda>r. row_id L r = rid) (oc_remote oc) = (if ?both \<or> ?waiting then [] else [there])"
  proof (cases "?both \<or> ?waiting")
    case True
    then have "rid \<notin> row_id L ` set (oc_remote oc)" using held by (auto simp: eff)
    then show ?thesis using True no_row by auto
  next
    case False
    then have "there \<in> set (oc_remote oc)" using assms held quiet by (simp add: eff)
    then show ?thesis using False only_row [OF eff_sub _ assms(5)] by auto
  qed
  have "oc_live oc = map fst (by_row_id L local)" by (rule alive)
  then have "rid \<in> set (oc_live oc)" using live by (auto dest: map_of_SomeD intro: rev_image_eqI)
  then show ?thesis unfolding Let_def agreed_def [symmetric] using run q' row held queued left by blast
qed

lemma three_way:
  assumes pull: "id_keyed_pull L e local remote" and "se_merge e = Union_by_id"
    and "mine \<in> set local" and "there \<in> set remote" and "row_id L mine = rid" and "row_id L there = rid" and "rid \<noteq> []"
    and "\<not> is_tombstone mine" and "\<not> is_tombstone there"
    and "map_of bases rid = Some agreed" and "agreed \<noteq> []" and "rid \<notin> set (held_ids (se_id e) queue)"
  shows "\<exists>oc. merge_into L e pl bases (Some queue) local remote = Inr oc \<and>
    (let lsha = seen_sha L e mine; rsha = seen_sha L e there; both = (lsha \<noteq> rsha \<and> lsha \<noteq> agreed \<and> rsha \<noteq> agreed) in
       filter (\<lambda>r. row_id L r = rid) (oc_rows oc) = [if lsha \<noteq> rsha \<and> lsha = agreed then edited_there e mine there else mine] \<and>
       filter (\<lambda>r. row_id L r = rid) (oc_remote oc) = (if both then [] else [there]) \<and>
       rid \<in> set (oc_live oc) \<and> (rid \<in> set (oc_held oc) \<longleftrightarrow> both))"
proof -
  have "resolve_pair (py_str L) (lww_field e) mine (arrived e there) = mine"
    using assms arrived_tomb [of L e there] pull by (simp add: resolve_pair_def lww_field_def id_keyed_pull_def)
  then show ?thesis
    using three_way_all [OF pull assms(3-9), of pl bases queue] assms(10-12) by (auto simp: Let_def)
qed

text \<open>
  C1. A record two homes both hold live, in a store keyed by id (no id twice on either side, and the store's own
  rules keep the ids), is merged three ways against the version they last agreed on. What both edited, and
  what already waits for a person, stays as it is here and is held, nothing else is held; what only the peer
  edited is taken in; what only this home edited stays, whatever the peer's stamp says; and where the two have the
  same content, or never agreed on a version, the store's own choice between two rows decides. What both
  edited has a record in the queue under its conflict's id: one that waits for a person, unless one with that id,
  perhaps decided already, was there before.
\<close>

theorem three_way_merge:
  assumes "id_keyed_pull L e local remote"
    and "mine \<in> set local" and "there \<in> set remote" and "row_id L mine = rid" and "row_id L there = rid" and "rid \<noteq> []"
    and "\<not> is_tombstone mine" and "\<not> is_tombstone there"
  shows "\<exists>oc queue'. merge_into L e pl bases (Some queue) local remote = Inr oc \<and> oc_queue oc = Some queue' \<and>
    (let lsha = seen_sha L e mine; rsha = seen_sha L e there;
         agreed = (case map_of bases rid of None \<Rightarrow> [] | Some a \<Rightarrow> a);
         both = (agreed \<noteq> [] \<and> lsha \<noteq> rsha \<and> lsha \<noteq> agreed \<and> rsha \<noteq> agreed);
         waiting = (rid \<in> set (held_ids (se_id e) queue)) in
       filter (\<lambda>r. row_id L r = rid) (oc_rows oc) =
         [if both \<or> waiting then mine
          else if agreed = [] \<or> lsha = rsha then resolve_pair (py_str L) (lww_field e) mine (arrived e there)
          else if lsha = agreed then edited_there e mine there else mine] \<and>
       (rid \<in> set (oc_held oc) \<longleftrightarrow> both \<or> waiting) \<and>
       (both \<longrightarrow> (\<exists>c \<in> set queue'. conflict_id L c =
          conflict_id L (the (edit_conflict L e bases (pl_now pl) rid mine there)) \<and> (c \<in> set queue \<or> cr_status c = Needs_review))))"
  using three_way_all [OF assms, of pl bases queue] unfolding Let_def by blast

lemma three_way_merge_witness:
  "\<exists>oc queue'. merge_into plain_codec notes_entry (some_pull []) [(''a'', ''old'')] (Some []) [memo ''x''] [memo ''y''] = Inr oc \<and>
     filter (\<lambda>r. row_id plain_codec r = ''a'') (oc_rows oc) = [memo ''x''] \<and> ''a'' \<in> set (oc_held oc) \<and>
     oc_queue oc = Some queue' \<and> (\<exists>c \<in> set queue'. cr_status c = Needs_review)"
  using three_way_merge [of plain_codec notes_entry "[memo ''x'']" "[memo ''y'']" "memo ''x''" "memo ''y''" "''a''"
      "some_pull []" "[(''a'', ''old'')]" "[]"]
  by (auto simp: held_ids_def Let_def)

text \<open>
  C17. A record deleted here stays deleted: whatever row of it a peer sends, no row of it is left in the
  store, until a person chooses. A peer's version the delete never saw is not dropped either: it is in the
  queue.
\<close>

theorem deleted_here_stays_deleted:
  assumes pull: "id_keyed_pull L e local remote"
    and gone: "map_of (removed_here pl (map fst (by_row_id L local))) rid = Some mark" and "rid \<noteq> []"
  shows "\<exists>oc queue'. merge_into L e pl bases (Some queue) local remote = Inr oc \<and> oc_queue oc = Some queue' \<and>
    filter (\<lambda>r. row_id L r = rid) (oc_rows oc) = [] \<and>
    (\<forall>there \<in> set remote. row_id L there = rid \<longrightarrow> \<not> is_tombstone there \<longrightarrow> seen_sha L e there \<notin> set (del_held mark) \<longrightarrow>
       (\<exists>c \<in> set queue'. conflict_id L c = conflict_id L (deletion_conflict L e rid (deleted_row rid (del_at mark))
          (compared e there) Deleted_here (pl_now pl))))"
proof -
  note keyed = pull [unfolded id_keyed_pull_def]
  have dead: "map_of (by_row_id L local) rid = None"
    using removed_not_live [OF gone] live_ids by blast
  have ls: "filter (\<lambda>r. row_id L r = rid) local = []"
    using dead \<open>rid \<noteq> []\<close> by (auto simp: by_row_id_at split: list.splits)
  obtain oc w queue' ahead behind where run: "merge_into L e pl bases (Some queue) local remote = Inr oc"
    and w: "w = weigh_deletions L e (by_row_id L local) remote (removed_here pl (map fst (by_row_id L local))) (pl_now pl)"
    and q': "oc_queue oc = Some queue'"
    and inq: "\<And>c. c \<in> set (detect_conflicts L e local (filter (\<lambda>r. \<not> is_tombstone r) remote) bases (pl_now pl) @ wd_conflicts w) \<Longrightarrow>
        conflict_id L c \<in> conflict_id L ` set queue' \<and> cr_entity c \<in> set (oc_held oc)"
    and onlyq: "\<And>rid. rid \<in> set (oc_held oc) \<Longrightarrow> rid \<in> set (held_ids (se_id e) queue) \<or>
        (\<exists>c \<in> set (detect_conflicts L e local (filter (\<lambda>r. \<not> is_tombstone r) remote) bases (pl_now pl) @ wd_conflicts w). cr_entity c = rid)"
    and eff: "oc_remote oc = filter (\<lambda>r. row_id L r \<notin> set (oc_held oc @ wd_declined w @ wd_moot w) \<and>
        (row_id L r \<in> set (map fst (wd_applied w)) \<or> \<not> is_tombstone r)) remote"
    and alive: "oc_live oc = map fst (by_row_id L local)"
    and sides: "one_side_changed L e local (oc_remote oc) bases = (ahead, behind)"
    and at: "\<And>rid mine there. filter (\<lambda>r. row_id L r = rid) local = (case mine of None \<Rightarrow> [] | Some m \<Rightarrow> [m]) \<Longrightarrow>
        filter (\<lambda>r. row_id L r = rid) (oc_remote oc) = (case there of None \<Rightarrow> [] | Some r \<Rightarrow> [r]) \<Longrightarrow>
        filter (\<lambda>r. row_id L r = rid) (oc_rows oc) = settled L e (map_of ahead rid) (rid \<in> set behind) mine there"
    by (fact merge_into_queued [OF pull])
  have view: "weighed_view rid w = weigh_verdict L e (by_row_id L local) (removed_here pl (map fst (by_row_id L local)))
      (pl_now pl) there (False, None, False, [])" if "there \<in> set remote" "row_id L there = rid" for there
    unfolding w by (rule weighed_one [OF pull that])
  have dropped: "there \<notin> set (oc_remote oc)" and queued: "\<not> is_tombstone there \<Longrightarrow> seen_sha L e there \<notin> set (del_held mark) \<Longrightarrow>
      deletion_conflict L e rid (deleted_row rid (del_at mark)) (compared e there) Deleted_here (pl_now pl) \<in> set (wd_conflicts w)"
    if there: "there \<in> set remote" "row_id L there = rid" for there
  proof -
    let ?c = "deletion_conflict L e rid (deleted_row rid (del_at mark)) (compared e there) Deleted_here (pl_now pl)"
    consider "rid \<in> set (wd_moot w)" | "rid \<in> set (wd_declined w)" "seen_sha L e there \<in> set (del_held mark)" "\<not> is_tombstone there"
      | "filter (\<lambda>c. cr_entity c = rid) (wd_conflicts w) = [?c]" "\<not> is_tombstone there"
        "seen_sha L e there \<notin> set (del_held mark)"
      using view [OF there] dead gone \<open>rid \<noteq> []\<close> there(2)
      by (auto simp: weighed_view_def weigh_verdict_def Let_def split: if_splits)
    then show "there \<notin> set (oc_remote oc)"
    proof cases
      case 3
      then have "?c \<in> set (wd_conflicts w)" by (auto dest: filter_eq_ConsD)
      then have "rid \<in> set (oc_held oc)" using inq [of ?c] by simp
      then show ?thesis using there(2) by (simp add: eff)
    qed (use there(2) in \<open>simp_all add: eff\<close>)
    show "?c \<in> set (wd_conflicts w)" if "\<not> is_tombstone there" "seen_sha L e there \<notin> set (del_held mark)"
    proof -
      have "filter (\<lambda>c. cr_entity c = rid) (wd_conflicts w) = [?c]"
        using view [OF there] dead gone \<open>rid \<noteq> []\<close> there(2) \<open>\<not> is_tombstone there\<close> \<open>seen_sha L e there \<notin> set (del_held mark)\<close>
        by (auto simp: weighed_view_def weigh_verdict_def Let_def)
      then show ?thesis by (auto dest: filter_eq_ConsD)
    qed
  qed
  have "rid \<notin> row_id L ` set (oc_remote oc)" using dropped by (auto simp: eff)
  then have "filter (\<lambda>r. row_id L r = rid) (oc_remote oc) = []" by (rule no_row)
  then have "filter (\<lambda>r. row_id L r = rid) (oc_rows oc) = []"
    using at [of rid None None] ls by (simp add: settled_def)
  then show ?thesis using run q' queued inq by (auto simp: image_iff) metis
qed

lemma deleted_here_stays_deleted_witness:
  "\<exists>oc queue'. merge_into plain_codec notes_entry
       (some_pull [(''a'', \<lparr>del_at = ''d'', del_held = [''idatx''], del_by = []\<rparr>)]) [] (Some []) [] [memo ''y''] = Inr oc \<and>
     filter (\<lambda>r. row_id plain_codec r = ''a'') (oc_rows oc) = [] \<and> oc_queue oc = Some queue' \<and> queue' \<noteq> []"
  using deleted_here_stays_deleted [of plain_codec notes_entry "[]" "[memo ''y'']"
      "some_pull [(''a'', \<lparr>del_at = ''d'', del_held = [''idatx''], del_by = []\<rparr>)]" "''a''"
      "\<lparr>del_at = ''d'', del_held = [''idatx''], del_by = []\<rparr>" "[]" "[]"]
  by (auto simp: removed_here_def some_pull_def by_row_id_def)

text \<open>
  A peer's delete takes only what it saw: a record this home holds exactly as the deleting home held it
  is deleted here too, and a record edited since stays as it is, held for a person to decide.
\<close>

theorem peer_delete_takes_only_what_it_saw:
  assumes pull: "id_keyed_pull L e local remote"
    and "mine \<in> set local" and "gone \<in> set remote" and "row_id L mine = rid" and "row_id L gone = rid" and "rid \<noteq> []"
    and "\<not> is_tombstone mine" and "is_tombstone gone" and "rid \<notin> set (held_ids (se_id e) queue)"
  shows "\<exists>oc queue'. merge_into L e pl bases (Some queue) local remote = Inr oc \<and> oc_queue oc = Some queue' \<and>
    (let saw = seen_sha L e mine \<in> set (held_by_the_delete gone) in
       filter (\<lambda>r. row_id L r = rid) (oc_rows oc) = [if saw then gone else mine] \<and>
       (rid \<in> set (oc_held oc) \<longleftrightarrow> \<not> saw))"
proof -
  let ?saw = "seen_sha L e mine \<in> set (held_by_the_delete gone)"
  note keyed = pull [unfolded id_keyed_pull_def]
  have live: "map_of (by_row_id L local) rid = Some mine" using by_row_id_mem keyed assms by metis
  have ls: "filter (\<lambda>r. row_id L r = rid) local = [mine]" using only_row keyed assms by metis
  obtain oc w queue' ahead behind where run: "merge_into L e pl bases (Some queue) local remote = Inr oc"
    and w: "w = weigh_deletions L e (by_row_id L local) remote (removed_here pl (map fst (by_row_id L local))) (pl_now pl)"
    and q': "oc_queue oc = Some queue'"
    and inq: "\<And>c. c \<in> set (detect_conflicts L e local (filter (\<lambda>r. \<not> is_tombstone r) remote) bases (pl_now pl) @ wd_conflicts w) \<Longrightarrow>
        conflict_id L c \<in> conflict_id L ` set queue' \<and> cr_entity c \<in> set (oc_held oc)"
    and onlyq: "\<And>rid. rid \<in> set (oc_held oc) \<Longrightarrow> rid \<in> set (held_ids (se_id e) queue) \<or>
        (\<exists>c \<in> set (detect_conflicts L e local (filter (\<lambda>r. \<not> is_tombstone r) remote) bases (pl_now pl) @ wd_conflicts w). cr_entity c = rid)"
    and eff: "oc_remote oc = filter (\<lambda>r. row_id L r \<notin> set (oc_held oc @ wd_declined w @ wd_moot w) \<and>
        (row_id L r \<in> set (map fst (wd_applied w)) \<or> \<not> is_tombstone r)) remote"
    and alive: "oc_live oc = map fst (by_row_id L local)"
    and sides: "one_side_changed L e local (oc_remote oc) bases = (ahead, behind)"
    and at: "\<And>rid mine there. filter (\<lambda>r. row_id L r = rid) local = (case mine of None \<Rightarrow> [] | Some m \<Rightarrow> [m]) \<Longrightarrow>
        filter (\<lambda>r. row_id L r = rid) (oc_remote oc) = (case there of None \<Rightarrow> [] | Some r \<Rightarrow> [r]) \<Longrightarrow>
        filter (\<lambda>r. row_id L r = rid) (oc_rows oc) = settled L e (map_of ahead rid) (rid \<in> set behind) mine there"
    by (fact merge_into_queued [OF pull])
  let ?c = "deletion_conflict L e rid (compared e mine)
      (deleted_row rid (text_of (py_str L) (get_or gone ''deleted_at'' (JStr [])))) Deleted_there (pl_now pl)"
  have view: "weighed_view rid w = (if ?saw then (False, Some gone, False, []) else (False, None, False, [?c]))"
    unfolding w weighed_one [OF pull assms(3,5)] using assms live by (simp add: weigh_verdict_def Let_def)
  have no_edit: "c \<notin> set (detect_conflicts L e local (filter (\<lambda>r. \<not> is_tombstone r) remote) bases (pl_now pl))"
    if "cr_entity c = rid" for c
    using detected_at [of e c L local "filter (\<lambda>r. \<not> is_tombstone r) remote" bases "pl_now pl" rid] that keyed
      edits_at [of L remote gone rid] assms by simp
  have held: "rid \<in> set (oc_held oc) \<longleftrightarrow> \<not> ?saw"
  proof
    assume "rid \<in> set (oc_held oc)"
    then obtain c where "c \<in> set (wd_conflicts w)" "cr_entity c = rid"
      using onlyq [of rid] assms(9) no_edit by auto
    then show "\<not> ?saw" using view by (auto simp: weighed_view_def filter_empty_conv)
  next
    assume "\<not> ?saw"
    then have "filter (\<lambda>c. cr_entity c = rid) (wd_conflicts w) = [?c]" using view by (simp add: weighed_view_def)
    then have "?c \<in> set (wd_conflicts w)" by (auto dest: filter_eq_ConsD)
    then show "rid \<in> set (oc_held oc)" using inq [of ?c] by simp
  qed
  have eff_sub: "distinct (map (row_id L) (oc_remote oc))" using keyed by (simp add: eff distinct_map_filter)
  have row: "filter (\<lambda>r. row_id L r = rid) (oc_rows oc) = [if ?saw then gone else mine]"
  proof (cases ?saw)
    case False
    then have "rid \<notin> row_id L ` set (oc_remote oc)" using held by (auto simp: eff)
    then have "filter (\<lambda>r. row_id L r = rid) (oc_remote oc) = []" "map_of ahead rid = None"
      using no_row one_side_none [OF sides] by metis+
    then show ?thesis using at [of rid "Some mine" None] ls False by (simp add: settled_def)
  next
    case True
    have marks: "rid \<notin> set (wd_declined w)" "rid \<notin> set (wd_moot w)" "map_of (wd_applied w) rid = Some gone"
      using view True by (auto simp: weighed_view_def)
    then have "rid \<in> set (map fst (wd_applied w))" by (metis domI dom_map_of_conv_image_fst list.set_map)
    then have here: "gone \<in> set (oc_remote oc)" using assms held True marks by (simp add: eff)
    have rs: "filter (\<lambda>r. row_id L r = rid) (oc_remote oc) = [gone]" by (rule only_row [OF eff_sub here assms(5)])
    have verdict: "(map_of ahead rid, rid \<in> set behind) = side_verdict L e (by_row_id L local) bases gone (None, False)"
      using one_side_one [OF sides eff_sub here assms(5)] keyed by blast
    have "(map_of ahead rid, rid \<in> set behind) = (None, False)"
      unfolding verdict using assms by (simp add: side_verdict_def split: option.split)
    moreover have "filter (\<lambda>r. row_id L r = rid) (oc_rows oc) = settled L e (map_of ahead rid) (rid \<in> set behind) (Some mine) (Some gone)"
      by (rule at) (simp_all add: ls rs)
    moreover have "arrived e gone = gone" using assms(8) by (simp add: arrived_def split: option.split)
    ultimately show ?thesis using assms True by (simp add: settled_def resolve_pair_def)
  qed
  show ?thesis unfolding Let_def using run q' row held by blast
qed

lemma peer_delete_takes_only_what_it_saw_witness:
  "\<exists>oc. merge_into plain_codec notes_entry (some_pull []) [] (Some []) [memo ''x''] [dead_row ''a'' ''1''] = Inr oc \<and>
     filter (\<lambda>r. row_id plain_codec r = ''a'') (oc_rows oc) = [memo ''x''] \<and> ''a'' \<in> set (oc_held oc)"
proof -
  have "is_tombstone (dead_row ''a'' ''1'')" "held_by_the_delete (dead_row ''a'' ''1'') = []" by code_simp+
  then show ?thesis
    using peer_delete_takes_only_what_it_saw [of plain_codec notes_entry "[memo ''x'']" "[dead_row ''a'' ''1'']" "memo ''x''"
        "dead_row ''a'' ''1''" "''a''" "[]" "some_pull []" "[]"]
    by (auto simp: held_ids_def Let_def)
qed

section \<open>What two homes agree on after a sync\<close>

text \<open>The base of one record, and whether the peer handed this home's own version back.\<close>

definition base_verdict ::
  "codec \<Rightarrow> state_entry \<Rightarrow> string list dict \<Rightarrow> string dict \<Rightarrow> row \<Rightarrow> string option \<times> string option \<Rightarrow> string option \<times> string option" where
  "base_verdict L e publ agreed_there row st =
     (case st of
        (Some agreed, handed) \<Rightarrow>
          if is_tombstone row \<or> agreed = [] \<or> agreed \<notin> set (family publ (row_id L row)) then st
          else if seen_sha L e row \<in> set (since agreed (family publ (row_id L row)))
          then (Some (seen_sha L e row), Some (seen_sha L e row))
          else (case map_of agreed_there (row_id L row) of
                  None \<Rightarrow> st
                | Some there \<Rightarrow> if there \<in> set (since agreed (family publ (row_id L row))) then (Some there, handed) else st)
      | _ \<Rightarrow> st)"

lemma in_common_at:
  "(map_of (fst (in_common L e remote agreed publ agreed_there)) rid, map_of (snd (in_common L e remote agreed publ agreed_there)) rid) =
     fold (base_verdict L e publ agreed_there) (filter (\<lambda>r. row_id L r = rid) remote) (map_of agreed rid, None)"
proof -
  let ?view = "\<lambda>st. (map_of (fst st) rid, map_of (snd st) rid) :: string option \<times> string option"
  have "?view (fold (in_common_row L e publ agreed_there) remote (agreed, [])) =
      fold (base_verdict L e publ agreed_there) (filter (\<lambda>r. row_id L r = rid) remote) (?view (agreed, []))"
    by (rule fold_at_key [where view = ?view])
      (auto simp: in_common_row_def base_verdict_def Let_def split: option.splits prod.splits)
  then show ?thesis by (simp add: in_common_def)
qed

lemma agreed_shas_at:
  assumes "filter (\<lambda>r. row_id L r = rid) merged = [r]" and "filter (\<lambda>r. row_id L r = rid) remote = [there]"
    and "rid \<noteq> []" and "rid \<notin> set hold" and "\<not> is_tombstone r" and "\<not> is_tombstone there"
  shows "map_of (agreed_shas L e remote merged hold) rid =
      (if seen_sha L e r = seen_sha L e there then Some (seen_sha L e there) else None)"
    and "distinct (map fst (agreed_shas L e remote merged hold))"
proof -
  define shas where "shas = fold (\<lambda>r m. if row_id L r \<noteq> [] \<and> \<not> is_tombstone r
      then dict_set m (row_id L r) (seen_sha L e r) else m) remote []"
  have ids: "row_id L r = rid" "row_id L there = rid" using assms(1,2) by (auto dest: filter_eq_ConsD)
  have "map_of shas rid =
      fold (\<lambda>r v. if is_tombstone r then v else Some (seen_sha L e r)) (filter (\<lambda>r. row_id L r = rid) remote) (map_of [] rid)"
    unfolding shas_def by (rule fold_at_key [where view = "\<lambda>m. map_of m rid"]) (use assms(3) in auto)
  then have shas: "map_of shas rid = Some (seen_sha L e there)" using assms(2,6) by simp
  let ?step = "\<lambda>r m. if row_id L r = [] \<or> row_id L r \<in> set hold \<or> is_tombstone r then m
      else if map_of shas (row_id L r) = Some (seen_sha L e r) then dict_set m (row_id L r) (seen_sha L e r) else m"
  have eq: "agreed_shas L e remote merged hold = fold ?step merged []"
    unfolding agreed_shas_def Let_def shas_def ..
  have "map_of (fold ?step merged []) rid =
      fold (\<lambda>r v. if is_tombstone r then v else if map_of shas rid = Some (seen_sha L e r) then Some (seen_sha L e r) else v)
        (filter (\<lambda>r. row_id L r = rid) merged) (map_of [] rid)"
    by (rule fold_at_key [where view = "\<lambda>m. map_of m rid"]) (use assms(3,4) in auto)
  then show "map_of (agreed_shas L e remote merged hold) rid =
      (if seen_sha L e r = seen_sha L e there then Some (seen_sha L e there) else None)"
    using assms(1,5) shas by (simp add: eq)
  show "distinct (map fst (agreed_shas L e remote merged hold))"
    unfolding eq by (rule fold_preserves [where P = "\<lambda>m. distinct (map fst m)"]) auto
qed

text \<open>What \<open>reconcile\<close> ends on for one record both homes have live, not held for review.\<close>

lemma reconcile_agrees:
  assumes common: "in_common L e remote agreed publ agreed_there = (bases, handed)"
    and run: "merge_into L e pl bases (Some queue) local remote = Inr oc"
    and row: "filter (\<lambda>r. row_id L r = rid) (oc_rows oc) = [r]" and left: "filter (\<lambda>r. row_id L r = rid) (oc_remote oc) = [there]"
    and "rid \<noteq> []" and held: "rid \<notin> set (oc_held oc)" and live: "rid \<in> set (oc_live oc)"
    and "\<not> is_tombstone r" and "\<not> is_tombstone there"
  obtains rc where "reconcile L e pl agreed publ agreed_there (Some queue) local remote = Inr rc" and "rc_outcome rc = oc"
    and "seen_sha L e r = seen_sha L e there \<Longrightarrow> map_of (rc_ancestors rc) rid = Some (seen_sha L e there)"
    and "seen_sha L e r \<noteq> seen_sha L e there \<Longrightarrow> map_of handed rid = Some sha \<Longrightarrow> map_of (rc_ancestors rc) rid = Some sha"
proof -
  obtain rc where rc: "reconcile L e pl agreed publ agreed_there (Some queue) local remote = Inr rc" "rc_outcome rc = oc"
    "rc_ancestors rc = dict_update (filter (\<lambda>(rid, sha). rid \<notin> set (oc_held oc) \<and> rid \<in> set (oc_live oc)) handed)
        (agreed_shas L e (oc_remote oc) (oc_rows oc) (oc_held oc))"
    unfolding reconcile_def Let_def common prod.case run sum.case by fastforce
  show thesis
  proof (rule that [OF rc(1,2)])
    note at = agreed_shas_at [OF row left \<open>rid \<noteq> []\<close> held \<open>\<not> is_tombstone r\<close> \<open>\<not> is_tombstone there\<close>]
    have agreed: "map_of (rev (agreed_shas L e (oc_remote oc) (oc_rows oc) (oc_held oc))) rid =
        (if seen_sha L e r = seen_sha L e there then Some (seen_sha L e there) else None)"
      using at by (simp add: map_of_rev)
    show "map_of (rc_ancestors rc) rid = Some (seen_sha L e there)" if "seen_sha L e r = seen_sha L e there"
      using agreed that by (simp add: rc(3) dict_update_at)
    show "map_of (rc_ancestors rc) rid = Some sha"
      if "seen_sha L e r \<noteq> seen_sha L e there" "map_of handed rid = Some sha"
    proof -
      have "map_of (filter (\<lambda>(rid, sha). rid \<notin> set (oc_held oc) \<and> rid \<in> set (oc_live oc)) handed) rid = map_of handed rid"
        using held live by (induction handed) auto
      then show ?thesis using agreed that by (simp add: rc(3) dict_update_at)
    qed
  qed
qed

text \<open>
  An edit made on one machine reaches the other: a record this home holds as the two last agreed on it,
  and the peer has edited, ends as the peer's edit taken in, and the two homes agree on the peer's version
  from then on, wherever taking the edit in leaves the compared content the peer's.
\<close>

theorem edit_made_there_arrives:
  assumes "id_keyed_pull L e local remote" and "se_merge e = Union_by_id"
    and "mine \<in> set local" and "there \<in> set remote" and "row_id L mine = rid" and "row_id L there = rid" and "rid \<noteq> []"
    and "\<not> is_tombstone mine" and "\<not> is_tombstone there" and "rid \<notin> set (held_ids (se_id e) queue)"
    and "map_of agreed rid = Some (seen_sha L e mine)" and "seen_sha L e mine \<noteq> []"
    and "seen_sha L e there \<noteq> seen_sha L e mine" and "seen_sha L e there \<notin> set (family publ rid)"
    and "map_of agreed_there rid = None"
    and "\<not> is_tombstone (edited_there e mine there)" and "seen_sha L e (edited_there e mine there) = seen_sha L e there"
  shows "\<exists>rc. reconcile L e pl agreed publ agreed_there (Some queue) local remote = Inr rc \<and>
    filter (\<lambda>r. row_id L r = rid) (oc_rows (rc_outcome rc)) = [edited_there e mine there] \<and>
    map_of (rc_ancestors rc) rid = Some (seen_sha L e there)"
proof -
  obtain bases handed where common: "in_common L e remote agreed publ agreed_there = (bases, handed)" by fastforce
  have "filter (\<lambda>r. row_id L r = rid) remote = [there]" using only_row assms by (simp add: id_keyed_pull_def)
  then have "(map_of bases rid, map_of handed rid) = base_verdict L e publ agreed_there there (map_of agreed rid, None)"
    using in_common_at [of L e remote agreed publ agreed_there rid] common by simp
  moreover have "seen_sha L e there \<notin> set (since (seen_sha L e mine) (family publ rid))"
    using assms(14) by (auto simp: since_def dest: set_takeWhileD)
  ultimately have base: "map_of bases rid = Some (seen_sha L e mine)"
    using assms by (simp add: base_verdict_def split: if_splits)
  obtain oc where oc: "merge_into L e pl bases (Some queue) local remote = Inr oc"
    "filter (\<lambda>r. row_id L r = rid) (oc_rows oc) = [edited_there e mine there]"
    "filter (\<lambda>r. row_id L r = rid) (oc_remote oc) = [there]" "rid \<in> set (oc_live oc)" "rid \<notin> set (oc_held oc)"
    using three_way [OF assms(1-9) base assms(12,10), of pl] assms(13) by (auto simp: Let_def)
  obtain rc where "reconcile L e pl agreed publ agreed_there (Some queue) local remote = Inr rc" "rc_outcome rc = oc"
    "map_of (rc_ancestors rc) rid = Some (seen_sha L e there)"
    using reconcile_agrees [OF common oc(1-3) assms(7) oc(5,4) assms(16,9)] assms(17) by metis
  then show ?thesis using oc by auto
qed

lemma edit_made_there_arrives_witness:
  "\<exists>rc. reconcile plain_codec notes_entry (some_pull []) [(''a'', ''idatx'')] [] [] (Some []) [memo ''x''] [memo ''y''] = Inr rc \<and>
     filter (\<lambda>r. row_id plain_codec r = ''a'') (oc_rows (rc_outcome rc)) = [memo ''y''] \<and>
     map_of (rc_ancestors rc) ''a'' = Some ''idaty''"
  using edit_made_there_arrives [of plain_codec notes_entry "[memo ''x'']" "[memo ''y'']" "memo ''x''" "memo ''y''" "''a''"
      "[]" "[(''a'', ''idatx'')]" "[]" "[]" "some_pull []"]
  by (auto simp: held_ids_def edited_memo family_def)

text \<open>
  A second edit in a row is no conflict: when the peer's copy is a version this home published after
  their last agreement, this home's newer edit stays, nothing is held, and the two homes now agree on the
  version the peer handed back.
\<close>

theorem own_version_handed_back:
  assumes "id_keyed_pull L e local remote" and "se_merge e = Union_by_id"
    and "mine \<in> set local" and "there \<in> set remote" and "row_id L mine = rid" and "row_id L there = rid" and "rid \<noteq> []"
    and "\<not> is_tombstone mine" and "\<not> is_tombstone there" and "rid \<notin> set (held_ids (se_id e) queue)"
    and "map_of agreed rid = Some base" and "base \<noteq> []" and "base \<in> set (family publ rid)"
    and "seen_sha L e there \<in> set (since base (family publ rid))" and "seen_sha L e there \<noteq> []"
  shows "\<exists>rc. reconcile L e pl agreed publ agreed_there (Some queue) local remote = Inr rc \<and>
    filter (\<lambda>r. row_id L r = rid) (oc_rows (rc_outcome rc)) = [mine] \<and> rid \<notin> set (oc_held (rc_outcome rc)) \<and>
    map_of (rc_ancestors rc) rid = Some (seen_sha L e there)"
proof -
  obtain bases handed where common: "in_common L e remote agreed publ agreed_there = (bases, handed)" by fastforce
  have "filter (\<lambda>r. row_id L r = rid) remote = [there]" using only_row assms by (simp add: id_keyed_pull_def)
  then have "(map_of bases rid, map_of handed rid) = base_verdict L e publ agreed_there there (map_of agreed rid, None)"
    using in_common_at [of L e remote agreed publ agreed_there rid] common by simp
  then have base: "map_of bases rid = Some (seen_sha L e there)" and handed: "map_of handed rid = Some (seen_sha L e there)"
    using assms by (simp_all add: base_verdict_def split: if_splits)
  obtain oc where oc: "merge_into L e pl bases (Some queue) local remote = Inr oc"
    "filter (\<lambda>r. row_id L r = rid) (oc_rows oc) = [mine]"
    "filter (\<lambda>r. row_id L r = rid) (oc_remote oc) = [there]" "rid \<in> set (oc_live oc)" "rid \<notin> set (oc_held oc)"
    using three_way [OF assms(1-9) base assms(15,10), of pl] by (auto simp: Let_def)
  obtain rc where "reconcile L e pl agreed publ agreed_there (Some queue) local remote = Inr rc" "rc_outcome rc = oc"
    "map_of (rc_ancestors rc) rid = Some (seen_sha L e there)"
    using reconcile_agrees [OF common oc(1-3) assms(7) oc(5,4) assms(8,9)] handed by metis
  then show ?thesis using oc by auto
qed

lemma own_version_handed_back_witness:
  "\<exists>rc. reconcile plain_codec notes_entry (some_pull []) [(''a'', ''idatw'')] [(''a'', [''idatw'', ''idatx'', ''idaty''])] [] (Some [])
       [memo ''y''] [memo ''x''] = Inr rc \<and>
     filter (\<lambda>r. row_id plain_codec r = ''a'') (oc_rows (rc_outcome rc)) = [memo ''y''] \<and>
     map_of (rc_ancestors rc) ''a'' = Some ''idatx''"
  using own_version_handed_back [of plain_codec notes_entry "[memo ''y'']" "[memo ''x'']" "memo ''y''" "memo ''x''" "''a''"
      "[]" "[(''a'', ''idatw'')]" "''idatw''" "[(''a'', [''idatw'', ''idatx'', ''idaty''])]" "some_pull []" "[]"]
  by (auto simp: held_ids_def family_def since_def)

section \<open>What this home publishes, and what is gone\<close>

lemma published_after_at:
  "rid \<noteq> [] \<Longrightarrow> map_of shas rid = Some sha \<Longrightarrow> sha \<noteq> [] \<Longrightarrow> distinct (map fst shas) \<Longrightarrow>
     map_of (published_after before shas unread) rid = Some (next_versions (family before rid) sha)"
proof -
  assume rid: "rid \<noteq> []" and at: "map_of shas rid = Some sha" and sha: "sha \<noteq> []" and dist: "distinct (map fst shas)"
  let ?put = "\<lambda>(rid, sha) f. if rid \<noteq> [] \<and> sha \<noteq> [] then dict_set f rid (next_versions (family before rid) sha) else f"
  have "map_of (fold ?put shas []) rid =
      fold (\<lambda>(r, sha) v. if sha \<noteq> [] then Some (next_versions (family before rid) sha) else v)
        (filter (\<lambda>x. fst x = rid) shas) (map_of [] rid)"
    by (rule fold_at_key [where view = "\<lambda>m. map_of m rid"]) (use rid in \<open>auto simp: case_prod_beta\<close>)
  moreover have "filter (\<lambda>x. fst x = rid) shas = [(rid, sha)]"
    using filter_one_key [OF dist map_of_SomeD [OF at]] by simp
  ultimately have first: "map_of (fold ?put shas []) rid = Some (next_versions (family before rid) sha)" using sha by simp
  have keep: "map_of (fold (\<lambda>rid f. if map_of before rid \<noteq> None \<and> map_of f rid = None then dict_set f rid (family before rid) else f) us m) rid
      = Some v" if "map_of m rid = Some v" for us m v
    by (rule fold_preserves [where P = "\<lambda>m. map_of m rid = Some v"]) (use that in auto)
  show ?thesis unfolding published_after_def Let_def by (rule keep [OF first])
qed

lemma published_after_unread:
  "rid \<notin> set (map fst shas) \<Longrightarrow> map_of (published_after before shas unread) rid =
     (if rid \<in> set unread \<and> map_of before rid \<noteq> None then Some (family before rid) else None)"
proof -
  assume absent: "rid \<notin> set (map fst shas)"
  let ?put = "\<lambda>(rid, sha) f. if rid \<noteq> [] \<and> sha \<noteq> [] then dict_set f rid (next_versions (family before rid) sha) else f"
  have "map_of (fold ?put xs m) rid = map_of m rid" if "rid \<notin> set (map fst xs)" for xs m
    using that by (induction xs arbitrary: m) (auto simp: case_prod_beta)
  then have first: "map_of (fold ?put shas []) rid = None" using absent by simp
  have "map_of (fold (\<lambda>rid f. if map_of before rid \<noteq> None \<and> map_of f rid = None then dict_set f rid (family before rid) else f) us m) rid =
      (if map_of m rid = None \<and> rid \<in> set us \<and> map_of before rid \<noteq> None then Some (family before rid) else map_of m rid)"
    for us m by (induction us arbitrary: m) auto
  then show ?thesis unfolding published_after_def Let_def using first by simp
qed

lemma marks_after_at:
  "map_of (marks_after a entry shas now unread) rid =
     (if rid \<in> set (map fst shas) then None
      else if rid \<notin> set unread \<and> rid \<in> set (known_ids a entry) then Some (mark_gone a entry now rid)
      else map_of (family (deleted a) entry) rid)"
proof -
  have put: "map_of (fold (\<lambda>rid marks. dict_set marks rid (mark_gone a entry now rid)) xs m) rid =
      (if rid \<in> set xs then Some (mark_gone a entry now rid) else map_of m rid)" for xs m
    by (induction xs arbitrary: m) auto
  have "map_of (filter (\<lambda>(rid, m). rid \<notin> S) d) rid = (if rid \<in> S then None else map_of d rid)"
    for S and d :: "deletion dict" by (induction d) auto
  then show ?thesis unfolding marks_after_def Let_def put by auto
qed

lemma family_set [simp]: "family (dict_set d k f) k' = (if k' = k then f else family d k')"
  by (simp add: family_def)

lemma family_del [simp]: "family (dict_del d k) k' = (if k' = k then [] else family d k')"
  by (simp add: family_def)

lemma publish_families:
  "family (published (publish entry shas now unread a)) entry = published_after (family (published a) entry) shas unread"
  "family (deleted (publish entry shas now unread a)) entry = marks_after a entry shas now unread"
  by (auto simp: publish_def Let_def)

lemma held_at: "map_of (held a entry) rid = (if rid \<in> set (known_ids a entry) then Some (versions_held a entry rid) else None)"
  unfolding held_def by (induction "known_ids a entry") (auto simp: map_of_map_restrict restrict_map_def)

text \<open>
  Publishing says exactly what is gone. A record this home holds is published as its newest version,
  the last of at most sixteen, and is not deleted; one it held before and no longer holds is deleted, and
  its delete keeps every version this home ever held of it; one that could not be read this time is
  neither: what was known of it stays as it was.
\<close>

theorem publish_knows_what_is_gone:
  assumes "distinct (map fst shas)" and "list_all (\<lambda>(rid, sha). rid \<noteq> [] \<and> sha \<noteq> []) shas"
    and "length (family (family (published a) entry) rid) \<le> PUBLISHED_VERSIONS"
  shows "let a' = publish entry shas now unread a;
           versions = family (family (published a') entry) rid; mark = map_of (family (deleted a') entry) rid
    in length versions \<le> PUBLISHED_VERSIONS \<and>
       (case map_of shas rid of
          Some sha \<Rightarrow> versions \<noteq> [] \<and> last versions = sha \<and> mark = None
        | None \<Rightarrow>
            if rid \<in> set unread
            then versions = family (family (published a) entry) rid \<and> mark = map_of (family (deleted a) entry) rid
            else versions = [] \<and> (case map_of (held a entry) rid of
                     Some vs \<Rightarrow> \<exists>m. mark = Some m \<and> del_held m = vs
                   | None \<Rightarrow> mark = None))"
proof (cases "map_of shas rid")
  case None
  then have absent: "rid \<notin> set (map fst shas)" by (simp add: map_of_eq_None_iff)
  have same: "family (published_after (family (published a) entry) shas unread) rid =
      (if rid \<in> set unread then family (family (published a) entry) rid else [])"
    using published_after_unread [OF absent] by (auto simp: family_def split: option.split)
  have known: "rid \<in> set (known_ids a entry)" if "map_of (family (deleted a) entry) rid = Some m" for m
    using that by (auto simp: known_ids_def dest: map_of_SomeD intro: rev_image_eqI)
  have "map_of (family (deleted a) entry) rid = None" if "rid \<notin> set (known_ids a entry)"
    using that known by (cases "map_of (family (deleted a) entry) rid") auto
  then show ?thesis
    using None absent assms(3) unfolding Let_def publish_families same marks_after_at
    by (auto simp: held_at mark_gone_def split: option.splits)
next
  case (Some sha)
  then have here: "rid \<noteq> []" "sha \<noteq> []" "rid \<in> set (map fst shas)"
    using assms(2) map_of_SomeD [OF Some] by (force simp: list_all_iff)+
  have "family (published_after (family (published a) entry) shas unread) rid = next_versions (family (family (published a) entry) rid) sha"
    unfolding family_def [of "published_after _ _ _"] published_after_at [OF here(1) Some here(2) assms(1)] by simp
  moreover have "next_versions vs sha \<noteq> [] \<and> last (next_versions vs sha) = sha \<and>
      (length vs \<le> PUBLISHED_VERSIONS \<longrightarrow> length (next_versions vs sha) \<le> PUBLISHED_VERSIONS)" for vs
    by (auto simp: next_versions_def Let_def PUBLISHED_VERSIONS_def)
  ultimately show ?thesis
    using Some here(3) assms(3) unfolding Let_def publish_families marks_after_at by simp
qed

lemma publish_knows_what_is_gone_witness:
  "let a = \<lparr>peers = [(''p'', [(''notes'', [(''b'', ''s2'')])])], published = [(''notes'', [(''b'', [''s1''])])], deleted = []\<rparr>;
       a' = publish ''notes'' [(''a'', ''s3'')] ''now'' [] a
   in \<exists>m. map_of (family (deleted a') ''notes'') ''b'' = Some m \<and> del_held m = [''s1'', ''s2'']"
proof -
  have "map_of (held \<lparr>peers = [(''p'', [(''notes'', [(''b'', ''s2'')])])], published = [(''notes'', [(''b'', [''s1''])])],
      deleted = []\<rparr> ''notes'') ''b'' = Some [''s1'', ''s2'']" by code_simp
  then show ?thesis
    using publish_knows_what_is_gone [of "[(''a'', ''s3'')]"
        "\<lparr>peers = [(''p'', [(''notes'', [(''b'', ''s2'')])])], published = [(''notes'', [(''b'', [''s1''])])], deleted = []\<rparr>"
        "''notes''" "''b''" "''now''" "[]"]
    by (simp add: Let_def family_def PUBLISHED_VERSIONS_def)
qed

end
