(* ===== verification/LongRun.thy ===== *)
theory LongRun
  imports WfModels
begin

text \<open>
  \<^verbatim>\<open>workflows/longrun.py\<close>: what lets a watcher run for months. The identity of an accumulated item, the
  persistent set of what was already processed, the bounded view of a sibling's output, the clamp on a
  delay a model proposes, the buffer that seals on volume or on age, the object one run hands to the next,
  and the hygiene of scraped items; with the two waits of \<^verbatim>\<open>workflows/engine.py\<close> that use the clamp and the
  buffer.

  A \<open>runtime\<close> holds what the code takes from the standard library over text: \<open>str\<close> of what is not a
  string, the two forms of \<open>json.dumps\<close>, \<open>float\<close> of a text (\<open>None\<close> where it raises), \<open>str\<close> of a float, and
  the hex digest of a sha256.
\<close>

section \<open>The text functions of the standard library\<close>

record runtime =
  rt_str :: "json \<Rightarrow> string"
  rt_dumps :: "json \<Rightarrow> string"
  rt_dumps_sorted :: "json \<Rightarrow> string"
  rt_float :: "string \<Rightarrow> rat option"
  rt_sha256 :: "string \<Rightarrow> string"

definition py_str :: "runtime \<Rightarrow> json \<Rightarrow> string" where
  "py_str rt v = text_of (rt_str rt) v"

definition lower :: "string \<Rightarrow> string" where
  "lower s = map ascii_lower s"

definition int_str :: "int \<Rightarrow> string" where
  "int_str i = (if i < 0 then CHR ''-'' # nat_str (nat (- i)) else nat_str (nat i))"

text \<open>\<open>sep.join(parts)\<close> and \<open>s.split(c)\<close>; \<open>s.split()\<close> at white space drops the empty words.\<close>

fun join_with :: "string \<Rightarrow> string list \<Rightarrow> string" where
  "join_with sep [] = []"
| "join_with sep [p] = p"
| "join_with sep (p # ps) = p @ sep @ join_with sep ps"

fun split_on :: "('a \<Rightarrow> bool) \<Rightarrow> 'a list \<Rightarrow> 'a list list" where
  "split_on P [] = [[]]"
| "split_on P (c # cs) =
     (if P c then [] # split_on P cs
      else case split_on P cs of [] \<Rightarrow> [[c]] | w # ws \<Rightarrow> (c # w) # ws)"

definition words :: "string \<Rightarrow> string list" where
  "words s = filter (\<lambda>w. w \<noteq> []) (split_on is_space s)"

section \<open>Item identity\<close>

definition hash16 :: "runtime \<Rightarrow> string \<Rightarrow> string" where
  "hash16 rt t = take 16 (rt_sha256 rt t)"

definition GUID_KEYS :: "string list" where
  "GUID_KEYS = [''guid'', ''id'', ''uid'', ''url'', ''link'']"

definition CONTENT_KEYS :: "string list" where
  "CONTENT_KEYS = [''statement'', ''title'', ''headline'', ''summary'', ''content'', ''text'']"

fun own_guid :: "runtime \<Rightarrow> config \<Rightarrow> string list \<Rightarrow> string option" where
  "own_guid rt d [] = None"
| "own_guid rt d (key # keys) =
     (case cfg_get d key of
        JStr s \<Rightarrow> if strip s \<noteq> [] then Some (hash16 rt (lower (strip s))) else own_guid rt d keys
      | JInt i \<Rightarrow> Some (hash16 rt (py_str rt (JInt i)))
      | JFloat q \<Rightarrow> Some (hash16 rt (py_str rt (JFloat q)))
      | _ \<Rightarrow> own_guid rt d keys)"

definition content_text :: "runtime \<Rightarrow> config \<Rightarrow> string" where
  "content_text rt d = join_with [CHR 0x1F] (filter (\<lambda>p. p \<noteq> [])
     (map (\<lambda>k. let v = get_or d k (JStr []) in lower (strip (if truthy v then py_str rt v else [])))
        CONTENT_KEYS))"

fun item_guid :: "runtime \<Rightarrow> json \<Rightarrow> string" where
  "item_guid rt JNull = []"
| "item_guid rt (JStr s) = (if strip s \<noteq> [] then hash16 rt (strip s) else [])"
| "item_guid rt (JObj d) =
     (case own_guid rt d GUID_KEYS of
        Some g \<Rightarrow> g
      | None \<Rightarrow> (let joined = content_text rt d in if joined \<noteq> [] then hash16 rt joined else []))"
| "item_guid rt v = hash16 rt (rt_dumps_sorted rt v)"

section \<open>The persistent seen-set\<close>

record seen_set =
  ss_guids :: "string list"
  ss_capacity :: int
  ss_index :: "string set"

text \<open>\<open>SeenSet(guids, capacity)\<close> with its \<open>__post_init__\<close>.\<close>

definition new_seen :: "string list \<Rightarrow> int \<Rightarrow> seen_set" where
  "new_seen guids cap =
     \<lparr>ss_guids = guids, ss_capacity = (if cap \<le> 0 then 1 else cap), ss_index = set guids\<rparr>"

fun evict :: "int \<Rightarrow> string list \<Rightarrow> string set \<Rightarrow> string list \<times> string set" where
  "evict cap [] idx = ([], idx)"
| "evict cap (g # gs) idx =
     (if cap < int (length (g # gs)) then evict cap gs (idx - {g}) else (g # gs, idx))"

definition mark :: "string \<Rightarrow> seen_set \<Rightarrow> seen_set \<times> bool" where
  "mark g s =
     (if g = [] \<or> g \<in> ss_index s then (s, False)
      else case evict (ss_capacity s) (ss_guids s @ [g]) (insert g (ss_index s)) of
             (gs, idx) \<Rightarrow> (s\<lparr>ss_guids := gs, ss_index := idx\<rparr>, True))"

fun unseen_from :: "runtime \<Rightarrow> string set \<Rightarrow> string set \<Rightarrow> json list \<Rightarrow> json list" where
  "unseen_from rt idx loc [] = []"
| "unseen_from rt idx loc (item # items) =
     (let g = item_guid rt item in
      if g = [] \<or> g \<in> idx \<or> g \<in> loc then unseen_from rt idx loc items
      else item # unseen_from rt idx (insert g loc) items)"

definition unseen :: "runtime \<Rightarrow> seen_set \<Rightarrow> json list \<Rightarrow> json list" where
  "unseen rt s items = unseen_from rt (ss_index s) {} items"

fun mark_guids :: "string list \<Rightarrow> seen_set \<Rightarrow> seen_set \<times> nat" where
  "mark_guids [] s = (s, 0)"
| "mark_guids (g # gs) s =
     (case mark g s of (s', new) \<Rightarrow> case mark_guids gs s' of
        (s'', n) \<Rightarrow> (s'', (if new then 1 else 0) + n))"

definition mark_all :: "runtime \<Rightarrow> json list \<Rightarrow> seen_set \<Rightarrow> seen_set \<times> nat" where
  "mark_all rt items s = mark_guids (map (item_guid rt) items) s"

definition seen_to_dict :: "seen_set \<Rightarrow> json" where
  "seen_to_dict s = JObj [(''guids'', JList (map JStr (ss_guids s))), (''capacity'', JInt (ss_capacity s))]"

fun str_items :: "json \<Rightarrow> string list" where
  "str_items (JList vs) = concat (map (\<lambda>v. case v of JStr s \<Rightarrow> [s] | _ \<Rightarrow> []) vs)"
| "str_items _ = []"

fun seen_from_dict :: "json \<Rightarrow> seen_set" where
  "seen_from_dict (JObj d) = new_seen (str_items (cfg_get d ''guids''))
     (case as_int (cfg_get d ''capacity'') of Some c \<Rightarrow> if 0 < c then c else 5000 | None \<Rightarrow> 5000)"
| "seen_from_dict _ = new_seen [] 5000"

section \<open>Sibling views\<close>

definition DEFAULT_SYNTHESIS_WINDOW :: int where "DEFAULT_SYNTHESIS_WINDOW = 20"
definition DEFAULT_SIGNIFICANCE_THRESHOLD :: rat where "DEFAULT_SIGNIFICANCE_THRESHOLD = 7 / 10"

definition SIGNIFICANCE_WORDS :: "(string \<times> rat) list" where
  "SIGNIFICANCE_WORDS =
     [(''critical'', 1), (''high'', 9 / 10), (''significant'', 8 / 10), (''medium'', 6 / 10),
      (''moderate'', 6 / 10), (''normal'', 5 / 10), (''low'', 3 / 10), (''minor'', 2 / 10),
      (''trivial'', 1 / 10), (''noise'', 0)]"

definition unit_scale :: "rat \<Rightarrow> rat" where
  "unit_scale q = max 0 (min 1 (if 1 < q then q / 100 else q))"

fun significance_of :: "runtime \<Rightarrow> json \<Rightarrow> rat" where
  "significance_of rt (JObj d) =
     (case get_or d ''significance'' (get_or d ''importance'' JNull) of
        JNull \<Rightarrow> 1
      | JBool b \<Rightarrow> if b then 1 else 0
      | JInt i \<Rightarrow> unit_scale (of_int i)
      | JFloat q \<Rightarrow> unit_scale q
      | v \<Rightarrow> (case map_of SIGNIFICANCE_WORDS (lower (strip (py_str rt v))) of Some r \<Rightarrow> r | None \<Rightarrow> 1))"
| "significance_of rt _ = 1"

definition CARRIER_KEYS :: "string list" where
  "CARRIER_KEYS = [''findings'', ''items'', ''results'', ''records'', ''entries'']"

fun first_list :: "config \<Rightarrow> string list \<Rightarrow> json list option" where
  "first_list d [] = None"
| "first_list d (k # ks) = (case cfg_get d k of JList xs \<Rightarrow> Some xs | _ \<Rightarrow> first_list d ks)"

fun flatten_output :: "json \<Rightarrow> json list" where
  "flatten_output JNull = []"
| "flatten_output (JList xs) = xs"
| "flatten_output (JObj d) = (case first_list d CARRIER_KEYS of Some xs \<Rightarrow> xs | None \<Rightarrow> [JObj d])"
| "flatten_output v = [v]"

definition flatten_outputs :: "json list \<Rightarrow> json list" where
  "flatten_outputs outs = concat (map flatten_output outs)"

text \<open>\<open>xs[-n:]\<close> of a positive n.\<close>

definition last_items :: "int \<Rightarrow> 'a list \<Rightarrow> 'a list" where
  "last_items n xs = (if n < int (length xs) then drop (length xs - nat n) xs else xs)"

definition sibling_view ::
  "runtime \<Rightarrow> json list \<Rightarrow> int \<Rightarrow> rat \<Rightarrow> seen_set option \<Rightarrow> bool \<Rightarrow> json list" where
  "sibling_view rt outs win threshold seen full =
     (let items = flatten_outputs outs;
          fresh = (case seen of None \<Rightarrow> items | Some s \<Rightarrow> unseen rt s items)
      in if full then fresh
         else let kept = filter (\<lambda>i. threshold \<le> significance_of rt i) fresh
              in if 0 < win \<and> win < int (length kept) then last_items win kept else kept)"

section \<open>Lineage and delays\<close>

fun reflection_count :: "json \<Rightarrow> int" where
  "reflection_count (JObj d) = (case as_true_int (get_or d ''reflection_count'' (JInt 0)) of
     Some n \<Rightarrow> n | None \<Rightarrow> 0)"
| "reflection_count _ = 0"

definition reflection_eligible :: "json \<Rightarrow> int \<Rightarrow> bool" where
  "reflection_eligible item cap = (case item of
     JObj d \<Rightarrow> reflection_count item < max 1 cap | _ \<Rightarrow> True)"

fun bump_reflection :: "json \<Rightarrow> json" where
  "bump_reflection (JObj d) =
     JObj (dict_set d ''reflection_count'' (JInt (reflection_count (JObj d) + 1)))"
| "bump_reflection v = v"

definition MIN_ADAPTIVE_DELAY_SECS :: int where "MIN_ADAPTIVE_DELAY_SECS = 30"
definition MAX_ADAPTIVE_DELAY_SECS :: int where "MAX_ADAPTIVE_DELAY_SECS = 24 * 60 * 60"

text \<open>\<open>int(float(v))\<close>; a list or a dict is a \<open>TypeError\<close>, a text that is no number a \<open>ValueError\<close>.\<close>

fun whole_number :: "runtime \<Rightarrow> json \<Rightarrow> int option" where
  "whole_number rt (JInt i) = Some i"
| "whole_number rt (JFloat q) = Some (rat_trunc q)"
| "whole_number rt (JStr s) = map_option rat_trunc (rt_float rt s)"
| "whole_number rt _ = None"

definition clamp_delay :: "runtime \<Rightarrow> json \<Rightarrow> int \<Rightarrow> int \<Rightarrow> int \<Rightarrow> int \<times> string" where
  "clamp_delay rt proposed dflt lo hi =
     (case proposed of
        JBool b \<Rightarrow> (dflt, ''not_proposed'')
      | JNull \<Rightarrow> (dflt, ''not_proposed'')
      | _ \<Rightarrow> (case whole_number rt proposed of
                None \<Rightarrow> (dflt, ''unparseable'')
              | Some v \<Rightarrow> if v < lo then (lo, ''clamped_up_from_'' @ int_str v)
                          else if hi < v then (hi, ''clamped_down_from_'' @ int_str v)
                          else (v, [])))"

section \<open>The buffer that seals\<close>

definition NOMINAL_CHARS_PER_TOKEN :: nat where "NOMINAL_CHARS_PER_TOKEN = 4"

record buffer =
  bf_items :: "json list"
  seal_threshold :: int
  seal_tokens :: int
  flush_stale_after :: int
  last_flush_at :: rat

definition add_items :: "json list \<Rightarrow> buffer \<Rightarrow> buffer" where
  "add_items items b = b\<lparr>bf_items := bf_items b @ items\<rparr>"

definition approx_tokens :: "runtime \<Rightarrow> buffer \<Rightarrow> nat" where
  "approx_tokens rt b = length (rt_dumps rt (JList (bf_items b))) div NOMINAL_CHARS_PER_TOKEN"

definition should_seal :: "runtime \<Rightarrow> buffer \<Rightarrow> rat \<Rightarrow> bool \<times> string" where
  "should_seal rt b now =
     (let age = now - last_flush_at b in
      if bf_items b = [] then (False, [])
      else if 0 < seal_threshold b \<and> seal_threshold b \<le> int (length (bf_items b))
      then (True, ''buffer_full:'' @ nat_str (length (bf_items b)) @ ''_items'')
      else if 0 < seal_tokens b \<and> seal_tokens b \<le> int (approx_tokens rt b)
      then (True, ''buffer_full:'' @ nat_str (approx_tokens rt b) @ ''_tokens'')
      else if 0 < flush_stale_after b \<and> last_flush_at b \<noteq> 0 \<and> of_int (flush_stale_after b) \<le> age
      then (True, ''flush_stale:'' @ int_str (rat_trunc age) @ ''s'')
      else (False, []))"

definition drain_buffer :: "rat \<Rightarrow> buffer \<Rightarrow> buffer \<times> json list" where
  "drain_buffer now b = (b\<lparr>bf_items := [], last_flush_at := now\<rparr>, bf_items b)"

text \<open>\<open>_int(raw, fallback)\<close>, \<open>_int_or\<close> in the engine.\<close>

fun int_or :: "json \<Rightarrow> int \<Rightarrow> int" where
  "int_or (JInt i) dflt = i"
| "int_or (JFloat q) dflt = rat_trunc q"
| "int_or _ dflt = dflt"

definition buffer_to_dict :: "buffer \<Rightarrow> json" where
  "buffer_to_dict b = JObj
     [(''items'', JList (bf_items b)), (''seal_threshold'', JInt (seal_threshold b)),
      (''seal_tokens'', JInt (seal_tokens b)), (''flush_stale_after_secs'', JInt (flush_stale_after b)),
      (''last_flush_at'', JFloat (last_flush_at b))]"

definition buffer_from_dict :: "runtime \<Rightarrow> json \<Rightarrow> decode_error + buffer" where
  "buffer_from_dict rt data =
     (case data of
        JObj d \<Rightarrow>
          (case float_of_field (rt_float rt) (cfg_get d ''last_flush_at'') of
             Inl e \<Rightarrow> Inl e
           | Inr t \<Rightarrow> Inr
               \<lparr>bf_items = (case cfg_get d ''items'' of JList xs \<Rightarrow> xs | _ \<Rightarrow> []),
                seal_threshold = int_or (cfg_get d ''seal_threshold'') 20,
                seal_tokens = int_or (cfg_get d ''seal_tokens'') 0,
                flush_stale_after = int_or (cfg_get d ''flush_stale_after_secs'') 3600,
                last_flush_at = t\<rparr>)
      | _ \<Rightarrow> Inr \<lparr>bf_items = [], seal_threshold = 20, seal_tokens = 0, flush_stale_after = 3600,
                  last_flush_at = 0\<rparr>)"

section \<open>What one run hands to the next\<close>

definition CONTINUITY_SUMMARY_LINES :: nat where "CONTINUITY_SUMMARY_LINES = 5"
definition CONTINUITY_TOPIC_CAP :: nat where "CONTINUITY_TOPIC_CAP = 10"
definition CONTINUITY_REF_CAP :: nat where "CONTINUITY_REF_CAP = 20"
definition CONTINUITY_LINE_CHARS :: nat where "CONTINUITY_LINE_CHARS = 200"

fun dedup_lines :: "string list \<Rightarrow> string list \<Rightarrow> string list" where
  "dedup_lines had [] = []"
| "dedup_lines had (v # vs) =
     (let key = lower (strip v) in
      if key = [] \<or> key \<in> set had then dedup_lines had vs
      else take CONTINUITY_LINE_CHARS (strip v) # dedup_lines (key # had) vs)"

definition dedup_capped :: "string list \<Rightarrow> json \<Rightarrow> nat \<Rightarrow> string list" where
  "dedup_capped fresh prior cap = take cap (dedup_lines [] (fresh @ str_items prior))"

definition roll_continuity :: "json \<Rightarrow> string \<Rightarrow> string list \<Rightarrow> string list \<Rightarrow> config" where
  "roll_continuity prior outcome topics refs =
     (let pd = (case prior of JObj d \<Rightarrow> d | _ \<Rightarrow> []);
          olds = str_items (cfg_get pd ''summary'');
          lines = (if strip outcome = [] then olds else take CONTINUITY_LINE_CHARS (strip outcome) # olds)
      in [(''summary'', JList (map JStr (take CONTINUITY_SUMMARY_LINES lines))),
          (''recent_topics'', JList (map JStr
             (dedup_capped topics (cfg_get pd ''recent_topics'') CONTINUITY_TOPIC_CAP))),
          (''recent_refs'', JList (map JStr
             (dedup_capped refs (cfg_get pd ''recent_refs'') CONTINUITY_REF_CAP)))])"

section \<open>Hygiene of scraped items\<close>

definition MIN_TITLE_WORDS :: nat where "MIN_TITLE_WORDS = 3"

definition is_lower_letter :: "char \<Rightarrow> bool" where
  "is_lower_letter c = (CHR ''a'' \<le> c \<and> c \<le> CHR ''z'')"

text \<open>\<open>re.sub("^[a-z]+://", "", url)\<close>.\<close>

definition drop_scheme :: "string \<Rightarrow> string" where
  "drop_scheme url =
     (let scheme = takeWhile is_lower_letter url; rest = dropWhile is_lower_letter url
      in if scheme \<noteq> [] \<and> take 3 rest = ''://'' then drop 3 rest else url)"

definition host_of :: "string \<Rightarrow> string" where
  "host_of url = takeWhile (\<lambda>c. c \<noteq> CHR '':'')
     (takeWhile (\<lambda>c. c \<noteq> CHR ''/'') (drop_scheme (lower (strip url))))"

definition domain_allowed :: "string \<Rightarrow> string list \<Rightarrow> bool" where
  "domain_allowed url allowed =
     (url \<noteq> [] \<and> list_ex (\<lambda>dom. host_of url = dom \<or> ends_with (host_of url) (CHR ''.'' # dom)) allowed)"

definition allowed_domains :: "string list \<Rightarrow> string list" where
  "allowed_domains ds = map (\<lambda>d. dropWhile (\<lambda>c. c = CHR ''.'') (lower (strip d)))
     (filter (\<lambda>d. strip d \<noteq> []) ds)"

fun hygienic :: "runtime \<Rightarrow> string list \<Rightarrow> nat \<Rightarrow> json \<Rightarrow> bool" where
  "hygienic rt allowed least_words (JObj d) =
     (let read = (\<lambda>v. if truthy v then py_str rt v else []);
          title = read (get_or d ''title'' (get_or d ''headline'' (JStr [])));
          url = read (get_or d ''url'' (get_or d ''link'' (JStr [])))
      in (title = [] \<or> least_words \<le> length (words title)) \<and> (allowed = [] \<or> domain_allowed url allowed))"
| "hygienic rt allowed least_words (JStr s) = (least_words \<le> length (words s))"
| "hygienic rt allowed least_words _ = False"

definition web_hygiene :: "runtime \<Rightarrow> json list \<Rightarrow> string list \<Rightarrow> nat \<Rightarrow> json list" where
  "web_hygiene rt items allow_domains least_words =
     filter (hygienic rt (allowed_domains allow_domains) least_words) items"

section \<open>The two waits of the engine\<close>

text \<open>\<open>WAITING\<close> with its \<open>wake_at\<close>, \<open>DONE\<close> with its output, or the refusal of a wait that names nothing.\<close>

datatype wait_result = WaitOver config | WaitUntil rat | WaitRefused

definition adaptive_duration :: "runtime \<Rightarrow> config \<Rightarrow> rat \<Rightarrow> int" where
  "adaptive_duration rt cfg configured =
     (case cfg_get cfg ''adaptive'' of
        JNull \<Rightarrow> rat_trunc configured
      | proposed \<Rightarrow> fst (clamp_delay rt proposed (rat_trunc configured)
          (int_or (cfg_get cfg ''min_secs'') MIN_ADAPTIVE_DELAY_SECS)
          (int_or (cfg_get cfg ''max_secs'') MAX_ADAPTIVE_DELAY_SECS)))"

text \<open>\<open>read\<close> is \<open>bindings.resolve\<close> in the node's context, \<open>None\<close> where it raises.\<close>

definition seal_buffer :: "(string \<Rightarrow> json option) \<Rightarrow> config \<Rightarrow> buffer" where
  "seal_buffer read seal =
     (let resolved = (case cfg_get seal ''items'' of
             JNull \<Rightarrow> JList []
           | JStr t \<Rightarrow> (case read t of None \<Rightarrow> JList [] | Some v \<Rightarrow> v)
           | v \<Rightarrow> v)
      in \<lparr>bf_items = (case resolved of JList xs \<Rightarrow> xs | _ \<Rightarrow> []),
          seal_threshold = int_or (cfg_get seal ''threshold'') 20,
          seal_tokens = int_or (cfg_get seal ''tokens'') 0,
          flush_stale_after = int_or (cfg_get seal ''flush_stale_after_secs'') 3600,
          last_flush_at = of_int (int_or (cfg_get seal ''last_flush_at'') 0)\<rparr>)"

definition dispatch_seal :: "runtime \<Rightarrow> (string \<Rightarrow> json option) \<Rightarrow> config \<Rightarrow> rat \<Rightarrow> wait_result" where
  "dispatch_seal rt read seal now =
     (let b = seal_buffer read seal in
      case should_seal rt b now of
        (True, reason) \<Rightarrow> WaitOver [(''waited'', JBool False), (''sealed'', JBool True),
           (''reason'', JStr reason), (''count'', JInt (int (length (bf_items b))))]
      | (False, _) \<Rightarrow> WaitUntil (now + of_int (max 1 (int_or (cfg_get seal ''check_every_secs'') 60))))"

definition positive_number :: "json \<Rightarrow> rat option" where
  "positive_number v = (case number_of v of Some q \<Rightarrow> if 0 < q then Some q else None | None \<Rightarrow> None)"

definition dispatch_wait :: "runtime \<Rightarrow> (string \<Rightarrow> json option) \<Rightarrow> config \<Rightarrow> rat \<Rightarrow> wait_result" where
  "dispatch_wait rt read cfg now =
     (let park = (\<lambda>deadline. if deadline \<le> now then WaitOver [(''waited'', JBool True)] else WaitUntil deadline)
      in case cfg_get cfg ''seal'' of
           JObj seal \<Rightarrow> dispatch_seal rt read seal now
         | _ \<Rightarrow>
             (case positive_number (cfg_get cfg ''until_ts'') of
                Some deadline \<Rightarrow> park deadline
              | None \<Rightarrow>
                  (case positive_number (cfg_get cfg ''duration_secs'') of
                     Some configured \<Rightarrow> park (now + of_int (adaptive_duration rt cfg configured))
                   | None \<Rightarrow> WaitRefused)))"

end
