(* ===== verification/BindingPipes.thy ===== *)
theory BindingPipes
  imports LongRun RoomStore
begin

text \<open>
  The pipes of \<^verbatim>\<open>workflows/bindings.py\<close>: how one pipe call is read from the text of an expression, and
  what each pipe of the closed set does to a value. A refusal is a \<open>binding_error\<close>; the sentences that go
  with it are not modelled.

  A \<open>host\<close> holds what a pipe takes from elsewhere: the standard library's text functions, the configured
  synthesis window (\<open>None\<close>: unreadable), the fence of \<^verbatim>\<open>security.py\<close> with its four provenance attributes,
  and the two citation functions of \<^verbatim>\<open>knowledge/citations.py\<close>.
\<close>

datatype binding_error =
    CannotRead string
  | Unresolved string bool
  | MalformedPipe string
  | UnknownPipe string
  | BadPipeArguments string
  | NotALiteral string
  | PipeRefused string
  | SecretNeedsKey
  | NoSecretResolver
  | SecretNotSet string
  | EmptyCondition
  | EmptyOperand

record host =
  h_rt :: runtime
  h_window :: "int option"
  h_fence :: "string \<Rightarrow> string list \<Rightarrow> string"
  h_strip_markers :: "string \<Rightarrow> string"
  h_register_sources :: "json list \<Rightarrow> (int \<times> string \<times> int \<times> string) list"

section \<open>Literals\<close>

text \<open>\<open>int(s)\<close>: a sign, digits, single underscores between digits.\<close>

fun underscored :: "string \<Rightarrow> bool" where
  "underscored [] = False"
| "underscored [c] = is_digit c"
| "underscored (c # d # cs) =
     (is_digit c \<and> (if d = CHR ''_'' then underscored cs else underscored (d # cs)))"

definition py_int :: "string \<Rightarrow> int option" where
  "py_int s =
     (let t = strip s;
          signed = (t \<noteq> [] \<and> (hd t = CHR ''-'' \<or> hd t = CHR ''+''));
          ds = (if signed then tl t else t);
          n = int (digits_val (filter (\<lambda>c. c \<noteq> CHR ''_'') ds))
      in if underscored ds then Some (if signed \<and> hd t = CHR ''-'' then - n else n) else None)"

definition is_quote :: "char \<Rightarrow> bool" where
  "is_quote c = (c = CHR 0x27 \<or> c = CHR 0x22)"

text \<open>\<open>_split_args\<close>: at the commas outside quotes.\<close>

fun split_args_from :: "char option \<Rightarrow> string \<Rightarrow> string \<Rightarrow> string list" where
  "split_args_from quote buf [] = [buf]"
| "split_args_from (Some q) buf (c # cs) =
     split_args_from (if c = q then None else Some q) (buf @ [c]) cs"
| "split_args_from None buf (c # cs) =
     (if is_quote c then split_args_from (Some c) (buf @ [c]) cs
      else if c = CHR '','' then buf # split_args_from None [] cs
      else split_args_from None (buf @ [c]) cs)"

definition split_args :: "string \<Rightarrow> string list" where
  "split_args raw = split_args_from None [] raw"

definition quoted :: "string \<Rightarrow> bool" where
  "quoted t = (2 \<le> length t \<and> is_quote (hd t) \<and> last t = hd t)"

definition unquote :: "string \<Rightarrow> string" where
  "unquote t = butlast (tl t)"

definition parse_literal :: "runtime \<Rightarrow> string \<Rightarrow> binding_error + json" where
  "parse_literal rt tok =
     (let low = lower tok in
      if quoted tok then Inr (JStr (unquote tok))
      else if low = ''true'' \<or> low = ''false'' then Inr (JBool (low = ''true''))
      else if low = ''null'' \<or> low = ''none'' then Inr JNull
      else case py_int tok of
             Some i \<Rightarrow> Inr (JInt i)
           | None \<Rightarrow> (case rt_float rt tok of Some q \<Rightarrow> Inr (JFloat q) | None \<Rightarrow> Inl (NotALiteral tok)))"

definition parse_pipe_args :: "runtime \<Rightarrow> string \<Rightarrow> binding_error + json list" where
  "parse_pipe_args rt raw =
     (if strip raw = [] then Inr []
      else map_result (parse_literal rt) (filter (\<lambda>t. t \<noteq> []) (map strip (split_args raw))))"

section \<open>A pipe call\<close>

text \<open>Each pipe with the number of arguments it accepts at most; every argument has a default.\<close>

definition PIPES :: "(string \<times> nat) list" where
  "PIPES = [(''filter'', 2), (''map'', 1), (''flatten'', 0), (''tag'', 2), (''reject'', 2), (''slice'', 2),
     (''count'', 0), (''default'', 1), (''json'', 0), (''tojson'', 0), (''xml_escape'', 0), (''truncate'', 1),
     (''slugify'', 0), (''window'', 1), (''unseen'', 0), (''significant'', 1), (''full'', 0), (''hygiene'', 0),
     (''clamp'', 2), (''fenced'', 4), (''fenced_sources'', 0), (''source_refs'', 0)]"

definition EXPLICIT_VIEW_PIPES :: "string list" where
  "EXPLICIT_VIEW_PIPES = [''full'', ''window'', ''significant'', ''unseen'', ''fenced_sources'', ''source_refs'']"

definition name_char :: "char \<Rightarrow> bool" where
  "name_char c = (is_lower_letter c \<or> c = CHR ''_'')"

text \<open>
  \<open>_PIPE_RE\<close>: a name, white space, an optional argument list up to the last parenthesis; \<open>.\<close> is no
  newline, and \<open>$\<close> matches before a final one.
\<close>

definition match_pipe :: "string \<Rightarrow> (string \<times> string) option" where
  "match_pipe s =
     (let name = takeWhile name_char s;
          rest = dropWhile is_space (dropWhile name_char s);
          body = (if rest \<noteq> [] \<and> last rest = CHR 0x0A then butlast rest else rest)
      in if name = [] then None
         else if rest = [] then Some (name, [])
         else if 2 \<le> length body \<and> hd body = CHR ''('' \<and> last body = CHR '')''
              \<and> CHR 0x0A \<notin> set (butlast (tl body)) then Some (name, butlast (tl body))
         else None)"

definition parse_pipe :: "runtime \<Rightarrow> string \<Rightarrow> binding_error + string \<times> json list" where
  "parse_pipe rt raw =
     (case match_pipe raw of
        None \<Rightarrow> Inl (MalformedPipe raw)
      | Some (name, args) \<Rightarrow>
          (case map_of PIPES name of
             None \<Rightarrow> Inl (UnknownPipe name)
           | Some most \<Rightarrow>
               (case parse_pipe_args rt args of
                  Inl e \<Rightarrow> Inl e
                | Inr vs \<Rightarrow> if most < length vs then Inl (BadPipeArguments name) else Inr (name, vs))))"

section \<open>The pipes\<close>

text \<open>
  A positional argument or its default. \<open>d.get(key)\<close> with a literal key: a key that is no text is no key
  of a JSON object. \<open>tag\<close> with such a key is written under the text of the key.
\<close>

definition arg :: "json list \<Rightarrow> nat \<Rightarrow> json \<Rightarrow> json" where
  "arg vs i dflt = (if i < length vs then vs ! i else dflt)"

fun has_field :: "config \<Rightarrow> json \<Rightarrow> bool" where
  "has_field d (JStr k) = (map_of d k \<noteq> None)"
| "has_field d _ = False"

fun get_field :: "config \<Rightarrow> json \<Rightarrow> json" where
  "get_field d (JStr k) = cfg_get d k"
| "get_field d _ = JNull"

fun is_object :: "json \<Rightarrow> bool" where
  "is_object (JObj d) = True"
| "is_object _ = False"

fun field_is :: "json \<Rightarrow> json \<Rightarrow> json \<Rightarrow> bool" where
  "field_is key expected (JObj d) = json_eq (get_field d key) expected"
| "field_is key expected _ = False"

text \<open>What the list pipes share: null is the empty list, what is no list is refused.\<close>

definition on_list :: "string \<Rightarrow> (json list \<Rightarrow> binding_error + json) \<Rightarrow> json \<Rightarrow> binding_error + json" where
  "on_list name f v = (case v of JNull \<Rightarrow> Inr (JList []) | JList xs \<Rightarrow> f xs | _ \<Rightarrow> Inl (PipeRefused name))"

definition pipe_filter :: "json \<Rightarrow> json \<Rightarrow> json \<Rightarrow> binding_error + json" where
  "pipe_filter key expected v = on_list ''filter'' (\<lambda>xs. Inr (JList
     (if \<not> truthy key then filter truthy xs else filter (field_is key expected) xs))) v"

definition pipe_map :: "json \<Rightarrow> json \<Rightarrow> binding_error + json" where
  "pipe_map key v = on_list ''map'' (\<lambda>xs.
     if \<not> truthy key then Inl (PipeRefused ''map'')
     else Inr (JList (map (\<lambda>x. case x of JObj d \<Rightarrow> get_field d key | _ \<Rightarrow> JNull) xs))) v"

definition pipe_flatten :: "json \<Rightarrow> binding_error + json" where
  "pipe_flatten v = on_list ''flatten'' (\<lambda>xs.
     Inr (JList (concat (map (\<lambda>x. case x of JList ys \<Rightarrow> ys | _ \<Rightarrow> [x]) xs)))) v"

definition pipe_tag :: "runtime \<Rightarrow> json \<Rightarrow> json \<Rightarrow> json \<Rightarrow> binding_error + json" where
  "pipe_tag rt key tagged v =
     (let put = (\<lambda>d. JObj (dict_set d (py_str rt key) tagged)) in
      if \<not> truthy key then Inl (PipeRefused ''tag'')
      else case v of
             JObj d \<Rightarrow> Inr (put d)
           | _ \<Rightarrow> on_list ''tag'' (\<lambda>xs.
               Inr (JList (map (\<lambda>x. case x of JObj d \<Rightarrow> put d | _ \<Rightarrow> put [(''value'', x)]) xs))) v)"

definition pipe_reject :: "json \<Rightarrow> json \<Rightarrow> json \<Rightarrow> binding_error + json" where
  "pipe_reject key expected v = on_list ''reject'' (\<lambda>xs.
     if \<not> truthy key then Inl (PipeRefused ''reject'')
     else Inr (JList (filter (\<lambda>x. \<not> (case x of
        JObj d \<Rightarrow> has_field d key \<and> json_eq (get_field d key) expected | _ \<Rightarrow> False)) xs))) v"

text \<open>\<open>int(v)\<close> and \<open>float(v)\<close> of a value; \<open>None\<close> where they raise.\<close>

fun int_of :: "json \<Rightarrow> int option" where
  "int_of (JInt i) = Some i"
| "int_of (JBool b) = Some (if b then 1 else 0)"
| "int_of (JFloat q) = Some (rat_trunc q)"
| "int_of (JStr s) = py_int s"
| "int_of _ = None"

fun float_of :: "runtime \<Rightarrow> json \<Rightarrow> rat option" where
  "float_of rt (JStr s) = rt_float rt s"
| "float_of rt v = number_of v"

definition slice_index :: "int \<Rightarrow> 'a list \<Rightarrow> nat" where
  "slice_index i xs = nat (if i < 0 then max 0 (i + int (length xs)) else min i (int (length xs)))"

definition py_slice :: "int \<Rightarrow> int option \<Rightarrow> 'a list \<Rightarrow> 'a list" where
  "py_slice s e xs =
     (let stop = (case e of None \<Rightarrow> length xs | Some i \<Rightarrow> slice_index i xs); start = slice_index s xs
      in drop start (take stop xs))"

definition pipe_slice :: "json \<Rightarrow> json \<Rightarrow> json \<Rightarrow> binding_error + json" where
  "pipe_slice start stop v =
     (let bounds = (case int_of start of None \<Rightarrow> None
             | Some s \<Rightarrow> if stop = JNull then Some (s, None) else map_option (\<lambda>e. (s, Some e)) (int_of stop))
      in case v of
           JNull \<Rightarrow> Inr (JList [])
         | JList xs \<Rightarrow> (case bounds of Some (s, e) \<Rightarrow> Inr (JList (py_slice s e xs)) | None \<Rightarrow> Inl (PipeRefused ''slice''))
         | JStr t \<Rightarrow> (case bounds of Some (s, e) \<Rightarrow> Inr (JStr (py_slice s e t)) | None \<Rightarrow> Inl (PipeRefused ''slice''))
         | _ \<Rightarrow> Inl (PipeRefused ''slice''))"

fun pipe_count :: "json \<Rightarrow> binding_error + json" where
  "pipe_count JNull = Inr (JInt 0)"
| "pipe_count (JList xs) = Inr (JInt (int (length xs)))"
| "pipe_count (JStr s) = Inr (JInt (int (length s)))"
| "pipe_count (JObj d) = Inr (JInt (int (length d)))"
| "pipe_count _ = Inl (PipeRefused ''count'')"

definition pipe_default :: "json \<Rightarrow> json \<Rightarrow> json" where
  "pipe_default fallback v = (if v \<in> set [JNull, JStr [], JList [], JObj []] then fallback else v)"

definition text_or_json :: "runtime \<Rightarrow> json \<Rightarrow> string" where
  "text_or_json rt v = (case v of JStr s \<Rightarrow> s | _ \<Rightarrow> rt_dumps rt v)"

definition replace_char :: "char \<Rightarrow> string \<Rightarrow> string \<Rightarrow> string" where
  "replace_char c t s = concat (map (\<lambda>x. if x = c then t else [x]) s)"

definition pipe_xml_escape :: "runtime \<Rightarrow> json \<Rightarrow> string" where
  "pipe_xml_escape rt v =
     replace_char (CHR 0x27) ''&apos;'' (replace_char (CHR 0x22) ''&quot;'' (replace_char (CHR ''>'') ''&gt;''
       (replace_char (CHR ''<'') ''&lt;'' (replace_char (CHR ''&'') ''&amp;'' (text_or_json rt v)))))"

text \<open>The ellipsis U+2026 is one character; here it is the 8-bit code it has in Windows-1252.\<close>

definition ELLIPSIS :: string where "ELLIPSIS = [CHR 0x85]"

definition pipe_truncate :: "runtime \<Rightarrow> json \<Rightarrow> json \<Rightarrow> binding_error + json" where
  "pipe_truncate rt limit v =
     (let s = text_or_json rt v in
      case int_of limit of
        None \<Rightarrow> Inl (PipeRefused ''truncate'')
      | Some n \<Rightarrow> if n \<le> 0 then Inl (PipeRefused ''truncate'')
          else Inr (JStr (if int (length s) \<le> n then s else take (nat n) s @ ELLIPSIS)))"

definition pipe_slugify :: "runtime \<Rightarrow> json \<Rightarrow> string" where
  "pipe_slugify rt v = strip_dash (dash_runs (lower (py_str rt v)))"

definition synthesis_window :: "host \<Rightarrow> int" where
  "synthesis_window h = (case h_window h of Some n \<Rightarrow> if 0 < n then n else DEFAULT_SYNTHESIS_WINDOW
     | None \<Rightarrow> DEFAULT_SYNTHESIS_WINDOW)"

definition pipe_window :: "host \<Rightarrow> json \<Rightarrow> json \<Rightarrow> binding_error + json" where
  "pipe_window h most v = on_list ''window'' (\<lambda>xs.
     case (if most = JNull then Some (synthesis_window h) else int_of most) of
       None \<Rightarrow> Inl (PipeRefused ''window'')
     | Some n \<Rightarrow> if n \<le> 0 then Inl (PipeRefused ''window'') else Inr (JList (last_items n xs))) v"

definition pipe_unseen :: "(json list \<Rightarrow> json) option \<Rightarrow> json \<Rightarrow> binding_error + json" where
  "pipe_unseen seen v = on_list ''unseen'' (\<lambda>xs.
     case seen of None \<Rightarrow> Inl (PipeRefused ''unseen'')
     | Some f \<Rightarrow> Inr (case f xs of JList ys \<Rightarrow> JList ys | _ \<Rightarrow> JList [])) v"

definition pipe_significant :: "runtime \<Rightarrow> json \<Rightarrow> json \<Rightarrow> binding_error + json" where
  "pipe_significant rt threshold v = on_list ''significant'' (\<lambda>xs.
     case (if threshold = JNull then Some DEFAULT_SIGNIFICANCE_THRESHOLD else float_of rt threshold) of
       None \<Rightarrow> Inl (PipeRefused ''significant'')
     | Some least \<Rightarrow> Inr (JList (filter (\<lambda>i. least \<le> significance_of rt i) xs))) v"

definition pipe_hygiene :: "runtime \<Rightarrow> json \<Rightarrow> binding_error + json" where
  "pipe_hygiene rt v = on_list ''hygiene'' (\<lambda>xs. Inr (JList (web_hygiene rt xs [] MIN_TITLE_WORDS))) v"

text \<open>\<open>str(v or "")\<close>.\<close>

definition text_or_empty :: "runtime \<Rightarrow> json \<Rightarrow> string" where
  "text_or_empty rt v = (if truthy v then py_str rt v else [])"

definition pipe_fenced :: "host \<Rightarrow> json list \<Rightarrow> json \<Rightarrow> string" where
  "pipe_fenced h vs v = h_fence h (text_or_json (h_rt h) v)
     (map (\<lambda>i. text_or_empty (h_rt h) (arg vs i (JStr []))) [0, 1, 2, 3])"

definition listed :: "json \<Rightarrow> json list" where
  "listed v = (case v of JList xs \<Rightarrow> xs | JNull \<Rightarrow> [] | _ \<Rightarrow> [v])"

definition source_block :: "host \<Rightarrow> nat \<Rightarrow> json \<Rightarrow> string" where
  "source_block h n item =
     (let mark = ''['' @ nat_str n @ '']''; rt = h_rt h in
      case item of
        JObj d \<Rightarrow>
          (let title = strip (text_or_empty rt (get_or d ''title'' (JStr [])));
               stored = (if truthy (cfg_get d ''content'') then cfg_get d ''content'' else cfg_get d ''summary'');
               body = strip (h_strip_markers h (text_or_empty rt stored));
               head = (if title \<noteq> [] then mark @ '' '' @ title else mark)
           in if body \<noteq> [] then head @ [CHR 0x0A] @ body else head)
      | v \<Rightarrow> mark @ '' '' @ h_strip_markers h (py_str rt v))"

definition pipe_fenced_sources :: "host \<Rightarrow> json \<Rightarrow> string" where
  "pipe_fenced_sources h v =
     (let items = listed v in
      if items = [] then ''No stored knowledge matched. Answer from first principles and say so.''
      else join_with [CHR 0x0A] ((''Numbered sources follow. Cite them as [n] when you use them, and if they do not ''
             @ ''answer the question, say so rather than filling the gap.'')
           # map (\<lambda>(i, item). h_fence h (source_block h (Suc i) item) [''knowledge'', [], [], []])
               (zip [0..<length items] items)))"

definition pipe_source_refs :: "host \<Rightarrow> json \<Rightarrow> json" where
  "pipe_source_refs h v = JList (map (\<lambda>(marker, item, chunk, excerpt). JObj
     [(''marker'', JInt marker), (''item_id'', JStr item), (''chunk_index'', JInt chunk), (''excerpt'', JStr excerpt)])
     (h_register_sources h (listed v)))"

fun is_number :: "json \<Rightarrow> bool" where
  "is_number (JInt i) = True"
| "is_number (JFloat q) = True"
| "is_number _ = False"

definition pipe_clamp :: "runtime \<Rightarrow> json \<Rightarrow> json \<Rightarrow> json \<Rightarrow> binding_error + json" where
  "pipe_clamp rt low high v =
     (case (float_of rt low, float_of rt high) of
        (Some lo, Some hi) \<Rightarrow>
          if hi < lo then Inl (PipeRefused ''clamp'')
          else (case (if is_number v then number_of v else rt_float rt (strip (py_str rt v))) of
                  None \<Rightarrow> Inl (PipeRefused ''clamp'')
                | Some q \<Rightarrow> (let b = max lo (min hi q) in
                    Inr (if b = of_int \<lfloor>b\<rfloor> then JInt (rat_trunc b) else JFloat b)))
      | _ \<Rightarrow> Inl (PipeRefused ''clamp''))"

text \<open>\<open>PIPES[name](value, *args)\<close>; \<open>unseen\<close> is given the context's filter.\<close>

definition apply_pipe ::
  "host \<Rightarrow> (json list \<Rightarrow> json) option \<Rightarrow> string \<Rightarrow> json list \<Rightarrow> json \<Rightarrow> binding_error + json" where
  "apply_pipe h seen name vs v =
     (let rt = h_rt h in
      if name = ''filter'' then pipe_filter (arg vs 0 (JStr [])) (arg vs 1 JNull) v
      else if name = ''map'' then pipe_map (arg vs 0 (JStr [])) v
      else if name = ''flatten'' then pipe_flatten v
      else if name = ''tag'' then pipe_tag rt (arg vs 0 (JStr [])) (arg vs 1 JNull) v
      else if name = ''reject'' then pipe_reject (arg vs 0 (JStr [])) (arg vs 1 JNull) v
      else if name = ''slice'' then pipe_slice (arg vs 0 (JInt 0)) (arg vs 1 JNull) v
      else if name = ''count'' then pipe_count v
      else if name = ''default'' then Inr (pipe_default (arg vs 0 (JStr [])) v)
      else if name = ''json'' \<or> name = ''tojson'' then Inr (JStr (rt_dumps rt v))
      else if name = ''xml_escape'' then Inr (JStr (pipe_xml_escape rt v))
      else if name = ''truncate'' then pipe_truncate rt (arg vs 0 (JInt 1000)) v
      else if name = ''slugify'' then Inr (JStr (pipe_slugify rt v))
      else if name = ''window'' then pipe_window h (arg vs 0 JNull) v
      else if name = ''unseen'' then pipe_unseen seen v
      else if name = ''significant'' then pipe_significant rt (arg vs 0 JNull) v
      else if name = ''full'' then Inr v
      else if name = ''hygiene'' then pipe_hygiene rt v
      else if name = ''clamp'' then pipe_clamp rt (arg vs 0 (JInt 0)) (arg vs 1 (JInt 1)) v
      else if name = ''fenced'' then Inr (JStr (pipe_fenced h vs v))
      else if name = ''fenced_sources'' then Inr (JStr (pipe_fenced_sources h v))
      else if name = ''source_refs'' then Inr (pipe_source_refs h v)
      else Inl (UnknownPipe name))"

text \<open>\<open>_run_pipes\<close>: left to right, each call read before its value is used; the first error ends it.\<close>

fun run_pipes ::
  "host \<Rightarrow> (json list \<Rightarrow> json) option \<Rightarrow> json \<Rightarrow> string list \<Rightarrow> binding_error + json" where
  "run_pipes h seen v [] = Inr v"
| "run_pipes h seen v (raw # raws) =
     (case parse_pipe (h_rt h) raw of
        Inl e \<Rightarrow> Inl e
      | Inr (name, vs) \<Rightarrow>
          (case apply_pipe h seen name vs v of Inl e \<Rightarrow> Inl e | Inr v' \<Rightarrow> run_pipes h seen v' raws))"

end
