(* ===== verification/Bindings.thy ===== *)
theory Bindings
  imports BindingPipes
begin

text \<open>
  \<^verbatim>\<open>workflows/bindings.py\<close>: what a step may read (\<open>BindingContext\<close>), how the readings of a step inside a
  fan-out item are scoped to that item, how one expression is resolved through its pipes, how the
  secrets it names are filled in, and how a template with references in it becomes a value.

  A resolution returns its value or its error together with the secrets it filled in, which is what the
  code appends to \<open>ctx.filled\<close> as it goes: a step is masked by that list, error or not.
\<close>

section \<open>The context\<close>

text \<open>
  An absent dict and an empty one read alike, so both are \<open>[]\<close>; a \<open>has_\<dots>\<close> flag and its value are one option.
  The brief is given as the object \<open>as_root\<close> renders of it.
\<close>

record binding_context =
  bc_inputs :: config
  bc_outputs :: config
  bc_artifacts :: "(string \<times> string) list"
  bc_item :: "json option"
  bc_iter :: "int option"
  bc_last :: "json option"
  bc_siblings :: "(string \<times> json list) list option"
  bc_previous :: "json option"
  bc_seen :: "(json list \<Rightarrow> json) option"
  bc_brief :: "config option"
  bc_secrets :: "(string \<Rightarrow> json) option"
  bc_input_secrets :: "(string \<times> string list) list"
  bc_self :: "json option"
  bc_document :: string
  bc_inst_outputs :: "(string \<times> string \<times> json) list"
  bc_inst_artifacts :: "(string \<times> string \<times> string) list"

subsection \<open>Scoping to a fan-out item\<close>

text \<open>\<open>item_prefixes\<close>: what ends at each match of \<open>\.body#\d+\<close>, outermost first.\<close>

function item_ends :: "string \<Rightarrow> string \<Rightarrow> string list" where
  "item_ends before [] = []"
| "item_ends before (c # cs) =
     (let digits = takeWhile is_digit (drop 5 cs) in
      if c = CHR ''.'' \<and> take 5 cs = ''body#'' \<and> digits \<noteq> []
      then (before @ ''.body#'' @ digits) # item_ends (before @ ''.body#'' @ digits) (dropWhile is_digit (drop 5 cs))
      else item_ends (before @ [c]) cs)"
  by pat_completeness auto
termination
proof (relation "measure (length \<circ> snd)", goal_cases)
  case (2 before c cs digits)
  have "length (dropWhile is_digit (drop 5 cs)) \<le> length cs"
    using length_dropWhile_le [of is_digit "drop 5 cs"] by simp
  then show ?case by simp
qed auto

definition item_prefixes :: "string \<Rightarrow> string list" where
  "item_prefixes path = item_ends [] path"

text \<open>\<open>sorted(paths, key=instance_order)\<close>, stable.\<close>

fun insert_path :: "string \<Rightarrow> string list \<Rightarrow> string list" where
  "insert_path x [] = [x]"
| "insert_path x (y # ys) =
     (if key_before (instance_order x) (instance_order y) then x # y # ys else y # insert_path x ys)"

definition sort_paths :: "string list \<Rightarrow> string list" where
  "sort_paths ps = fold insert_path ps []"

text \<open>
  \<open>_scoped_refs\<close>: for each enclosing item, outermost first, every item's entry of a node of that body is
  taken out and this item's own are put back, latest last.
\<close>

definition inside :: "string \<Rightarrow> string \<Rightarrow> bool" where
  "inside p path = prefix (p @ ''.'') path"

definition scope_refs_to :: "(string \<times> string \<times> 'v) list \<Rightarrow> string \<Rightarrow> (string \<times> 'v) list \<Rightarrow> (string \<times> 'v) list" where
  "scope_refs_to inst p refs =
     (let out = fold (\<lambda>(ipath, nid, v) r. if inside (spec_path p) (spec_path ipath) then dict_del r nid else r)
                 inst refs;
          mine = sort_paths (map fst (filter (\<lambda>(ipath, nid, v). inside p ipath) inst))
      in fold (\<lambda>ipath r. case map_of inst ipath of Some (nid, v) \<Rightarrow> dict_set r nid v | None \<Rightarrow> r) mine out)"

definition scoped_refs :: "(string \<times> 'v) list \<Rightarrow> (string \<times> string \<times> 'v) list \<Rightarrow> string list \<Rightarrow> (string \<times> 'v) list" where
  "scoped_refs by_id inst items =
     (if inst = [] then by_id else fold (scope_refs_to inst) items by_id)"

text \<open>\<open>_item_index\<close>: the same grouping once per context.\<close>

definition at_key :: "('k \<times> 'v list) list \<Rightarrow> 'k \<Rightarrow> 'v list" where
  "at_key d k = (case map_of d k of Some xs \<Rightarrow> xs | None \<Rightarrow> [])"

definition index_item ::
  "string \<times> string \<times> 'v \<Rightarrow> string \<Rightarrow> (string \<times> string list) list \<times> (string \<times> string list) list \<Rightarrow>
   (string \<times> string list) list \<times> (string \<times> string list) list" where
  "index_item entry p idx =
     (case (entry, idx) of ((ipath, nid, v), (by_item, ids)) \<Rightarrow>
        (dict_set by_item p (at_key by_item p @ [ipath]),
         dict_set ids (spec_path p) (push_new nid (at_key ids (spec_path p)))))"

definition item_index ::
  "(string \<times> string \<times> 'v) list \<Rightarrow> (string \<times> string list) list \<times> (string \<times> string list) list" where
  "item_index inst =
     (case fold (\<lambda>entry idx. if fst (snd entry) = [] then idx
              else fold (index_item entry) (item_prefixes (fst entry)) idx) inst ([], []) of
        (by_item, ids) \<Rightarrow> (map (\<lambda>(p, paths). (p, sort_paths paths)) by_item, ids))"

definition scope_outputs_to :: "(string \<times> string \<times> 'v) list \<Rightarrow> string \<Rightarrow> (string \<times> 'v) list \<Rightarrow> (string \<times> 'v) list" where
  "scope_outputs_to inst p outs =
     (case item_index inst of (by_item, ids) \<Rightarrow>
        fold (\<lambda>ipath r. case map_of inst ipath of Some (nid, v) \<Rightarrow> dict_set r nid v | None \<Rightarrow> r)
          (at_key by_item p) (fold (\<lambda>nid r. dict_del r nid) (at_key ids (spec_path p)) outs))"

definition scoped_to :: "string \<Rightarrow> binding_context \<Rightarrow> binding_context" where
  "scoped_to path ctx =
     (let items = item_prefixes path;
          arts = scoped_refs (bc_artifacts ctx) (bc_inst_artifacts ctx) items
      in if bc_inst_outputs ctx = [] \<and> bc_inst_artifacts ctx = [] then ctx
         else if items = [] then ctx
         else if bc_inst_outputs ctx = [] then ctx\<lparr>bc_artifacts := arts\<rparr>
         else ctx\<lparr>bc_artifacts := arts,
                  bc_outputs := fold (scope_outputs_to (bc_inst_outputs ctx)) items (bc_outputs ctx)\<rparr>)"

subsection \<open>The tree a path is read from\<close>

definition opt_field :: "string \<Rightarrow> json option \<Rightarrow> config" where
  "opt_field k v = (case v of None \<Rightarrow> [] | Some x \<Rightarrow> [(k, x)])"

definition add_artifact :: "string \<times> string \<Rightarrow> (string \<times> config) list \<Rightarrow> (string \<times> config) list" where
  "add_artifact entry nodes = (case entry of (nid, ref) \<Rightarrow>
     dict_set nodes nid (dict_set (at_key nodes nid) ''artifact'' (JStr ref)))"

definition nodes_root :: "binding_context \<Rightarrow> (string \<times> config) list" where
  "nodes_root ctx = fold add_artifact (bc_artifacts ctx) (map (\<lambda>(nid, out). (nid, [(''output'', out)])) (bc_outputs ctx))"

definition as_root :: "binding_context \<Rightarrow> config" where
  "as_root ctx =
     [(''inputs'', JObj (bc_inputs ctx)), (''nodes'', JObj (map (\<lambda>(nid, d). (nid, JObj d)) (nodes_root ctx)))]
     @ opt_field ''item'' (bc_item ctx)
     @ opt_field ''iter'' (map_option JInt (bc_iter ctx))
     @ opt_field ''last'' (map_option (\<lambda>v. JObj [(''output'', v)]) (bc_last ctx))
     @ opt_field ''siblings'' (map_option (\<lambda>sibs. JObj (map (\<lambda>(sid, outs). (sid, JObj [(''output'', JList outs)])) sibs))
         (bc_siblings ctx))
     @ opt_field ''previous'' (map_option (\<lambda>v. JObj [(''output'', v)]) (bc_previous ctx))
     @ opt_field ''output'' (bc_self ctx)
     @ (if bc_document ctx = [] then [] else [(''run'', JObj [(''document'', JStr (bc_document ctx))])])
     @ opt_field ''brief'' (map_option JObj (bc_brief ctx))"

section \<open>Paths\<close>

text \<open>\<open>[s for s in path.split(".") if s]\<close>.\<close>

definition segments :: "string \<Rightarrow> string list" where
  "segments path = filter (\<lambda>s. s \<noteq> []) (split_on (\<lambda>c. c = CHR ''.'') path)"

text \<open>One segment: \<open>None\<close> where the value has no such part, an error where it has no parts at all.\<close>

fun step_into :: "json \<Rightarrow> string \<Rightarrow> binding_error + json option" where
  "step_into (JObj d) seg = Inr (map_of d seg)"
| "step_into (JList xs) seg =
     (if seg \<noteq> [] \<and> list_all is_digit seg
      then Inr (if digits_val seg < length xs then Some (xs ! digits_val seg) else None)
      else Inl (CannotRead seg))"
| "step_into _ seg = Inl (CannotRead seg)"

fun walk_from :: "bool \<Rightarrow> bool \<Rightarrow> json \<Rightarrow> string list \<Rightarrow> binding_error + json" where
  "walk_from at_root from_inputs cur [] = Inr cur"
| "walk_from at_root from_inputs cur (seg # segs) =
     (case step_into cur seg of
        Inl e \<Rightarrow> Inl e
      | Inr None \<Rightarrow> Inl (Unresolved seg (\<not> at_root \<and> from_inputs))
      | Inr (Some v) \<Rightarrow> walk_from False from_inputs v segs)"

definition walk_path :: "json \<Rightarrow> string \<Rightarrow> binding_error + json" where
  "walk_path tree path =
     walk_from True (strip (hd (split_on (\<lambda>c. c = CHR ''.'') path)) = ''inputs'') tree (segments path)"

definition is_sibling_ref :: "string \<Rightarrow> bool" where
  "is_sibling_ref head = (case segments head of [] \<Rightarrow> False | s # _ \<Rightarrow> s = ''siblings'')"

definition first_cycle_miss :: "string \<Rightarrow> binding_context \<Rightarrow> bool" where
  "first_cycle_miss head ctx =
     (case segments head of
        [] \<Rightarrow> False
      | s # _ \<Rightarrow>
          if s = ''previous'' then bc_previous ctx = None
          else if s = ''last'' then bc_last ctx = None \<and> bc_iter ctx \<noteq> None \<and> bc_item ctx = None
          else False)"

definition prior_cycle_field_miss :: "string \<Rightarrow> binding_context \<Rightarrow> string list \<Rightarrow> bool" where
  "prior_cycle_field_miss head ctx names =
     (case segments head of
        r # s # _ # _ \<Rightarrow>
          if s \<noteq> ''output'' \<or> ''default'' \<notin> set names then False
          else if r = ''previous'' then bc_previous ctx \<noteq> None
          else if r = ''last'' then bc_last ctx \<noteq> None \<and> bc_item ctx = None
          else False
      | _ \<Rightarrow> False)"

definition flatten_sibling :: "json \<Rightarrow> json" where
  "flatten_sibling v = (case v of JList outs \<Rightarrow> JList (flatten_outputs outs) | _ \<Rightarrow> v)"

definition default_sibling_view :: "host \<Rightarrow> json \<Rightarrow> json" where
  "default_sibling_view h v = (case v of
     JList outs \<Rightarrow> JList (sibling_view (h_rt h) outs (synthesis_window h) DEFAULT_SIGNIFICANCE_THRESHOLD None False)
   | _ \<Rightarrow> v)"

section \<open>Secrets\<close>

type_synonym 'a filling = "(binding_error + 'a) \<times> string list"

definition pure :: "binding_error + 'a \<Rightarrow> 'a filling" where
  "pure r = (r, [])"

definition and_then :: "'a filling \<Rightarrow> ('a \<Rightarrow> 'b filling) \<Rightarrow> 'b filling" where
  "and_then m f = (case m of
     (Inl e, fs) \<Rightarrow> (Inl e, fs)
   | (Inr x, fs) \<Rightarrow> (case f x of (r, gs) \<Rightarrow> (r, fs @ gs)))"

fun map_filling :: "('a \<Rightarrow> 'b filling) \<Rightarrow> 'a list \<Rightarrow> 'b list filling" where
  "map_filling f [] = pure (Inr [])"
| "map_filling f (x # xs) =
     and_then (f x) (\<lambda>y. and_then (map_filling f xs) (\<lambda>ys. pure (Inr (y # ys))))"

lemma map_filling_cong [fundef_cong]:
  assumes "xs = ys" and "\<And>x. x \<in> set ys \<Longrightarrow> f x = g x"
  shows "map_filling f xs = map_filling g ys"
  using assms(2) unfolding assms(1) by (induction ys) simp_all

definition secret_mark :: "string \<Rightarrow> string" where
  "secret_mark key = ''{{secret:'' @ key @ ''}}''"

text \<open>\<open>_secret\<close>: refused when the resolver answers nothing; a value that is not the reference is filled in.\<close>

definition secret :: "runtime \<Rightarrow> (string \<Rightarrow> json) \<Rightarrow> string \<Rightarrow> json filling" where
  "secret rt resolver key =
     (let v = resolver key in
      if v = JNull \<or> v = JStr [] then (Inl (SecretNotSet key), [])
      else (Inr v, if v = JStr (secret_mark key) then [] else [py_str rt v]))"

definition key_char :: "char \<Rightarrow> bool" where
  "key_char c = (is_digit c \<or> is_lower_letter (ascii_lower c) \<or> c \<in> set ''_.-'')"

text \<open>\<open>SECRET_BINDING_RE\<close> at the start of a text: the key, and what follows the match.\<close>

definition match_secret :: "string \<Rightarrow> (string \<times> string) option" where
  "match_secret s =
     (let s1 = dropWhile is_space (drop 2 s);
          key = takeWhile key_char (drop 7 s1);
          s2 = dropWhile is_space (dropWhile key_char (drop 7 s1))
      in if take 2 s = ''{{'' \<and> take 7 s1 = ''secret:'' \<and> key \<noteq> [] \<and> take 2 s2 = ''}}''
         then Some (key, drop 2 s2) else None)"

datatype secret_piece = Plain char | SecretRef string string

lemma match_secret_shorter: "match_secret s = Some (key, rest) \<Longrightarrow> length rest < length s"
proof -
  assume m: "match_secret s = Some (key, rest)"
  define s1 where "s1 = dropWhile is_space (drop 2 s)"
  define s2 where "s2 = dropWhile is_space (dropWhile key_char (drop 7 s1))"
  have "rest = drop 2 s2" "take 2 s = ''{{''"
    using m by (auto simp: match_secret_def Let_def s1_def s2_def split: if_splits)
  moreover have "length s2 \<le> length s"
    unfolding s2_def s1_def
    using length_dropWhile_le [of is_space "dropWhile key_char (drop 7 (dropWhile is_space (drop 2 s)))"]
      length_dropWhile_le [of key_char "drop 7 (dropWhile is_space (drop 2 s))"]
      length_dropWhile_le [of is_space "drop 2 s"] by simp
  ultimately show ?thesis by (cases s) auto
qed

function secret_pieces :: "string \<Rightarrow> secret_piece list" where
  "secret_pieces s =
     (case match_secret s of
        Some (key, rest) \<Rightarrow> SecretRef key (take (length s - length rest) s) # secret_pieces rest
      | None \<Rightarrow> (case s of [] \<Rightarrow> [] | c # cs \<Rightarrow> Plain c # secret_pieces cs))"
  by pat_completeness auto
termination
  by (relation "measure length") (auto dest: match_secret_shorter)

declare secret_pieces.simps [simp del]

definition fill_piece :: "runtime \<Rightarrow> (string \<Rightarrow> json) \<Rightarrow> string list \<Rightarrow> secret_piece \<Rightarrow> string filling" where
  "fill_piece rt resolver names p = (case p of
     Plain c \<Rightarrow> pure (Inr [c])
   | SecretRef key t \<Rightarrow>
       if key \<in> set names then and_then (secret rt resolver key) (\<lambda>v. pure (Inr (py_str rt v)))
       else pure (Inr t))"

fun fill_in :: "runtime \<Rightarrow> (string \<Rightarrow> json) \<Rightarrow> string list \<Rightarrow> json \<Rightarrow> json filling" where
  "fill_in rt resolver names (JStr s) =
     (if names = [] then pure (Inr (JStr s))
      else and_then (map_filling (fill_piece rt resolver names) (secret_pieces s)) (\<lambda>ts. pure (Inr (JStr (concat ts)))))"
| "fill_in rt resolver names (JObj d) =
     (if names = [] then pure (Inr (JObj d))
      else and_then (map_filling (\<lambda>(k, v). and_then (fill_in rt resolver names v) (\<lambda>v'. pure (Inr (k, v')))) d)
             (\<lambda>d'. pure (Inr (JObj d'))))"
| "fill_in rt resolver names (JList xs) =
     (if names = [] then pure (Inr (JList xs))
      else and_then (map_filling (fill_in rt resolver names) xs) (\<lambda>ys. pure (Inr (JList ys))))"
| "fill_in rt resolver names v = pure (Inr v)"

definition with_input_secrets :: "runtime \<Rightarrow> binding_context \<Rightarrow> string \<Rightarrow> json \<Rightarrow> json filling" where
  "with_input_secrets rt ctx head v =
     (let held = bc_input_secrets ctx;
          segs = filter (\<lambda>s. s \<noteq> []) (map strip (split_on (\<lambda>c. c = CHR ''.'') head))
      in case (bc_secrets ctx, segs) of
           (Some resolver, r # rest) \<Rightarrow>
             if held = [] \<or> r \<noteq> ''inputs'' then pure (Inr v)
             else (case rest of
                     key # _ \<Rightarrow> fill_in rt resolver (at_key held key) v
                   | [] \<Rightarrow> (case v of
                       JObj d \<Rightarrow> and_then (map_filling (\<lambda>(k, x).
                           and_then (fill_in rt resolver (at_key held k) x) (\<lambda>x'. pure (Inr (k, x')))) d)
                         (\<lambda>d'. pure (Inr (JObj d')))
                     | _ \<Rightarrow> pure (Inr v)))
         | _ \<Rightarrow> pure (Inr v))"

section \<open>One expression\<close>

definition pipe_parts :: "string \<Rightarrow> string list" where
  "pipe_parts expr = map strip (split_on (\<lambda>c. c = CHR ''|'') expr)"

definition pipe_names :: "string list \<Rightarrow> string list" where
  "pipe_names raws = concat (map (\<lambda>r. case match_pipe r of Some (name, _) \<Rightarrow> [name] | None \<Rightarrow> []) raws)"

definition resolve_head :: "host \<Rightarrow> binding_context \<Rightarrow> string \<Rightarrow> string list \<Rightarrow> json option filling" where
  "resolve_head h ctx head names =
     (if take 7 head = ''secret:'' then
        (let key = strip (drop 7 head) in
         if key = [] then pure (Inl SecretNeedsKey)
         else case bc_secrets ctx of
                None \<Rightarrow> pure (Inl NoSecretResolver)
              | Some resolver \<Rightarrow> and_then (secret (h_rt h) resolver key) (\<lambda>v. pure (Inr (Some v))))
      else case walk_path (JObj (as_root ctx)) head of
             Inl e \<Rightarrow> if prior_cycle_field_miss head ctx names then pure (Inr None) else pure (Inl e)
           | Inr v \<Rightarrow> and_then (with_input_secrets (h_rt h) ctx head v) (\<lambda>v'. pure (Inr (Some v'))))"

definition sibling_reading :: "host \<Rightarrow> string \<Rightarrow> string list \<Rightarrow> json \<Rightarrow> json" where
  "sibling_reading h head names v =
     (if is_sibling_ref head then
        (let flat = flatten_sibling v in
         if set names \<inter> set EXPLICIT_VIEW_PIPES = {} then default_sibling_view h flat else flat)
      else v)"

definition resolve_expr :: "host \<Rightarrow> binding_context \<Rightarrow> string \<Rightarrow> json filling" where
  "resolve_expr h ctx expr =
     (let parts = pipe_parts expr; head = hd parts; raws = tl parts; names = pipe_names raws in
      if first_cycle_miss head ctx then pure (run_pipes h (bc_seen ctx) JNull raws)
      else and_then (resolve_head h ctx head names) (\<lambda>found. pure (case found of
             None \<Rightarrow> run_pipes h (bc_seen ctx) JNull raws
           | Some v \<Rightarrow> run_pipes h (bc_seen ctx) (sibling_reading h head names v) raws)))"

section \<open>Templates\<close>

text \<open>\<open>_REF_RE\<close>: the shortest body of at least one character, none a newline, up to two closing braces.\<close>

fun close_ref :: "string \<Rightarrow> string \<Rightarrow> (string \<times> string) option" where
  "close_ref body [] = None"
| "close_ref body (c # cs) =
     (if body \<noteq> [] \<and> c = CHR ''}'' \<and> take 1 cs = ''}'' then Some (body, tl cs)
      else if c = CHR 0x0A then None
      else close_ref (body @ [c]) cs)"

datatype piece = Lit char | Ref string

lemma close_ref_shorter: "close_ref body s = Some (b, rest) \<Longrightarrow> length rest < length s"
  by (induction body s rule: close_ref.induct) (auto split: if_splits simp: le_imp_less_Suc less_SucI)

function pieces :: "string \<Rightarrow> piece list" where
  "pieces [] = []"
| "pieces (c # cs) =
     (case (if c = CHR ''{'' \<and> take 1 cs = ''{'' then close_ref [] (tl cs) else None) of
        Some (body, rest) \<Rightarrow> Ref body # pieces rest
      | None \<Rightarrow> Lit c # pieces cs)"
  by pat_completeness auto
termination
  by (relation "measure length") (auto split: if_splits dest!: close_ref_shorter)

fun bodies :: "piece list \<Rightarrow> string list" where
  "bodies [] = []"
| "bodies (Lit c # ps) = bodies ps"
| "bodies (Ref b # ps) = b # bodies ps"

definition ref_text :: "string \<Rightarrow> string" where
  "ref_text b = ''{{'' @ b @ ''}}''"

definition whole_ref :: "string \<Rightarrow> string option" where
  "whole_ref t = (case bodies (pieces t) of [b] \<Rightarrow> if ref_text b = strip t then Some b else None | _ \<Rightarrow> None)"

fun refs_in :: "json \<Rightarrow> string list" where
  "refs_in (JObj d) = concat (map (\<lambda>(k, v). refs_in v) d)"
| "refs_in (JList xs) = concat (map refs_in xs)"
| "refs_in (JStr t) = map strip (bodies (pieces t))"
| "refs_in _ = []"

definition node_deps :: "json \<Rightarrow> string list" where
  "node_deps t = concat (map (\<lambda>expr. case segments (strip (hd (split_on (\<lambda>c. c = CHR ''|'') expr))) of
     r # nid # _ \<Rightarrow> if r = ''nodes'' then [nid] else [] | _ \<Rightarrow> []) (refs_in t))"

fun stringify :: "runtime \<Rightarrow> json \<Rightarrow> string" where
  "stringify rt JNull = []"
| "stringify rt (JStr s) = s"
| "stringify rt (JBool b) = (if b then ''true'' else ''false'')"
| "stringify rt (JInt i) = int_str i"
| "stringify rt (JFloat q) = rt_str rt (JFloat q)"
| "stringify rt v = rt_dumps rt v"

definition resolve_text :: "host \<Rightarrow> binding_context \<Rightarrow> string \<Rightarrow> json filling" where
  "resolve_text h ctx t =
     (case whole_ref t of
        Some b \<Rightarrow> resolve_expr h ctx (strip b)
      | None \<Rightarrow> and_then (map_filling (\<lambda>p. case p of
            Lit c \<Rightarrow> pure (Inr [c])
          | Ref b \<Rightarrow> and_then (resolve_expr h ctx (strip b)) (\<lambda>v. pure (Inr (stringify (h_rt h) v)))) (pieces t))
          (\<lambda>ts. pure (Inr (JStr (concat ts)))))"

fun resolve :: "host \<Rightarrow> binding_context \<Rightarrow> json \<Rightarrow> json filling" where
  "resolve h ctx (JObj d) =
     and_then (map_filling (\<lambda>(k, v). and_then (resolve h ctx v) (\<lambda>v'. pure (Inr (k, v')))) d)
       (\<lambda>d'. pure (Inr (JObj d')))"
| "resolve h ctx (JList xs) = and_then (map_filling (resolve h ctx) xs) (\<lambda>ys. pure (Inr (JList ys)))"
| "resolve h ctx (JStr t) = resolve_text h ctx t"
| "resolve h ctx v = pure (Inr v)"

end
