(* ===== verification/LongRunFacts.thy ===== *)
theory LongRunFacts
  imports LongRun
begin

text \<open>
  What the long-run mechanics promise: the seen-set holds the latest novelties and no more than its
  capacity, a processed item is not offered again before as many novelties as the capacity went by, the
  view of a sibling is bounded and keeps the newest of what matters, a proposed delay stays in its bounds,
  a buffer neither loses nor repeats an item, and what one run hands to the next stays small. Three facts
  show where the code falls short: a re-seen item is evicted all the same, a seal without the time of its
  last flush never flushes a trickle, and a query string can pass for a host.
\<close>

section \<open>The seen-set\<close>

definition seen_ok :: "seen_set \<Rightarrow> bool" where
  "seen_ok s \<longleftrightarrow> distinct (ss_guids s) \<and> ss_index s = set (ss_guids s) \<and> [] \<notin> set (ss_guids s) \<and>
     0 < ss_capacity s \<and> int (length (ss_guids s)) \<le> ss_capacity s"

lemma evict_is_drop:
  assumes "distinct xs" and "0 \<le> cap"
  shows "evict cap xs (set xs) = (drop (length xs - nat cap) xs, set (drop (length xs - nat cap) xs))"
  using assms
proof (induction xs)
  case (Cons x xs)
  show ?case
  proof (cases "cap < int (length (x # xs))")
    case True
    have "set (x # xs) - {x} = set xs" using Cons.prems by auto
    moreover have "length (x # xs) - nat cap = Suc (length xs - nat cap)" using True by simp
    ultimately show ?thesis using Cons True by simp
  qed simp
qed simp

text \<open>The last \<open>n\<close> elements, as the eviction leaves them.\<close>

definition latest :: "int \<Rightarrow> 'a list \<Rightarrow> 'a list" where
  "latest n xs = drop (length xs - nat n) xs"

lemma latest_append: "latest n (latest n xs @ ys) = latest n (xs @ ys)"
proof (cases "length xs \<le> nat n")
  case False
  then have "length xs - nat n + (length ys) = length xs + length ys - nat n"
    and "length (latest n xs) = nat n" by (simp_all add: latest_def)
  then show ?thesis
    using False by (simp add: latest_def drop_append) (simp add: add.commute)
qed (simp add: latest_def)

lemma latest_short: "int (length xs) \<le> n \<Longrightarrow> latest n xs = xs"
  by (simp add: latest_def)

lemma latest_length: "0 \<le> n \<Longrightarrow> int (length (latest n xs)) \<le> n"
  by (simp add: latest_def)

lemma latest_keeps: "int (length ys) < n \<Longrightarrow> g \<in> set (latest n (xs @ [g] @ ys))"
  by (simp add: latest_def)

lemma latest_subset: "set (latest n xs) \<subseteq> set xs"
  unfolding latest_def by (rule set_drop_subset)

lemma mark_old: "g = [] \<or> g \<in> ss_index s \<Longrightarrow> mark g s = (s, False)"
  by (simp add: mark_def)

lemma mark_new:
  assumes "seen_ok s" and "g \<noteq> []" and "g \<notin> ss_index s"
  shows "mark g s = (s\<lparr>ss_guids := latest (ss_capacity s) (ss_guids s @ [g]),
     ss_index := set (latest (ss_capacity s) (ss_guids s @ [g]))\<rparr>, True)"
proof -
  have "distinct (ss_guids s @ [g])" "insert g (ss_index s) = set (ss_guids s @ [g])"
    "0 \<le> ss_capacity s" using assms by (auto simp: seen_ok_def)
  then show ?thesis
    using assms(2,3) evict_is_drop [of "ss_guids s @ [g]" "ss_capacity s"]
    by (simp add: mark_def latest_def del: evict.simps)
qed

lemma mark_ok:
  assumes "seen_ok s"
  shows "seen_ok (fst (mark g s))" "ss_capacity (fst (mark g s)) = ss_capacity s"
proof -
  show "ss_capacity (fst (mark g s)) = ss_capacity s"
    by (simp add: mark_def split: prod.split)
  show "seen_ok (fst (mark g s))"
  proof (cases "g = [] \<or> g \<in> ss_index s")
    case False
    have "distinct (ss_guids s @ [g])" using assms False by (simp add: seen_ok_def)
    then have "distinct (latest (ss_capacity s) (ss_guids s @ [g]))"
      unfolding latest_def by (rule distinct_drop)
    moreover have "[] \<notin> set (latest (ss_capacity s) (ss_guids s @ [g]))"
      using assms False latest_subset [of "ss_capacity s" "ss_guids s @ [g]"] by (auto simp: seen_ok_def)
    ultimately show ?thesis
      using assms False latest_length [of "ss_capacity s" "ss_guids s @ [g]"]
      by (simp add: mark_new) (simp add: seen_ok_def)
  qed (simp add: mark_old assms)
qed

text \<open>The guids a run of marks records, in order: each one that was new when its turn came.\<close>

fun recorded :: "string list \<Rightarrow> seen_set \<Rightarrow> string list" where
  "recorded [] s = []"
| "recorded (g # gs) s = (case mark g s of (s', new) \<Rightarrow> (if new then [g] else []) @ recorded gs s')"

lemma marks:
  assumes "seen_ok s"
  shows "seen_ok (fst (mark_guids gs s)) \<and> ss_capacity (fst (mark_guids gs s)) = ss_capacity s \<and>
    ss_guids (fst (mark_guids gs s)) = latest (ss_capacity s) (ss_guids s @ recorded gs s) \<and>
    snd (mark_guids gs s) = length (recorded gs s)"
  using assms
proof (induction gs arbitrary: s)
  case Nil
  then show ?case by (simp add: seen_ok_def latest_short)
next
  case (Cons g gs)
  obtain s' new where m: "mark g s = (s', new)" by (cases "mark g s")
  have ok: "seen_ok s'" "ss_capacity s' = ss_capacity s" using mark_ok [OF Cons.prems, of g] m by auto
  have front: "latest (ss_capacity s) (ss_guids s' @ ys)
      = latest (ss_capacity s) (ss_guids s @ (if new then [g] else []) @ ys)" for ys
  proof (cases "g = [] \<or> g \<in> ss_index s")
    case False
    then have "new" "ss_guids s' = latest (ss_capacity s) (ss_guids s @ [g])"
      using m mark_new [OF Cons.prems, of g] by auto
    then show ?thesis by (simp add: latest_append)
  qed (use m in \<open>auto simp: mark_old\<close>)
  show ?case
    using Cons.IH [OF ok(1)] ok m front [of "recorded gs s'"] by (auto split: prod.split)
qed

text \<open>
  C36. The seen-set of a watcher is bounded and holds exactly its latest novelties: after any run of marks it
  has no duplicate, no more guids than its capacity, an index that agrees with the list, and its content is
  the last \<open>capacity\<close> of everything ever recorded; the count reported is the number of new guids.
\<close>

theorem seen_set_holds_the_latest_news:
  assumes "seen_ok s"
  shows "seen_ok (fst (mark_guids gs s)) \<and>
    ss_guids (fst (mark_guids gs s)) = latest (ss_capacity s) (ss_guids s @ recorded gs s) \<and>
    snd (mark_guids gs s) = length (recorded gs s)"
  using marks [OF assms] by blast

definition pair_set :: seen_set where
  "pair_set = new_seen [''a'', ''b''] 2"

lemma pair_set_ok: "seen_ok pair_set"
  by (simp add: pair_set_def new_seen_def seen_ok_def)

theorem seen_set_holds_the_latest_news_witness:
  "ss_guids (fst (mark_guids [''b'', ''c'', ''d''] pair_set)) = [''c'', ''d''] \<and>
   snd (mark_guids [''b'', ''c'', ''d''] pair_set) = 2"
proof -
  have "recorded [''b'', ''c'', ''d''] pair_set = [''c'', ''d'']"
    by (simp add: pair_set_def new_seen_def mark_def)
  then show ?thesis
    using seen_set_holds_the_latest_news [OF pair_set_ok, of "[''b'', ''c'', ''d'']"]
    by (simp add: latest_def pair_set_def new_seen_def)
qed

subsection \<open>What is offered again\<close>

lemma unseen_from_guids:
  "had = map (item_guid rt) before \<Longrightarrow>
   had @ map (item_guid rt) (unseen_from rt idx (set had) items) =
     push_all (filter (\<lambda>g. g \<noteq> [] \<and> g \<notin> idx) (map (item_guid rt) items)) had"
proof (induction items arbitrary: had before)
  case (Cons item items)
  show ?case
    using Cons.IH [OF Cons.prems] Cons.IH [of "had @ [item_guid rt item]" "before @ [item]"] Cons.prems
    by (auto simp: Let_def push_new_def)
qed simp

text \<open>The guids \<open>unseen\<close> offers: those of the items, in order, each once, without the recorded ones.\<close>

lemma unseen_guids:
  "map (item_guid rt) (unseen rt s items) =
     push_all (filter (\<lambda>g. g \<noteq> [] \<and> g \<notin> ss_index s) (map (item_guid rt) items)) []"
  using unseen_from_guids [of "[]" rt "[]" "ss_index s" items] by (simp add: unseen_def)

lemma unseen_known: "item_guid rt item \<in> ss_index s \<Longrightarrow> item \<notin> set (unseen rt s items)"
proof
  assume known: "item_guid rt item \<in> ss_index s" and offered: "item \<in> set (unseen rt s items)"
  then have "item_guid rt item \<in> set (map (item_guid rt) (unseen rt s items))" by simp
  then show False unfolding unseen_guids using known by simp
qed

lemma unseen_subseq: "subseq (unseen rt s items) items"
proof -
  have "subseq (unseen_from rt idx loc items) items" for idx loc
    by (induction items arbitrary: loc) (auto simp: Let_def)
  then show ?thesis by (simp add: unseen_def)
qed

text \<open>
  C37. An item is not processed twice while it matters: once its guid was recorded, \<open>unseen\<close> does not offer
  the item again before the watcher recorded as many further novelties as the set's capacity, whatever
  else is marked in between.
\<close>

theorem processed_item_stays_seen:
  assumes "seen_ok s" and "mark (item_guid rt item) s = (s', True)"
    and "mark_guids gs s' = (s'', n)" and "int n < ss_capacity s"
  shows "item \<notin> set (unseen rt s'' items)"
proof (rule unseen_known)
  let ?g = "item_guid rt item"
  have new: "?g \<noteq> []" "?g \<notin> ss_index s" using assms(2) by (auto simp: mark_def split: if_splits)
  have s': "seen_ok s'" "ss_capacity s' = ss_capacity s"
    "ss_guids s' = latest (ss_capacity s) (ss_guids s @ [?g])"
    using mark_ok [OF assms(1), of ?g] mark_new [OF assms(1) new] assms(2) by auto
  have s'': "seen_ok s''" "ss_guids s'' = latest (ss_capacity s) (ss_guids s' @ recorded gs s')"
    "n = length (recorded gs s')"
    using marks [OF s'(1), of gs] assms(3) s'(2) by auto
  have "?g \<in> set (ss_guids s'')"
    using assms(4) s''(3) latest_keeps [of "recorded gs s'" "ss_capacity s" ?g "ss_guids s"]
    by (simp add: s''(2) s'(3) latest_append)
  then show "?g \<in> ss_index s''" using s''(1) by (simp add: seen_ok_def)
qed

definition plain_runtime :: runtime where
  "plain_runtime = \<lparr>rt_str = (\<lambda>_. []), rt_dumps = (\<lambda>_. []), rt_dumps_sorted = (\<lambda>_. []),
     rt_float = (\<lambda>_. None), rt_sha256 = (\<lambda>t. t)\<rparr>"

theorem processed_item_stays_seen_witness:
  "JStr ''c'' \<notin> set (unseen plain_runtime
     (fst (mark_guids [''d''] (fst (mark ''c'' pair_set)))) [JStr ''c'', JStr ''e''])"
proof -
  have g: "item_guid plain_runtime (JStr ''c'') = ''c''"
    by (simp add: plain_runtime_def hash16_def strip_def is_space_def)
  obtain s' where s': "mark ''c'' pair_set = (s', True)" "ss_capacity pair_set = 2"
    by (simp add: pair_set_def new_seen_def mark_def)
  obtain s'' where s'': "mark_guids [''d''] s' = (s'', 1)"
    using s' by (auto simp: pair_set_def new_seen_def mark_def)
  show ?thesis
    using processed_item_stays_seen [OF pair_set_ok, of plain_runtime "JStr ''c''" s' "[''d'']" s'' 1]
      s' s'' g by simp
qed

text \<open>
  \<open>mark\<close> of a guid the set holds changes nothing, not even its age: an item the source still serves is
  evicted by capacity all the same, and the next cycle processes it again.
\<close>

theorem reseen_item_is_still_evicted:
  "let s = fst (mark_guids [''story'', ''b''] (new_seen [] 2));
       s' = fst (mark_guids [''story'', ''c''] s)
   in ''story'' \<in> ss_index s \<and> ''story'' \<notin> ss_index s' \<and> snd (mark ''story'' s')"
  by (simp add: new_seen_def mark_def)

text \<open>What is stored reads back as it was.\<close>

lemma str_items_map [simp]: "str_items (JList (map JStr xs)) = xs"
  by (induction xs) simp_all

lemma seen_round_trip: "seen_ok s \<Longrightarrow> seen_from_dict (seen_to_dict s) = s"
  by (cases s) (auto simp: seen_ok_def seen_to_dict_def new_seen_def cfg_get_def simp del: str_items.simps)

section \<open>Views and delays\<close>

lemma last_items_props:
  "0 < n \<Longrightarrow> int (length (last_items n xs)) \<le> n" "suffix (last_items n xs) xs"
  "int (length xs) \<le> n \<Longrightarrow> last_items n xs = xs"
  "n < int (length xs) \<Longrightarrow> 0 \<le> n \<Longrightarrow> int (length (last_items n xs)) = n"
  by (auto simp: last_items_def suffix_drop)

definition matter :: "runtime \<Rightarrow> rat \<Rightarrow> json list \<Rightarrow> json list" where
  "matter rt thr outs = filter (\<lambda>i. thr \<le> significance_of rt i) (flatten_outputs outs)"

text \<open>
  The view has never more items than the window, none below the threshold, in the order they came, the
  newest ones when there are more, and all of those that matter when there are fewer.
\<close>

lemma sibling_view_bounds:
  assumes "0 < win"
  shows "int (length (sibling_view rt outs win thr None False)) = min win (int (length (matter rt thr outs)))"
    and "suffix (sibling_view rt outs win thr None False) (matter rt thr outs)"
    and "set (sibling_view rt outs win thr None False) \<subseteq> set (matter rt thr outs)"
    and "list_all (\<lambda>i. thr \<le> significance_of rt i) (sibling_view rt outs win thr None False)"
proof -
  let ?v = "sibling_view rt outs win thr None False" and ?k = "matter rt thr outs"
  have v: "?v = last_items win ?k"
    using assms(1) last_items_props(3) [of ?k win] by (auto simp: sibling_view_def matter_def Let_def)
  show "int (length ?v) = min win (int (length ?k))"
    unfolding v using assms(1) by (cases "win < int (length ?k)") (simp_all add: min_def last_items_def)
  show suf: "suffix ?v ?k" unfolding v by (rule last_items_props(2))
  show sub: "set ?v \<subseteq> set ?k" using suf by (rule set_mono_suffix)
  show "list_all (\<lambda>i. thr \<le> significance_of rt i) ?v"
    using sub by (auto simp: list_all_iff matter_def)
qed

definition scored :: "int \<Rightarrow> json" where
  "scored n = JObj [(''significance'', JInt n)]"

lemma significance_in_unit: "0 \<le> significance_of rt v \<and> significance_of rt v \<le> 1"
proof (cases v)
  case (JObj d)
  have words: "0 \<le> r \<and> r \<le> 1" if "map_of SIGNIFICANCE_WORDS w = Some r" for w r
    using that by (auto simp: SIGNIFICANCE_WORDS_def split: if_splits)
  show ?thesis
    using words by (auto simp: JObj unit_scale_def split: json.splits option.splits)
qed simp_all

lemma clamp_delay_bounds:
  assumes "lo \<le> hi"
  shows "min lo dflt \<le> fst (clamp_delay rt v dflt lo hi) \<and> fst (clamp_delay rt v dflt lo hi) \<le> max hi dflt"
  using assms by (auto simp: clamp_delay_def split: json.splits option.splits)

text \<open>
  Whatever a model proposes, a timed wait ends within the declared bounds or the declared cadence: a
  watcher is neither made to spin nor put to sleep for good by its own output.
\<close>

theorem adaptive_wait_is_bounded:
  assumes "map_of cfg ''seal'' = None" and "positive_number (cfg_get cfg ''until_ts'') = None"
    and "positive_number (cfg_get cfg ''duration_secs'') = Some secs"
    and "int_or (cfg_get cfg ''min_secs'') MIN_ADAPTIVE_DELAY_SECS
      \<le> int_or (cfg_get cfg ''max_secs'') MAX_ADAPTIVE_DELAY_SECS"
    and "dispatch_wait rt read cfg now = WaitUntil t"
  shows "now < t"
    and "t \<le> now + of_int (max (int_or (cfg_get cfg ''max_secs'') MAX_ADAPTIVE_DELAY_SECS) (rat_trunc secs))"
proof -
  let ?d = "adaptive_duration rt cfg secs"
  have t: "t = now + of_int ?d" "now < t"
    using assms(1,2,3,5) by (auto simp: dispatch_wait_def cfg_get_def Let_def split: if_splits)
  have "?d \<le> max (int_or (cfg_get cfg ''max_secs'') MAX_ADAPTIVE_DELAY_SECS) (rat_trunc secs)"
  proof (cases "cfg_get cfg ''adaptive'' = JNull")
    case False
    then have "?d = fst (clamp_delay rt (cfg_get cfg ''adaptive'') (rat_trunc secs)
        (int_or (cfg_get cfg ''min_secs'') MIN_ADAPTIVE_DELAY_SECS)
        (int_or (cfg_get cfg ''max_secs'') MAX_ADAPTIVE_DELAY_SECS))"
      by (cases "cfg_get cfg ''adaptive''") (simp_all add: adaptive_duration_def)
    then show ?thesis using clamp_delay_bounds [OF assms(4)] by metis
  qed (simp add: adaptive_duration_def)
  then have "of_int ?d \<le> (of_int (max (int_or (cfg_get cfg ''max_secs'') MAX_ADAPTIVE_DELAY_SECS)
      (rat_trunc secs)) :: rat)" by (rule of_int_le_iff [THEN iffD2])
  then show "t \<le> now + of_int (max (int_or (cfg_get cfg ''max_secs'') MAX_ADAPTIVE_DELAY_SECS) (rat_trunc secs))"
    using t(1) by simp
  show "now < t" by (rule t(2))
qed

section \<open>The buffer\<close>

datatype buffer_op = AddItems "json list" | DrainAt rat

text \<open>A run of a buffer, with what each drain handed on.\<close>

fun run_buffer :: "buffer_op list \<Rightarrow> buffer \<Rightarrow> json list list \<times> buffer" where
  "run_buffer [] b = ([], b)"
| "run_buffer (AddItems xs # ops) b = run_buffer ops (add_items xs b)"
| "run_buffer (DrainAt now # ops) b =
     (case drain_buffer now b of (b', out) \<Rightarrow> case run_buffer ops b' of (outs, b'') \<Rightarrow> (out # outs, b''))"

fun added :: "buffer_op list \<Rightarrow> json list" where
  "added [] = []"
| "added (AddItems xs # ops) = xs @ added ops"
| "added (DrainAt now # ops) = added ops"

lemma buffer_loses_nothing:
  "concat (fst (run_buffer ops b)) @ bf_items (snd (run_buffer ops b)) = bf_items b @ added ops"
proof (induction ops arbitrary: b rule: added.induct)
  case (3 now ops)
  then show ?case
    using "3.IH" [of "b\<lparr>bf_items := [], last_flush_at := now\<rparr>"]
    by (simp add: drain_buffer_def case_prod_beta)
qed (simp_all add: add_items_def)

lemma seals_exactly:
  "fst (should_seal rt b now) \<longleftrightarrow> bf_items b \<noteq> [] \<and>
     ((0 < seal_threshold b \<and> seal_threshold b \<le> int (length (bf_items b))) \<or>
      (0 < seal_tokens b \<and> seal_tokens b \<le> int (approx_tokens rt b)) \<or>
      (0 < flush_stale_after b \<and> last_flush_at b \<noteq> 0 \<and>
         of_int (flush_stale_after b) \<le> now - last_flush_at b))"
  by (simp add: should_seal_def Let_def)

text \<open>
  A seal wait flushes a trickle only if the author wrote the time of the last flush into the spec:
  with it, any item at all is flushed once it is stale; without it, the wait parks again and again, at
  every time there is, as long as the volume stays below the threshold, whatever
  \<open>flush_stale_after_secs\<close> says.
\<close>

theorem stale_flush_needs_a_flush_time:
  assumes "bf_items (seal_buffer read seal) \<noteq> []"
    and "0 < int_or (cfg_get seal ''flush_stale_after_secs'') 3600"
  shows "(int_or (cfg_get seal ''last_flush_at'') 0 \<noteq> 0 \<longrightarrow>
      of_int (int_or (cfg_get seal ''last_flush_at'') 0 + int_or (cfg_get seal ''flush_stale_after_secs'') 3600)
        \<le> now \<longrightarrow> (\<exists>out. dispatch_seal rt read seal now = WaitOver out)) \<and>
    (cfg_get seal ''last_flush_at'' = JNull \<longrightarrow>
      int (length (bf_items (seal_buffer read seal))) < int_or (cfg_get seal ''threshold'') 20 \<longrightarrow>
      cfg_get seal ''tokens'' = JNull \<longrightarrow> (\<exists>t > now. dispatch_seal rt read seal now = WaitUntil t))"
proof -
  let ?b = "seal_buffer read seal"
  have b: "seal_threshold ?b = int_or (cfg_get seal ''threshold'') 20"
    "seal_tokens ?b = int_or (cfg_get seal ''tokens'') 0"
    "flush_stale_after ?b = int_or (cfg_get seal ''flush_stale_after_secs'') 3600"
    "last_flush_at ?b = of_int (int_or (cfg_get seal ''last_flush_at'') 0)"
    by (simp_all add: seal_buffer_def Let_def)
  have over: "\<exists>out. dispatch_seal rt read seal now = WaitOver out"
    if "int_or (cfg_get seal ''last_flush_at'') 0 \<noteq> 0"
      and "of_int (int_or (cfg_get seal ''last_flush_at'') 0 +
        int_or (cfg_get seal ''flush_stale_after_secs'') 3600) \<le> now"
  proof -
    have "fst (should_seal rt ?b now)" using that assms b by (simp add: seals_exactly le_diff_eq add.commute)
    then show "\<exists>out. dispatch_seal rt read seal now = WaitOver out"
      by (cases "should_seal rt ?b now") (simp add: dispatch_seal_def)
  qed
  have parks: "\<exists>t > now. dispatch_seal rt read seal now = WaitUntil t"
    if "cfg_get seal ''last_flush_at'' = JNull"
      and "int (length (bf_items ?b)) < int_or (cfg_get seal ''threshold'') 20"
      and "cfg_get seal ''tokens'' = JNull"
  proof -
    have "\<not> fst (should_seal rt ?b now)" using that b by (simp add: seals_exactly)
    then show "\<exists>t > now. dispatch_seal rt read seal now = WaitUntil t"
      by (cases "should_seal rt ?b now") (simp add: dispatch_seal_def Let_def)
  qed
  show ?thesis using over parks by blast
qed

text \<open>The stated bound of the wait between two checks of a seal.\<close>

definition trickle :: config where
  "trickle = [(''items'', JList [JStr ''x'']), (''flush_stale_after_secs'', JInt 60)]"

theorem stale_flush_needs_a_flush_time_witness:
  "(\<exists>t > 1000000. dispatch_seal plain_runtime (\<lambda>_. None) trickle 1000000 = WaitUntil t) \<and>
   (\<exists>out. dispatch_seal plain_runtime (\<lambda>_. None) ((''last_flush_at'', JInt 5) # trickle) 100 = WaitOver out)"
proof -
  have a: "bf_items (seal_buffer (\<lambda>_. None) trickle) = [JStr ''x'']"
    "bf_items (seal_buffer (\<lambda>_. None) ((''last_flush_at'', JInt 5) # trickle)) = [JStr ''x'']"
    by (simp_all add: seal_buffer_def trickle_def cfg_get_def)
  show ?thesis
    using stale_flush_needs_a_flush_time [of "\<lambda>_. None" trickle 1000000 plain_runtime]
      stale_flush_needs_a_flush_time
        [of "\<lambda>_. None" "(''last_flush_at'', JInt 5) # trickle" 100 plain_runtime] a
    by (simp add: trickle_def cfg_get_def)
qed

section \<open>What one run hands to the next\<close>

lemma dedup_lines_short: "list_all (\<lambda>l. length l \<le> CONTINUITY_LINE_CHARS) (dedup_lines had vs)"
  by (induction vs arbitrary: had) (simp_all add: Let_def)

lemma roll_continuity_is_small:
  "\<exists>lines topics refs'. roll_continuity prior outcome topics0 refs = 
     [(''summary'', JList (map JStr lines)), (''recent_topics'', JList (map JStr topics)),
      (''recent_refs'', JList (map JStr refs'))] \<and>
     length lines \<le> 5 \<and> length topics \<le> 10 \<and> length refs' \<le> 20 \<and>
     list_all (\<lambda>l. length l \<le> CONTINUITY_LINE_CHARS) (topics @ refs') \<and>
     (strip outcome \<noteq> [] \<longrightarrow> lines \<noteq> [] \<and> hd lines = take CONTINUITY_LINE_CHARS (strip outcome))"
  unfolding roll_continuity_def Let_def
  by (intro exI conjI, rule refl)
    (simp_all add: dedup_capped_def CONTINUITY_SUMMARY_LINES_def CONTINUITY_TOPIC_CAP_def
      CONTINUITY_REF_CAP_def list_all_iff, insert dedup_lines_short, fastforce simp: list_all_iff dest: in_set_takeD)

section \<open>Hygiene\<close>

text \<open>
  For a plain address the check is on whole labels: the host passes if it is a listed domain or ends in
  one behind a dot, and a domain it merely contains does not let it pass.
\<close>

lemma ends_with_iff: "ends_with s e \<longleftrightarrow> (\<exists>p. s = p @ e)"
  by (auto simp: ends_with_def) (metis append_take_drop_id)

lemma host_of_plain:
  assumes "\<forall>c \<in> set host. c \<noteq> CHR '':'' \<and> c \<noteq> CHR ''/'' \<and> ascii_lower c = c"
  shows "host_of (''https://'' @ host @ ''/'' @ path) = host"
proof -
  let ?url = "''https://'' @ host @ CHR ''/'' # path"
  have "strip ?url = ''https://'' @ host @ CHR ''/'' # rev (dropWhile is_space (rev path))"
    by (simp add: strip_def is_space_def [of "CHR ''h''"] is_space_def [of "CHR ''/''"] dropWhile_append3)
  moreover have "lower host = host" using assms(1) by (auto simp: lower_def intro: map_idI)
  moreover have "lower (''https://'' @ h @ CHR ''/'' # q) = ''https://'' @ lower h @ CHR ''/'' # lower q" for h q
    by (simp add: lower_def ascii_lower_def)
  ultimately have "lower (strip ?url) =
      ''https://'' @ host @ CHR ''/'' # lower (rev (dropWhile is_space (rev path)))" by simp
  then have "drop_scheme (lower (strip ?url)) = host @ CHR ''/'' # lower (rev (dropWhile is_space (rev path)))"
    by (simp add: drop_scheme_def is_lower_letter_def)
  moreover have "takeWhile (\<lambda>c. c \<noteq> CHR ''/'') (host @ CHR ''/'' # q) = host" for q
    using assms(1) by (simp add: takeWhile_append2)
  moreover have "takeWhile (\<lambda>c. c \<noteq> CHR '':'') host = host" using assms(1) by simp
  ultimately show ?thesis by (simp add: host_of_def)
qed

lemma domain_allowed_plain:
  assumes "\<forall>c \<in> set host. c \<noteq> CHR '':'' \<and> c \<noteq> CHR ''/'' \<and> ascii_lower c = c"
  shows "domain_allowed (''https://'' @ host @ ''/'' @ path) allowed \<longleftrightarrow>
    (\<exists>dom \<in> set allowed. host = dom \<or> (\<exists>sub. host = sub @ ''.'' @ dom))"
  using host_of_plain [OF assms, of path] ends_with_iff
  by (auto simp: domain_allowed_def list_ex_iff)

text \<open>A host ends where the path begins; a query or a fragment does not end it in this reading.\<close>

theorem query_passes_for_a_host:
  "domain_allowed ''https://attacker.net?.example.com'' [''example.com'']"
  "domain_allowed ''https://attacker.net#.example.com'' [''example.com'']"
  by code_simp+

end
