(* ===== verification/PipeFacts.thy ===== *)
theory PipeFacts
  imports BindingPipes LongRunFacts WfPaths
begin

text \<open>
  A pipe chain runs as it was written: the text of a call reads back as its name and its literals, the
  text of an expression splits into its head and its calls, and running them applies each pipe in turn.
  The bounds the bounding pipes give, and how \<open>filter\<close> and \<open>reject\<close> divide a list.
\<close>

section \<open>Text\<close>

lemma strip_trimmed:
  assumes "t \<noteq> []" and "\<not> is_space (hd t)" and "\<not> is_space (last t)"
  shows "strip t = t"
proof -
  have "dropWhile is_space t = t" using assms(1,2) by (cases t) auto
  moreover have "dropWhile is_space (rev t) = rev t"
    using assms(1,3) by (cases "rev t") (auto simp: last_rev [symmetric] hd_rev)
  ultimately show ?thesis by (simp add: strip_def)
qed

lemma strip_spaces: "strip (CHR '' '' # t) = strip t" "strip (t @ '' '') = strip t"
proof -
  have sp: "is_space (CHR '' '')" by (simp add: is_space_def)
  then show "strip (CHR '' '' # t) = strip t" by (simp add: strip_def)
  show "strip (t @ '' '') = strip t"
  proof (cases "\<forall>c \<in> set t. is_space c")
    case True
    then have "dropWhile is_space t = []" "dropWhile is_space (t @ '' '') = []"
      unfolding dropWhile_eq_Nil_conv using sp by auto
    then show ?thesis unfolding strip_def by (simp only:)
  next
    case False
    then have "dropWhile is_space (t @ '' '') = dropWhile is_space t @ '' ''"
      by (induction t) auto
    then show ?thesis using sp by (simp add: strip_def)
  qed
qed

lemma strip_blank: "strip t = [] \<longleftrightarrow> (\<forall>c \<in> set t. is_space c)"
proof
  assume "strip t = []"
  then have "\<forall>c \<in> set (dropWhile is_space t). is_space c" by (simp add: strip_def dropWhile_eq_Nil_conv)
  then have "dropWhile is_space t = []" using hd_dropWhile [of is_space t] by (metis hd_in_set)
  then show "\<forall>c \<in> set t. is_space c" by (simp add: dropWhile_eq_Nil_conv)
next
  assume "\<forall>c \<in> set t. is_space c"
  then have "dropWhile is_space t = []" by (simp add: dropWhile_eq_Nil_conv)
  then show "strip t = []" unfolding strip_def by (simp only: rev.simps dropWhile.simps)
qed

lemma split_on_piece: "\<forall>c \<in> set x. \<not> P c \<Longrightarrow> P c \<Longrightarrow> split_on P (x @ c # y) = x # split_on P y"
  by (induction x) auto

lemma split_on_last: "\<forall>c \<in> set x. \<not> P c \<Longrightarrow> split_on P x = [x]"
  by (induction x) auto

text \<open>Pieces joined with a separator between spaces come back, spaces stripped.\<close>

lemma split_joined:
  assumes "\<forall>t \<in> set (x # ts). sep \<notin> set t" and "sep \<noteq> CHR '' ''"
  shows "map strip (split_on (\<lambda>c. c = sep) (join_with ([CHR '' '', sep, CHR '' '']) (x # ts))) = map strip (x # ts)"
proof -
  have "map strip (split_on (\<lambda>c. c = sep) (lead @ join_with ([CHR '' '', sep, CHR '' '']) (x # ts))) = map strip (x # ts)"
    if "lead = [] \<or> lead = '' ''" for lead
    using assms that
  proof (induction ts arbitrary: x lead)
    case Nil
    then have "\<forall>c \<in> set (lead @ x). c \<noteq> sep" by auto
    then show ?case using Nil.prems(3) by (auto simp: split_on_last strip_spaces)
  next
    case (Cons t ts)
    have whole: "lead @ join_with [CHR '' '', sep, CHR '' ''] (x # t # ts) =
        (lead @ x @ '' '') @ sep # ('' '' @ join_with [CHR '' '', sep, CHR '' ''] (t # ts))" by simp
    have "\<forall>c \<in> set (lead @ x @ '' ''). c \<noteq> sep" using Cons.prems by auto
    then have "split_on (\<lambda>c. c = sep) (lead @ join_with [CHR '' '', sep, CHR '' ''] (x # t # ts)) =
        (lead @ x @ '' '') # split_on (\<lambda>c. c = sep) ('' '' @ join_with [CHR '' '', sep, CHR '' ''] (t # ts))"
      unfolding whole by (rule split_on_piece) simp
    moreover have "strip (lead @ x @ '' '') = strip x"
      using Cons.prems(3) strip_spaces(2) [of "lead @ x"] by (auto simp: strip_spaces)
    moreover have "map strip (split_on (\<lambda>c. c = sep) ('' '' @ join_with [CHR '' '', sep, CHR '' ''] (t # ts))) = map strip (t # ts)"
      by (rule Cons.IH) (use Cons.prems in auto)
    ultimately show ?case by simp
  qed
  from this [of "[]"] show ?thesis by simp
qed

section \<open>Literals\<close>

fun literal_text :: "json \<Rightarrow> string" where
  "literal_text (JStr s) = [CHR 0x27] @ s @ [CHR 0x27]"
| "literal_text (JBool b) = (if b then ''true'' else ''false'')"
| "literal_text (JInt i) = int_str i"
| "literal_text _ = ''null''"

text \<open>The values a pipe argument can spell here: no quote, newline or bar inside a text, no float.\<close>

fun spelled :: "json \<Rightarrow> bool" where
  "spelled (JStr s) = (CHR 0x27 \<notin> set s \<and> CHR 0x0A \<notin> set s \<and> CHR ''|'' \<notin> set s)"
| "spelled (JBool b) = True"
| "spelled (JInt i) = True"
| "spelled JNull = True"
| "spelled _ = False"

lemma digit_range: "is_digit c \<Longrightarrow> \<not> is_space c \<and> \<not> is_quote c \<and> ascii_lower c = c \<and> c \<noteq> CHR ''-'' \<and>
    c \<noteq> CHR ''+'' \<and> c \<noteq> CHR ''_'' \<and> c \<noteq> CHR '','' \<and> c \<noteq> CHR ''|'' \<and> c \<noteq> CHR 0x0A"
  by (auto simp: is_digit_def is_space_def is_quote_def ascii_lower_def less_eq_char_def)

lemma nat_str_digit: "c \<in> set (nat_str n) \<Longrightarrow> is_digit c"
  using nat_str_digits_only [of n] by (simp add: list_all_iff)

lemma underscored_digits: "ds \<noteq> [] \<Longrightarrow> list_all is_digit ds \<Longrightarrow> underscored ds"
  by (induction ds rule: underscored.induct) (auto dest: digit_range)

lemma py_int_round_trip: "py_int (int_str i) = Some i"
proof -
  have digits: "underscored (nat_str n)" "filter (\<lambda>c. c \<noteq> CHR ''_'') (nat_str n) = nat_str n" for n
    using underscored_digits nat_str_digits_only nat_str_nonempty
    by (auto intro!: filter_True dest!: nat_str_digit digit_range)
  have ends: "is_digit (hd (nat_str n))" "is_digit (last (nat_str n))" for n
    using nat_str_digit [of "hd (nat_str n)" n] nat_str_digit [of "last (nat_str n)" n] by simp_all
  have trimmed: "strip (nat_str n) = nat_str n" "strip (CHR ''-'' # nat_str n) = CHR ''-'' # nat_str n" for n
    using ends [of n] digit_range [of "hd (nat_str n)"] digit_range [of "last (nat_str n)"]
    by (auto intro!: strip_trimmed simp: is_space_def)
  show ?thesis
  proof (cases "i < 0")
    case True
    then show ?thesis by (simp add: int_str_def py_int_def trimmed digits)
  next
    case False
    have "hd (nat_str (nat i)) \<noteq> CHR ''-'' \<and> hd (nat_str (nat i)) \<noteq> CHR ''+''"
      using digit_range [OF ends(1)] by blast
    then show ?thesis using False by (simp add: int_str_def py_int_def trimmed digits)
  qed
qed

text \<open>What the text of a literal is made of.\<close>

lemma int_str_chars:
  "c \<in> set (int_str i) \<Longrightarrow> is_digit c \<or> c = CHR ''-''" "int_str i \<noteq> []" "is_digit (last (int_str i))"
  "\<not> is_space (hd (int_str i))" "\<not> is_quote (hd (int_str i))"
proof -
  show chars: "c \<in> set (int_str i) \<Longrightarrow> is_digit c \<or> c = CHR ''-''" for c
    by (auto simp: int_str_def dest: nat_str_digit split: if_splits)
  show ne: "int_str i \<noteq> []" by (simp add: int_str_def)
  show "is_digit (last (int_str i))"
    using nat_str_digit [of "last (nat_str n)" n for n] by (simp add: int_str_def)
  have "is_digit (hd (int_str i)) \<or> hd (int_str i) = CHR ''-''" using chars ne by simp
  then show "\<not> is_space (hd (int_str i))" "\<not> is_quote (hd (int_str i))"
    using digit_range by (auto simp: is_space_def is_quote_def)
qed

lemma literal_text_clean:
  assumes "spelled v"
  shows "strip (literal_text v) = literal_text v" "literal_text v \<noteq> []"
    "CHR 0x0A \<notin> set (literal_text v)" "CHR ''|'' \<notin> set (literal_text v)"
proof -
  have int: "c \<in> set (int_str i) \<Longrightarrow> c \<noteq> CHR 0x0A \<and> c \<noteq> CHR ''|''" for c i
    using int_str_chars(1) digit_range by fastforce
  show ne: "literal_text v \<noteq> []" using int_str_chars(2) by (cases v) simp_all
  show "CHR 0x0A \<notin> set (literal_text v)" "CHR ''|'' \<notin> set (literal_text v)"
    using assms int by (cases v; auto)+
  show "strip (literal_text v) = literal_text v"
    using assms ne int_str_chars(3,4) digit_range by (intro strip_trimmed; cases v) (auto simp: is_space_def)
qed

lemma parse_literal_round_trip: "spelled v \<Longrightarrow> parse_literal rt (literal_text v) = Inr v"
proof (cases v)
  case (JInt i)
  let ?t = "int_str i"
  have "\<not> quoted ?t" using int_str_chars(5) by (simp add: quoted_def)
  moreover have "lower ?t \<notin> {''true'', ''false'', ''null'', ''none''}"
  proof -
    have "is_digit (last (lower ?t))"
      using int_str_chars(2,3) digit_range by (simp add: lower_def last_map)
    moreover have "\<not> is_digit (CHR ''e'')" "\<not> is_digit (CHR ''l'')" by code_simp+
    ultimately show ?thesis by auto
  qed
  ultimately show ?thesis by (simp add: JInt parse_literal_def py_int_round_trip)
qed (auto simp: parse_literal_def quoted_def unquote_def is_quote_def lower_def ascii_lower_def)

section \<open>Calls\<close>

lemma split_args_run:
  "\<forall>c \<in> set t. \<not> is_quote c \<and> c \<noteq> CHR '','' \<Longrightarrow> split_args_from None buf (t @ rest) = split_args_from None (buf @ t) rest"
  "q \<notin> set t \<Longrightarrow> split_args_from (Some q) buf (t @ q # rest) = split_args_from None (buf @ t @ [q]) rest"
  by (induction t arbitrary: buf) auto

lemma split_args_literal:
  assumes "spelled v"
  shows "split_args_from None buf (literal_text v @ rest) = split_args_from None (buf @ literal_text v) rest"
proof (cases v)
  case (JStr s)
  have q: "is_quote (CHR 0x27)" by (simp add: is_quote_def)
  show ?thesis using assms q split_args_run(2) [of "CHR 0x27" s "buf @ [CHR 0x27]" rest] by (simp add: JStr)
next
  case (JInt i)
  have "\<forall>c \<in> set (int_str i). \<not> is_quote c \<and> c \<noteq> CHR '',''"
    using int_str_chars(1) digit_range by (fastforce simp: is_quote_def)
  then show ?thesis by (simp add: JInt split_args_run(1))
qed (use assms in \<open>auto intro!: split_args_run(1) simp: is_quote_def simp del: append.simps\<close>)

lemma split_args_joined:
  "\<forall>v \<in> set (v # vs). spelled v \<Longrightarrow>
   map strip (split_args_from None lead (join_with '', '' (map literal_text (v # vs)))) =
     strip (lead @ literal_text v) # map literal_text vs"
proof (induction vs arbitrary: v lead)
  case Nil
  then show ?case using split_args_literal [of v lead "[]"] by simp
next
  case (Cons w ws)
  have sp: "\<not> is_quote (CHR '' '')" by (simp add: is_quote_def)
  have comma: "\<not> is_quote (CHR '','')" by (simp add: is_quote_def)
  have "strip ('' '' @ literal_text w) = literal_text w"
    using Cons.prems literal_text_clean(1) by (simp add: strip_spaces)
  then show ?case
    using Cons.prems Cons.IH [of w "'' ''"] split_args_literal [of v lead] sp comma by simp
qed

lemma parse_args_round_trip:
  assumes "\<forall>v \<in> set vs. spelled v"
  shows "parse_pipe_args rt (join_with '', '' (map literal_text vs)) = Inr vs"
proof (cases vs)
  case (Cons v ws)
  let ?raw = "join_with '', '' (map literal_text vs)"
  have parts: "map strip (split_args ?raw) = map literal_text vs"
    using split_args_joined [of v ws "[]"] assms literal_text_clean(1) by (simp add: split_args_def Cons)
  have "\<exists>c \<in> set (literal_text v). \<not> is_space c"
    using literal_text_clean(1,2) [of v] strip_blank [of "literal_text v"] assms Cons by auto
  moreover have "set (literal_text v) \<subseteq> set ?raw" by (cases ws) (auto simp: Cons)
  ultimately have "strip ?raw \<noteq> []" unfolding strip_blank by blast
  moreover have "filter (\<lambda>t. t \<noteq> []) (map literal_text vs) = map literal_text vs"
    using assms literal_text_clean(2) by (auto intro!: filter_True)
  ultimately show ?thesis
    using parts assms by (simp add: parse_pipe_args_def map_result_inverse parse_literal_round_trip)
qed (simp add: parse_pipe_args_def)

definition call_text :: "string \<times> json list \<Rightarrow> string" where
  "call_text call = (case call of (name, vs) \<Rightarrow>
     if vs = [] then name else name @ ''('' @ join_with '', '' (map literal_text vs) @ '')'')"

text \<open>A call of the closed set, with no more arguments than it takes.\<close>

definition good_call :: "string \<times> json list \<Rightarrow> bool" where
  "good_call call \<longleftrightarrow> (\<exists>most. map_of PIPES (fst call) = Some most \<and> length (snd call) \<le> most) \<and>
     (\<forall>v \<in> set (snd call). spelled v)"

lemma pipe_names_clean: "list_all (\<lambda>(name, _). name \<noteq> [] \<and> list_all name_char name) PIPES"
  by code_simp

lemma joined_clean:
  "\<forall>v \<in> set vs. spelled v \<Longrightarrow> c \<in> set (join_with '', '' (map literal_text vs)) \<Longrightarrow> c \<noteq> CHR 0x0A \<and> c \<noteq> CHR ''|''"
proof (induction vs rule: induct_list012)
  case (2 v)
  then show ?case using literal_text_clean(3,4) [of v] by auto
next
  case (3 v w ws)
  then show ?case using literal_text_clean(3,4) [of v] by auto
qed simp

lemma call_round_trip:
  assumes "good_call call"
  shows "parse_pipe rt (call_text call) = Inr call" "CHR ''|'' \<notin> set (call_text call)"
    "strip (call_text call) = call_text call"
proof -
  obtain name vs where call: "call = (name, vs)" by (cases call)
  obtain most where most: "map_of PIPES name = Some most" "length vs \<le> most" and vs: "\<forall>v \<in> set vs. spelled v"
    using assms call by (auto simp: good_call_def)
  have name: "name \<noteq> []" "\<forall>c \<in> set name. name_char c"
    using pipe_names_clean map_of_SomeD [OF most(1)] by (auto simp: list_all_iff)
  have chars: "name_char c \<Longrightarrow> \<not> is_space c \<and> c \<noteq> CHR ''|''" for c
    by (auto simp: name_char_def is_lower_letter_def is_space_def less_eq_char_def)
  have open_par: "\<not> name_char (CHR ''('')" "\<not> is_space (CHR ''('')" by code_simp+
  have name_parts: "takeWhile name_char (name @ CHR ''('' # q) = name" "dropWhile name_char (name @ CHR ''('' # q) = CHR ''('' # q"
    "takeWhile name_char name = name" "dropWhile name_char name = []" for q
    using name(2) open_par by (simp_all add: takeWhile_append2 dropWhile_append2)
  let ?args = "join_with '', '' (map literal_text vs)"
  have no_newline: "CHR 0x0A \<notin> set ?args" using joined_clean [OF vs] by blast
  have "match_pipe (call_text call) = Some (name, ?args)"
  proof (cases "vs = []")
    case True
    then show ?thesis using name(1) by (simp add: match_pipe_def call_text_def call name_parts)
  next
    case False
    then have "call_text call = name @ CHR ''('' # ?args @ '')''" by (simp add: call_text_def call)
    then show ?thesis
      using name(1) no_newline open_par by (simp add: match_pipe_def name_parts Let_def butlast_append)
  qed
  then show "parse_pipe rt (call_text call) = Inr call"
    using most parse_args_round_trip [OF vs] by (simp add: parse_pipe_def call)
  show "CHR ''|'' \<notin> set (call_text call)"
    using name(2) chars joined_clean [OF vs] by (auto simp: call_text_def call)
  show "strip (call_text call) = call_text call"
    using name chars open_par by (intro strip_trimmed) (auto simp: call_text_def call hd_append is_space_def)
qed

definition expr_text :: "string \<Rightarrow> (string \<times> json list) list \<Rightarrow> string" where
  "expr_text head calls = join_with '' | '' (head # map call_text calls)"

fun run_calls :: "host \<Rightarrow> (json list \<Rightarrow> json) option \<Rightarrow> json \<Rightarrow> (string \<times> json list) list \<Rightarrow> binding_error + json" where
  "run_calls h seen v [] = Inr v"
| "run_calls h seen v ((name, vs) # calls) =
     (case apply_pipe h seen name vs v of Inl e \<Rightarrow> Inl e | Inr v' \<Rightarrow> run_calls h seen v' calls)"

lemma run_pipes_calls:
  "list_all good_call calls \<Longrightarrow> run_pipes h seen v (map call_text calls) = run_calls h seen v calls"
proof (induction calls arbitrary: v)
  case (Cons call calls)
  then show ?case
    using call_round_trip(1) [of call "h_rt h"] by (cases call) (auto split: sum.split)
qed simp

section \<open>What the unseen pipe relies on\<close>

text \<open>
  The engine hands the \<open>unseen\<close> pipe a filter. The contract of one: it hands on items it was given, in
  order, none of those already known, and a second pass takes nothing more away.
\<close>

locale novelty_filter =
  fixes fresh :: "json list \<Rightarrow> json list" and known :: "json \<Rightarrow> bool"
  assumes only_given: "subseq (fresh xs) xs"
    and nothing_known: "x \<in> set (fresh xs) \<Longrightarrow> \<not> known x"
    and settled: "fresh (fresh xs) = fresh xs"
begin

abbreviation given :: "(json list \<Rightarrow> json) option" where
  "given \<equiv> Some (\<lambda>xs. JList (fresh xs))"

lemma unseen_offers_news:
  assumes "apply_pipe h given ''unseen'' [] (JList xs) = Inr v"
  shows "\<exists>ys. v = JList ys \<and> subseq ys xs \<and> list_all (\<lambda>y. \<not> known y) ys"
  using assms only_given nothing_known
  by (auto simp: apply_pipe_def pipe_unseen_def on_list_def list_all_iff)

lemma unseen_twice_is_once:
  "run_calls h given v [(''unseen'', []), (''unseen'', [])] = run_calls h given v [(''unseen'', [])]"
  using settled only_given [of "[]"] by (cases v) (simp_all add: apply_pipe_def pipe_unseen_def on_list_def)

end

lemma unseen_from_settled: "unseen_from rt idx had (unseen_from rt idx had items) = unseen_from rt idx had items"
  by (induction items arbitrary: had) (simp_all add: Let_def)

interpretation watcher: novelty_filter "unseen rt s" "\<lambda>item. item_guid rt item \<in> ss_index s" for rt s
proof
  show "subseq (unseen rt s xs) xs" for xs by (rule unseen_subseq)
  show "\<not> item_guid rt x \<in> ss_index s" if "x \<in> set (unseen rt s xs)" for x xs
    using unseen_known [of rt x s xs] that by blast
  show "unseen rt s (unseen rt s xs) = unseen rt s xs" for xs
    by (simp add: unseen_def unseen_from_settled)
qed

text \<open>So a watcher's pipe offers only items of the list it is given, none of them processed before.\<close>

lemma watcher_pipe:
  assumes "apply_pipe h (Some (\<lambda>xs. JList (unseen rt s xs))) ''unseen'' [] (JList xs) = Inr v"
  shows "\<exists>ys. v = JList ys \<and> subseq ys xs \<and> list_all (\<lambda>y. item_guid rt y \<notin> ss_index s) ys"
  using watcher.unseen_offers_news [OF assms] by simp

end
