(* ===== verification/BindingsFacts.thy ===== *)
theory BindingsFacts
  imports Bindings PipeFacts
begin

text \<open>
  What the readings of a step promise. Inside a fan-out item a step reads that item's own instance of a
  node of the body, the latest one, or nothing at all; a template is read exactly at its references; the
  pipes run as they were written; a reading depends on no secret but those it was handed, and on none
  that is not on the list it is masked by; what is read of a sibling is bounded.
\<close>

section \<open>The order of instances\<close>

lemma key_before_irrefl: "\<not> key_before k k"
proof -
  have "\<not> key_before (ps, a) (ps, a)" for ps a by (induction ps) auto
  then show ?thesis by (cases k) simp
qed

lemma key_before_trans:
  "key_before (ps, a) (qs, b) \<Longrightarrow> key_before (qs, b) (rs, c) \<Longrightarrow> key_before (ps, a) (rs, c)"
proof (induction ps arbitrary: qs rs)
  case Nil
  then show ?case by (cases qs; cases rs) (auto split: prod.splits)
next
  case (Cons x ps)
  show ?case
  proof (cases qs)
    case Nil
    then show ?thesis using Cons.prems by (cases x; cases rs) auto
  next
    case (Cons y qs')
    then show ?thesis
      using Cons.prems Cons.IH [of qs'] by (cases x; cases y; cases rs) (auto 0 3 split: prod.splits)
  qed
qed

definition comes_before :: "string \<Rightarrow> string \<Rightarrow> bool" where
  "comes_before p q \<longleftrightarrow> key_before (instance_order p) (instance_order q)"

lemma comes_before_trans: "comes_before p q \<Longrightarrow> comes_before q r \<Longrightarrow> comes_before p r"
  unfolding comes_before_def by (metis key_before_trans prod.collapse)

lemma comes_before_asym: "comes_before p q \<Longrightarrow> \<not> comes_before q p"
  using comes_before_trans key_before_irrefl unfolding comes_before_def by blast

lemma insert_path_set [simp]: "set (insert_path x ys) = insert x (set ys)"
  by (induction ys) auto

lemma insert_path_sorted:
  "sorted_wrt (\<lambda>a b. \<not> comes_before b a) ys \<Longrightarrow> sorted_wrt (\<lambda>a b. \<not> comes_before b a) (insert_path x ys)"
proof (induction ys)
  case (Cons y ys)
  show ?case
  proof (cases "comes_before x y")
    case True
    then have "\<not> comes_before z x" if "z = y \<or> z \<in> set ys" for z
      using Cons.prems that comes_before_trans [of z x y] comes_before_asym [of x y] by auto
    then show ?thesis using True Cons.prems by (simp add: comes_before_def [symmetric])
  next
    case False
    then show ?thesis using Cons by (simp add: comes_before_def [symmetric])
  qed
qed simp

lemma sort_paths_props:
  "set (sort_paths ps) = set ps" "sorted_wrt (\<lambda>a b. \<not> comes_before b a) (sort_paths ps)"
proof -
  have "set (fold insert_path ps acc) = set ps \<union> set acc \<and>
    (sorted_wrt (\<lambda>a b. \<not> comes_before b a) acc \<longrightarrow>
       sorted_wrt (\<lambda>a b. \<not> comes_before b a) (fold insert_path ps acc))" for acc
    by (induction ps arbitrary: acc) (auto simp: insert_path_sorted)
  from this [of "[]"] show "set (sort_paths ps) = set ps"
    "sorted_wrt (\<lambda>a b. \<not> comes_before b a) (sort_paths ps)" by (simp_all add: sort_paths_def)
qed

section \<open>A fan-out item reads its own\<close>

definition recorded_in :: "(string \<times> string \<times> 'v) list \<Rightarrow> string \<Rightarrow> string \<Rightarrow> bool" where
  "recorded_in inst p nid \<longleftrightarrow> (\<exists>(ipath, n, v) \<in> set inst. n = nid \<and> p \<in> set (item_prefixes ipath))"

definition recorded_in_body :: "(string \<times> string \<times> 'v) list \<Rightarrow> string \<Rightarrow> string \<Rightarrow> bool" where
  "recorded_in_body inst body nid \<longleftrightarrow>
     (\<exists>(ipath, n, v) \<in> set inst. n = nid \<and> (\<exists>q \<in> set (item_prefixes ipath). spec_path q = body))"

lemma at_key_set: "at_key (dict_set d k v) k' = (if k' = k then v else at_key d k')"
  by (simp add: at_key_def)

lemma at_key_Nil [simp]: "at_key [] k = []"
  by (simp add: at_key_def)

lemma index_item_views:
  "p \<in> set (at_key (fst (index_item e q idx)) k) \<longleftrightarrow> p \<in> set (at_key (fst idx) k) \<or> (q = k \<and> p = fst e)"
  "n \<in> set (at_key (snd (index_item e q idx)) b) \<longleftrightarrow>
     n \<in> set (at_key (snd idx) b) \<or> (spec_path q = b \<and> n = fst (snd e))"
  by (auto simp: index_item_def at_key_set split: prod.splits)

lemma index_items_views:
  "p \<in> set (at_key (fst (fold (index_item e) qs idx)) k) \<longleftrightarrow>
     p \<in> set (at_key (fst idx) k) \<or> (k \<in> set qs \<and> p = fst e)"
  "n \<in> set (at_key (snd (fold (index_item e) qs idx)) b) \<longleftrightarrow>
     n \<in> set (at_key (snd idx) b) \<or> ((\<exists>q \<in> set qs. spec_path q = b) \<and> n = fst (snd e))"
  by (induction qs arbitrary: idx) (auto simp: index_item_views)

lemma item_index_views:
  fixes inst :: "(string \<times> string \<times> 'v) list"
  assumes "\<forall>e \<in> set inst. fst (snd e) \<noteq> []"
  shows "ip \<in> set (at_key (fst (item_index inst)) p) \<longleftrightarrow> (\<exists>e \<in> set inst. ip = fst e \<and> p \<in> set (item_prefixes (fst e)))"
    and "sorted_wrt (\<lambda>a b. \<not> comes_before b a) (at_key (fst (item_index inst)) p)"
    and "n \<in> set (at_key (snd (item_index inst)) b) \<longleftrightarrow> recorded_in_body inst b n"
proof -
  let ?f = "\<lambda>e idx. if fst (snd e) = [] then idx else fold (index_item e) (item_prefixes (fst e)) idx"
  have views: "ip \<in> set (at_key (fst (fold ?f es idx)) p) \<longleftrightarrow> ip \<in> set (at_key (fst idx) p) \<or>
        (\<exists>e \<in> set es. ip = fst e \<and> p \<in> set (item_prefixes (fst e)))"
    "n \<in> set (at_key (snd (fold ?f es idx)) b) \<longleftrightarrow> n \<in> set (at_key (snd idx) b) \<or>
        (\<exists>e \<in> set es. n = fst (snd e) \<and> (\<exists>q \<in> set (item_prefixes (fst e)). spec_path q = b))"
    if "\<forall>e \<in> set es. fst (snd e) \<noteq> []" for es :: "(string \<times> string \<times> 'v) list" and idx
    using that by (induction es arbitrary: idx) (simp_all add: index_items_views, blast+)
  obtain by_item ids where grouped: "fold ?f inst ([], []) = (by_item, ids)" by (cases "fold ?f inst ([], [])")
  have parts: "fst (item_index inst) = map (\<lambda>(q, ps). (q, sort_paths ps)) by_item" "snd (item_index inst) = ids"
    using grouped by (simp_all add: item_index_def)
  have at: "at_key (fst (item_index inst)) p = sort_paths (at_key by_item p)"
    unfolding parts by (induction by_item) (auto simp: at_key_def sort_paths_def)
  show "ip \<in> set (at_key (fst (item_index inst)) p) \<longleftrightarrow> (\<exists>e \<in> set inst. ip = fst e \<and> p \<in> set (item_prefixes (fst e)))"
    using views(1) [OF assms, of "([], [])"] grouped by (simp add: at sort_paths_props)
  show "sorted_wrt (\<lambda>a b. \<not> comes_before b a) (at_key (fst (item_index inst)) p)"
    by (simp add: at sort_paths_props)
  show "n \<in> set (at_key (snd (item_index inst)) b) \<longleftrightarrow> recorded_in_body inst b n"
    using views(2) [OF assms, of "([], [])"] grouped
    by (auto simp: parts recorded_in_body_def case_prod_beta)
qed

text \<open>What the writes of one item leave under a node id: the last write of it, else what was there.\<close>

lemma put_back:
  assumes "\<forall>ip \<in> set ps. \<exists>n v. map_of inst ip = Some (n, v)"
  shows "map_of (fold (\<lambda>ip r. case map_of inst ip of Some (n, v) \<Rightarrow> dict_set r n v | None \<Rightarrow> r) ps r) nid =
    (case rev (filter (\<lambda>ip. fst (the (map_of inst ip)) = nid) ps) of
       [] \<Rightarrow> map_of r nid | ip # _ \<Rightarrow> Some (snd (the (map_of inst ip))))"
  using assms
proof (induction ps rule: rev_induct)
  case (snoc ip ps)
  then obtain n v where "map_of inst ip = Some (n, v)" by auto
  then show ?case using snoc by auto
qed simp

lemma take_out: "map_of (fold (\<lambda>nid r. dict_del r nid) ns r) nid = (if nid \<in> set ns then None else map_of r nid)"
  by (induction ns arbitrary: r) auto

lemma sorted_last:
  assumes "sorted_wrt (\<lambda>a b. \<not> comes_before b a) ps" and "rev (filter P ps) = x # xs"
  shows "x \<in> set ps \<and> P x \<and> (\<forall>y \<in> set ps. P y \<longrightarrow> \<not> comes_before x y)"
proof -
  have f: "filter P ps = rev xs @ [x]" using assms(2) by (metis rev.simps(2) rev_rev_ident)
  then have "sorted_wrt (\<lambda>a b. \<not> comes_before b a) (rev xs @ [x])"
    using assms(1) sorted_wrt_filter [of "\<lambda>a b. \<not> comes_before b a" ps P] by simp
  moreover have "set (filter P ps) = insert x (set xs)" using f by simp
  moreover have "\<not> comes_before x x" using comes_before_asym by blast
  ultimately show ?thesis by (auto simp: sorted_wrt_append)
qed

lemma one_item:
  fixes inst :: "(string \<times> string \<times> 'v) list"
  assumes "distinct (map fst inst)" and "\<forall>e \<in> set inst. fst (snd e) \<noteq> []"
  shows "recorded_in inst p nid \<Longrightarrow> \<exists>ipath v. (ipath, nid, v) \<in> set inst \<and> p \<in> set (item_prefixes ipath) \<and>
      map_of (scope_outputs_to inst p outs) nid = Some v \<and>
      (\<forall>(ipath', n, v') \<in> set inst. n = nid \<longrightarrow> p \<in> set (item_prefixes ipath') \<longrightarrow> \<not> comes_before ipath ipath')"
    and "\<not> recorded_in inst p nid \<Longrightarrow> recorded_in_body inst (spec_path p) nid \<Longrightarrow>
      map_of (scope_outputs_to inst p outs) nid = None"
    and "\<not> recorded_in_body inst (spec_path p) nid \<Longrightarrow>
      map_of (scope_outputs_to inst p outs) nid = map_of outs nid"
proof -
  note views = item_index_views [OF assms(2)]
  let ?ps = "at_key (fst (item_index inst)) p"
  let ?P = "\<lambda>ip. fst (the (map_of inst ip)) = nid"
  have entry: "map_of inst ip = Some (n, v) \<longleftrightarrow> (ip, n, v) \<in> set inst" for ip n v
    using assms(1) by (simp add: map_of_eq_Some_iff)
  have member: "ip \<in> set ?ps \<longleftrightarrow> (\<exists>n v. map_of inst ip = Some (n, v)) \<and> p \<in> set (item_prefixes ip)" for ip
    unfolding views(1) entry by (rule iffI; elim bexE exE conjE; force)
  have known: "\<forall>ip \<in> set ?ps. \<exists>n v. map_of inst ip = Some (n, v)" by (simp add: member)
  have "recorded_in inst p nid \<longleftrightarrow> (\<exists>ip v. map_of inst ip = Some (nid, v) \<and> p \<in> set (item_prefixes ip))"
    unfolding recorded_in_def entry by (auto intro: rev_bexI)
  also have "\<dots> \<longleftrightarrow> (\<exists>ip \<in> set ?ps. ?P ip)" unfolding Bex_def member by (rule iffI; elim exE conjE; force)
  finally have own: "(\<exists>ip \<in> set ?ps. ?P ip) \<longleftrightarrow> recorded_in inst p nid" ..
  have in_body: "recorded_in inst p nid \<Longrightarrow> recorded_in_body inst (spec_path p) nid"
    by (auto simp: recorded_in_def recorded_in_body_def)
  have result: "map_of (scope_outputs_to inst p outs) nid = (case rev (filter ?P ?ps) of
      [] \<Rightarrow> if recorded_in_body inst (spec_path p) nid then None else map_of outs nid
    | ip # _ \<Rightarrow> Some (snd (the (map_of inst ip))))"
    using put_back [OF known] by (simp add: scope_outputs_to_def case_prod_beta take_out views(3) split: list.split)
  {
    assume "recorded_in inst p nid"
    then have "filter ?P ?ps \<noteq> []" using own by (simp add: filter_empty_conv)
    then obtain ip ips where last_one: "rev (filter ?P ?ps) = ip # ips" by (cases "rev (filter ?P ?ps)") auto
    from sorted_last [OF views(2) this] have ip: "ip \<in> set ?ps" "?P ip"
      "\<forall>y \<in> set ?ps. ?P y \<longrightarrow> \<not> comes_before ip y" by blast+
    obtain v where v: "(ip, nid, v) \<in> set inst" using known ip(1,2) by (auto simp: entry [symmetric])
    have later: "\<not> comes_before ip ipath'" if "(ipath', nid, v') \<in> set inst" "p \<in> set (item_prefixes ipath')" for ipath' v'
    proof -
      have "ipath' \<in> set ?ps" using that by (auto simp: member entry)
      moreover have "?P ipath'" using that(1) by (simp add: entry [symmetric])
      ultimately show ?thesis using ip(3) by blast
    qed
    show "\<exists>ipath v. (ipath, nid, v) \<in> set inst \<and> p \<in> set (item_prefixes ipath) \<and>
      map_of (scope_outputs_to inst p outs) nid = Some v \<and>
      (\<forall>(ipath', n, v') \<in> set inst. n = nid \<longrightarrow> p \<in> set (item_prefixes ipath') \<longrightarrow> \<not> comes_before ipath ipath')"
    proof (intro exI conjI)
      show "(ip, nid, v) \<in> set inst" by (rule v)
      show "p \<in> set (item_prefixes ip)" using ip(1) by (simp add: member)
      show "map_of (scope_outputs_to inst p outs) nid = Some v"
        using v by (simp add: result last_one entry [symmetric])
      show "\<forall>(ipath', n, v') \<in> set inst. n = nid \<longrightarrow> p \<in> set (item_prefixes ipath') \<longrightarrow> \<not> comes_before ip ipath'"
        using later by auto
    qed
  }
  have gone: "map_of (scope_outputs_to inst p outs) nid =
      (if recorded_in_body inst (spec_path p) nid then None else map_of outs nid)" if "\<not> recorded_in inst p nid"
  proof -
    have "rev (filter ?P ?ps) = []" using own that by (simp add: filter_empty_conv)
    then show ?thesis using result by simp
  qed
  show "\<not> recorded_in inst p nid \<Longrightarrow> recorded_in_body inst (spec_path p) nid \<Longrightarrow>
      map_of (scope_outputs_to inst p outs) nid = None"
    by (simp add: gone)
  show "\<not> recorded_in_body inst (spec_path p) nid \<Longrightarrow>
      map_of (scope_outputs_to inst p outs) nid = map_of outs nid"
    using gone in_body by metis
qed

lemma item_view:
  assumes "distinct (map fst (bc_inst_outputs ctx))"
    and "\<forall>e \<in> set (bc_inst_outputs ctx). fst (snd e) \<noteq> []"
    and "bc_inst_outputs ctx \<noteq> []" and "item_prefixes path = outer @ [p]"
  shows "recorded_in (bc_inst_outputs ctx) p nid \<Longrightarrow>
      \<exists>ipath v. (ipath, nid, v) \<in> set (bc_inst_outputs ctx) \<and> p \<in> set (item_prefixes ipath) \<and>
        map_of (bc_outputs (scoped_to path ctx)) nid = Some v \<and>
        (\<forall>(ipath', n, v') \<in> set (bc_inst_outputs ctx).
           n = nid \<longrightarrow> p \<in> set (item_prefixes ipath') \<longrightarrow> \<not> comes_before ipath ipath')"
    and "\<not> recorded_in (bc_inst_outputs ctx) p nid \<Longrightarrow>
      recorded_in_body (bc_inst_outputs ctx) (spec_path p) nid \<Longrightarrow>
      map_of (bc_outputs (scoped_to path ctx)) nid = None"
    and "\<forall>q \<in> set (outer @ [p]). \<not> recorded_in_body (bc_inst_outputs ctx) (spec_path q) nid \<Longrightarrow>
      map_of (bc_outputs (scoped_to path ctx)) nid = map_of (bc_outputs ctx) nid"
proof -
  let ?inst = "bc_inst_outputs ctx"
  let ?before = "fold (scope_outputs_to ?inst) outer (bc_outputs ctx)"
  have view: "bc_outputs (scoped_to path ctx) = scope_outputs_to ?inst p ?before"
    using assms(3,4) by (simp add: scoped_to_def Let_def)
  show "recorded_in ?inst p nid \<Longrightarrow> \<exists>ipath v. (ipath, nid, v) \<in> set ?inst \<and> p \<in> set (item_prefixes ipath) \<and>
        map_of (bc_outputs (scoped_to path ctx)) nid = Some v \<and>
        (\<forall>(ipath', n, v') \<in> set ?inst. n = nid \<longrightarrow> p \<in> set (item_prefixes ipath') \<longrightarrow> \<not> comes_before ipath ipath')"
    unfolding view by (rule one_item(1) [OF assms(1,2)])
  show "\<not> recorded_in ?inst p nid \<Longrightarrow> recorded_in_body ?inst (spec_path p) nid \<Longrightarrow>
      map_of (bc_outputs (scoped_to path ctx)) nid = None"
    unfolding view by (rule one_item(2) [OF assms(1,2)])
  have untouched: "map_of (fold (scope_outputs_to ?inst) qs outs) nid = map_of outs nid"
    if "\<forall>q \<in> set qs. \<not> recorded_in_body ?inst (spec_path q) nid" for qs outs
    using that by (induction qs arbitrary: outs) (simp_all add: one_item(3) [OF assms(1,2)])
  show "\<forall>q \<in> set (outer @ [p]). \<not> recorded_in_body ?inst (spec_path q) nid \<Longrightarrow>
      map_of (bc_outputs (scoped_to path ctx)) nid = map_of (bc_outputs ctx) nid"
    using untouched [of "outer @ [p]" "bc_outputs ctx"] by (simp add: view)
qed

text \<open>
  C6. A step inside a fan-out item never reads another item's data, though all items write the same node
  ids: what it reads of a node of the body is that item's own instance, the latest of them in instance
  order; a node that produced nothing in this item reads as absent, even when every other item has it;
  and a node that no enclosing item's body ever recorded reads as before.
\<close>

theorem item_reads_its_own:
  assumes "distinct (map fst (bc_inst_outputs ctx))"
    and "\<forall>e \<in> set (bc_inst_outputs ctx). fst (snd e) \<noteq> []"
    and "bc_inst_outputs ctx \<noteq> []" and "item_prefixes path = outer @ [p]"
  shows "(recorded_in (bc_inst_outputs ctx) p nid \<longrightarrow>
      (\<exists>ipath v. (ipath, nid, v) \<in> set (bc_inst_outputs ctx) \<and> p \<in> set (item_prefixes ipath) \<and>
        map_of (bc_outputs (scoped_to path ctx)) nid = Some v \<and>
        (\<forall>(ipath', n, v') \<in> set (bc_inst_outputs ctx).
           n = nid \<longrightarrow> p \<in> set (item_prefixes ipath') \<longrightarrow> \<not> comes_before ipath ipath'))) \<and>
    (\<not> recorded_in (bc_inst_outputs ctx) p nid \<longrightarrow>
      recorded_in_body (bc_inst_outputs ctx) (spec_path p) nid \<longrightarrow>
      map_of (bc_outputs (scoped_to path ctx)) nid = None) \<and>
    ((\<forall>q \<in> set (outer @ [p]). \<not> recorded_in_body (bc_inst_outputs ctx) (spec_path q) nid) \<longrightarrow>
      map_of (bc_outputs (scoped_to path ctx)) nid = map_of (bc_outputs ctx) nid)"
  using item_view [OF assms] by blast

text \<open>A run whose fan-out has two items: item 0's check ended last, item 1 has not checked yet.\<close>

definition empty_context :: binding_context where
  "empty_context = \<lparr>bc_inputs = [], bc_outputs = [], bc_artifacts = [], bc_item = None, bc_iter = None,
     bc_last = None, bc_siblings = None, bc_previous = None, bc_seen = None, bc_brief = None,
     bc_secrets = None, bc_input_secrets = [], bc_self = None, bc_document = [], bc_inst_outputs = [],
     bc_inst_artifacts = []\<rparr>"

definition two_items :: binding_context where
  "two_items = empty_context\<lparr>bc_outputs := [(''load'', JInt 1), (''check'', JStr ''ok'')],
     bc_inst_outputs := [(''root.body#1.children[0]'', ''load'', JInt 7),
       (''root.body#0.children[0]'', ''load'', JInt 1), (''root.body#0.children[1]'', ''check'', JStr ''ok'')]\<rparr>"

theorem item_reads_its_own_witness:
  "map_of (bc_outputs (scoped_to ''root.body#1.children[1]'' two_items)) ''load'' = Some (JInt 7) \<and>
   map_of (bc_outputs (scoped_to ''root.body#1.children[1]'' two_items)) ''check'' = None"
proof -
  have p: "item_prefixes ''root.body#1.children[1]'' = [] @ [''root.body#1'']" by code_simp
  have q: "item_prefixes ''root.body#1.children[0]'' = [''root.body#1'']"
    "item_prefixes ''root.body#0.children[0]'' = [''root.body#0'']"
    "item_prefixes ''root.body#0.children[1]'' = [''root.body#0'']"
    "spec_path ''root.body#1'' = ''root.body''" "spec_path ''root.body#0'' = ''root.body''" by code_simp+
  have inst: "bc_inst_outputs two_items = [(''root.body#1.children[0]'', ''load'', JInt 7),
       (''root.body#0.children[0]'', ''load'', JInt 1), (''root.body#0.children[1]'', ''check'', JStr ''ok'')]"
    by (simp add: two_items_def)
  have here: "recorded_in (bc_inst_outputs two_items) ''root.body#1'' ''load''"
    "\<not> recorded_in (bc_inst_outputs two_items) ''root.body#1'' ''check''"
    "recorded_in_body (bc_inst_outputs two_items) (spec_path ''root.body#1'') ''check''"
    by (simp_all add: inst recorded_in_def recorded_in_body_def q del: spec_path.simps)
  have ok: "distinct (map fst (bc_inst_outputs two_items))"
    "\<forall>e \<in> set (bc_inst_outputs two_items). fst (snd e) \<noteq> []" "bc_inst_outputs two_items \<noteq> []"
    by (simp_all add: inst)
  have "map_of (bc_outputs (scoped_to ''root.body#1.children[1]'' two_items)) ''load'' = Some (JInt 7)"
  proof -
    obtain ipath v where v: "(ipath, ''load'', v) \<in> set (bc_inst_outputs two_items)"
      "''root.body#1'' \<in> set (item_prefixes ipath)"
      "map_of (bc_outputs (scoped_to ''root.body#1.children[1]'' two_items)) ''load'' = Some v"
      using item_reads_its_own [OF ok p, of "''load''"] here(1) by blast
    then show ?thesis by (auto simp: inst q)
  qed
  moreover have "map_of (bc_outputs (scoped_to ''root.body#1.children[1]'' two_items)) ''check'' = None"
    using item_reads_its_own [OF ok p, of "''check''"] here(2,3) by blast
  ultimately show ?thesis by simp
qed

section \<open>A template is read exactly at its references\<close>

lemma whole_ref_body: "whole_ref t = Some b \<Longrightarrow> b \<in> set (bodies (pieces t))"
  by (auto simp: whole_ref_def split: list.splits if_splits)

lemma ref_body: "Ref b \<in> set ps \<Longrightarrow> b \<in> set (bodies ps)"
  by (induction ps rule: bodies.induct) auto

text \<open>
  A relation between two resolutions: the same outcome, unless the first filled in a text of \<open>X\<close>. It holds
  of a composition if it holds of the parts; for the empty \<open>X\<close> it is equality.
\<close>

definition same_unless :: "string set \<Rightarrow> 'a filling \<Rightarrow> 'a filling \<Rightarrow> bool" where
  "same_unless X m m' \<longleftrightarrow> (set (snd m) \<inter> X = {} \<longrightarrow> m = m')"

lemma and_then_plain [simp]: "and_then (Inr x, []) f = f x" "and_then (Inl e, fs) f = (Inl e, fs)"
  by (simp_all add: and_then_def split: prod.split)

lemma same_refl [simp]: "same_unless X m m"
  by (simp add: same_unless_def)

lemma same_empty: "same_unless {} m m' \<longleftrightarrow> m = m'"
  by (simp add: same_unless_def)

lemma same_and_then:
  assumes "same_unless X m m'" and "\<And>x. same_unless X (f x) (g x)"
  shows "same_unless X (and_then m f) (and_then m' g)"
proof (cases "fst m")
  case (Inl e)
  then show ?thesis using assms(1) by (cases m) (auto simp: and_then_def same_unless_def)
next
  case (Inr x)
  then obtain fs where m: "m = (Inr x, fs)" by (cases m) auto
  show ?thesis
    using assms(1) assms(2) [of x]
    by (cases "f x") (auto simp: m and_then_def same_unless_def split: prod.splits)
qed

lemma same_map_filling:
  "(\<And>x. x \<in> set xs \<Longrightarrow> same_unless X (f x) (g x)) \<Longrightarrow> same_unless X (map_filling f xs) (map_filling g xs)"
  by (induction xs) (auto intro!: same_and_then)

lemma resolve_same:
  assumes "\<And>e. e \<in> set (refs_in t) \<Longrightarrow> same_unless X (resolve_expr h c e) (resolve_expr h c' e)"
  shows "same_unless X (resolve h c t) (resolve h c' t)"
  using assms
proof (induction t rule: refs_in.induct)
  case (1 d)
  have "same_unless X (resolve h c v) (resolve h c' v)" if m: "(k, v) \<in> set d" for k v
  proof (rule 1(1) [OF m refl])
    fix e assume "e \<in> set (refs_in v)"
    then have "e \<in> set (refs_in (JObj d))" using m by auto
    then show "same_unless X (resolve_expr h c e) (resolve_expr h c' e)" by (rule 1(2))
  qed
  then show ?case by (auto intro!: same_and_then same_map_filling)
next
  case (2 xs)
  have "same_unless X (resolve h c v) (resolve h c' v)" if m: "v \<in> set xs" for v
  proof (rule 2(1) [OF m])
    fix e assume "e \<in> set (refs_in v)"
    then have "e \<in> set (refs_in (JList xs))" using m by auto
    then show "same_unless X (resolve_expr h c e) (resolve_expr h c' e)" by (rule 2(2))
  qed
  then show ?case by (auto intro!: same_and_then same_map_filling)
next
  case (3 t)
  show ?case
  proof (cases "whole_ref t")
    case (Some b)
    then show ?thesis using 3 whole_ref_body [OF Some] by (simp add: resolve_text_def)
  next
    case None
    have "same_unless X (resolve_expr h c (strip b)) (resolve_expr h c' (strip b))" if "Ref b \<in> set (pieces t)" for b
      using 3 ref_body [OF that] by simp
    then show ?thesis
      using None by (auto simp: resolve_text_def intro!: same_and_then same_map_filling split: piece.split)
  qed
qed simp_all

lemma close_ref_splits: "close_ref body s = Some (b, rest) \<Longrightarrow> body @ s = b @ ''}}'' @ rest"
proof (induction body s rule: close_ref.induct)
  case (2 body c cs)
  show ?case
  proof (cases "body \<noteq> [] \<and> c = CHR ''}'' \<and> take 1 cs = ''}''")
    case True
    then show ?thesis using 2(2) by (cases cs) auto
  next
    case False
    then show ?thesis using 2 by (auto split: if_splits)
  qed
qed simp

text \<open>The scan loses no text: its pieces, put together again, are the template.\<close>

lemma pieces_join: "concat (map (\<lambda>p. case p of Lit c \<Rightarrow> [c] | Ref b \<Rightarrow> ref_text b) (pieces u)) = u"
proof (induction u rule: pieces.induct)
  case (2 c cs)
  show ?case
  proof (cases "if c = CHR ''{'' \<and> take 1 cs = ''{'' then close_ref [] (tl cs) else None")
    case None
    then show ?thesis using 2(1) by simp
  next
    case (Some br)
    obtain b rest where br: "br = (b, rest)" by (cases br)
    have c: "c = CHR ''{''" "take 1 cs = ''{''" "close_ref [] (tl cs) = Some (b, rest)"
      using Some br by (auto split: if_splits)
    then have "ref_text b @ rest = c # cs"
      using close_ref_splits [OF c(3)] by (cases cs) (auto simp: ref_text_def)
    moreover have "pieces (c # cs) = Ref b # pieces rest" using Some br by simp
    ultimately show ?thesis using 2(2) [OF Some br [symmetric]] by (simp del: pieces.simps)
  qed
qed simp

lemma bodies_Nil: "bodies ps = [] \<Longrightarrow> \<exists>s. ps = map Lit s"
proof (induction ps rule: bodies.induct)
  case (2 c ps)
  then obtain s where "ps = map Lit s" by auto
  then show ?case by (intro exI [of _ "c # s"]) simp
qed auto

lemma map_filling_plain: "(\<And>x. x \<in> set xs \<Longrightarrow> f x = (Inr (g x), [])) \<Longrightarrow> map_filling f xs = (Inr (map g xs), [])"
  by (induction xs) (simp_all add: and_then_def pure_def)

lemma resolve_plain: "refs_in t = [] \<Longrightarrow> resolve h c t = (Inr t, [])"
proof (induction t rule: refs_in.induct)
  case (1 d)
  then have "resolve h c v = (Inr v, [])" if "(k, v) \<in> set d" for k v using that by fastforce
  then have "map_filling (\<lambda>(k, v). and_then (resolve h c v) (\<lambda>v'. pure (Inr (k, v')))) d = (Inr (map id d), [])"
    by (intro map_filling_plain) (auto simp: and_then_def pure_def)
  then show ?case by (simp add: and_then_def pure_def)
next
  case (2 xs)
  then have "map_filling (resolve h c) xs = (Inr (map id xs), [])"
    by (intro map_filling_plain) simp
  then show ?case by (simp add: and_then_def pure_def)
next
  case (3 t)
  then have none: "bodies (pieces t) = []" by simp
  then obtain s where s: "pieces t = map Lit s" using bodies_Nil by blast
  then have "t = s" using pieces_join [of t] by (simp add: comp_def)
  moreover have "whole_ref t = None" using none by (simp add: whole_ref_def)
  moreover have "map_filling (\<lambda>p. case p of Lit c \<Rightarrow> pure (Inr [c])
      | Ref b \<Rightarrow> and_then (resolve_expr h c (strip b)) (\<lambda>v. pure (Inr (stringify (h_rt h) v)))) (map Lit s)
      = (Inr (map (\<lambda>p. case p of Lit c \<Rightarrow> [c] | Ref b \<Rightarrow> []) (map Lit s)), [])"
    by (intro map_filling_plain) (auto simp: pure_def)
  ultimately show ?case using s by (simp add: resolve_text_def comp_def) (simp add: pure_def)
qed (simp_all add: pure_def)

text \<open>
  Validation and a run cannot disagree about what a template reads: the value, the error and the secrets
  of a template, however nested, depend on nothing but its references as \<open>refs_in\<close> lists them, and one
  without references is its own value.
\<close>

theorem template_reads_only_its_references:
  "((\<forall>e \<in> set (refs_in t). resolve_expr h c e = resolve_expr h c' e) \<longrightarrow> resolve h c t = resolve h c' t) \<and>
   (refs_in t = [] \<longrightarrow> resolve h c t = (Inr t, []))"
  using resolve_same [of t "{}" h c c'] resolve_plain by (simp add: same_empty)

definition plain_host :: host where
  "plain_host = \<lparr>h_rt = plain_runtime, h_window = None, h_fence = (\<lambda>t _. t), h_strip_markers = (\<lambda>t. t),
     h_register_sources = (\<lambda>_. [])\<rparr>"

theorem template_reads_only_its_references_witness:
  "resolve plain_host empty_context (JStr ''on {{item}}'') =
     resolve plain_host (empty_context\<lparr>bc_inputs := [(''x'', JNull)]\<rparr>) (JStr ''on {{item}}'') \<and>
   resolve plain_host empty_context (JObj [(''note'', JStr ''{item}'')]) = (Inr (JObj [(''note'', JStr ''{item}'')]), [])"
proof -
  have refs: "refs_in (JStr ''on {{item}}'') = [''item'']" "refs_in (JObj [(''note'', JStr ''{item}'')]) = []"
    by code_simp+
  have parts: "pipe_parts ''item'' = [''item'']" "segments ''item'' = [''item'']" "split_on (\<lambda>c. c = CHR ''.'') ''item'' = [''item'']"
    by code_simp+
  have "resolve_expr plain_host empty_context ''item'' =
      resolve_expr plain_host (empty_context\<lparr>bc_inputs := [(''x'', JNull)]\<rparr>) ''item''"
    by (simp add: resolve_expr_def parts Let_def first_cycle_miss_def resolve_head_def walk_path_def as_root_def
        empty_context_def opt_field_def prior_cycle_field_miss_def nodes_root_def pure_def)
  then show ?thesis
    using template_reads_only_its_references [of "JStr ''on {{item}}''" plain_host empty_context
        "empty_context\<lparr>bc_inputs := [(''x'', JNull)]\<rparr>"]
      template_reads_only_its_references [of "JObj [(''note'', JStr ''{item}'')]" plain_host empty_context] refs
    by simp
qed

text \<open>The shape of a template: an object keeps its fields, a list its length; a text may become any value.\<close>

inductive same_shape :: "json \<Rightarrow> json \<Rightarrow> bool" where
  object: "list_all2 (\<lambda>p q. fst p = fst q \<and> same_shape (snd p) (snd q)) d e \<Longrightarrow> same_shape (JObj d) (JObj e)"
| listed: "list_all2 same_shape xs ys \<Longrightarrow> same_shape (JList xs) (JList ys)"
| written: "same_shape (JStr t) v"
| fixed: "v \<in> {JNull, JBool b, JInt i, JFloat q} \<Longrightarrow> same_shape v v"

inductive_cases same_shape_object: "same_shape (JObj d) v"

lemma and_then_Inr: "fst (and_then m f) = Inr y \<longleftrightarrow> (\<exists>x. fst m = Inr x \<and> fst (f x) = Inr y)"
  by (cases m; cases "fst m") (auto simp: and_then_def split: prod.split)

lemma map_filling_Inr: "fst (map_filling f xs) = Inr ys \<Longrightarrow> list_all2 (\<lambda>x y. fst (f x) = Inr y) xs ys"
proof (induction xs arbitrary: ys)
  case (Cons x xs)
  then show ?case by (auto simp: and_then_Inr pure_def)
qed (simp add: pure_def)

lemma resolved_shape: "fst (resolve h ctx t) = Inr v \<Longrightarrow> same_shape t v"
proof (induction h ctx t arbitrary: v rule: resolve.induct)
  case (1 h ctx d)
  then obtain e where e: "v = JObj e"
    "fst (map_filling (\<lambda>(k, v). and_then (resolve h ctx v) (\<lambda>v'. pure (Inr (k, v')))) d) = Inr e"
    by (auto simp: and_then_Inr pure_def)
  have "list_all2 (\<lambda>p q. fst p = fst q \<and> same_shape (snd p) (snd q)) d e"
  proof (rule list.rel_mono_strong [OF map_filling_Inr [OF e(2)]])
    fix p q assume m: "p \<in> set d"
      and q: "fst (case p of (k, v) \<Rightarrow> and_then (resolve h ctx v) (\<lambda>v'. pure (Inr (k, v')))) = Inr q"
    obtain k x where p: "p = (k, x)" by (cases p)
    then obtain y where "q = (k, y)" "fst (resolve h ctx x) = Inr y"
      using q by (auto simp: and_then_Inr pure_def)
    then show "fst p = fst q \<and> same_shape (snd p) (snd q)"
      using 1(1) [OF m p [symmetric]] p by simp
  qed
  then show ?case using e(1) by (simp add: same_shape.object)
next
  case (2 h ctx xs)
  then obtain ys where ys: "v = JList ys" "fst (map_filling (resolve h ctx) xs) = Inr ys"
    by (auto simp: and_then_Inr pure_def)
  have "list_all2 same_shape xs ys"
    using map_filling_Inr [OF ys(2)] 2(1) by (auto simp: list_all2_conv_all_nth)
  then show ?case using ys(1) by (simp add: same_shape.listed)
qed (auto simp: pure_def intro: same_shape.intros)

text \<open>
  C38. Resolving a whole configuration keeps its shape, however deeply references are nested in it: an object
  keeps exactly its fields in their order, a list its length, what is no text is left as it is; only a
  text becomes a value.
\<close>

theorem template_keeps_its_shape:
  assumes "resolve h ctx t = (Inr v, filled)"
  shows "same_shape t v \<and> (\<forall>d. t = JObj d \<longrightarrow> (\<exists>e. v = JObj e \<and> map fst e = map fst d))"
proof -
  have shape: "same_shape t v" using resolved_shape [of h ctx t v] assms by simp
  have keys: "list_all2 (\<lambda>p q. fst p = fst q \<and> same_shape (snd p) (snd q)) d e \<Longrightarrow> map fst e = map fst d" for d e
    by (induction d e rule: list_all2_induct) auto
  have "\<exists>e. v = JObj e \<and> map fst e = map fst d" if "t = JObj d" for d
    using shape keys [of d] that by (auto elim: same_shape_object)
  then show ?thesis using shape by blast
qed

theorem template_keeps_its_shape_witness:
  "\<exists>e. fst (resolve plain_host (empty_context\<lparr>bc_item := Some (JInt 3)\<rparr>)
      (JObj [(''n'', JStr ''{{item}}''), (''k'', JNull)])) = Inr (JObj e) \<and> map fst e = [''n'', ''k'']"
proof -
  have read: "resolve plain_host (empty_context\<lparr>bc_item := Some (JInt 3)\<rparr>) (JObj [(''n'', JStr ''{{item}}''), (''k'', JNull)])
      = (Inr (JObj [(''n'', JInt 3), (''k'', JNull)]), [])" by code_simp
  from template_keeps_its_shape [OF read] show ?thesis unfolding read by simp
qed

section \<open>Secrets\<close>

text \<open>The secrets a reading may have filled in: the one it names, or those its input was handed.\<close>

definition may_fill :: "binding_context \<Rightarrow> string \<Rightarrow> string list" where
  "may_fill ctx expr =
     (let head = hd (pipe_parts expr) in
      if take 7 head = ''secret:'' then [strip (drop 7 head)]
      else case filter (\<lambda>s. s \<noteq> []) (map strip (split_on (\<lambda>c. c = CHR ''.'') head)) of
             r # key # _ \<Rightarrow> if r = ''inputs'' then at_key (bc_input_secrets ctx) key else []
           | [r] \<Rightarrow> if r = ''inputs'' then concat (map snd (bc_input_secrets ctx)) else []
           | [] \<Rightarrow> [])"

text \<open>Two resolvers that answer a key alike, or the first fills in a text of \<open>X\<close> for it.\<close>

definition alike :: "runtime \<Rightarrow> string set \<Rightarrow> (string \<Rightarrow> json) \<Rightarrow> (string \<Rightarrow> json) \<Rightarrow> string \<Rightarrow> bool" where
  "alike rt X s1 s2 key \<longleftrightarrow> s1 key = s2 key \<or> set (snd (secret rt s1 key)) \<inter> X \<noteq> {}"

lemma same_secret: "alike rt X s1 s2 key \<Longrightarrow> same_unless X (secret rt s1 key) (secret rt s2 key)"
  unfolding alike_def same_unless_def by (auto simp: secret_def)

lemma same_fill_in:
  "\<forall>key \<in> set names. alike rt X s1 s2 key \<Longrightarrow> same_unless X (fill_in rt s1 names v) (fill_in rt s2 names v)"
proof (induction rt s1 names v rule: fill_in.induct)
  case (1 rt s1 names s)
  then show ?case
    by (auto simp: fill_piece_def intro!: same_and_then same_map_filling same_secret split: secret_piece.split)
next
  case (2 rt s1 names d)
  then show ?case by (auto intro!: same_and_then same_map_filling)
next
  case (3 rt s1 names xs)
  then show ?case by (auto intro!: same_and_then same_map_filling)
qed simp_all

lemma at_key_subset: "set (at_key d k) \<subseteq> set (concat (map snd d))"
  by (induction d) (auto simp: at_key_def)

lemma same_input_secrets:
  assumes "\<forall>key \<in> set (may_fill ctx expr). alike rt X s1 s2 key" and "take 7 (hd (pipe_parts expr)) \<noteq> ''secret:''"
  shows "same_unless X (with_input_secrets rt (ctx\<lparr>bc_secrets := Some s1\<rparr>) (hd (pipe_parts expr)) v)
    (with_input_secrets rt (ctx\<lparr>bc_secrets := Some s2\<rparr>) (hd (pipe_parts expr)) v)"
proof -
  let ?segs = "filter (\<lambda>s. s \<noteq> []) (map strip (split_on (\<lambda>c. c = CHR ''.'') (hd (pipe_parts expr))))"
  show ?thesis
  proof (cases ?segs)
    case Nil
    then show ?thesis by (simp add: with_input_secrets_def Let_def)
  next
    case (Cons r rest)
    show ?thesis
    proof (cases rest)
      case Nil
      have "same_unless X (fill_in rt s1 (at_key (bc_input_secrets ctx) k) x)
          (fill_in rt s2 (at_key (bc_input_secrets ctx) k) x)" if "r = ''inputs''" for k x
        using assms Cons Nil that at_key_subset [of "bc_input_secrets ctx" k]
        by (intro same_fill_in) (auto simp: may_fill_def Let_def)
      then show ?thesis
        using Cons Nil by (auto simp: with_input_secrets_def Let_def intro!: same_and_then same_map_filling
            split: json.split)
    next
      case (Cons key more)
      have "same_unless X (fill_in rt s1 (at_key (bc_input_secrets ctx) key) v)
          (fill_in rt s2 (at_key (bc_input_secrets ctx) key) v)" if "r = ''inputs''"
        using assms \<open>?segs = r # rest\<close> Cons that by (intro same_fill_in) (simp add: may_fill_def Let_def)
      then show ?thesis using \<open>?segs = r # rest\<close> Cons by (auto simp: with_input_secrets_def Let_def)
    qed
  qed
qed

lemma same_resolve_expr:
  assumes "\<forall>key \<in> set (may_fill ctx expr). alike (h_rt h) X s1 s2 key"
  shows "same_unless X (resolve_expr h (ctx\<lparr>bc_secrets := Some s1\<rparr>) expr)
    (resolve_expr h (ctx\<lparr>bc_secrets := Some s2\<rparr>) expr)"
proof -
  let ?head = "hd (pipe_parts expr)" and ?c = "\<lambda>s. ctx\<lparr>bc_secrets := Some s\<rparr>"
  have alike_ctx: "first_cycle_miss q (?c s1) = first_cycle_miss q (?c s2)"
    "as_root (?c s1) = as_root (?c s2)"
    "prior_cycle_field_miss q (?c s1) ns = prior_cycle_field_miss q (?c s2) ns" for q ns
    by (simp_all add: first_cycle_miss_def prior_cycle_field_miss_def as_root_def nodes_root_def split: list.split)
  have "same_unless X (resolve_head h (?c s1) ?head names) (resolve_head h (?c s2) ?head names)" for names
  proof (cases "take 7 ?head = ''secret:''")
    case True
    then have "alike (h_rt h) X s1 s2 (strip (drop 7 ?head))" using assms by (simp add: may_fill_def)
    then show ?thesis using True by (auto simp: resolve_head_def Let_def intro!: same_and_then same_secret)
  next
    case False
    then show ?thesis
      using same_input_secrets [OF assms False]
      by (auto simp: resolve_head_def alike_ctx(2) alike_ctx(3) intro!: same_and_then split: sum.split)
  qed
  then show ?thesis
    by (auto simp: resolve_expr_def Let_def alike_ctx(1) intro!: same_and_then split: option.split)
qed

lemma same_resolve_secrets:
  assumes "\<forall>e \<in> set (refs_in t). \<forall>key \<in> set (may_fill ctx e). alike (h_rt h) X s1 s2 key"
  shows "same_unless X (resolve h (ctx\<lparr>bc_secrets := Some s1\<rparr>) t) (resolve h (ctx\<lparr>bc_secrets := Some s2\<rparr>) t)"
  using assms by (intro resolve_same same_resolve_expr) blast

text \<open>
  C15. A secret reaches only its readers: what a template becomes, the error included, depends on no secret
  but those its own references name with \<open>secret:\<close> and those the run was handed in the very inputs it
  reads; a text from elsewhere that merely looks like a reference is never filled in.
\<close>

theorem secrets_reach_only_their_readers:
  assumes "\<forall>e \<in> set (refs_in t). \<forall>key \<in> set (may_fill ctx e). s1 key = s2 key"
  shows "resolve h (ctx\<lparr>bc_secrets := Some s1\<rparr>) t = resolve h (ctx\<lparr>bc_secrets := Some s2\<rparr>) t"
  using same_resolve_secrets [of t ctx h "{}" s1 s2] assms by (auto simp: alike_def same_empty)

definition handed_token :: binding_context where
  "handed_token = empty_context\<lparr>bc_inputs := [(''token'', JStr ''{{secret:K}} {{secret:L}}'')],
     bc_input_secrets := [(''token'', [''K''])]\<rparr>"

definition named_values :: "string \<Rightarrow> json" where
  "named_values key = JStr (''value of '' @ key)"

theorem secrets_reach_only_their_readers_witness:
  "resolve plain_host (handed_token\<lparr>bc_secrets := Some named_values\<rparr>) (JStr ''{{inputs.token}}'') =
   resolve plain_host (handed_token\<lparr>bc_secrets := Some (named_values(''L'' := JNull))\<rparr>) (JStr ''{{inputs.token}}'')"
proof -
  have "refs_in (JStr ''{{inputs.token}}'') = [''inputs.token'']" "may_fill handed_token ''inputs.token'' = [''K'']"
    by code_simp+
  then show ?thesis
    by (intro secrets_reach_only_their_readers) simp
qed

text \<open>
  C16. Nothing a step was handed goes unmasked: a secret whose text is not on the list the step is masked
  by had no part in what the step reads, since any other value of it gives the same reading.
\<close>

theorem unlisted_secret_was_not_used:
  assumes "resolve h (ctx\<lparr>bc_secrets := Some s\<rparr>) t = (r, filled)"
    and "py_str (h_rt h) (s key) \<notin> set filled"
    and "s key \<noteq> JNull" and "s key \<noteq> JStr []" and "s key \<noteq> JStr (secret_mark key)"
  shows "resolve h (ctx\<lparr>bc_secrets := Some (s(key := other))\<rparr>) t = (r, filled)"
proof -
  let ?X = "{py_str (h_rt h) (s key)}"
  have "alike (h_rt h) ?X s (s(key := other)) k" for k
    using assms(3-5) by (cases "k = key") (auto simp: alike_def secret_def Let_def)
  then have "same_unless ?X (resolve h (ctx\<lparr>bc_secrets := Some s\<rparr>) t)
      (resolve h (ctx\<lparr>bc_secrets := Some (s(key := other))\<rparr>) t)"
    by (intro same_resolve_secrets) blast
  then show ?thesis using assms(1,2) by (simp add: same_unless_def)
qed

theorem unlisted_secret_was_not_used_witness:
  "fst (resolve plain_host (handed_token\<lparr>bc_secrets := Some (named_values(''L'' := JNull))\<rparr>)
     (JStr ''{{inputs.token}}'')) = Inr (JStr ''value of K {{secret:L}}'')"
proof -
  have read: "resolve plain_host (handed_token\<lparr>bc_secrets := Some named_values\<rparr>) (JStr ''{{inputs.token}}'') =
      (Inr (JStr ''value of K {{secret:L}}''), [''value of K''])"
    by code_simp
  have "py_str (h_rt plain_host) (named_values ''L'') \<notin> set [''value of K'']"
    "named_values ''L'' \<noteq> JNull" "named_values ''L'' \<noteq> JStr []" "named_values ''L'' \<noteq> JStr (secret_mark ''L'')"
    by (simp_all add: named_values_def py_str_def secret_mark_def)
  from unlisted_secret_was_not_used [OF read this] show ?thesis by simp
qed

section \<open>An expression and its pipes\<close>

lemma pipe_parts_text:
  assumes "list_all good_call calls" and "CHR ''|'' \<notin> set head" and "strip head = head"
  shows "pipe_parts (expr_text head calls) = head # map call_text calls"
proof -
  have "\<forall>t \<in> set (head # map call_text calls). CHR ''|'' \<notin> set t"
    using assms(1,2) call_round_trip(2) by (auto simp: list_all_iff)
  from split_joined [OF this, of]
  have "pipe_parts (expr_text head calls) = map strip (head # map call_text calls)"
    by (simp add: pipe_parts_def expr_text_def)
  also have "\<dots> = head # map call_text calls"
    using assms(1,3) call_round_trip(3) by (auto simp: list_all_iff)
  finally show ?thesis .
qed

lemma pipe_names_calls: "list_all good_call calls \<Longrightarrow> pipe_names (map call_text calls) = map fst calls"
proof (induction calls)
  case (Cons call calls)
  obtain name vs where call: "call = (name, vs)" by (cases call)
  have "parse_pipe plain_runtime (call_text call) = Inr call" using Cons.prems call_round_trip(1) by simp
  then have "match_pipe (call_text call) \<noteq> None \<and> fst (the (match_pipe (call_text call))) = name"
    by (auto simp: parse_pipe_def call split: option.splits sum.splits if_splits)
  then show ?case using Cons by (auto simp: pipe_names_def call)
qed (simp add: pipe_names_def)

text \<open>
  C12. An expression means what it says: the text of a reference with calls of known pipes, each with no more
  arguments than the pipe takes, the arguments being integers, truth values, null, or texts in single quotes
  that hold no single quote, no newline and no bar, is split and read back as exactly those calls, and each
  is applied in turn to what the reference holds; only a prior cycle that does not exist yet, or a field
  the prior cycle did not produce under a \<open>default\<close>, enters the pipes as null. A comma or a parenthesis inside
  a text is the text's. (Fractions, texts in double quotes, and a text with a bar in it, which is cut there, are
  not covered: \<open>bar_in_a_text_breaks_the_call\<close>.)
\<close>

theorem expression_runs_as_written:
  assumes "list_all good_call calls" and "CHR ''|'' \<notin> set head" and "strip head = head"
  shows "resolve_expr h ctx (expr_text head calls) =
    (if first_cycle_miss head ctx then pure (run_calls h (bc_seen ctx) JNull calls)
     else and_then (resolve_head h ctx head (map fst calls)) (\<lambda>found. pure (case found of
        None \<Rightarrow> run_calls h (bc_seen ctx) JNull calls
      | Some v \<Rightarrow> run_calls h (bc_seen ctx) (sibling_reading h head (map fst calls) v) calls)))"
  using assms
  by (simp add: resolve_expr_def pipe_parts_text pipe_names_calls run_pipes_calls Let_def cong: option.case_cong)

definition demo_calls :: "(string \<times> json list) list" where
  "demo_calls = [(''filter'', [JStr ''verdict'', JStr ''a, b'']), (''slice'', [JInt (-2), JNull]), (''count'', [])]"

theorem expression_runs_as_written_witness:
  "expr_text ''item'' demo_calls = ''item | filter('' @ [CHR 0x27] @ ''verdict'' @ [CHR 0x27] @ '', ''
      @ [CHR 0x27] @ ''a, b'' @ [CHR 0x27] @ '') | slice(-2, null) | count'' \<and>
   resolve_expr plain_host (empty_context\<lparr>bc_item := Some JNull\<rparr>) (expr_text ''item'' demo_calls) = (Inr (JInt 0), [])"
proof -
  have written: "expr_text ''item'' demo_calls = ''item | filter('' @ [CHR 0x27] @ ''verdict'' @ [CHR 0x27] @ '', ''
      @ [CHR 0x27] @ ''a, b'' @ [CHR 0x27] @ '') | slice(-2, null) | count''" by code_simp
  have good: "list_all good_call demo_calls"
    by (simp add: demo_calls_def good_call_def PIPES_def)
  have head: "CHR ''|'' \<notin> set ''item''" "strip ''item'' = ''item''" by code_simp+
  have parts: "segments ''item'' = [''item'']" "split_on (\<lambda>c. c = CHR ''.'') ''item'' = [''item'']" by code_simp+
  have root: "map_of (as_root (empty_context\<lparr>bc_item := Some JNull\<rparr>)) ''item'' = Some JNull"
    by (simp add: as_root_def empty_context_def opt_field_def)
  have "resolve_head plain_host (empty_context\<lparr>bc_item := Some JNull\<rparr>) ''item'' names = (Inr (Some JNull), [])" for names
    using root by (simp add: resolve_head_def walk_path_def parts with_input_secrets_def empty_context_def pure_def)
  moreover have "run_calls plain_host None JNull demo_calls = Inr (JInt 0)"
    by (simp add: demo_calls_def apply_pipe_def pipe_filter_def on_list_def pipe_slice_def arg_def
        py_slice_def slice_index_def)
  ultimately show ?thesis
    using expression_runs_as_written [OF good head, of plain_host "empty_context\<lparr>bc_item := Some JNull\<rparr>"] written
    by (simp add: first_cycle_miss_def parts sibling_reading_def is_sibling_ref_def empty_context_def)
      (simp add: pure_def)
qed

text \<open>
  The bar that separates two pipes also splits a quoted text: an argument that holds one makes the call
  malformed, though commas and parentheses inside quotes are respected.
\<close>

theorem bar_in_a_text_breaks_the_call:
  "resolve_expr plain_host (empty_context\<lparr>bc_item := Some JNull\<rparr>)
     (''item | default('' @ [CHR 0x27] @ ''a|b'' @ [CHR 0x27] @ '')'')
   = (Inl (MalformedPipe (''default('' @ [CHR 0x27] @ ''a'')), [])"
  by code_simp

text \<open>
  A default never hides a missing reference: when the path cannot be walked, the expression is that
  error, whatever pipes follow, unless it reads a prior cycle (\<open>last\<close> or \<open>previous\<close>), where a first cycle
  has none and a later one may lack the field.
\<close>

theorem missing_reference_is_an_error:
  assumes "walk_path (JObj (as_root ctx)) (hd (pipe_parts expr)) = Inl e"
    and "take 7 (hd (pipe_parts expr)) \<noteq> ''secret:''"
    and "hd (segments (hd (pipe_parts expr))) \<notin> {''last'', ''previous''}"
  shows "resolve_expr h ctx expr = (Inl e, [])"
proof -
  let ?head = "hd (pipe_parts expr)"
  have "segments ?head \<noteq> []" using assms(1) by (auto simp: walk_path_def)
  then obtain s ss where s: "segments ?head = s # ss" by (cases "segments ?head") auto
  then have "\<not> first_cycle_miss ?head ctx" using assms(3) by (simp add: first_cycle_miss_def)
  moreover have "\<not> prior_cycle_field_miss ?head ctx names" for names
    using assms(3) s by (auto simp: prior_cycle_field_miss_def split: list.split)
  ultimately show ?thesis
    using assms(1,2) by (simp add: resolve_expr_def resolve_head_def pure_def Let_def)
qed

theorem missing_reference_is_an_error_witness:
  "resolve_expr plain_host empty_context ''nodes.typo.output | default(7)'' = (Inl (Unresolved ''typo'' False), [])"
proof -
  have "pipe_parts ''nodes.typo.output | default(7)'' = [''nodes.typo.output'', ''default(7)'']"
    "segments ''nodes.typo.output'' = [''nodes'', ''typo'', ''output'']"
    "hd (split_on (\<lambda>c. c = CHR ''.'') ''nodes.typo.output'') = ''nodes''"
    "strip ''nodes'' = ''nodes''" by code_simp+
  then show ?thesis
    by (intro missing_reference_is_an_error) (simp_all add: walk_path_def as_root_def empty_context_def nodes_root_def)
qed

section \<open>Siblings\<close>

text \<open>
  A read of a sibling that keeps producing is bounded by default: unless the expression states its own
  view, what its pipes are given has no more items than the configured window (20 when none is
  configured or it cannot be read), each significant enough, the newest of those, in order.
\<close>

theorem sibling_read_is_bounded:
  assumes "is_sibling_ref head" and "set names \<inter> set EXPLICIT_VIEW_PIPES = {}"
    and "sibling_reading h head names (JList outs) = v"
  shows "\<exists>xs. v = JList xs \<and> int (length xs) \<le> synthesis_window h \<and> 0 < synthesis_window h \<and>
    suffix xs (matter (h_rt h) DEFAULT_SIGNIFICANCE_THRESHOLD (flatten_outputs outs)) \<and>
    list_all (\<lambda>i. DEFAULT_SIGNIFICANCE_THRESHOLD \<le> significance_of (h_rt h) i) xs"
proof -
  have pos: "0 < synthesis_window h"
    by (simp add: synthesis_window_def DEFAULT_SYNTHESIS_WINDOW_def split: option.split)
  note view = sibling_view_bounds [OF pos, where rt = "h_rt h" and outs = "flatten_outputs outs"
      and thr = DEFAULT_SIGNIFICANCE_THRESHOLD]
  have "v = JList (sibling_view (h_rt h) (flatten_outputs outs) (synthesis_window h)
      DEFAULT_SIGNIFICANCE_THRESHOLD None False)"
    using assms by (simp add: sibling_reading_def flatten_sibling_def default_sibling_view_def Let_def)
  then show ?thesis using view pos by auto
qed

theorem sibling_read_is_bounded_witness:
  "\<exists>xs. sibling_reading plain_host ''siblings.main.output'' [''count''] (JList [scored 90, scored 1]) = JList xs \<and>
     int (length xs) \<le> 20"
proof -
  have "is_sibling_ref ''siblings.main.output''" "set [''count''] \<inter> set EXPLICIT_VIEW_PIPES = {}" by code_simp+
  moreover have "synthesis_window plain_host = 20"
    by (simp add: synthesis_window_def plain_host_def DEFAULT_SYNTHESIS_WINDOW_def)
  ultimately show ?thesis using sibling_read_is_bounded [OF _ _ refl] by metis
qed

text \<open>
  The default view flattens what the reading already flattened: an item that itself carries a list under a
  carrier key is taken for an envelope and lost, and \<open>full\<close> shows another set of items altogether.
\<close>

theorem default_view_unwraps_items_again:
  "let outs = JList [JObj [(''findings'', JList [JObj [(''title'', JStr ''t''), (''items'', JList [JInt 1])]])]] in
     sibling_reading plain_host ''siblings.main.output'' [] outs = JList [JInt 1] \<and>
     sibling_reading plain_host ''siblings.main.output'' [''full''] outs =
       JList [JObj [(''title'', JStr ''t''), (''items'', JList [JInt 1])]]"
  by code_simp

end
