(* ===== verification/ConditionFacts.thy ===== *)
theory ConditionFacts
  imports Conditions
begin

text \<open>
  A condition means its syntax tree: written with the precedence the grammar states, with operands that
  may hold quotes, parentheses and operators of their own inside them, it is read back and evaluated as
  the tree, every leaf of it, whatever the other leaves say.
\<close>

section \<open>Syntax trees\<close>

datatype cond = Test string | Cmp bool string string | Not cond | All "cond list" | Any "cond list"

definition paren :: "bool \<Rightarrow> string \<Rightarrow> string" where
  "paren b s = (if b then ''('' @ s @ '')'' else s)"

text \<open>The text of a tree at a level of the grammar: 0 in a disjunction, 1 in a conjunction, 2 under \<open>!\<close>.\<close>

fun show_cond :: "nat \<Rightarrow> cond \<Rightarrow> string" where
  "show_cond l (Test t) = t"
| "show_cond l (Cmp eq a b) = a @ (if eq then '' == '' else '' != '') @ b"
| "show_cond l (Not c) = CHR ''!'' # show_cond 2 c"
| "show_cond l (All cs) = paren (2 \<le> l) (join_with '' && '' (map (show_cond 2) cs))"
| "show_cond l (Any cs) = paren (1 \<le> l) (join_with '' || '' (map (show_cond 1) cs))"

text \<open>What a tree means: every leaf is read, left to right, before anything is decided.\<close>

fun meaning :: "host \<Rightarrow> binding_context \<Rightarrow> cond \<Rightarrow> bool filling" where
  "meaning h ctx (Test t) = and_then (operand h ctx t) (\<lambda>v. pure (Inr (cond_truthy v)))"
| "meaning h ctx (Cmp eq a b) = and_then (operand h ctx a) (\<lambda>v. and_then (operand h ctx b) (\<lambda>w.
     pure (Inr (cond_equal v w = eq))))"
| "meaning h ctx (Not c) = and_then (meaning h ctx c) (\<lambda>b. pure (Inr (\<not> b)))"
| "meaning h ctx (All cs) = and_then (map_filling (meaning h ctx) cs) (\<lambda>bs. pure (Inr (list_all id bs)))"
| "meaning h ctx (Any cs) = and_then (map_filling (meaning h ctx) cs) (\<lambda>bs. pure (Inr (list_ex id bs)))"

section \<open>Nesting\<close>

text \<open>
  Where a text leaves the depth of parentheses and the open quote, from where it found them; \<open>None\<close> if it
  closes a parenthesis it did not open.
\<close>

fun leaves :: "nat \<Rightarrow> char option \<Rightarrow> string \<Rightarrow> (nat \<times> char option) option" where
  "leaves n q [] = Some (n, q)"
| "leaves n (Some q) (c # cs) = leaves n (if c = q then None else Some q) cs"
| "leaves n None (c # cs) =
     (if is_quote c then leaves n (Some c) cs
      else if c = CHR ''('' then leaves (Suc n) None cs
      else if c = CHR '')'' then (if n = 0 then None else leaves (n - 1) None cs)
      else leaves n None cs)"

definition nested :: "string \<Rightarrow> bool" where
  "nested s \<longleftrightarrow> leaves 0 None s = Some (0, None)"

text \<open>No token of \<open>T\<close> outside quotes and parentheses.\<close>

fun top_free :: "string list \<Rightarrow> nat \<Rightarrow> char option \<Rightarrow> string \<Rightarrow> bool" where
  "top_free T n q [] = True"
| "top_free T n (Some q) (c # cs) = top_free T n (if c = q then None else Some q) cs"
| "top_free T n None (c # cs) =
     (if is_quote c then top_free T n (Some c) cs
      else if c = CHR ''('' then top_free T (Suc n) None cs
      else if c = CHR '')'' then top_free T (n - 1) None cs
      else (n = 0 \<longrightarrow> take 2 (c # cs) \<notin> set T) \<and> top_free T n None cs)"

definition TOKENS :: "string list" where
  "TOKENS = [''||'', ''&&'', ''=='', ''!='']"

text \<open>A text that cannot complete a token begun before it.\<close>

definition calm :: "string \<Rightarrow> bool" where
  "calm s \<longleftrightarrow> (case s of [] \<Rightarrow> True | c # _ \<Rightarrow> c \<notin> set ''|&='')"

definition operand_ok :: "string \<Rightarrow> bool" where
  "operand_ok t \<longleftrightarrow> t \<noteq> [] \<and> strip t = t \<and> nested t \<and> top_free TOKENS 0 None t \<and> hd t \<notin> set ''(!|&=''"

fun wf_cond :: "cond \<Rightarrow> bool" where
  "wf_cond (Test t) = operand_ok t"
| "wf_cond (Cmp eq a b) = (operand_ok a \<and> operand_ok b)"
| "wf_cond (Not c) = wf_cond c"
| "wf_cond (All cs) = (2 \<le> length cs \<and> list_all wf_cond cs)"
| "wf_cond (Any cs) = (2 \<le> length cs \<and> list_all wf_cond cs)"

lemma leaves_append: "leaves n q (s @ t) = Option.bind (leaves n q s) (\<lambda>(n', q'). leaves n' q' t)"
  by (induction n q s rule: leaves.induct) auto

lemma leaves_deeper: "leaves n q s = Some (n', q') \<Longrightarrow> leaves (n + k) q s = Some (n' + k, q')"
  by (induction n q s rule: leaves.induct) (auto split: if_splits)

lemma top_free_deeper: "leaves n q s = Some r \<Longrightarrow> top_free T (n + Suc k) q s"
proof (induction n q s rule: leaves.induct)
  case (3 n c cs)
  then show ?case by (cases n) (auto split: if_splits)
qed auto

lemma tokens_second: "T \<subseteq> set TOKENS \<Longrightarrow> calm t \<Longrightarrow> take 2 (c # t) \<in> T \<Longrightarrow> False"
  by (cases t) (auto simp: TOKENS_def calm_def)

lemma top_free_append:
  assumes "leaves n q s = Some (n', q')" and "calm t" and "set T \<subseteq> set TOKENS"
  shows "top_free T n q (s @ t) \<longleftrightarrow> top_free T n q s \<and> top_free T n' q' t"
  using assms(1)
proof (induction n q s rule: leaves.induct)
  case (3 n c cs)
  have "take 2 (c # cs @ t) \<in> set T \<longleftrightarrow> take 2 (c # cs) \<in> set T"
    using tokens_second [OF assms(3,2), of c] tokens_second [OF assms(3), of "[]" c]
    by (cases cs) (auto simp: calm_def)
  then show ?case using 3 by (auto split: if_splits)
qed auto

lemma split_skip:
  assumes "leaves n q s = Some (n', q')" and "top_free [tok] n q s" and "calm rest" and "tok \<in> set TOKENS"
  shows "split_from tok (int n) q cur (s @ rest) = split_from tok (int n') q' (cur @ s) rest"
  using assms(1,2)
proof (induction n q s arbitrary: cur rule: leaves.induct)
  case (3 n c cs)
  have same: "take 2 (c # cs @ rest) = tok \<longleftrightarrow> take 2 (c # cs) = tok"
    using tokens_second [of "{tok}" rest c] tokens_second [of "{tok}" "[]" c] assms(3,4)
    by (cases cs) (auto simp: calm_def)
  have par: "take 2 (CHR ''('' # u) \<noteq> tok" "take 2 (CHR '')'' # u) \<noteq> tok" for u
    using assms(4) by (auto simp: TOKENS_def)
  show ?case using 3 same par by (auto simp: depth_after_def of_nat_diff add.commute split: if_splits)
qed auto

lemma comparison_skip:
  assumes "leaves n q s = Some (n', q')" and "top_free TOKENS n q s" and "calm rest"
  shows "comparison_from (int n) q bef (s @ rest) = comparison_from (int n') q' (bef @ s) rest"
  using assms(1,2)
proof (induction n q s arbitrary: bef rule: leaves.induct)
  case (3 n c cs)
  have same: "take 2 (c # cs @ rest) = tok \<longleftrightarrow> take 2 (c # cs) = tok" if "tok \<in> set TOKENS" for tok
    using tokens_second [of "{tok}" rest c] tokens_second [of "{tok}" "[]" c] assms(3) that
    by (cases cs) (auto simp: calm_def)
  have toks: "''=='' \<in> set TOKENS" "''!='' \<in> set TOKENS" by (simp_all add: TOKENS_def)
  have other: "comparison_from d None bef (c # cs @ rest) = comparison_from (depth_after c d) None (bef @ [c]) (cs @ rest)"
    if "\<not> is_quote c" and "depth_after c d = 0 \<Longrightarrow> take 2 (c # cs) \<notin> {''=='', ''!=''}" for d
    using that same [OF toks(1)] same [OF toks(2)] by auto
  have skip: "comparison_from (int n) None bef (c # cs @ rest) = comparison_from (int n') q' (bef @ c # cs) rest"
    if "\<not> is_quote c" "depth_after c (int n) = int m" "leaves m None cs = Some (n', q')" "top_free TOKENS m None cs"
      "m = 0 \<Longrightarrow> take 2 (c # cs) \<notin> {''=='', ''!=''}"
      and IH: "\<And>bef. comparison_from (int m) None bef (cs @ rest) = comparison_from (int n') q' (bef @ cs) rest" for m
    using other [of "int n"] that by simp
  consider "is_quote c" | "c = CHR ''(''" "\<not> is_quote c" | "c = CHR '')''" "\<not> is_quote c" "0 < n"
    | "c \<noteq> CHR ''(''" "c \<noteq> CHR '')''" "\<not> is_quote c"
    using 3(5) by (auto split: if_splits)
  then show ?case
  proof cases
    case 1
    then show ?thesis using 3(1) [of "bef @ [c]"] 3(5,6) by simp
  next
    case 2
    then show ?thesis
      using "3.IH"(2) "3.prems" by (auto simp: depth_after_def add.commute)
  next
    case 3
    then show ?thesis
      using "3.IH"(3) "3.prems" by (auto intro!: skip [where m = "n - 1"] simp: depth_after_def of_nat_diff)
  next
    case 4
    show ?thesis
    proof -
      have p: "leaves n None cs = Some (n', q')" "top_free TOKENS n None cs" "n = 0 \<Longrightarrow> take 2 (c # cs) \<notin> set TOKENS"
        using 4 "3.prems" by simp_all
      have "depth_after c (int n) = int n" using 4 by (simp add: depth_after_def)
      moreover have "take 2 (c # cs) \<notin> {''=='', ''!=''}" if "n = 0"
        using p(3) [OF that] toks by (metis insertE singletonD)
      ultimately have "comparison_from (int n) None bef (c # cs @ rest) = comparison_from (int n') q' (bef @ c # cs) rest"
        using "3.IH"(4) [OF 4(3,1,2) p(1,2)] by (intro skip [OF 4(3) _ p(1,2)])
      then show ?thesis by simp
    qed
  qed
qed auto

lemma matching_skip:
  "leaves n q s = Some (n', q') \<Longrightarrow>
   matching_from i (int (Suc n)) q (s @ rest) = matching_from (i + length s) (int (Suc n')) q' rest"
proof (induction n q s arbitrary: i rule: leaves.induct)
  case (3 n c cs)
  then show ?case by (cases n) (auto simp: depth_after_def split: if_splits)
qed auto

lemma matching_group: "nested s \<Longrightarrow> matching_paren (''('' @ s @ '')'') = Some (Suc (length s))"
  using matching_skip [of 0 None s 0 None 1 "'')''"]
  by (simp add: matching_paren_def nested_def depth_after_def is_quote_def)

section \<open>What is written\<close>

definition good_text :: "string \<Rightarrow> bool" where
  "good_text s \<longleftrightarrow> s \<noteq> [] \<and> \<not> is_space (hd s) \<and> \<not> is_space (last s) \<and> nested s \<and> calm s"

lemma strip_ends: "strip t = t \<Longrightarrow> t \<noteq> [] \<Longrightarrow> \<not> is_space (hd t) \<and> \<not> is_space (last t)"
proof -
  assume t: "strip t = t" "t \<noteq> []"
  let ?d = "dropWhile is_space t"
  have r: "t = rev (dropWhile is_space (rev ?d))" using t(1) by (simp add: strip_def)
  have "length (dropWhile is_space (rev ?d)) \<le> length ?d" using length_dropWhile_le [of is_space "rev ?d"] by simp
  moreover have "length t = length (dropWhile is_space (rev ?d))" by (subst r) simp
  ultimately have "length ?d = length t" using length_dropWhile_le [of is_space t] by simp
  then have same: "?d = t" by (metis dropWhile_eq_drop drop_0 length_drop diff_diff_cancel length_takeWhile_le diff_self_eq_0)
  then have "\<not> is_space (hd t)" using t(2) hd_dropWhile [of is_space t] by simp
  moreover have "dropWhile is_space (rev t) = rev t" using r same by (metis rev_rev_ident)
  then have "\<not> is_space (hd (rev t))" using t(2) hd_dropWhile [of is_space "rev t"] by simp
  ultimately show ?thesis using t(2) by (simp add: hd_rev)
qed

lemma operand_good: "operand_ok t \<Longrightarrow> good_text t"
  using strip_ends [of t] by (cases t) (auto simp: operand_ok_def good_text_def calm_def)

lemma nested_append: "nested s \<Longrightarrow> nested t \<Longrightarrow> nested (s @ t)"
  by (simp add: nested_def leaves_append)

lemma nested_paren: "nested s \<Longrightarrow> nested (''('' @ s @ '')'')"
  using leaves_deeper [of 0 None s 0 None 1]
  by (simp add: nested_def leaves_append is_quote_def)

lemma good_paren: "good_text s \<Longrightarrow> good_text (''('' @ s @ '')'')"
  using nested_paren [of s] by (simp add: good_text_def is_space_def calm_def)

lemma good_around:
  assumes "good_text s" and "good_text t" and "nested sep"
  shows "good_text (s @ sep @ t)"
proof -
  have "nested (s @ sep @ t)" using assms by (intro nested_append) (auto simp: good_text_def)
  moreover have "calm (s @ sep @ t)" using assms(1) by (cases s) (auto simp: good_text_def calm_def)
  ultimately show ?thesis using assms(1,2) by (simp add: good_text_def)
qed

lemma separators_nested: "nested '' && ''" "nested '' || ''" "nested '' == ''" "nested '' != ''" "nested ''!''"
  by code_simp+

lemma good_joined:
  "xs \<noteq> [] \<Longrightarrow> list_all good_text xs \<Longrightarrow> nested sep \<Longrightarrow> good_text (join_with sep xs)"
  by (induction sep xs rule: join_with.induct) (auto intro: good_around)

lemma good_show: "wf_cond c \<Longrightarrow> good_text (show_cond l c)"
proof (induction c arbitrary: l)
  case (Test t)
  then show ?case by (simp add: operand_good)
next
  case (Cmp eq a b)
  then have "good_text (a @ (if eq then '' == '' else '' != '') @ b)"
    using separators_nested by (intro good_around operand_good) auto
  then show ?case by simp
next
  case (Not c)
  then have "good_text (show_cond 2 c)" by simp
  then show ?case
    using nested_append [OF separators_nested(5), of "show_cond 2 c"]
    by (simp add: good_text_def is_space_def calm_def)
next
  case (All cs)
  have "good_text (join_with '' && '' (map (show_cond 2) cs))"
    using All separators_nested by (intro good_joined) (auto simp: list_all_iff)
  then show ?case using good_paren by (simp add: paren_def)
next
  case (Any cs)
  have "good_text (join_with '' || '' (map (show_cond 1) cs))"
    using Any separators_nested by (intro good_joined) (auto simp: list_all_iff)
  then show ?case using good_paren by (simp add: paren_def)
qed

lemma top_free_subset: "top_free T n q s \<Longrightarrow> set T' \<subseteq> set T \<Longrightarrow> top_free T' n q s"
  by (induction T n q s rule: top_free.induct) (auto split: if_splits)

lemma top_free_around:
  assumes "nested s" and "calm t" and "set T \<subseteq> set TOKENS" and "top_free T 0 None s" and "top_free T 0 None t"
  shows "top_free T 0 None (s @ t)"
  using top_free_append [of 0 None s 0 None t T] assms by (simp add: nested_def)

lemma top_free_paren: "nested s \<Longrightarrow> set T \<subseteq> set TOKENS \<Longrightarrow> top_free T 0 None (''('' @ s @ '')'')"
proof -
  assume n: "nested s" and T: "set T \<subseteq> set TOKENS"
  then have "top_free T (Suc 0) None s" using top_free_deeper [of 0 None s _ T 0] by (simp add: nested_def)
  moreover have "leaves (Suc 0) None s = Some (Suc 0, None)"
    using n leaves_deeper [of 0 None s 0 None 1] by (simp add: nested_def)
  ultimately have "top_free T (Suc 0) None (s @ '')'')"
    using top_free_append [of "Suc 0" None s "Suc 0" None "'')''" T] T by (simp add: calm_def is_quote_def)
  then show ?thesis by (simp add: is_quote_def)
qed

lemma calm_append: "s \<noteq> [] \<Longrightarrow> calm (s @ t) = calm s"
  by (cases s) (simp_all add: calm_def)

lemma top_free_joined:
  assumes "set T \<subseteq> set TOKENS" and "top_free T 0 None sep" and "nested sep" and "sep \<noteq> []" and "calm sep"
  shows "xs \<noteq> [] \<Longrightarrow> list_all good_text xs \<Longrightarrow> list_all (top_free T 0 None) xs \<Longrightarrow>
    top_free T 0 None (join_with sep xs)"
proof (induction xs rule: induct_list012)
  case (3 x y zs)
  let ?rest = "join_with sep (y # zs)"
  have rest: "good_text ?rest" using 3 assms(3) by (intro good_joined) auto
  have "top_free T 0 None ?rest" using 3 by simp
  then have tail: "top_free T 0 None (sep @ ?rest)"
    using assms rest by (intro top_free_around) (auto simp: good_text_def)
  moreover have "calm (sep @ ?rest)" using assms(4,5) by (simp add: calm_append)
  moreover have "nested x" "top_free T 0 None x" using 3 by (simp_all add: good_text_def)
  ultimately have "top_free T 0 None (x @ (sep @ ?rest))"
    using assms(1) by (simp only: top_free_around)
  then show ?case by simp
qed simp_all

lemma operand_top: "operand_ok t \<Longrightarrow> set T \<subseteq> set TOKENS \<Longrightarrow> top_free T 0 None t"
  using top_free_subset [of TOKENS 0 None t T] by (simp add: operand_ok_def)

lemma show_top:
  assumes "wf_cond c" and "tok = ''||'' \<and> 1 \<le> l \<or> tok = ''&&'' \<and> 2 \<le> l"
  shows "top_free [tok] 0 None (show_cond l c)"
  using assms
proof (induction c arbitrary: l)
  case (Test t)
  then show ?case by (auto intro!: operand_top simp: TOKENS_def)
next
  case (Cmp eq a b)
  have tok: "set [tok] \<subseteq> set TOKENS" using Cmp.prems(2) by (auto simp: TOKENS_def)
  let ?sep = "if eq then '' == '' else '' != ''"
  have sep: "nested ?sep" "top_free [tok] 0 None ?sep" "calm (?sep @ b)"
    using separators_nested Cmp.prems(2) by (auto simp: calm_def is_quote_def)
  have "calm b" "nested a" using Cmp.prems(1) operand_good by (auto simp: good_text_def)
  moreover have "top_free [tok] 0 None a" "top_free [tok] 0 None b"
    using Cmp.prems(1) operand_top [OF _ tok] by auto
  ultimately have "top_free [tok] 0 None (a @ (?sep @ b))"
    using sep tok by (intro top_free_around) auto
  then show ?case by simp
next
  case (Not c)
  have "2 \<le> (2 :: nat)" by simp
  then have "top_free [tok] 0 None (show_cond 2 c)" using Not.prems by (intro Not.IH) auto
  moreover have "calm (show_cond 2 c)" using Not.prems good_show [of c 2] by (simp add: good_text_def)
  ultimately show ?case using Not.prems(2) by (auto simp: is_quote_def)
next
  case (All cs)
  have tok: "set [tok] \<subseteq> set TOKENS" using All.prems(2) by (auto simp: TOKENS_def)
  let ?xs = "map (show_cond 2) cs"
  have xs: "?xs \<noteq> []" "list_all good_text ?xs" using All.prems(1) good_show by (auto simp: list_all_iff)
  show ?case
  proof (cases "2 \<le> l")
    case True
    have "nested (join_with '' && '' ?xs)"
      using good_joined [OF xs separators_nested(1)] by (simp add: good_text_def)
    then show ?thesis using True top_free_paren [OF _ tok] by (simp add: paren_def)
  next
    case False
    then have bar: "tok = ''||''" using All.prems(2) by simp
    have "list_all (top_free [tok] 0 None) ?xs"
      using All bar by (auto simp: list_all_iff)
    then have "top_free [tok] 0 None (join_with '' && '' ?xs)"
      using xs tok separators_nested(1) bar by (intro top_free_joined) (auto simp: calm_def is_quote_def)
    then show ?thesis using False by (simp add: paren_def)
  qed
next
  case (Any cs)
  have tok: "set [tok] \<subseteq> set TOKENS" using Any.prems(2) by (auto simp: TOKENS_def)
  have "list_all good_text (map (show_cond 1) cs)" "map (show_cond 1) cs \<noteq> []"
    using Any.prems(1) good_show by (auto simp: list_all_iff)
  then have "nested (join_with '' || '' (map (show_cond 1) cs))"
    using good_joined [OF _ _ separators_nested(2)] by (auto simp: good_text_def)
  moreover have "1 \<le> l" using Any.prems(2) by auto
  ultimately show ?case using top_free_paren [OF _ tok] by (simp add: paren_def)
qed

section \<open>What is read\<close>

definition pad :: "string \<Rightarrow> bool" where
  "pad s \<longleftrightarrow> s = [] \<or> s = '' ''"

lemma strip_padded: "pad l \<Longrightarrow> pad r \<Longrightarrow> strip (l @ s @ r) = strip s"
  using strip_spaces(2) [of s] by (auto simp: pad_def strip_spaces)

lemma strip_good: "good_text s \<Longrightarrow> strip s = s"
  by (rule strip_trimmed) (auto simp: good_text_def)

lemma pad_facts: "pad s \<Longrightarrow> nested s \<and> calm s \<and> (tok \<in> set TOKENS \<longrightarrow> top_free [tok] 0 None s)"
proof -
  have "nested '' ''" by code_simp
  then show "pad s \<Longrightarrow> nested s \<and> calm s \<and> (tok \<in> set TOKENS \<longrightarrow> top_free [tok] 0 None s)"
    by (auto simp: pad_def nested_def calm_def TOKENS_def is_quote_def)
qed

text \<open>Skipping a padded text that has no token at its top.\<close>

lemma split_padded:
  assumes "pad l" and "good_text s" and "top_free [tok] 0 None s" and "tok \<in> set TOKENS" and "calm rest"
  shows "split_from tok 0 None cur (l @ s @ rest) = split_from tok 0 None (cur @ l @ s) rest"
proof -
  have "calm s" "nested s" using assms(2) by (auto simp: good_text_def)
  then have "top_free [tok] 0 None (l @ s)" "nested (l @ s)"
    using pad_facts [OF assms(1), of tok] assms(3,4) by (auto intro!: top_free_around nested_append)
  then show ?thesis
    using split_skip [of 0 None "l @ s" 0 None tok rest cur] assms(4,5) by (simp add: nested_def)
qed

lemma split_whole:
  assumes "pad l" and "pad r" and "good_text s" and "top_free [tok] 0 None s" and "tok \<in> set TOKENS"
  shows "split_top tok (l @ s @ r) = [l @ s @ r]"
  using split_padded [OF assms(1,3-5), of r "[]"] pad_facts [OF assms(2), of tok]
    split_skip [of 0 None r 0 None tok "[]" "l @ s"] assms(5)
  by (simp add: split_top_def nested_def calm_def)

definition padded :: "string \<Rightarrow> string \<Rightarrow> bool" where
  "padded x p \<longleftrightarrow> (\<exists>l r. pad l \<and> pad r \<and> p = l @ x @ r)"

lemma split_joined_texts:
  assumes "tok = ''||'' \<or> tok = ''&&''" and "xs \<noteq> []"
    and "list_all good_text xs" and "list_all (top_free [tok] 0 None) xs" and "pad l" and "pad r"
  shows "list_all2 padded xs (split_top tok (l @ join_with ('' '' @ tok @ '' '') xs @ r))"
  using assms(2-5)
proof (induction xs arbitrary: l rule: induct_list012)
  case (2 x)
  have tok: "tok \<in> set TOKENS" using assms(1) by (auto simp: TOKENS_def)
  have "split_top tok (l @ x @ r) = [l @ x @ r]" using 2 assms(6) tok by (intro split_whole) auto
  then show ?case using 2 assms(6) by (auto simp: padded_def)
next
  case (3 x y zs)
  have tok: "tok \<in> set TOKENS" using assms(1) by (auto simp: TOKENS_def)
  let ?rest = "'' '' @ join_with ('' '' @ tok @ '' '') (y # zs) @ r"
  have whole: "l @ join_with ('' '' @ tok @ '' '') (x # y # zs) @ r = l @ x @ ('' '' @ tok @ ?rest)" by simp
  have "split_top tok (l @ x @ ('' '' @ tok @ ?rest)) = split_from tok 0 None (l @ x) ('' '' @ tok @ ?rest)"
    using split_padded [of l x tok "'' '' @ tok @ ?rest" "[]"] 3 tok by (simp add: split_top_def calm_def)
  also have "\<dots> = (l @ x @ '' '') # split_top tok ?rest"
    using assms(1) by (auto simp: split_top_def is_quote_def depth_after_def)
  finally have split: "split_top tok (l @ join_with ('' '' @ tok @ '' '') (x # y # zs) @ r) =
      (l @ x @ '' '') # split_top tok ?rest" unfolding whole .
  have "list_all2 padded (y # zs) (split_top tok ?rest)" using 3 by (intro "3.IH"(2)) (auto simp: pad_def)
  moreover have "padded x (l @ x @ '' '')" using 3 by (auto simp: padded_def pad_def)
  ultimately show ?case unfolding split by simp
qed simp

lemma or_skip:
  "pad l \<Longrightarrow> pad r \<Longrightarrow> good_text s \<Longrightarrow> top_free [''||''] 0 None s \<Longrightarrow> cond_or h ctx (l @ s @ r) = cond_and h ctx (l @ s @ r)"
  using split_whole [of l r s "''||''"] by (simp add: cond_or.simps TOKENS_def)

lemma and_skip:
  "pad l \<Longrightarrow> pad r \<Longrightarrow> good_text s \<Longrightarrow> top_free [''&&''] 0 None s \<Longrightarrow> cond_and h ctx (l @ s @ r) = cond_unary h ctx (l @ s @ r)"
  using split_whole [of l r s "''&&''"] by (simp add: cond_and.simps TOKENS_def)

lemma unary_group:
  assumes "pad l" and "pad r" and "good_text s"
  shows "cond_unary h ctx (l @ (''('' @ s @ '')'') @ r) = cond_or h ctx s"
proof -
  have good: "good_text (''('' @ s @ '')'')" using assms(3) by (rule good_paren)
  have "strip (l @ (''('' @ s @ '')'') @ r) = ''('' @ s @ '')''"
    unfolding strip_padded [OF assms(1,2)] by (rule strip_good [OF good])
  moreover have "matching_paren (''('' @ s @ '')'') = Some (length (''('' @ s @ '')'') - 1)"
    using matching_group [of s] assms(3) by (simp add: good_text_def)
  ultimately show ?thesis
    using strip_good [OF good] by (simp add: cond_unary.simps cond_leaf.simps Let_def butlast_append)
qed

lemma unary_leaf:
  assumes "pad l" and "pad r" and "good_text s" and "hd s \<notin> set ''(!''"
  shows "cond_unary h ctx (l @ s @ r) = (case split_comparison s of
       None \<Rightarrow> and_then (operand h ctx s) (\<lambda>v. pure (Inr (cond_truthy v)))
     | Some (eq, a, b) \<Rightarrow> and_then (operand h ctx a) (\<lambda>v. and_then (operand h ctx b) (\<lambda>w.
               pure (Inr (if eq then cond_equal v w else \<not> cond_equal v w)))))"
proof -
  have "strip (l @ s @ r) = s" "strip s = s" "s \<noteq> []"
    using strip_padded [OF assms(1,2), of s] strip_good [OF assms(3)] assms(3) by (auto simp: good_text_def)
  moreover have "take 1 s \<noteq> ''!''" "take 1 s \<noteq> ''(''" using assms(4) by (cases s; simp)+
  ultimately show ?thesis by (simp add: cond_unary.simps cond_leaf.simps Let_def)
qed

lemma operand_strip: "strip t = strip t' \<Longrightarrow> operand h ctx t = operand h ctx t'"
  by (simp add: operand_def)

lemma comparison_none: "operand_ok t \<Longrightarrow> split_comparison t = None"
  using comparison_skip [of 0 None t 0 None "[]" "[]"]
  by (simp add: split_comparison_def operand_ok_def nested_def calm_def)

lemma comparison_found:
  "operand_ok a \<Longrightarrow> split_comparison (a @ (if eq then '' == '' else '' != '') @ b) = Some (eq, a @ '' '', '' '' @ b)"
  using comparison_skip [of 0 None a 0 None "(if eq then '' == '' else '' != '') @ b" "[]"]
  by (simp add: split_comparison_def operand_ok_def nested_def calm_def is_quote_def depth_after_def)

lemma map_filling_padded:
  "list_all2 padded (map f cs) ps \<Longrightarrow> (\<And>c p. c \<in> set cs \<Longrightarrow> padded (f c) p \<Longrightarrow> g p = k c) \<Longrightarrow>
   map_filling g ps = map_filling k cs"
proof (induction cs arbitrary: ps)
  case (Cons c cs)
  then obtain p ps' where ps: "ps = p # ps'" "padded (f c) p" "list_all2 padded (map f cs) ps'"
    by (auto simp: list_all2_Cons1)
  have "g p = k c" by (rule Cons.prems(2)) (simp_all add: ps(2))
  moreover have "map_filling g ps' = map_filling k cs" using ps(3) Cons.prems(2) by (intro Cons.IH) simp_all
  ultimately show ?case by (simp add: ps(1))
qed simp

lemma read_back:
  "wf_cond c \<Longrightarrow> pad l \<Longrightarrow> pad r \<Longrightarrow>
     cond_unary h ctx (l @ show_cond 2 c @ r) = meaning h ctx c \<and>
     cond_and h ctx (l @ show_cond 1 c @ r) = meaning h ctx c \<and>
     cond_or h ctx (l @ show_cond 0 c @ r) = meaning h ctx c"
proof (induction c arbitrary: l r)
  case (Test t)
  have good: "good_text t" and ok: "operand_ok t" using Test operand_good by auto
  have top: "top_free [''||''] 0 None t" "top_free [''&&''] 0 None t"
    using show_top [OF Test(1), of "''||''" 1] show_top [OF Test(1), of "''&&''" 2] by simp_all
  have "cond_unary h ctx (l @ t @ r) = meaning h ctx (Test t)"
    using unary_leaf [OF Test(2,3) good] ok comparison_none [OF ok] by (auto simp: operand_ok_def)
  then show ?case using or_skip [OF Test(2,3) good top(1)] and_skip [OF Test(2,3) good top(2)] by simp
next
  case (Cmp eq a b)
  let ?s = "a @ (if eq then '' == '' else '' != '') @ b"
  have good: "good_text ?s" using good_show [OF Cmp(1), of 0] by simp
  have ok: "operand_ok a" "operand_ok b" using Cmp(1) by simp_all
  have top: "top_free [''||''] 0 None ?s" "top_free [''&&''] 0 None ?s"
    using show_top [OF Cmp(1), of "''||''" 1] show_top [OF Cmp(1), of "''&&''" 2] by simp_all
  have sides: "operand h ctx (a @ '' '') = operand h ctx a" "operand h ctx ('' '' @ b) = operand h ctx b"
    by (rule operand_strip, simp add: strip_spaces)+
  have "hd ?s \<notin> set ''(!''" using ok(1) by (cases a) (auto simp: operand_ok_def)
  note leaf = unary_leaf [OF Cmp(2,3) good this]
  have "cond_unary h ctx (l @ ?s @ r) = meaning h ctx (Cmp eq a b)"
    unfolding leaf comparison_found [OF ok(1)] using sides by (cases eq) simp_all
  then show ?case using or_skip [OF Cmp(2,3) good top(1)] and_skip [OF Cmp(2,3) good top(2)] by simp
next
  case (Not c)
  have inner: "good_text (show_cond 2 c)" using good_show Not.prems(1) by simp
  then have calm: "take 2 (CHR ''!'' # show_cond 2 c) \<noteq> ''!=''"
    by (cases "show_cond 2 c") (auto simp: good_text_def calm_def)
  let ?s = "CHR ''!'' # show_cond 2 c"
  have good: "good_text ?s" using good_show [OF Not.prems(1), of 0] by simp
  have top: "top_free [''||''] 0 None ?s" "top_free [''&&''] 0 None ?s"
    using show_top [OF Not.prems(1), of "''||''" 1] show_top [OF Not.prems(1), of "''&&''" 2] by simp_all
  have "cond_unary h ctx (show_cond 2 c) = meaning h ctx c"
    using Not.IH [of "[]" "[]"] Not.prems(1) by (simp add: pad_def)
  moreover have "strip (l @ ?s @ r) = ?s"
    using strip_padded [OF Not.prems(2,3), of ?s] strip_good [OF good] by simp
  ultimately have "cond_unary h ctx (l @ ?s @ r) = meaning h ctx (Not c)"
    using calm by (subst cond_unary.simps) (simp add: Let_def)
  then show ?case using or_skip [OF Not.prems(2,3) good top(1)] and_skip [OF Not.prems(2,3) good top(2)] by simp
next
  case (All cs)
  let ?xs = "map (show_cond 2) cs" and ?join = "join_with '' && '' (map (show_cond 2) cs)"
  have cs: "2 \<le> length cs" "list_all wf_cond cs" using All.prems(1) by simp_all
  have xs: "?xs \<noteq> []" "list_all good_text ?xs" "list_all (top_free [''&&''] 0 None) ?xs"
    using cs good_show show_top [of _ "''&&''" 2] by (auto simp: list_all_iff)
  have good: "good_text ?join" using good_joined [OF xs(1,2) separators_nested(1)] .
  have top: "top_free [''||''] 0 None ?join" using show_top [OF All.prems(1), of "''||''" 1] by (simp add: paren_def)
  have conj: "cond_and h ctx (l @ ?join @ r) = meaning h ctx (All cs)" if "pad l" "pad r" for l r
  proof -
    let ?ps = "split_top ''&&'' (l @ ?join @ r)"
    have ps: "list_all2 padded ?xs ?ps"
      using split_joined_texts [of "''&&''" ?xs l r] xs that by simp
    then have "1 < length ?ps" using list_all2_lengthD [OF ps] cs(1) by simp
    moreover have "map_filling (cond_unary h ctx) ?ps = map_filling (meaning h ctx) cs"
      using ps All.IH cs(2) by (intro map_filling_padded [where f = "show_cond 2"]) (auto simp: padded_def list_all_iff)
    ultimately show ?thesis by (simp add: cond_and.simps Let_def)
  qed
  have disj: "cond_or h ctx (l @ ?join @ r) = meaning h ctx (All cs)" if "pad l" "pad r" for l r
    using or_skip [OF that good top] conj [OF that] by simp
  have "cond_or h ctx ?join = meaning h ctx (All cs)" using disj [of "[]" "[]"] by (simp add: pad_def)
  then show ?case
    using conj [OF All.prems(2,3)] disj [OF All.prems(2,3)] unary_group [OF All.prems(2,3) good]
    by (simp add: paren_def)
next
  case (Any cs)
  let ?xs = "map (show_cond 1) cs" and ?join = "join_with '' || '' (map (show_cond 1) cs)"
  have cs: "2 \<le> length cs" "list_all wf_cond cs" using Any.prems(1) by simp_all
  have xs: "?xs \<noteq> []" "list_all good_text ?xs" "list_all (top_free [''||''] 0 None) ?xs"
    using cs good_show show_top [of _ "''||''" 1] by (auto simp: list_all_iff)
  have good: "good_text ?join" using good_joined [OF xs(1,2) separators_nested(2)] .
  have group: "good_text (''('' @ ?join @ '')'')" using good by (rule good_paren)
  have top: "top_free [''&&''] 0 None (''('' @ ?join @ '')'')"
    using show_top [OF Any.prems(1), of "''&&''" 2] by (simp add: paren_def)
  have disj: "cond_or h ctx (l @ ?join @ r) = meaning h ctx (Any cs)" if "pad l" "pad r" for l r
  proof -
    let ?ps = "split_top ''||'' (l @ ?join @ r)"
    have ps: "list_all2 padded ?xs ?ps"
      using split_joined_texts [of "''||''" ?xs l r] xs that by simp
    then have "1 < length ?ps" using list_all2_lengthD [OF ps] cs(1) by simp
    moreover have "map_filling (cond_and h ctx) ?ps = map_filling (meaning h ctx) cs"
      using ps Any.IH cs(2) by (intro map_filling_padded [where f = "show_cond 1"]) (auto simp: padded_def list_all_iff)
    ultimately show ?thesis by (simp add: cond_or.simps Let_def)
  qed
  have "cond_or h ctx ?join = meaning h ctx (Any cs)" using disj [of "[]" "[]"] by (simp add: pad_def)
  then show ?case
    using disj [OF Any.prems(2,3)] unary_group [OF Any.prems(2,3) good, of h ctx]
      and_skip [OF Any.prems(2,3) group top, of h ctx]
    by (simp add: paren_def)
qed

lemma eval_shown: "wf_cond c \<Longrightarrow> eval_condition h ctx (show_cond 0 c) = meaning h ctx c"
  using read_back [of c "[]" "[]" h ctx] good_show [of c 0] strip_good [of "show_cond 0 c"]
  by (simp add: eval_condition_def pad_def good_text_def)

text \<open>
  C3. A condition means what it says: any tree of disjunctions, conjunctions, negations, comparisons and
  references, written with the grammar's precedence, evaluates to the meaning of the tree, for operands
  that may hold pipes, quoted operators and parentheses of their own.
\<close>

theorem condition_means_its_tree:
  assumes "wf_cond c"
  shows "eval_condition h ctx (show_cond 0 c) = meaning h ctx c"
  using assms by (rule eval_shown)

definition fix_gate :: cond where
  "fix_gate = Any [Cmp True ''{{inputs.fix}}'' ''true'', All [Not (Test ''{{inputs.keep}}''), Test ''1'']]"

definition fix_context :: binding_context where
  "fix_context = empty_context\<lparr>bc_inputs := [(''fix'', JBool False), (''keep'', JStr ''maybe'')]\<rparr>"

theorem condition_means_its_tree_witness:
  "eval_condition plain_host fix_context ''{{inputs.fix}} == true || !{{inputs.keep}} && 1'' = (Inr False, [])"
proof -
  have "wf_cond fix_gate" "show_cond 0 fix_gate = ''{{inputs.fix}} == true || !{{inputs.keep}} && 1''"
    "meaning plain_host fix_context fix_gate = (Inr False, [])" by code_simp+
  with condition_means_its_tree [of fix_gate plain_host fix_context] show ?thesis by simp
qed

fun operands_of :: "cond \<Rightarrow> string list" where
  "operands_of (Test t) = [t]"
| "operands_of (Cmp eq a b) = [a, b]"
| "operands_of (Not c) = operands_of c"
| "operands_of (All cs) = concat (map operands_of cs)"
| "operands_of (Any cs) = concat (map operands_of cs)"

lemma map_filling_ok: "fst (map_filling f xs) = Inr ys \<Longrightarrow> x \<in> set xs \<Longrightarrow> \<exists>y. fst (f x) = Inr y"
  by (induction xs arbitrary: ys) (auto simp: and_then_Inr)

lemma map_filling_all_ok: "\<forall>x \<in> set xs. \<exists>y. fst (f x) = Inr y \<Longrightarrow> \<exists>ys. fst (map_filling f xs) = Inr ys"
  by (induction xs) (auto simp: and_then_Inr pure_def)

lemma meaning_ok: "(\<exists>b. fst (meaning h ctx c) = Inr b) \<longleftrightarrow> (\<forall>t \<in> set (operands_of c). \<exists>v. fst (operand h ctx t) = Inr v)"
proof (induction c)
  case (All cs)
  then show ?case
    using map_filling_ok [of "meaning h ctx" cs] map_filling_all_ok [of cs "meaning h ctx"]
    by (auto simp: and_then_Inr pure_def)
next
  case (Any cs)
  then show ?case
    using map_filling_ok [of "meaning h ctx" cs] map_filling_all_ok [of cs "meaning h ctx"]
    by (auto simp: and_then_Inr pure_def)
qed (auto simp: and_then_Inr pure_def)

text \<open>
  C35. A condition that cannot read what it tests has not answered: it has an answer exactly if every one of
  its operands can be read, also one on the far side of a disjunction that is already true or of a
  conjunction that is already false.
\<close>

theorem no_leaf_is_skipped:
  assumes "wf_cond c"
  shows "(\<exists>b. fst (eval_condition h ctx (show_cond 0 c)) = Inr b) \<longleftrightarrow>
    (\<forall>t \<in> set (operands_of c). \<exists>v. fst (operand h ctx t) = Inr v)"
  unfolding eval_shown [OF assms] by (rule meaning_ok)

theorem no_leaf_is_skipped_witness:
  "\<not> (\<exists>b. fst (eval_condition plain_host fix_context ''true || {{inputs.typo}}'') = Inr b)"
proof -
  let ?c = "Any [Test ''true'', Test ''{{inputs.typo}}'']"
  have "wf_cond ?c" "show_cond 0 ?c = ''true || {{inputs.typo}}''" by code_simp+
  moreover have "fst (operand plain_host fix_context ''{{inputs.typo}}'') = Inl (Unresolved ''typo'' True)" by code_simp
  ultimately show ?thesis
    using no_leaf_is_skipped [of ?c plain_host fix_context] by (auto simp del: show_cond.simps)
qed

end
