(* ===== verification/TriggerLife.thy ===== *)
theory TriggerLife
  imports LongRun
begin

text \<open>
  The life of an automation: \<^verbatim>\<open>triggers/autopause.py\<close> (what one ending does to the state of its trigger),
  \<^verbatim>\<open>triggers/run_record.py\<close> (what the trigger keeps of a run), the stored run history of
  \<^verbatim>\<open>schedule_history.py\<close> those two read, \<^verbatim>\<open>triggers/settle.py\<close> (the ending of work a fire only started), and
  the switches of \<^verbatim>\<open>triggers/service.py\<close> and \<^verbatim>\<open>triggers/tools.py\<close> that bring a trigger back or take it away.

  A \<open>trigger\<close> has the fields of \<open>Trigger\<close> the modelled code reads. Its timestamps, ISO texts on disk, are
  epoch seconds here, and \<open>0\<close> where the text is empty, as \<open>to_epoch\<close> and \<open>to_iso\<close> convert them. A row of
  the history has the fields the decisions read; a key a stored row lacks reads as the empty text.
\<close>

section \<open>The entity\<close>

datatype trigger_state = TrigActive | TrigPaused | TrigAutopaused | TrigParked | TrigQuarantined | TrigRetired

datatype trigger_health = HealthOk | HealthDegraded | HealthParked | HealthFailing

record trigger =
  tg_id :: string
  tg_name :: string
  tg_kind :: string
  tg_enabled :: bool
  tg_spec :: config
  tg_gates :: config
  tg_capabilities :: config
  tg_workflow :: config
  tg_overlap :: string
  tg_failure_policy :: config
  tg_yield_to_user :: bool
  tg_resource_slots :: "string list"
  tg_catch_up :: bool
  tg_expires_at :: rat
  tg_next_fire_at :: rat
  tg_last_run_id :: string
  tg_run_count :: int
  tg_last_success_at :: rat
  tg_last_failure_at :: rat
  tg_last_fired_at :: rat
  tg_last_waiting_at :: rat
  tg_health :: trigger_health
  tg_error :: string
  tg_state :: trigger_state
  tg_park_retry_after :: rat
  tg_restore_hold :: string

definition fires_automatically :: "trigger \<Rightarrow> bool" where
  "fires_automatically t \<longleftrightarrow> tg_enabled t \<and> tg_kind t \<noteq> ''manual'' \<and> tg_state t = TrigActive"

text \<open>\<open>to_epoch(to_iso(t))\<close>: an instant at or before the epoch is written as no instant at all.\<close>

definition stored_time :: "rat \<Rightarrow> rat" where
  "stored_time t = (if t \<le> 0 then 0 else t)"

text \<open>The typed outcomes of a fire, those that count, and those that did nothing.\<close>

definition FIRE_OUTCOMES :: "string list" where
  "FIRE_OUTCOMES = [''ran'', ''ran_late'', ''degraded'', ''skipped_overlap'', ''skipped_budget'', ''skipped_gate'',
     ''skipped_noop'', ''skipped_triage'', ''skipped_missed'', ''deferred'', ''refused'', ''blocked_injection'',
     ''interrupted'', ''stopped'', ''failed'']"

definition TRUE_FAILURE_OUTCOMES :: "string list" where
  "TRUE_FAILURE_OUTCOMES = [''failed'']"

definition INERT_OUTCOMES :: "string list" where
  "INERT_OUTCOMES = [''skipped_overlap'', ''skipped_budget'', ''skipped_gate'', ''skipped_noop'',
     ''skipped_triage'', ''skipped_missed'']"

section \<open>Typed exits\<close>

definition FAILURE_BUDGET :: int where "FAILURE_BUDGET = 5"
definition PARK_COOLDOWN_SECS :: rat where "PARK_COOLDOWN_SECS = 300"

definition EXIT_TYPES :: "string list" where
  "EXIT_TYPES = [''ok'', ''partial'', ''auth_unavailable'', ''transport_unavailable'', ''config_error'', ''failed'']"

definition PARKING_EXITS :: "string list" where
  "PARKING_EXITS = [''auth_unavailable'', ''transport_unavailable'']"

definition IMMEDIATE_PAUSE_EXITS :: "string list" where
  "IMMEDIATE_PAUSE_EXITS = [''config_error'']"

definition park_reason :: "string \<Rightarrow> string" where
  "park_reason e =
     (if e = ''auth_unavailable'' then ''a credential this trigger needs is missing or expired''
      else if e = ''transport_unavailable'' then ''the service this trigger calls was unreachable''
      else ''a resource this trigger needs was unavailable'')"

definition outcome_for_exit :: "string \<Rightarrow> string" where
  "outcome_for_exit e =
     (if e \<in> {''ok'', ''partial''} then ''ran'' else if e \<in> set PARKING_EXITS then ''deferred'' else ''failed'')"

definition TRANSPORT_EXC_NAMES :: "string list" where
  "TRANSPORT_EXC_NAMES = [''ClientConnectorError'', ''ClientOSError'', ''ConnectError'', ''ConnectionError'',
     ''ConnectionResetError'', ''EndpointConnectionError'', ''ReadTimeout'', ''ServerDisconnectedError'',
     ''TimeoutError'', ''TooManyRedirects'']"

definition AUTH_HINTS :: "string list" where
  "AUTH_HINTS = [''401'', ''403'', ''access denied'', ''credential'', ''expired token'', ''forbidden'',
     ''invalid api key'', ''not authenticated'', ''not authorized'', ''unauthorized'']"

definition CONFIG_HINTS :: "string list" where
  "CONFIG_HINTS = [''invalid configuration'', ''missing required'', ''no such provider'',
     ''unknown action provider'', ''unsupported kind'']"

text \<open>An exception is its type's name and its text.\<close>

definition classify_exception :: "(string \<times> string) option \<Rightarrow> string" where
  "classify_exception exc =
     (case exc of
        None \<Rightarrow> ''failed''
      | Some (name, msg) \<Rightarrow>
          (let t = lower (name @ '': '' @ msg) in
           if \<exists>hint \<in> set AUTH_HINTS. sublist hint t then ''auth_unavailable''
           else if name \<in> set TRANSPORT_EXC_NAMES then ''transport_unavailable''
           else if \<exists>hint \<in> set CONFIG_HINTS. sublist hint t then ''config_error''
           else ''failed''))"

text \<open>\<open>int_text\<close> is \<open>int()\<close> of a text, \<open>None\<close> where it raises.\<close>

definition budget_for :: "(string \<Rightarrow> int option) \<Rightarrow> trigger \<Rightarrow> int" where
  "budget_for int_text t =
     (case int_of_field int_text (cfg_get (tg_failure_policy t) ''autopause_after'') of
        Inl _ \<Rightarrow> FAILURE_BUDGET
      | Inr declared \<Rightarrow> if 0 < declared then declared else FAILURE_BUDGET)"

definition counts_toward_autopause :: "string \<Rightarrow> bool" where
  "counts_toward_autopause outcome \<longleftrightarrow> outcome \<in> set TRUE_FAILURE_OUTCOMES"

section \<open>The lifecycle decision\<close>

record pause_decision =
  pd_state :: trigger_state
  pd_failures :: nat
  pd_health :: trigger_health
  pd_reason :: string
  pd_retry_after :: rat

definition pause_evaluate :: "string \<Rightarrow> nat \<Rightarrow> rat \<Rightarrow> int \<Rightarrow> bool \<Rightarrow> pause_decision" where
  "pause_evaluate exit failures now budget quarantined =
     (if quarantined then
        \<lparr>pd_state = TrigQuarantined, pd_failures = failures, pd_health = HealthFailing,
         pd_reason = ''a fire'' @ [CHR 0x27] @ ''s payload matched an injection pattern; quarantined runs never auto-retry'',
         pd_retry_after = 0\<rparr>
      else if exit \<in> {''ok'', ''partial''} then
        \<lparr>pd_state = TrigActive, pd_failures = 0, pd_health = HealthOk, pd_reason = [], pd_retry_after = 0\<rparr>
      else if exit \<in> set PARKING_EXITS then
        \<lparr>pd_state = TrigParked, pd_failures = failures, pd_health = HealthParked,
         pd_reason = park_reason exit, pd_retry_after = now + PARK_COOLDOWN_SECS\<rparr>
      else if exit \<in> set IMMEDIATE_PAUSE_EXITS then
        \<lparr>pd_state = TrigAutopaused, pd_failures = failures + 1, pd_health = HealthFailing,
         pd_reason = ''this trigger is misconfigured and cannot succeed on retry; paused immediately rather than after 5 identical failures'',
         pd_retry_after = 0\<rparr>
      else
        (let count = failures + 1 in
         if max 1 budget \<le> int count then
           \<lparr>pd_state = TrigAutopaused, pd_failures = count, pd_health = HealthFailing,
            pd_reason = ''paused after '' @ nat_str count @ '' failed runs'', pd_retry_after = 0\<rparr>
         else
           \<lparr>pd_state = TrigActive, pd_failures = count, pd_health = HealthDegraded,
            pd_reason = ''failure '' @ nat_str count @ '' of '' @ int_str (max 1 budget), pd_retry_after = 0\<rparr>))"

section \<open>The history a decision is read from\<close>

record run_row =
  rr_run_id :: string
  rr_trigger :: string
  rr_outcome :: string
  rr_source :: string
  rr_started :: rat
  rr_finished :: rat
  rr_status :: string
  rr_summary :: string
  rr_error :: string
  rr_work_id :: string

definition UNSETTLED_STATUSES :: "string list" where
  "UNSETTLED_STATUSES = [''launched'', ''queued'']"

definition yours :: "string \<Rightarrow> bool" where
  "yours source \<longleftrightarrow> source = ''you''"

text \<open>\<open>consecutive_failures_from\<close>, over the rows newest first.\<close>

fun consecutive_failures_from :: "run_row list \<Rightarrow> nat" where
  "consecutive_failures_from [] = 0"
| "consecutive_failures_from (run # runs) =
     (let exit = (if rr_trigger run \<noteq> [] then rr_trigger run else rr_outcome run); status = rr_status run in
      if yours (rr_source run) then consecutive_failures_from runs
      else if status \<in> set UNSETTLED_STATUSES then consecutive_failures_from runs
      else if exit \<in> {''ok'', ''ran'', ''ran_late''} then 0
      else if exit = [] \<and> status \<in> {''success'', ''ok''} then 0
      else if exit \<in> set PARKING_EXITS then consecutive_failures_from runs
      else if exit \<noteq> [] then
        (if counts_toward_autopause exit \<or> exit = ''failed'' then 1 + consecutive_failures_from runs
         else consecutive_failures_from runs)
      else if status \<in> {''failure'', ''timeout'', ''error''} then 1 + consecutive_failures_from runs
      else consecutive_failures_from runs)"

definition deciding_exit :: "run_row \<Rightarrow> string" where
  "deciding_exit row =
     (if rr_status row \<in> set UNSETTLED_STATUSES then []
      else if yours (rr_source row) then []
      else if rr_trigger row \<in> set EXIT_TYPES then rr_trigger row else [])"

definition ending_decision :: "run_row list \<Rightarrow> string \<Rightarrow> rat \<Rightarrow> int \<Rightarrow> bool \<Rightarrow> pause_decision option" where
  "ending_decision rows run_id now budget quarantined =
     (case dropWhile (\<lambda>r. rr_run_id r \<noteq> run_id) rows of
        [] \<Rightarrow> None
      | row # _ \<Rightarrow>
          (let exit = deciding_exit row;
               newer = filter (\<lambda>e. e \<noteq> []) (map deciding_exit (takeWhile (\<lambda>r. rr_run_id r \<noteq> run_id) rows)) in
           if exit = [] then None
           else if newer \<noteq> [] \<and> \<not> (exit = ''failed'' \<and> list_all (\<lambda>e. e = ''failed'') newer) then None
           else Some (pause_evaluate exit (consecutive_failures_from rows - 1) now budget quarantined)))"

definition unpark_due :: "rat \<Rightarrow> rat \<Rightarrow> bool" where
  "unpark_due retry_after now \<longleftrightarrow> retry_after \<le> 0 \<or> retry_after \<le> now"

text \<open>\<open>resume_state\<close>: the new state, or the refusal (its sentence left out).\<close>

definition resume_state :: "trigger_state \<Rightarrow> trigger_state option" where
  "resume_state s = (if s = TrigQuarantined \<or> s = TrigRetired then None else Some TrigActive)"

definition needs_attention :: "trigger_state \<Rightarrow> bool" where
  "needs_attention s \<longleftrightarrow> s = TrigAutopaused \<or> s = TrigQuarantined"

record attention_card =
  ac_state :: trigger_state
  ac_title :: string
  ac_body :: string
  ac_actions :: "string list"

definition attention_card :: "string \<Rightarrow> string \<Rightarrow> pause_decision \<Rightarrow> string \<Rightarrow> attention_card option" where
  "attention_card tid name d last_error =
     (if \<not> needs_attention (pd_state d) then None
      else let who = (if name \<noteq> [] then name else tid);
               why = (if pd_reason d \<noteq> [] then pd_reason d
                      else ''the trigger entered '' @ (if pd_state d = TrigQuarantined then ''quarantined'' else ''autopaused''))
           in Some \<lparr>ac_state = pd_state d,
                ac_title = who @ (if pd_state d = TrigQuarantined then '' was quarantined'' else '' paused itself''),
                ac_body = (if last_error \<noteq> [] then why @ '': '' @ last_error else why),
                ac_actions = (if pd_state d = TrigQuarantined then [''review'', ''delete'']
                              else [''resume'', ''edit'', ''delete''])\<rparr>)"

section \<open>What a trigger keeps of a run\<close>

definition ERROR_MAX :: nat where "ERROR_MAX = 512"
definition STREAK_WINDOW :: nat where "STREAK_WINDOW = 20"

definition status_to_outcome :: "string \<Rightarrow> string option" where
  "status_to_outcome s = map_of
     ([(''success'', ''ran''), (''failure'', ''failed''), (''timeout'', ''failed''), (''interrupted'', ''interrupted''),
       (''stopped'', ''stopped''), (''ran_late'', ''ran_late''), (''degraded'', ''degraded''), (''launched'', ''deferred''),
       (''declined'', ''skipped_gate''), (''refused'', ''refused''), (''queued'', ''deferred''),
       (''blocked_injection'', ''blocked_injection''), (''needs_input'', ''deferred''), (''waiting'', ''deferred'')] @
      map (\<lambda>v. (v, v)) INERT_OUTCOMES) s"

definition WENT_WRONG :: "string list" where
  "WENT_WRONG = [''failed'', ''refused'', ''interrupted'']"

definition count_fire :: "rat \<Rightarrow> trigger \<Rightarrow> trigger" where
  "count_fire at_time t = t\<lparr>tg_run_count := tg_run_count t + 1, tg_last_fired_at := stored_time at_time\<rparr>"

text \<open>\<open>stamp_run\<close>; \<open>clock\<close> is the reading of the clock a missing time falls back to.\<close>

definition stamp_run :: "rat \<Rightarrow> string \<Rightarrow> string \<Rightarrow> string \<Rightarrow> rat \<Rightarrow> trigger \<Rightarrow> trigger" where
  "stamp_run clock status why run_id at_time t =
     (let t = (if run_id \<noteq> [] then t\<lparr>tg_last_run_id := run_id\<rparr> else t);
          stamp = stored_time (if at_time \<noteq> 0 then at_time else clock);
          outcome = (case status_to_outcome status of Some v \<Rightarrow> v | None \<Rightarrow> ''failed'') in
      if status = ''waiting'' then t\<lparr>tg_last_waiting_at := stamp\<rparr>
      else if outcome \<in> set WENT_WRONG then
        t\<lparr>tg_last_failure_at := stamp, tg_error := take ERROR_MAX (if why \<noteq> [] then why else ''the run failed'')\<rparr>
      else if outcome = ''degraded'' \<and> why \<noteq> [] then
        t\<lparr>tg_last_success_at := stamp, tg_error := take ERROR_MAX why\<rparr>
      else t\<lparr>tg_last_success_at := stamp\<rparr>)"

definition autopause_decision ::
    "(string \<Rightarrow> int option) \<Rightarrow> rat \<Rightarrow> trigger \<Rightarrow> run_row list \<Rightarrow> string \<Rightarrow> pause_decision option" where
  "autopause_decision int_text clock t rows run_id =
     ending_decision rows run_id clock (budget_for int_text t) (tg_state t = TrigQuarantined)"

text \<open>\<open>_take\<close>: the trigger as written, and whether the owner is told that it stopped.\<close>

definition take_ending ::
    "rat \<Rightarrow> pause_decision option \<Rightarrow> string \<Rightarrow> string \<Rightarrow> string \<Rightarrow> rat \<Rightarrow> trigger \<Rightarrow> trigger \<times> bool" where
  "take_ending clock decision status why run_id at_time t =
     (let decision = (if needs_attention (tg_state t) then None else decision);
          t' = (case decision of
                  None \<Rightarrow> t
                | Some d \<Rightarrow>
                    t\<lparr>tg_health := pd_health d, tg_state := pd_state d,
                      tg_enabled := (tg_enabled t \<and> \<not> needs_attention (pd_state d)),
                      tg_park_retry_after := (if pd_state d = TrigParked then pd_retry_after d else 0)\<rparr>);
          reason = (case decision of None \<Rightarrow> [] | Some d \<Rightarrow> pd_reason d)
      in (stamp_run clock status (if why \<noteq> [] then why else reason) run_id at_time t',
          case decision of None \<Rightarrow> False | Some d \<Rightarrow> needs_attention (pd_state d)))"

section \<open>The stored history\<close>

text \<open>
  One list of rows per trigger, in the order of its file, and the endings that came before the row they
  settle. Texts are redacted on their way in (\<open>redact\<close>), a summary cut to its cap; a row's trace, which
  nothing here reads, is left out, and so is the index across triggers.
\<close>

definition SUMMARY_CAP :: nat where "SUMMARY_CAP = 200"
definition EARLY_ENDINGS_CAP :: nat where "EARLY_ENDINGS_CAP = 64"
definition MAX_RECORDS_PER_JOB :: nat where "MAX_RECORDS_PER_JOB = 100"
definition MAX_SUPPRESSED_PER_JOB :: nat where "MAX_SUPPRESSED_PER_JOB = MAX_RECORDS_PER_JOB div 4"

record run_end =
  en_status :: string
  en_summary :: string
  en_error :: string
  en_finished :: rat
  en_exit :: string

record run_store =
  rs_rows :: "string \<Rightarrow> run_row list"
  rs_early :: "((string \<times> string) \<times> run_end) list"

definition settle_row :: "run_end \<Rightarrow> run_row \<Rightarrow> run_row" where
  "settle_row e r =
     r\<lparr>rr_status := en_status e, rr_summary := en_summary e, rr_error := en_error e,
       rr_finished := max (rr_started r) (en_finished e),
       rr_trigger := (if en_exit e \<noteq> [] then en_exit e else rr_trigger r)\<rparr>"

definition newest_first :: "run_row list \<Rightarrow> run_row list" where
  "newest_first rows =
     sort_key (\<lambda>r. (- rr_started r, rr_run_id r)) (filter (\<lambda>r. 0 < rr_started r) rows) @
     rev (filter (\<lambda>r. \<not> 0 < rr_started r) rows)"

definition list_for_job :: "run_store \<Rightarrow> string \<Rightarrow> nat \<Rightarrow> run_row list" where
  "list_for_job st job limit = take limit (newest_first (rs_rows st job))"

text \<open>\<open>_rotate_job_locked\<close>: suppressed rows have a quota of their own, work has the rest.\<close>

definition inert_row :: "run_row \<Rightarrow> bool" where
  "inert_row r \<longleftrightarrow> rr_status r \<in> set INERT_OUTCOMES"

definition newest_positions :: "nat \<Rightarrow> (run_row \<Rightarrow> bool) \<Rightarrow> run_row list \<Rightarrow> nat list" where
  "newest_positions k P rows =
     (let at_rows = filter (\<lambda>i. P (rows ! i)) [0..<length rows] in drop (length at_rows - k) at_rows)"

definition rotate_job :: "run_row list \<Rightarrow> run_row list" where
  "rotate_job rows =
     (if length rows \<le> MAX_RECORDS_PER_JOB then rows
      else (let ordered = sort_key rr_started rows;
                kept = newest_positions MAX_SUPPRESSED_PER_JOB inert_row ordered;
                work = newest_positions (MAX_RECORDS_PER_JOB - length kept) (\<lambda>r. \<not> inert_row r) ordered
            in map (nth ordered) (filter (\<lambda>i. i \<in> set kept \<union> set work) [0..<length ordered])))"

text \<open>\<open>append_sync\<close>: an ending that came early is taken by the row it settles; the row as written.\<close>

definition append_row :: "(string \<Rightarrow> string) \<Rightarrow> string \<Rightarrow> run_row \<Rightarrow> run_store \<Rightarrow> run_store \<times> run_row" where
  "append_row redact job run st =
     (let run = run\<lparr>rr_summary := take SUMMARY_CAP (redact (rr_summary run)), rr_error := redact (rr_error run)\<rparr>;
          early = (if rr_work_id run \<noteq> [] \<and> rr_status run \<in> set UNSETTLED_STATUSES
                   then map_of (rs_early st) (job, rr_work_id run) else None);
          run = (case early of None \<Rightarrow> run | Some e \<Rightarrow> settle_row e run);
          waiting = (if early = None then rs_early st else dict_del (rs_early st) (job, rr_work_id run))
      in (\<lparr>rs_rows = (rs_rows st)(job := rotate_job (rs_rows st job @ [run])), rs_early = waiting\<rparr>, run))"

text \<open>Change the last row that satisfies \<open>P\<close>.\<close>

fun update_first :: "('a \<Rightarrow> bool) \<Rightarrow> ('a \<Rightarrow> 'a) \<Rightarrow> 'a list \<Rightarrow> 'a list" where
  "update_first P f [] = []"
| "update_first P f (x # xs) = (if P x then f x # xs else x # update_first P f xs)"

definition update_last :: "('a \<Rightarrow> bool) \<Rightarrow> ('a \<Rightarrow> 'a) \<Rightarrow> 'a list \<Rightarrow> 'a list" where
  "update_last P f xs = rev (update_first P f (rev xs))"

definition settle_sync ::
    "(string \<Rightarrow> string) \<Rightarrow> rat \<Rightarrow> string \<Rightarrow> string \<Rightarrow> run_end \<Rightarrow> run_store \<Rightarrow> run_store \<times> bool" where
  "settle_sync redact clock job work e st =
     (let e = e\<lparr>en_summary := take SUMMARY_CAP (redact (en_summary e)), en_error := redact (en_error e),
                en_finished := (if en_finished e \<noteq> 0 then en_finished e else clock)\<rparr>;
          mine = (\<lambda>r. rr_work_id r = work) in
      if job = [] \<or> work = [] then (st, False)
      else case filter mine (rev (rs_rows st job)) of
             [] \<Rightarrow>
               (let early = dict_set (rs_early st) (job, work) e in
                (st\<lparr>rs_early := drop (length early - EARLY_ENDINGS_CAP) early\<rparr>, True))
           | row # _ \<Rightarrow>
               if rr_status row \<notin> set UNSETTLED_STATUSES then (st, False)
               else (st\<lparr>rs_rows := (rs_rows st)(job := update_last mine (settle_row e) (rs_rows st job))\<rparr>, True))"

definition count_since :: "run_store \<Rightarrow> string \<Rightarrow> rat \<Rightarrow> nat" where
  "count_since st job since = length (filter
     (\<lambda>r. since \<le> rr_started r \<and> \<not> yours (rr_source r) \<and> \<not> inert_row r \<and> rr_trigger r \<noteq> ''refused'')
     (rs_rows st job))"

section \<open>What a finished action says\<close>

record action_result =
  ar_success :: bool
  ar_outcome :: string
  ar_summary :: string
  ar_stdout :: string
  ar_stderr :: string
  ar_error :: string
  ar_exit_code :: int
  ar_work_id :: string
  ar_blocker :: string

definition status_for_result :: "action_result option \<Rightarrow> string" where
  "status_for_result result =
     (case result of
        None \<Rightarrow> ''success''
      | Some r \<Rightarrow>
          if \<not> ar_success r then ''failure''
          else case map_of [(''launched'', ''launched''), (''queued'', ''queued''), (''skip'', ''skipped_noop''),
                  (''needs_input'', ''waiting''), (''degraded'', ''degraded'')] (ar_outcome r) of
                 Some s \<Rightarrow> s | None \<Rightarrow> ''success'')"

definition summary_for_result :: "action_result option \<Rightarrow> string" where
  "summary_for_result result =
     (case result of None \<Rightarrow> [] | Some r \<Rightarrow> if ar_summary r \<noteq> [] then ar_summary r else ar_stdout r)"

definition FAILURE_OUTPUT_TAIL :: nat where "FAILURE_OUTPUT_TAIL = 400"

definition NEWLINE :: char where "NEWLINE = CHR 0x0A"

definition failure_for_result :: "action_result option \<Rightarrow> string" where
  "failure_for_result result =
     (case result of
        None \<Rightarrow> ''the action reported failure''
      | Some r \<Rightarrow>
          (let said = strip (ar_error r); written = strip (ar_stderr r); code = ar_exit_code r;
               cut_end = drop (length written - FAILURE_OUTPUT_TAIL) written;
               tail = (if FAILURE_OUTPUT_TAIL < length written \<and> NEWLINE \<in> set cut_end
                       then tl (dropWhile (\<lambda>c. c \<noteq> NEWLINE) cut_end) else cut_end);
               coded = ''exited with code '' @ int_str code in
           if said \<noteq> [] then said
           else if written \<noteq> [] then (if code \<noteq> 0 then coded @ '': '' @ tail else tail)
           else if code \<noteq> 0 then coded
           else ''the action reported failure''))"

definition ascii_upper :: "char \<Rightarrow> char" where
  "ascii_upper c = (if CHR ''a'' \<le> c \<and> c \<le> CHR ''z'' then char_of (of_char c - (32 :: nat)) else c)"

definition late_summary :: "string \<Rightarrow> string \<Rightarrow> string" where
  "late_summary late summary =
     map ascii_upper (take 1 late) @ drop 1 late @ ''.'' @ (if summary \<noteq> [] then '' '' @ summary else [])"

text \<open>\<open>parks.waiting_line\<close>; \<open>ar_blocker\<close> is the blocker of the card the action composed, if it did.\<close>

definition waiting_line :: "action_result \<Rightarrow> string" where
  "waiting_line r =
     ''Waiting for you. '' @
     (if strip (ar_blocker r) \<noteq> [] then strip (ar_blocker r)
      else if strip (ar_stderr r) \<noteq> [] then strip (ar_stderr r)
      else ''The action stopped and needs you.'')"

definition action_failed :: "action_result option \<Rightarrow> (string \<times> string) option \<Rightarrow> bool" where
  "action_failed result exc \<longleftrightarrow> exc \<noteq> None \<or> (case result of None \<Rightarrow> False | Some r \<Rightarrow> \<not> ar_success r)"

section \<open>The trigger store\<close>

text \<open>\<open>TriggerStore\<close>: a write replaces a row by putting it last. A row switched on holds no restore.\<close>

definition row_written :: "trigger \<Rightarrow> trigger" where
  "row_written t = (if tg_enabled t then t\<lparr>tg_restore_hold := []\<rparr> else t)"

definition get_trigger :: "trigger list \<Rightarrow> string \<Rightarrow> trigger option" where
  "get_trigger ts tid = find (\<lambda>t. tg_id t = tid) ts"

definition upsert :: "trigger \<Rightarrow> trigger list \<Rightarrow> trigger list" where
  "upsert t ts = filter (\<lambda>u. tg_id u \<noteq> tg_id t) ts @ [row_written t]"

definition delete_trigger :: "string \<Rightarrow> trigger list \<Rightarrow> trigger list" where
  "delete_trigger tid ts = filter (\<lambda>u. tg_id u \<noteq> tid) ts"

section \<open>Retiring a one-shot\<close>

text \<open>\<open>float(v)\<close> above zero, else \<open>0\<close> (\<open>arm._positive\<close>; a missing value raises, which reads as \<open>0\<close>).\<close>

definition positive :: "runtime \<Rightarrow> json \<Rightarrow> rat" where
  "positive rt v = (case float_of_field (rt_float rt) v of Inl _ \<Rightarrow> 0 | Inr q \<Rightarrow> if 0 < q then q else 0)"

definition spec_kind :: "runtime \<Rightarrow> trigger \<Rightarrow> string" where
  "spec_kind rt t = or_str (rt_str rt) (cfg_get (tg_spec t) ''kind'')"

definition own_time :: "runtime \<Rightarrow> trigger \<Rightarrow> rat" where
  "own_time rt t = (if spec_kind rt t \<noteq> ''at'' then 0 else positive rt (cfg_get (tg_spec t) ''at''))"

definition DID_ITS_WORK :: "string list" where
  "DID_ITS_WORK = [''ran'', ''ran_late'', ''degraded'', ''skipped_noop'']"

definition retires_after :: "runtime \<Rightarrow> string \<Rightarrow> bool \<Rightarrow> trigger \<Rightarrow> bool" where
  "retires_after rt status from_review t \<longleftrightarrow>
     (case status_to_outcome status of Some v \<Rightarrow> v \<in> set DID_ITS_WORK | None \<Rightarrow> False) \<and>
     truthy (cfg_get (tg_spec t) ''delete_after_run'') \<and> \<not> tg_enabled t \<and> tg_next_fire_at t = 0 \<and>
     0 < own_time rt t \<and> (own_time rt t \<le> tg_last_fired_at t \<or> from_review)"

definition retire_after_run :: "runtime \<Rightarrow> string \<Rightarrow> bool \<Rightarrow> trigger \<Rightarrow> trigger list \<Rightarrow> trigger list" where
  "retire_after_run rt status from_review t ts =
     (if retires_after rt status from_review t then delete_trigger (tg_id t) ts else ts)"

section \<open>Recording a run\<close>

definition run_row_of ::
    "string \<Rightarrow> string \<Rightarrow> string \<Rightarrow> rat \<Rightarrow> rat \<Rightarrow> action_result option \<Rightarrow> (string \<times> string) option \<Rightarrow>
     string \<Rightarrow> string \<Rightarrow> run_row" where
  "run_row_of run_id tag source began finished result exc error late =
     (let row = (\<lambda>status summary failure work. \<lparr>rr_run_id = run_id, rr_trigger = tag, rr_outcome = [],
                   rr_source = source, rr_started = began, rr_finished = finished, rr_status = status,
                   rr_summary = summary, rr_error = take ERROR_MAX failure, rr_work_id = work\<rparr>) in
      if action_failed result exc then
        (let why = (if error \<noteq> [] then error
                    else case exc of Some (name, msg) \<Rightarrow> name @ '': '' @ msg | None \<Rightarrow> []);
             failure = (if why \<noteq> [] then why else failure_for_result result)
         in row ''failure'' failure failure [])
      else
        (let status = status_for_result result;
             summary = (case result of Some r \<Rightarrow> if status = ''waiting'' then waiting_line r
                                                  else summary_for_result result
                        | None \<Rightarrow> []);
             status' = (if late \<noteq> [] \<and> status = ''success'' then ''ran_late'' else status);
             summary' = (if late \<noteq> [] then late_summary late summary else summary);
             work = (if status' \<in> set UNSETTLED_STATUSES
                     then (case result of Some r \<Rightarrow> ar_work_id r | None \<Rightarrow> []) else [])
         in row status' summary' [] work))"

record life_world =
  lw_triggers :: "trigger list"
  lw_runs :: run_store

text \<open>
  \<open>record_run\<close>: the world after it, the row's id, and whether the owner is told the trigger stopped.
  \<open>clock\<close> stands for the readings of the clock it makes; raising a parked action's question is outside.
\<close>

definition run_tag :: "action_result option \<Rightarrow> (string \<times> string) option \<Rightarrow> string" where
  "run_tag result exc =
     (if exc \<noteq> None then classify_exception exc else if action_failed result None then ''failed'' else ''ok'')"

definition record_run ::
    "(string \<Rightarrow> string) \<Rightarrow> (string \<Rightarrow> int option) \<Rightarrow> runtime \<Rightarrow> rat \<Rightarrow> string \<Rightarrow> rat \<Rightarrow> action_result option \<Rightarrow>
     (string \<times> string) option \<Rightarrow> string \<Rightarrow> string \<Rightarrow> string \<Rightarrow> life_world \<Rightarrow> life_world \<times> string \<times> bool" where
  "record_run redact int_text rt clock tid started result exc error late source w =
     (if tid = [] then (w, [], False)
      else
        let mine = yours source;
            run_id = (if mine then ''manual-'' else ''fire-'') @ int_str (rat_trunc (clock * 1000));
            run = run_row_of run_id (run_tag result exc) source
                    (min (if started \<noteq> 0 then started else clock) clock) clock result exc error late;
            (runs, written) = append_row redact tid run (lw_runs w);
            settled = rr_status written \<noteq> rr_status run;
            status = rr_status written;
            why = (if settled then (if status = ''failure'' then rr_error written else [])
                   else if status = ''failure'' then rr_error run
                   else if status = ''degraded'' then rr_summary run else []);
            w = w\<lparr>lw_runs := runs\<rparr>
        in case get_trigger (lw_triggers w) tid of
             None \<Rightarrow> (w, run_id, False)
           | Some live \<Rightarrow>
               (let decision = (if mine then None
                     else autopause_decision int_text clock live (list_for_job runs tid STREAK_WINDOW) run_id);
                    (live', told) = take_ending clock decision status why run_id clock live;
                    ts = retire_after_run rt status (mine \<and> late \<noteq> []) live' (upsert live' (lw_triggers w))
                in (w\<lparr>lw_triggers := ts\<rparr>, run_id, told)))"

text \<open>\<open>record_refusal\<close>: the row's id and whether this is news for the owner.\<close>

definition refused_for :: "trigger \<Rightarrow> string \<Rightarrow> bool" where
  "refused_for t why \<longleftrightarrow> 0 < tg_last_failure_at t \<and> tg_last_success_at t \<le> tg_last_failure_at t \<and>
     tg_last_waiting_at t \<le> tg_last_failure_at t \<and> tg_error t = take ERROR_MAX why"

definition record_refusal ::
    "(string \<Rightarrow> string) \<Rightarrow> rat \<Rightarrow> string \<Rightarrow> string \<Rightarrow> string \<Rightarrow> life_world \<Rightarrow> life_world \<times> string \<times> bool" where
  "record_refusal redact clock tid why source w =
     (if tid = [] then (w, [], True)
      else
        let run_id = ''refused-'' @ int_str (rat_trunc (clock * 1000));
            run = \<lparr>rr_run_id = run_id, rr_trigger = ''refused'', rr_outcome = [], rr_source = source,
                   rr_started = clock, rr_finished = clock, rr_status = ''refused'', rr_summary = why,
                   rr_error = take ERROR_MAX why, rr_work_id = []\<rparr>;
            w = w\<lparr>lw_runs := fst (append_row redact tid run (lw_runs w))\<rparr>
        in case get_trigger (lw_triggers w) tid of
             None \<Rightarrow> (w, run_id, True)
           | Some live \<Rightarrow>
               (w\<lparr>lw_triggers := upsert (stamp_run clock ''refused'' why run_id clock live) (lw_triggers w)\<rparr>,
                run_id, \<not> refused_for live why))"

text \<open>\<open>record_ending\<close>: the work a run only started has ended, and its row says how.\<close>

definition record_ending ::
    "(string \<Rightarrow> int option) \<Rightarrow> rat \<Rightarrow> string \<Rightarrow> string \<Rightarrow> string \<Rightarrow> string \<Rightarrow> life_world \<Rightarrow> life_world \<times> bool" where
  "record_ending int_text clock tid work status why w =
     (case get_trigger (lw_triggers w) tid of
        None \<Rightarrow> (w, False)
      | Some live \<Rightarrow>
          (let rows = list_for_job (lw_runs w) tid STREAK_WINDOW;
               row = find (\<lambda>r. rr_work_id r = work) rows;
               decision = (case row of
                   Some r \<Rightarrow> if tg_enabled live then autopause_decision int_text clock live rows (rr_run_id r) else None
                 | None \<Rightarrow> None);
               (live', told) = take_ending clock decision status why []
                 (case row of Some r \<Rightarrow> rr_finished r | None \<Rightarrow> 0) live
           in (w\<lparr>lw_triggers := upsert live' (lw_triggers w)\<rparr>, told)))"

section \<open>The ending of work a fire only started\<close>

definition exit_for :: "string \<Rightarrow> string" where
  "exit_for status =
     (if status = ''success'' then ''ok'' else if status = ''failure'' then ''failed''
      else case status_to_outcome status of Some v \<Rightarrow> v | None \<Rightarrow> status)"

record agent_info =
  ai_trigger_id :: string
  ai_id :: string
  ai_declined :: bool
  ai_cancelled :: bool
  ai_error :: string
  ai_refused :: "string list"
  ai_result :: string
  ai_held_back :: string

definition refused_line :: "string list \<Rightarrow> string" where
  "refused_line refused =
     ''Its limits refused '' @
     (if length refused = 1 then ''1 call'' else nat_str (length refused) @ '' calls'') @
     '' ('' @ join_with '', '' (push_all (filter (\<lambda>n. n \<noteq> []) refused) []) @
     ''), so it may not have done all it was asked.''"

definition with_why_it_was_held_back :: "agent_info \<Rightarrow> string \<Rightarrow> string" where
  "with_why_it_was_held_back info said =
     (if ai_held_back info \<noteq> [] then strip (ai_held_back info @ '' '' @ said) else said)"

definition agent_status :: "agent_info \<Rightarrow> string" where
  "agent_status info =
     (if ai_declined info then ''declined'' else if ai_cancelled info then ''stopped''
      else if ai_error info \<noteq> [] then ''failure'' else if ai_refused info \<noteq> [] then ''refused'' else ''success'')"

definition agent_said :: "agent_info \<Rightarrow> string" where
  "agent_said info =
     (if ai_declined info then ''You declined it, so it did not run.''
      else if ai_cancelled info then
        (if ai_error info \<noteq> [] then ai_error info else ''It was stopped before it finished.'')
      else with_why_it_was_held_back info
        (if ai_error info \<noteq> [] then ai_error info
         else if ai_refused info \<noteq> [] then strip (refused_line (ai_refused info) @ '' '' @ ai_result info)
         else ai_result info))"

text \<open>\<open>settle_agent_run\<close>: the world, whether the row took the ending, and whether the owner is told.\<close>

definition settle_agent_run ::
    "(string \<Rightarrow> string) \<Rightarrow> (string \<Rightarrow> int option) \<Rightarrow> rat \<Rightarrow> agent_info \<Rightarrow> life_world \<Rightarrow> life_world \<times> bool \<times> bool" where
  "settle_agent_run redact int_text clock info w =
     (let tid = ai_trigger_id info; work = ''subagent:'' @ ai_id info; status = agent_status info;
          error = (if ai_declined info \<or> ai_cancelled info then [] else ai_error info) in
      if tid = [] \<or> ai_id info = [] \<or> prefix ''lifecycle:'' tid then (w, False, False)
      else
        (let (runs, taken) = settle_sync redact clock tid work
               \<lparr>en_status = status, en_summary = agent_said info, en_error = error, en_finished = 0,
                en_exit = exit_for status\<rparr> (lw_runs w);
             w = w\<lparr>lw_runs := runs\<rparr>
         in if taken \<and> \<not> (ai_declined info \<or> ai_cancelled info) then
              (let (w', told) = record_ending int_text clock tid work status
                     (with_why_it_was_held_back info
                        (if status = ''refused'' then refused_line (ai_refused info) else error)) w
               in (w', taken, told))
            else (w, taken, False)))"

definition settle_workflow_run ::
    "(string \<Rightarrow> string) \<Rightarrow> (string \<Rightarrow> int option) \<Rightarrow> rat \<Rightarrow> string \<Rightarrow> string \<Rightarrow> run_status \<Rightarrow> string \<Rightarrow> string \<Rightarrow>
     life_world \<Rightarrow> life_world \<times> bool \<times> bool" where
  "settle_workflow_run redact int_text clock tid run_id ended error summary w =
     (let work = ''workflow:'' @ run_id;
          status = (case ended of RunComplete \<Rightarrow> ''success'' | RunCancelled \<Rightarrow> ''stopped''
                    | RunDeclined \<Rightarrow> ''declined'' | _ \<Rightarrow> ''failure'');
          finished = (if summary \<noteq> [] then summary else ''The workflow run '' @ run_ending RunComplete @ ''.'');
          failure = (if status = ''failure'' then error else []) in
      if tid = [] \<or> run_id = [] \<or> prefix ''lifecycle:'' tid then (w, False, False)
      else
        (let (runs, taken) = settle_sync redact clock tid work
               \<lparr>en_status = status, en_summary = (if status = ''success'' then finished else error),
                en_error = failure, en_finished = 0, en_exit = exit_for status\<rparr> (lw_runs w);
             w = w\<lparr>lw_runs := runs\<rparr>
         in if taken \<and> (status = ''success'' \<or> status = ''failure'') then
              (let (w', told) = record_ending int_text clock tid work status failure w in (w', taken, told))
            else (w, taken, False)))"

section \<open>Coming back from a park, and the budget of fires\<close>

definition unparks :: "(trigger \<Rightarrow> bool) \<Rightarrow> rat \<Rightarrow> trigger \<Rightarrow> bool" where
  "unparks waits_on_absent_source now t \<longleftrightarrow>
     tg_state t = TrigParked \<and> unpark_due (tg_park_retry_after t) now \<and> \<not> waits_on_absent_source t"

definition unparked :: "trigger \<Rightarrow> trigger" where
  "unparked t = t\<lparr>tg_state := TrigActive, tg_health := HealthOk, tg_park_retry_after := 0\<rparr>"

definition unpark_ready :: "(trigger \<Rightarrow> bool) \<Rightarrow> rat \<Rightarrow> string list \<Rightarrow> trigger list \<Rightarrow> trigger list" where
  "unpark_ready waits_on_absent_source now =
     fold (\<lambda>tid ts. case get_trigger ts tid of
        Some t \<Rightarrow> if unparks waits_on_absent_source now t then upsert (unparked t) ts else ts
      | None \<Rightarrow> ts)"

text \<open>\<open>_budget_remaining\<close>: \<open>None\<close> without a cap; a malformed cap leaves nothing.\<close>

definition budget_remaining :: "(string \<Rightarrow> int option) \<Rightarrow> trigger \<Rightarrow> int option" where
  "budget_remaining int_text t =
     (case int_of_field int_text (cfg_get (tg_gates t) ''max_fires'') of
        Inl _ \<Rightarrow> Some 0
      | Inr cap \<Rightarrow> if cap \<le> 0 then None else Some (max 0 (cap - tg_run_count t)))"

definition budget_spent :: "(string \<Rightarrow> int option) \<Rightarrow> trigger \<Rightarrow> bool" where
  "budget_spent int_text t = (case budget_remaining int_text t of None \<Rightarrow> False | Some n \<Rightarrow> n \<le> 0)"

definition retire_if_spent :: "(string \<Rightarrow> int option) \<Rightarrow> trigger \<Rightarrow> trigger list \<Rightarrow> trigger list \<times> bool" where
  "retire_if_spent int_text t ts =
     (if budget_spent int_text t then (upsert (t\<lparr>tg_enabled := False\<rparr>) ts, True) else (ts, False))"

definition since_last_fire :: "rat \<Rightarrow> trigger \<Rightarrow> rat option" where
  "since_last_fire now t = (if tg_last_fired_at t \<le> 0 then None else Some (max 0 (now - tg_last_fired_at t)))"

definition note_fire :: "string \<Rightarrow> rat \<Rightarrow> trigger list \<Rightarrow> trigger list" where
  "note_fire tid at_time ts =
     (case get_trigger ts tid of None \<Rightarrow> ts | Some t \<Rightarrow> upsert (count_fire at_time t) ts)"

end
