(* ===== verification/FirePath.thy ===== *)
theory FirePath
  imports TriggerLife
begin

text \<open>
  How one fire of an automation is admitted: \<^verbatim>\<open>triggers/firepath.py\<close> (the gates in their order),
  \<^verbatim>\<open>triggers/claims.py\<close> and \<open>claim_fire\<close> of \<^verbatim>\<open>triggers/scheduling.py\<close> (which trigger is running, and who
  holds a named resource), the capability fence of \<^verbatim>\<open>triggers/screen.py\<close> and \<^verbatim>\<open>triggers/pathguard.py\<close>, the
  quiet windows and the duty gate of \<^verbatim>\<open>triggers/calendar.py\<close>, and \<open>admit_fire\<close> of \<^verbatim>\<open>triggers/service.py\<close>,
  which gathers what the gates read and records what they decide.

  What the admission takes from outside is one record: the text functions, the incident switch, the
  injection screen's verdict on a text, the registered duty gates, the declared effect of an app's route,
  the liveness probe of a target, this process's id and image, the processes alive, and what the file
  system says of a path. The sentence of a refusal is left out; its gate and outcome are kept.
\<close>

section \<open>What the admission takes from outside\<close>

text \<open>A moment of local time: the weekday from Monday, and the seconds since midnight.\<close>

record moment =
  mo_weekday :: nat
  mo_secs :: rat

record fire_env =
  fe_rt :: runtime
  fe_int_text :: "string \<Rightarrow> int option"
  fe_incident :: bool
  fe_screen_blocks :: "string \<Rightarrow> bool"
  fe_duty_gate :: "string \<Rightarrow> (moment \<Rightarrow> config \<Rightarrow> bool option) option"
  fe_safe_effect :: "string \<Rightarrow> config \<Rightarrow> bool"
  fe_target_active :: "trigger \<Rightarrow> rat \<Rightarrow> bool"
  fe_moment :: "rat \<Rightarrow> moment"
  fe_pid :: int
  fe_image :: string
  fe_alive :: "int \<Rightarrow> bool"
  fe_realpath :: "string \<Rightarrow> string"
  fe_sensitive :: "string \<Rightarrow> bool"
  fe_redact :: "string \<Rightarrow> string"

section \<open>Claims\<close>

definition CLAIM_MAX_DURATION_SECS :: rat where "CLAIM_MAX_DURATION_SECS = 3600"

record claim =
  cl_trigger_id :: string
  cl_holder :: string
  cl_claimed_at :: rat
  cl_max_secs :: rat
  cl_owner_pid :: int
  cl_owner_image :: string

definition claim_expired :: "rat \<Rightarrow> claim \<Rightarrow> bool" where
  "claim_expired now c \<longleftrightarrow> cl_claimed_at c + max 1 (cl_max_secs c) \<le> now"

text \<open>\<open>claim_fire\<close>: the claim granted, or \<open>None\<close> where one is held.\<close>

definition claim_fire :: "fire_env \<Rightarrow> claim option \<Rightarrow> string \<Rightarrow> string \<Rightarrow> rat \<Rightarrow> string \<Rightarrow> claim option" where
  "claim_fire env existing tid holder now overlap =
     (let granted = \<lparr>cl_trigger_id = tid, cl_holder = holder, cl_claimed_at = now,
                     cl_max_secs = CLAIM_MAX_DURATION_SECS, cl_owner_pid = fe_pid env, cl_owner_image = fe_image env\<rparr>
      in if overlap = ''parallel'' then Some granted
         else case existing of
                Some c \<Rightarrow> if claim_expired now c then Some granted else None
              | None \<Rightarrow> Some granted)"

text \<open>
  The directory of claims: a file per trigger, its name the id with every run of other characters made one
  dash. A file that is missing or is no JSON is not in the list.
\<close>

type_synonym claim_files = "(string \<times> json) list"

definition safe_char :: "char \<Rightarrow> bool" where
  "safe_char c \<longleftrightarrow> (CHR ''A'' \<le> c \<and> c \<le> CHR ''Z'') \<or> is_lower_letter c \<or> is_digit c \<or> c \<in> set ''._-''"

fun dashed :: "bool \<Rightarrow> string \<Rightarrow> string" where
  "dashed in_run [] = []"
| "dashed in_run (c # cs) =
     (if safe_char c then c # dashed False cs
      else if in_run then dashed True cs else CHR ''-'' # dashed True cs)"

definition claim_file :: "string \<Rightarrow> string" where
  "claim_file tid = (if dashed False tid \<noteq> [] then dashed False tid else ''claim'') @ ''.json''"

definition read_claim :: "fire_env \<Rightarrow> rat \<Rightarrow> claim_files \<Rightarrow> string \<Rightarrow> claim option" where
  "read_claim env now files tid =
     (case map_of files (claim_file tid) of
        Some (JObj raw) \<Rightarrow>
          (let float_text = rt_float (fe_rt env); str = or_str (rt_str (fe_rt env));
               longest = cfg_get raw ''max_duration_secs'' in
           case (float_of_field float_text (cfg_get raw ''claimed_at''),
                 float_of_field float_text (if truthy longest then longest else JFloat CLAIM_MAX_DURATION_SECS),
                 int_of_field (fe_int_text env) (cfg_get raw ''owner_pid'')) of
             (Inr claimed_at, Inr max_secs, Inr owner_pid) \<Rightarrow>
               if claimed_at \<le> 0 \<or> max_secs \<le> now - claimed_at then None
               else Some \<lparr>cl_trigger_id = (if truthy (cfg_get raw ''trigger_id'') then str (cfg_get raw ''trigger_id'') else tid),
                      cl_holder = str (cfg_get raw ''holder''), cl_claimed_at = claimed_at, cl_max_secs = max_secs,
                      cl_owner_pid = owner_pid, cl_owner_image = str (cfg_get raw ''owner_image'')\<rparr>
           | _ \<Rightarrow> None)
      | _ \<Rightarrow> None)"

definition claim_payload :: "claim \<Rightarrow> json" where
  "claim_payload c = JObj
     [(''trigger_id'', JStr (cl_trigger_id c)), (''holder'', JStr (cl_holder c)),
      (''claimed_at'', JFloat (cl_claimed_at c)),
      (''max_duration_secs'', JFloat (if cl_max_secs c \<noteq> 0 then cl_max_secs c else CLAIM_MAX_DURATION_SECS)),
      (''owner_pid'', JInt (cl_owner_pid c)), (''owner_image'', JStr (cl_owner_image c))]"

definition write_claim :: "claim \<Rightarrow> claim_files \<Rightarrow> claim_files" where
  "write_claim c files =
     (if cl_trigger_id c = [] then files else dict_set files (claim_file (cl_trigger_id c)) (claim_payload c))"

text \<open>\<open>release_claim\<close>, and whether there was one.\<close>

definition release_claim :: "string \<Rightarrow> claim_files \<Rightarrow> claim_files \<times> bool" where
  "release_claim tid files = (dict_del files (claim_file tid), map_of files (claim_file tid) \<noteq> None)"

definition is_running :: "fire_env \<Rightarrow> rat \<Rightarrow> claim_files \<Rightarrow> string \<Rightarrow> bool" where
  "is_running env now files tid \<longleftrightarrow> read_claim env now files tid \<noteq> None"

definition running_since :: "fire_env \<Rightarrow> rat \<Rightarrow> claim_files \<Rightarrow> string \<Rightarrow> rat option" where
  "running_since env now files tid = map_option cl_claimed_at (read_claim env now files tid)"

definition running_ids :: "fire_env \<Rightarrow> rat \<Rightarrow> claim_files \<Rightarrow> string list" where
  "running_ids env now files =
     concat (map (\<lambda>(name, content). case content of
         JObj raw \<Rightarrow>
           (let tid = or_str (rt_str (fe_rt env)) (cfg_get raw ''trigger_id'') in
            if tid \<noteq> [] \<and> is_running env now files tid then [tid] else [])
       | _ \<Rightarrow> []) (sort_key fst files))"

text \<open>\<open>orphaned_ids\<close>: the live claims whose owner is provably gone.\<close>

definition owner_gone :: "fire_env \<Rightarrow> claim \<Rightarrow> bool" where
  "owner_gone env c \<longleftrightarrow>
     0 < cl_owner_pid c \<and>
     (if cl_owner_pid c = fe_pid env then cl_owner_image c \<noteq> [] \<and> cl_owner_image c \<noteq> fe_image env
      else \<not> fe_alive env (cl_owner_pid c))"

definition orphaned_ids :: "fire_env \<Rightarrow> rat \<Rightarrow> claim_files \<Rightarrow> (string \<times> int) list" where
  "orphaned_ids env now files =
     sort (concat (map (\<lambda>tid. case read_claim env now files tid of
         None \<Rightarrow> []
       | Some c \<Rightarrow> if owner_gone env c then [(tid, cl_owner_pid c)] else []) (running_ids env now files)))"

text \<open>Who a claim's holder says asked for the run.\<close>

definition ASKERS :: "string list" where
  "ASKERS = [''you'', ''agent'', ''app'', ''automation'', ''program'']"

definition hand_run_holder :: "string \<Rightarrow> rat \<Rightarrow> string" where
  "hand_run_holder event at_time = ''hand:'' @ event @ '':'' @ int_str (rat_trunc at_time)"

definition asked_holder :: "string \<Rightarrow> rat \<Rightarrow> string" where
  "asked_holder source at_time = ''asked:'' @ source @ '':'' @ int_str (rat_trunc at_time)"

definition source_of :: "string \<Rightarrow> string" where
  "source_of holder =
     (if prefix ''hand:'' holder then ''you''
      else if prefix ''asked:'' holder then
        (let asker = hd (split_on (\<lambda>c. c = CHR '':'') (drop 6 holder)) in
         if asker \<in> set ASKERS \<and> \<not> yours asker then asker else [])
      else [])"

section \<open>Named resources\<close>

text \<open>The trigger that holds each slot: the first running one in store order. Rows that do not parse hold none.\<close>

definition slot_holders :: "fire_env \<Rightarrow> (trigger \<Rightarrow> bool) \<Rightarrow> rat \<Rightarrow> claim_files \<Rightarrow> trigger list \<Rightarrow> (string \<times> string) list" where
  "slot_holders env parses now files ts =
     fold (\<lambda>t held.
         if \<not> parses t \<or> \<not> is_running env now files (tg_id t) then held
         else fold (\<lambda>slot held. let name = strip slot in
                if name \<noteq> [] \<and> map_of held name = None then held @ [(name, tg_id t)] else held)
              (tg_resource_slots t) held)
       ts []"

text \<open>The first slot the trigger wants and cannot have, with its holder.\<close>

fun first_busy :: "(string \<times> string) list \<Rightarrow> string \<Rightarrow> string list \<Rightarrow> (string \<times> string) option" where
  "first_busy holders tid [] = None"
| "first_busy holders tid (slot # slots) =
     (let name = strip slot in
      case map_of holders name of
        Some holder \<Rightarrow> if name \<noteq> [] \<and> holder \<noteq> [] \<and> holder \<noteq> tid then Some (name, holder)
                       else first_busy holders tid slots
      | None \<Rightarrow> first_busy holders tid slots)"

definition busy_slot :: "trigger \<Rightarrow> (string \<times> string) list \<Rightarrow> (string \<times> string) option" where
  "busy_slot t holders = first_busy holders (tg_id t) (tg_resource_slots t)"


section \<open>The capability fence\<close>

definition CAPABILITY_KEYS :: "string list" where
  "CAPABILITY_KEYS = [''tools'', ''providers'', ''paths'', ''env'', ''network'']"

definition READ_ONLY_PROVIDERS :: "string list" where
  "READ_ONLY_PROVIDERS = [''notify'', ''send-message'', ''create-task'', ''knowledge-retrieve'', ''knowledge-health'',
     ''knowledge-gaps'', ''artifact_inspect'', ''selfqa-triage'', ''check-work'']"

definition READ_ONLY_WHEN_DECLARED :: "string list" where
  "READ_ONLY_WHEN_DECLARED = [''call-app-route'']"

definition matches_entry :: "string \<Rightarrow> string \<Rightarrow> bool" where
  "matches_entry value entry =
     (if entry = [] then False
      else if entry = ''*'' then True
      else if last entry = CHR ''*'' then prefix (butlast entry) value
      else value = entry)"

definition provider_is_read_only :: "fire_env \<Rightarrow> string \<Rightarrow> config option \<Rightarrow> bool" where
  "provider_is_read_only env provider cfg =
     (let name = strip provider in
      if name = [] then False
      else if name \<in> set READ_ONLY_WHEN_DECLARED then
        (case cfg of None \<Rightarrow> False | Some c \<Rightarrow> fe_safe_effect env name c)
      else name \<in> set READ_ONLY_PROVIDERS)"

text \<open>The action of a trigger, inline or flat.\<close>

definition action_block :: "trigger \<Rightarrow> config" where
  "action_block t =
     (case cfg_get (tg_workflow t) ''inline'' of
        JObj d \<Rightarrow> if d \<noteq> [] then d else tg_workflow t
      | _ \<Rightarrow> tg_workflow t)"

definition action_config :: "trigger \<Rightarrow> config" where
  "action_config t = (case cfg_get (action_block t) ''config'' of JObj d \<Rightarrow> d | _ \<Rightarrow> [])"

definition requested_capabilities :: "runtime \<Rightarrow> trigger \<Rightarrow> (string \<times> string list) list" where
  "requested_capabilities rt t =
     (let provider = strip (or_str (rt_str rt) (cfg_get (action_block t) ''provider'')) in
      if provider = [] then [] else [(''providers'', [provider])])"

definition capabilities_for_action :: "fire_env \<Rightarrow> trigger \<Rightarrow> string list" where
  "capabilities_for_action env t =
     filter (\<lambda>p. \<not> provider_is_read_only env p (Some (action_config t)))
       (case map_of (requested_capabilities (fe_rt env) t) ''providers'' of Some ps \<Rightarrow> ps | None \<Rightarrow> [])"

text \<open>
  \<open>pathguard\<close>: containment is decided component by component on canonical paths, never by prefix.
  \<open>commonpath([c, r]) == r\<close> for two absolute canonical paths.
\<close>

definition components :: "string \<Rightarrow> string list" where
  "components path = filter (\<lambda>c. c \<noteq> []) (split_on (\<lambda>c. c = CHR ''/'') path)"

definition is_within :: "fire_env \<Rightarrow> string \<Rightarrow> string \<Rightarrow> bool" where
  "is_within env candidate base =
     (let real_candidate = fe_realpath env candidate; real_root = fe_realpath env base in
      if real_candidate = [] \<or> real_root = [] then False
      else real_candidate = real_root \<or> prefix (components real_root) (components real_candidate))"

definition scope_root :: "string \<Rightarrow> string" where
  "scope_root entry =
     (let r = (if last entry = CHR ''*'' then butlast entry else entry);
          bare = rev (dropWhile (\<lambda>c. c = CHR ''/'') (rev r))
      in if bare = [] then ''/'' else bare)"

definition path_allowed :: "fire_env \<Rightarrow> json list \<Rightarrow> string \<Rightarrow> bool" where
  "path_allowed env entries candidate =
     (let real = fe_realpath env candidate in
      entries \<noteq> [] \<and> real \<noteq> [] \<and> \<not> fe_sensitive env real \<and>
      (\<exists>e \<in> set entries. case e of JStr s \<Rightarrow> s \<noteq> [] \<and> is_within env real (scope_root s) | _ \<Rightarrow> False))"

definition capability_allows :: "fire_env \<Rightarrow> config \<Rightarrow> string \<Rightarrow> string \<Rightarrow> bool" where
  "capability_allows env capabilities key value =
     (if key \<notin> set CAPABILITY_KEYS then False
      else if capabilities = [] then False
      else case cfg_get capabilities key of
             JList entries \<Rightarrow>
               if key = ''paths'' then path_allowed env entries value
               else \<exists>e \<in> set entries. case e of JStr s \<Rightarrow> matches_entry value s | _ \<Rightarrow> False
           | _ \<Rightarrow> False)"

definition unfenced_actions ::
    "fire_env \<Rightarrow> config \<Rightarrow> (string \<times> string list) list \<Rightarrow> (string \<times> string) list" where
  "unfenced_actions env capabilities requested =
     concat (map (\<lambda>(key, values). map (\<lambda>v. (key, v)) (filter (\<lambda>v. \<not> capability_allows env capabilities key v) values))
       requested)"

definition ungranted_providers :: "fire_env \<Rightarrow> trigger \<Rightarrow> string list" where
  "ungranted_providers env t =
     filter (\<lambda>p. \<not> capability_allows env (tg_capabilities t) ''providers'' p) (capabilities_for_action env t)"

text \<open>\<open>grant_action\<close>: the owner's yes, frozen into the block; what was granted.\<close>

fun text_entries :: "json \<Rightarrow> json list" where
  "text_entries (JList es) = filter (\<lambda>e. case e of JStr _ \<Rightarrow> True | _ \<Rightarrow> False) es"
| "text_entries _ = []"

definition grant_action :: "fire_env \<Rightarrow> trigger \<Rightarrow> trigger \<times> string list" where
  "grant_action env t =
     (let granted = ungranted_providers env t; held = text_entries (cfg_get (tg_capabilities t) ''providers'') in
      if granted = [] then (t, [])
      else (t\<lparr>tg_capabilities := dict_set (tg_capabilities t) ''providers''
              (JList (held @ filter (\<lambda>e. e \<notin> set held) (map JStr granted)))\<rparr>, granted))"

section \<open>Quiet windows\<close>

definition DAYS :: "string list" where
  "DAYS = [''mon'', ''tue'', ''wed'', ''thu'', ''fri'', ''sat'', ''sun'']"

definition DAY_ALIASES :: "(string \<times> string list) list" where
  "DAY_ALIASES = [(''weekdays'', [''mon'', ''tue'', ''wed'', ''thu'', ''fri'']), (''weekends'', [''sat'', ''sun'']),
     (''daily'', DAYS), (''all'', DAYS)]"

definition hour_text :: "string \<Rightarrow> bool" where
  "hour_text h \<longleftrightarrow> list_all is_digit h \<and> (length h = 1 \<or> length h = 2 \<and> digits_val h < 24)"

definition minute_text :: "string \<Rightarrow> bool" where
  "minute_text m \<longleftrightarrow> list_all is_digit m \<and> length m = 2 \<and> digits_val m < 60"

definition parse_hhmm :: "string \<Rightarrow> nat option" where
  "parse_hhmm v =
     (case split_on (\<lambda>c. c = CHR '':'') (strip v) of
        [h, m] \<Rightarrow> if hour_text h \<and> minute_text m then Some (digits_val h * 60 + digits_val m) else None
      | _ \<Rightarrow> None)"

record quiet_window =
  qw_start :: string
  qw_end :: string
  qw_days :: "string list"

definition window_valid :: "quiet_window \<Rightarrow> bool" where
  "window_valid w \<longleftrightarrow> parse_hhmm (qw_start w) \<noteq> None \<and> parse_hhmm (qw_end w) \<noteq> None \<and>
     parse_hhmm (qw_start w) \<noteq> parse_hhmm (qw_end w) \<and> qw_days w \<noteq> []"

text \<open>Day tokens with their aliases; what is no day is dropped, and no day at all means every day.\<close>

definition day_token :: "string \<Rightarrow> string list" where
  "day_token token =
     (let key = take 9 (lower (strip token)) in
      case map_of DAY_ALIASES key of
        Some ds \<Rightarrow> ds
      | None \<Rightarrow> if take 3 key \<in> set DAYS then [take 3 key] else [])"

definition parse_days :: "runtime \<Rightarrow> json \<Rightarrow> string list" where
  "parse_days rt raw =
     (let tokens = (case raw of JStr s \<Rightarrow> Some [s] | JList vs \<Rightarrow> Some (map (py_str rt) vs) | _ \<Rightarrow> None) in
      case tokens of
        None \<Rightarrow> DAYS
      | Some ts \<Rightarrow>
          (let found = concat (map day_token ts) in
           if found = [] then DAYS else filter (\<lambda>d. d \<in> set found) DAYS))"

definition parse_window :: "runtime \<Rightarrow> json \<Rightarrow> quiet_window option" where
  "parse_window rt entry =
     (case entry of
        JObj d \<Rightarrow>
          (let w = \<lparr>qw_start = or_str (rt_str rt) (cfg_get d ''start''), qw_end = or_str (rt_str rt) (cfg_get d ''end''),
                    qw_days = parse_days rt (cfg_get d ''days'')\<rparr>
           in if window_valid w then Some w else None)
      | _ \<Rightarrow> None)"

definition parse_windows :: "runtime \<Rightarrow> json \<Rightarrow> quiet_window list" where
  "parse_windows rt raw =
     (let entries =
        (if \<not> truthy raw then []
         else case raw of
                JObj d \<Rightarrow>
                  (case cfg_get d ''windows'' of
                     JList ws \<Rightarrow> ws
                   | _ \<Rightarrow> if \<not> truthy (cfg_get d ''start'') \<and> \<not> truthy (cfg_get d ''end'') then [] else [raw])
              | JList ws \<Rightarrow> ws
              | _ \<Rightarrow> [])
      in concat (map (\<lambda>e. case parse_window rt e of Some w \<Rightarrow> [w] | None \<Rightarrow> []) entries))"

definition resolution_of :: "runtime \<Rightarrow> json \<Rightarrow> string" where
  "resolution_of rt raw =
     (case raw of
        JObj d \<Rightarrow>
          (let value = lower (strip (or_str (rt_str rt) (cfg_get d ''resolution''))) in
           if value \<in> {''skip'', ''catch_up''} then value else ''skip'')
      | _ \<Rightarrow> ''skip'')"

definition mo_minutes :: "moment \<Rightarrow> nat" where
  "mo_minutes m = nat \<lfloor>mo_secs m / 60\<rfloor>"

definition suppresses :: "quiet_window \<Rightarrow> moment \<Rightarrow> bool" where
  "suppresses w m =
     (let minutes = mo_minutes m; today = DAYS ! (mo_weekday m); yesterday = DAYS ! ((mo_weekday m + 6) mod 7) in
      case (parse_hhmm (qw_start w), parse_hhmm (qw_end w)) of
        (Some start, Some stop) \<Rightarrow>
          if start = stop then False
          else if start < stop then today \<in> set (qw_days w) \<and> start \<le> minutes \<and> minutes < stop
          else (today \<in> set (qw_days w) \<and> start \<le> minutes) \<or> (yesterday \<in> set (qw_days w) \<and> minutes < stop)
      | _ \<Rightarrow> False)"

definition in_quiet_window :: "quiet_window list \<Rightarrow> moment \<Rightarrow> quiet_window option" where
  "in_quiet_window ws m = find (\<lambda>w. suppresses w m) ws"

text \<open>\<open>window_closes_at\<close>, as seconds from the moment on.\<close>

definition window_closes_in :: "quiet_window \<Rightarrow> moment \<Rightarrow> rat" where
  "window_closes_in w m =
     (case parse_hhmm (qw_end w) of
        None \<Rightarrow> 0
      | Some stop \<Rightarrow>
          (let close = of_nat stop * 60 in
           if close \<le> mo_secs m then close + 86400 - mo_secs m else close - mo_secs m))"

record calendar_decision =
  cd_allowed :: bool
  cd_catch_up_in :: "rat option"

definition evaluate_quiet :: "runtime \<Rightarrow> config \<Rightarrow> moment \<Rightarrow> calendar_decision" where
  "evaluate_quiet rt gates m =
     (let raw = cfg_get gates ''quiet_hours'' in
      case in_quiet_window (parse_windows rt raw) m of
        None \<Rightarrow> \<lparr>cd_allowed = True, cd_catch_up_in = None\<rparr>
      | Some w \<Rightarrow> \<lparr>cd_allowed = False,
          cd_catch_up_in = (if resolution_of rt raw = ''catch_up'' then Some (window_closes_in w m) else None)\<rparr>)"

text \<open>The duty gate fails open; a gate that raises or does not answer in time is \<open>None\<close>.\<close>

definition manual_gate :: "moment \<Rightarrow> config \<Rightarrow> bool option" where
  "manual_gate m cfg = Some (truthy (get_or cfg ''on_duty'' (JBool True)))"

definition evaluate_duty :: "fire_env \<Rightarrow> config \<Rightarrow> moment \<Rightarrow> bool" where
  "evaluate_duty env gates m =
     (case cfg_get gates ''duty_gate'' of
        JObj spec \<Rightarrow>
          (let name = strip (or_str (rt_str (fe_rt env)) (cfg_get spec ''provider''));
               cfg = (case cfg_get spec ''config'' of JObj c \<Rightarrow> c | _ \<Rightarrow> []);
               gate = (if name = ''manual'' then Some manual_gate else fe_duty_gate env name) in
           if name = [] then True
           else case gate of None \<Rightarrow> True
                | Some g \<Rightarrow> (case g m cfg of Some on_duty \<Rightarrow> on_duty | None \<Rightarrow> True))
      | _ \<Rightarrow> True)"


section \<open>The gates in their order\<close>

datatype fire_gate = GIncident | GScreen | GSpacing | GRate | GQuiet | GDuty | GBudget | GClaim | GSlot | GActive
  | GYield | GCapability

definition GATE_ORDER :: "fire_gate list" where
  "GATE_ORDER = [GIncident, GScreen, GSpacing, GRate, GQuiet, GDuty, GBudget, GClaim, GSlot, GActive, GYield, GCapability]"

fun GATE_OUTCOMES :: "fire_gate \<Rightarrow> string" where
  "GATE_OUTCOMES GIncident = ''refused''"
| "GATE_OUTCOMES GScreen = ''blocked_injection''"
| "GATE_OUTCOMES GSpacing = ''skipped_gate''"
| "GATE_OUTCOMES GRate = ''skipped_gate''"
| "GATE_OUTCOMES GQuiet = ''skipped_gate''"
| "GATE_OUTCOMES GDuty = ''skipped_gate''"
| "GATE_OUTCOMES GBudget = ''skipped_budget''"
| "GATE_OUTCOMES GClaim = ''skipped_overlap''"
| "GATE_OUTCOMES GSlot = ''deferred''"
| "GATE_OUTCOMES GActive = ''deferred''"
| "GATE_OUTCOMES GYield = ''deferred''"
| "GATE_OUTCOMES GCapability = ''refused''"

record fire_context =
  fx_trigger_id :: string
  fx_payload_text :: string
  fx_gates :: config
  fx_capabilities :: config
  fx_requested :: "(string \<times> string list) list"
  fx_action_config :: config
  fx_moment :: moment
  fx_budget_remaining :: "int option"
  fx_existing_claim :: "claim option"
  fx_holder :: string
  fx_overlap :: string
  fx_now :: rat
  fx_user_active :: bool
  fx_yield_to_user :: bool
  fx_fires_in_window :: "nat option"
  fx_since_last_fire :: "rat option"
  fx_busy_slot :: "(string \<times> string) option"
  fx_target_active :: bool

record fire_decision =
  fd_allowed :: bool
  fd_outcome :: string
  fd_gate :: "fire_gate option"
  fd_claim :: "claim option"
  fd_passed :: "fire_gate list"
  fd_violations :: "(string \<times> string) list"

definition refuse_at :: "fire_gate \<Rightarrow> fire_gate list \<Rightarrow> claim option \<Rightarrow> (string \<times> string) list \<Rightarrow> fire_decision" where
  "refuse_at g passed c violations = \<lparr>fd_allowed = False, fd_outcome = GATE_OUTCOMES g, fd_gate = Some g,
     fd_claim = c, fd_passed = passed, fd_violations = violations\<rparr>"

text \<open>\<open>missed.within_rate_window\<close> and \<open>_rate_refusal\<close>: the lowest of the caps; a malformed one is no cap.\<close>

definition within_rate_window :: "nat \<Rightarrow> int \<Rightarrow> bool" where
  "within_rate_window fires cap \<longleftrightarrow> cap \<le> 0 \<or> int fires < cap"

definition RATE_KEYS :: "string list" where
  "RATE_KEYS = [''rate_cap'', ''max_runs_per_hour'', ''max_actions_per_hour'']"

definition rate_caps :: "(string \<Rightarrow> int option) \<Rightarrow> config \<Rightarrow> int list" where
  "rate_caps int_text gates =
     concat (map (\<lambda>k. case int_of_field int_text (cfg_get gates k) of Inr cap \<Rightarrow> if 0 < cap then [cap] else []
       | Inl _ \<Rightarrow> []) RATE_KEYS)"

definition rate_refuses :: "(string \<Rightarrow> int option) \<Rightarrow> fire_context \<Rightarrow> bool" where
  "rate_refuses int_text ctx =
     (let caps = rate_caps int_text (fx_gates ctx) in
      if caps = [] then False
      else case fx_fires_in_window ctx of None \<Rightarrow> False
           | Some n \<Rightarrow> \<not> within_rate_window n (foldr min caps (hd caps)))"

definition spacing_refuses :: "runtime \<Rightarrow> fire_context \<Rightarrow> bool" where
  "spacing_refuses rt ctx =
     (case fx_since_last_fire ctx of
        None \<Rightarrow> False
      | Some since \<Rightarrow>
          \<exists>key \<in> {''debounce_secs'', ''cooldown_secs''}.
            (case float_of_field (rt_float rt) (cfg_get (fx_gates ctx) key) of
               Inr window \<Rightarrow> 0 < window \<and> since < window
             | Inl _ \<Rightarrow> False))"

text \<open>What of the requested actions must be inside the frozen set: all but the read-only providers.\<close>

definition needs_fence :: "fire_env \<Rightarrow> fire_context \<Rightarrow> (string \<times> string list) list" where
  "needs_fence env ctx =
     filter (\<lambda>(k, vs). vs \<noteq> [])
       (map (\<lambda>(key, values). (key, filter (\<lambda>v. \<not> (key = ''providers'' \<and>
            provider_is_read_only env v (Some (fx_action_config ctx)))) values)) (fx_requested ctx))"

definition fire_evaluate :: "fire_env \<Rightarrow> fire_context \<Rightarrow> fire_decision" where
  "fire_evaluate env ctx =
     (let rt = fe_rt env; passed = [] in
      if fe_incident env then refuse_at GIncident passed None []
      else let passed = passed @ [GIncident] in
      if fx_payload_text ctx \<noteq> [] \<and> fe_screen_blocks env (fx_payload_text ctx) then refuse_at GScreen passed None []
      else let passed = passed @ [GScreen] in
      if spacing_refuses rt ctx then refuse_at GSpacing passed None []
      else let passed = passed @ [GSpacing] in
      if rate_refuses (fe_int_text env) ctx then refuse_at GRate passed None []
      else let passed = passed @ [GRate] in
      if \<not> cd_allowed (evaluate_quiet rt (fx_gates ctx) (fx_moment ctx)) then refuse_at GQuiet passed None []
      else let passed = passed @ [GQuiet] in
      if \<not> evaluate_duty env (fx_gates ctx) (fx_moment ctx) then refuse_at GDuty passed None []
      else let passed = passed @ [GDuty] in
      if (case fx_budget_remaining ctx of Some left \<Rightarrow> left \<le> 0 | None \<Rightarrow> False) then refuse_at GBudget passed None []
      else let passed = passed @ [GBudget] in
      case claim_fire env (fx_existing_claim ctx) (fx_trigger_id ctx)
             (if fx_holder ctx \<noteq> [] then fx_holder ctx else ''firepath'') (fx_now ctx) (fx_overlap ctx) of
        None \<Rightarrow> refuse_at GClaim passed None []
      | Some c \<Rightarrow>
          (let passed = passed @ [GClaim] in
           if fx_busy_slot ctx \<noteq> None then refuse_at GSlot passed (Some c) []
           else let passed = passed @ [GSlot] in
           if fx_target_active ctx then refuse_at GActive passed (Some c) []
           else let passed = passed @ [GActive] in
           if fx_yield_to_user ctx \<and> fx_user_active ctx then refuse_at GYield passed (Some c) []
           else let passed = passed @ [GYield];
                    violations = unfenced_actions env (fx_capabilities ctx) (needs_fence env ctx) in
           if violations \<noteq> [] then refuse_at GCapability passed (Some c) violations
           else \<lparr>fd_allowed = True, fd_outcome = ''ran'', fd_gate = None, fd_claim = Some c,
                  fd_passed = passed @ [GCapability], fd_violations = []\<rparr>))"

definition suppressed_at :: "fire_decision \<Rightarrow> fire_gate option" where
  "suppressed_at d = (if fd_allowed d then None else fd_gate d)"

section \<open>Admission\<close>

record fire_world =
  fw_triggers :: "trigger list"
  fw_runs :: run_store
  fw_claims :: claim_files

definition fired_by_kind :: "string \<Rightarrow> string" where
  "fired_by_kind kind = (case map_of [(''clock'', ''schedule''), (''event'', ''event''), (''webhook'', ''webhook''),
     (''view'', ''view''), (''run_completed'', ''chain''), (''file'', ''file''), (''web_watch'', ''page''),
     (''idle'', ''idle'')] kind of Some s \<Rightarrow> s | None \<Rightarrow> [])"

text \<open>\<open>persist_suppression\<close>: only an inert outcome leaves a row.\<close>

definition persist_suppression :: "(string \<Rightarrow> string) \<Rightarrow> string \<Rightarrow> string \<Rightarrow> rat \<Rightarrow> string \<Rightarrow> run_store \<Rightarrow> run_store" where
  "persist_suppression redact tid outcome now source runs =
     (if tid = [] \<or> outcome \<notin> set INERT_OUTCOMES then runs
      else fst (append_row redact tid
             \<lparr>rr_run_id = ''skip-'' @ int_str (rat_trunc (now * 1000)), rr_trigger = outcome, rr_outcome = [],
              rr_source = source, rr_started = now, rr_finished = now, rr_status = outcome, rr_summary = [],
              rr_error = [], rr_work_id = []\<rparr> runs))"

definition fires_in_window :: "rat \<Rightarrow> trigger \<Rightarrow> run_store \<Rightarrow> nat option" where
  "fires_in_window now t runs =
     (if \<exists>k \<in> set RATE_KEYS. truthy (cfg_get (tg_gates t) k) then Some (count_since runs (tg_id t) (now - 3600)) else None)"

definition fire_context_of ::
    "fire_env \<Rightarrow> rat \<Rightarrow> string \<Rightarrow> bool \<Rightarrow> (string \<times> string) list \<Rightarrow> fire_world \<Rightarrow> trigger \<Rightarrow> fire_context" where
  "fire_context_of env now holder user_active slot_map w t =
     \<lparr>fx_trigger_id = tg_id t, fx_payload_text = [], fx_gates = tg_gates t, fx_capabilities = tg_capabilities t,
      fx_requested = requested_capabilities (fe_rt env) t, fx_action_config = action_config t,
      fx_moment = fe_moment env now, fx_budget_remaining = budget_remaining (fe_int_text env) t,
      fx_existing_claim = read_claim env now (fw_claims w) (tg_id t), fx_holder = holder,
      fx_overlap = (if tg_overlap t \<noteq> [] then tg_overlap t else ''skip''), fx_now = now, fx_user_active = user_active,
      fx_yield_to_user = tg_yield_to_user t, fx_fires_in_window = fires_in_window now t (fw_runs w),
      fx_since_last_fire = since_last_fire now t, fx_busy_slot = busy_slot t slot_map,
      fx_target_active = fe_target_active env t now\<rparr>"

text \<open>\<open>admit_fire\<close>; \<open>None\<close> for the slot map is the fresh one. The dry run, which writes nothing, is left out.\<close>

definition admit_fire ::
    "fire_env \<Rightarrow> (trigger \<Rightarrow> bool) \<Rightarrow> rat \<Rightarrow> string \<Rightarrow> bool \<Rightarrow> (string \<times> string) list option \<Rightarrow> string \<Rightarrow> trigger \<Rightarrow>
     fire_world \<Rightarrow> fire_world \<times> fire_decision" where
  "admit_fire env parses now holder user_active slot_map source t w =
     (let slots = (case slot_map of Some m \<Rightarrow> m | None \<Rightarrow> slot_holders env parses now (fw_claims w) (fw_triggers w));
          decision = fire_evaluate env (fire_context_of env now holder user_active slots w t) in
      if \<not> fd_allowed decision then
        (w\<lparr>fw_runs := persist_suppression (fe_redact env) (tg_id t) (fd_outcome decision) now
             (if source \<noteq> [] then source else fired_by_kind (tg_kind t)) (fw_runs w)\<rparr>, decision)
      else
        (w\<lparr>fw_claims := (case fd_claim decision of Some c \<Rightarrow> write_claim c (fw_claims w) | None \<Rightarrow> fw_claims w),
           fw_triggers := upsert (count_fire now t) (fw_triggers w)\<rparr>, decision))"

text \<open>\<open>run_admitted\<close> hands the claim back when the run has settled.\<close>

definition settle_claim :: "string \<Rightarrow> fire_world \<Rightarrow> fire_world" where
  "settle_claim tid w = w\<lparr>fw_claims := fst (release_claim tid (fw_claims w))\<rparr>"

end
