(* ===== verification/TriggerClock.thy ===== *)
theory TriggerClock
  imports FirePath
begin

text \<open>
  When an automation fires: \<^verbatim>\<open>triggers/scheduling.py\<close> (due, late, staggered), \<^verbatim>\<open>cron_clock.py\<close> (a cron
  expression stepped on the wall clock of its zone), \<^verbatim>\<open>triggers/arm.py\<close> (from a schedule to its next fire, past
  the days it must not fire on), and when a switched-on, resumed or edited trigger is armed.

  Outside are the time zones, read as the offsets a zone shows; croniter, as the wall times it steps
  through; and the digest a trigger's id spreads it by, as a fraction of a window. Floats are exact.
\<close>

section \<open>What the clock takes from outside\<close>

text \<open>The offset from UTC at an instant, and the two readings of a wall time (\<open>fold\<close> 0 and 1).\<close>

record zone =
  zn_offset :: "rat \<Rightarrow> rat"
  zn_fold0 :: "rat \<Rightarrow> rat"
  zn_fold1 :: "rat \<Rightarrow> rat"

text \<open>\<open>ck_cron_step\<close> is the \<open>k\<close>-th wall time an expression names after a start; a step that raises is \<open>None\<close>.\<close>

record clock_env =
  ck_rt :: runtime
  ck_zone :: "string \<Rightarrow> zone option"
  ck_cron_valid :: "string \<Rightarrow> bool"
  ck_cron_step :: "string \<Rightarrow> rat \<Rightarrow> nat \<Rightarrow> rat option"
  ck_fraction :: "string \<Rightarrow> rat"

section \<open>The discipline of the scheduler\<close>

definition POLL_CEILING_SECS :: rat where "POLL_CEILING_SECS = 30"
definition BOOT_STAGGER_BASE_SECS :: rat where "BOOT_STAGGER_BASE_SECS = 60"
definition BOOT_STAGGER_WINDOW_SECS :: rat where "BOOT_STAGGER_WINDOW_SECS = 120"
definition LATE_THRESHOLD_SECS :: rat where
  "LATE_THRESHOLD_SECS = 2 * (BOOT_STAGGER_BASE_SECS + BOOT_STAGGER_WINDOW_SECS + POLL_CEILING_SECS)"
definition TIMER_CEILING_SECS :: rat where "TIMER_CEILING_SECS = 24 * 24 * 3600"

definition slot_missed :: "rat \<Rightarrow> rat \<Rightarrow> bool" where
  "slot_missed slot now \<longleftrightarrow> 0 < slot \<and> LATE_THRESHOLD_SECS \<le> now - slot"

definition jitter_offset :: "clock_env \<Rightarrow> string \<Rightarrow> rat \<Rightarrow> rat" where
  "jitter_offset env tid window = (if window \<le> 0 then 0 else ck_fraction env tid * window)"

datatype dueness = Due | NotYet | NotArmed | Disabled | Expired

definition is_due :: "rat \<Rightarrow> rat \<Rightarrow> bool \<Rightarrow> rat \<Rightarrow> bool \<times> dueness" where
  "is_due next_fire_at now automatic expires_at =
     (if \<not> automatic then (False, Disabled)
      else if expires_at \<noteq> 0 \<and> expires_at \<le> now then (False, Expired)
      else if next_fire_at \<le> 0 then (False, NotArmed)
      else if now < next_fire_at then (False, NotYet)
      else (True, Due))"

definition next_wake_delay :: "rat list \<Rightarrow> rat \<Rightarrow> rat" where
  "next_wake_delay next_fires now =
     (let upcoming = filter (\<lambda>t. 0 < t) next_fires in
      if upcoming = [] then POLL_CEILING_SECS
      else let delay = foldr min upcoming (hd upcoming) - now in
           if delay < 0 then 0 else max 0 (min delay (min POLL_CEILING_SECS TIMER_CEILING_SECS)))"

definition recompute_from_completion :: "rat \<Rightarrow> rat \<Rightarrow> rat \<Rightarrow> rat" where
  "recompute_from_completion interval_secs created_at completed_at =
     (if interval_secs \<le> 0 then 0
      else let anchor = (if 0 < created_at then created_at else completed_at);
               slots = \<lfloor>(completed_at - anchor) / interval_secs\<rfloor> + 1
           in anchor + of_int slots * interval_secs)"

datatype recovery = NotArmedAtBoot | StillUpcoming | DueStaggered | CaughtUpStaggered | MissedDropped
  | ArmedFromSpec | ResumedOnGrid | SlotTaken

definition boot_recovery :: "clock_env \<Rightarrow> rat \<Rightarrow> rat \<Rightarrow> string \<Rightarrow> bool \<Rightarrow> rat \<times> recovery" where
  "boot_recovery env next_fire_at now tid catch_up =
     (if next_fire_at \<le> 0 then (0, NotArmedAtBoot)
      else if now < next_fire_at then (next_fire_at, StillUpcoming)
      else let staggered = now + BOOT_STAGGER_BASE_SECS + jitter_offset env tid BOOT_STAGGER_WINDOW_SECS in
        if \<not> slot_missed next_fire_at now then (staggered, DueStaggered)
        else (staggered, if catch_up then CaughtUpStaggered else MissedDropped))"

text \<open>\<open>coalesce_wakes\<close>: everything due within one window, by time and then by id.\<close>

definition coalesce_wakes :: "(string \<times> rat) list \<Rightarrow> rat \<Rightarrow> rat \<Rightarrow> string list" where
  "coalesce_wakes next_fires now window_secs =
     map snd (sort (map (\<lambda>(tid, t). (t, tid)) (filter (\<lambda>(tid, t). 0 < t \<and> t \<le> now + window_secs) next_fires)))"

definition revalidate :: "bool \<Rightarrow> rat \<Rightarrow> rat \<Rightarrow> bool" where
  "revalidate still_enabled at_arm at_now \<longleftrightarrow> still_enabled \<and> at_now = at_arm"

section \<open>A cron expression on the wall clock of its zone\<close>

definition MAX_STEPS :: nat where "MAX_STEPS = 256"

definition wall_at :: "zone \<Rightarrow> rat \<Rightarrow> rat" where
  "wall_at z now = now + zn_offset z now"

text \<open>The first instant whose offset is the one after the change, between two readings of a wall time.\<close>

function jump_between :: "zone \<Rightarrow> rat \<Rightarrow> int \<Rightarrow> int \<Rightarrow> int" where
  "jump_between z offset_after low high =
     (if 1 < high - low then
        (let mid = (low + high) div 2 in
         if zn_offset z (of_int mid) = offset_after then jump_between z offset_after low mid
         else jump_between z offset_after mid high)
      else high)"
  by pat_completeness auto
termination
  by (relation "measure (\<lambda>(z, offset_after, low, high). nat (high - low))") auto

definition placed_at :: "zone \<Rightarrow> rat \<Rightarrow> rat" where
  "placed_at z wall =
     (let at_first = wall - zn_fold0 z wall in
      if wall_at z at_first = wall then at_first
      else of_int (jump_between z (zn_fold1 z wall) (rat_trunc (wall - zn_fold1 z wall)) (rat_trunc at_first)))"

fun first_placed :: "(nat \<Rightarrow> rat option) \<Rightarrow> zone \<Rightarrow> rat \<Rightarrow> nat \<Rightarrow> nat \<Rightarrow> rat option" where
  "first_placed step z now k 0 = Some 0"
| "first_placed step z now k (Suc left) =
     (case step k of
        None \<Rightarrow> None
      | Some wall \<Rightarrow> if now < placed_at z wall then Some (placed_at z wall) else first_placed step z now (Suc k) left)"

definition cron_next_fire :: "clock_env \<Rightarrow> string \<Rightarrow> rat \<Rightarrow> zone \<Rightarrow> rat option" where
  "cron_next_fire env expr now z = first_placed (ck_cron_step env expr (wall_at z now)) z now 0 MAX_STEPS"

section \<open>From a schedule to its next fire\<close>

text \<open>A civil date: the day of a wall time as \<open>%Y-%m-%d\<close>, by the 400-year era.\<close>

definition civil_date :: "int \<Rightarrow> int \<times> int \<times> int" where
  "civil_date days =
     (let z = days + 719468; era = z div 146097; doe = z mod 146097;
          yoe = (doe - doe div 1460 + doe div 36524 - doe div 146096) div 365;
          doy = doe - (365 * yoe + yoe div 4 - yoe div 100);
          mp = (5 * doy + 2) div 153;
          d = doy - (153 * mp + 2) div 5 + 1;
          m = (if mp < 10 then mp + 3 else mp - 9)
      in (yoe + era * 400 + (if m \<le> 2 then 1 else 0), m, d))"

definition zero_padded :: "nat \<Rightarrow> int \<Rightarrow> string" where
  "zero_padded width n = (let s = int_str n in replicate (width - length s) (CHR ''0'') @ s)"

definition date_text :: "zone \<Rightarrow> rat \<Rightarrow> string" where
  "date_text z at_time =
     (case civil_date \<lfloor>wall_at z at_time / 86400\<rfloor> of
        (y, m, d) \<Rightarrow> zero_padded 4 y @ ''-'' @ zero_padded 2 m @ ''-'' @ zero_padded 2 d)"

text \<open>\<open>now or time.time()\<close>.\<close>

definition now_or :: "rat \<Rightarrow> rat \<Rightarrow> rat" where
  "now_or clock now = (if now = 0 then clock else now)"

definition trigger_tz :: "clock_env \<Rightarrow> trigger \<Rightarrow> zone option" where
  "trigger_tz env t = ck_zone env (strip (or_str (rt_str (ck_rt env)) (cfg_get (tg_spec t) ''timezone'')))"

definition MAX_SKIP_ADVANCE :: nat where "MAX_SKIP_ADVANCE = 400"

text \<open>\<open>list(value or [])\<close>: a text gives its characters and an object its keys. A number, which raises there, gives none.\<close>

fun as_items :: "json \<Rightarrow> json list" where
  "as_items (JList vs) = vs"
| "as_items (JStr s) = map (\<lambda>c. JStr [c]) s"
| "as_items (JObj d) = map (\<lambda>(k, v). JStr k) d"
| "as_items _ = []"

definition skipped_dates :: "clock_env \<Rightarrow> trigger \<Rightarrow> string list" where
  "skipped_dates env t =
     filter (\<lambda>d. d \<noteq> [])
       (map (\<lambda>d. strip (py_str (ck_rt env) d))
         (as_items (cfg_get (tg_spec t) ''skip_dates'') @ as_items (cfg_get (tg_gates t) ''skip_dates'')))"

definition apply_jitter :: "clock_env \<Rightarrow> trigger \<Rightarrow> rat \<Rightarrow> rat" where
  "apply_jitter env t fire =
     (let window = positive (ck_rt env) (cfg_get (tg_spec t) ''jitter_secs'') in
      if fire \<le> 0 then fire
      else if truthy (cfg_get (tg_spec t) ''strict'') then fire
      else if window \<le> 0 then fire
      else let jittered = fire + jitter_offset env (tg_id t) window; skips = skipped_dates env t in
        if skips \<noteq> [] \<and> (case trigger_tz env t of Some z \<Rightarrow> date_text z jittered \<in> set skips | None \<Rightarrow> False)
        then fire else jittered)"

text \<open>\<open>_created_at\<close> of \<^verbatim>\<open>arm.py\<close> reads the schedule; the one of \<^verbatim>\<open>service.py\<close> reads the entity, which has none.\<close>

definition created_at_of_spec :: "clock_env \<Rightarrow> trigger \<Rightarrow> rat" where
  "created_at_of_spec env t = positive (ck_rt env) (cfg_get (tg_spec t) ''created_at'')"

definition cadence_kind :: "clock_env \<Rightarrow> trigger \<Rightarrow> string" where
  "cadence_kind env t = lower (strip (spec_kind (ck_rt env) t))"

definition first_nonzero :: "rat list \<Rightarrow> rat" where
  "first_nonzero qs = (case filter (\<lambda>q. q \<noteq> 0) qs of [] \<Rightarrow> 0 | q # _ \<Rightarrow> q)"

definition cadence_next_fire :: "clock_env \<Rightarrow> rat \<Rightarrow> trigger \<Rightarrow> rat \<Rightarrow> rat \<Rightarrow> rat" where
  "cadence_next_fire env clock t now0 last_fire =
     (let now = now_or clock now0; kind = cadence_kind env t; spec = tg_spec t; rt = ck_rt env in
      if tg_kind t \<noteq> ''clock'' then 0
      else if \<not> tg_enabled t then 0
      else if kind = ''cron'' then
        (let expr = strip (or_str (rt_str rt) (cfg_get spec ''expr'')) in
         if expr = [] \<or> \<not> ck_cron_valid env expr then 0
         else case trigger_tz env t of None \<Rightarrow> 0
              | Some z \<Rightarrow> (case cron_next_fire env expr now z of None \<Rightarrow> 0 | Some fire \<Rightarrow> fire))
      else if kind \<in> {''interval'', ''sequence''} then
        (let secs = positive rt (cfg_get spec ''interval_secs'') in
         if secs \<le> 0 then 0
         else let anchor = first_nonzero [last_fire, created_at_of_spec env t, now];
                  elapsed = max 0 (now - anchor); slots = \<lfloor>elapsed / secs\<rfloor> + 1
              in anchor + of_int slots * secs)
      else if kind = ''adaptive'' then
        (let degraded = (lower (strip (or_str (rt_str rt) (cfg_get spec ''health_state''))) = ''degraded'');
             secs = positive rt (cfg_get spec (if degraded then ''interval_secs_degraded'' else ''interval_secs_healthy''))
         in if secs \<le> 0 then 0 else now + secs)
      else if kind = ''at'' then
        (let at_time = positive rt (cfg_get spec ''at'') in if now < at_time then at_time else 0)
      else 0)"

text \<open>\<open>next_fire\<close>: the cadence, stepped past the days it must not fire on; \<open>0\<close> where it will never fire.\<close>

fun advance_past :: "clock_env \<Rightarrow> rat \<Rightarrow> zone \<Rightarrow> trigger \<Rightarrow> nat \<Rightarrow> rat \<Rightarrow> rat" where
  "advance_past env clock z t 0 fire = 0"
| "advance_past env clock z t (Suc left) fire =
     (if date_text z fire \<notin> set (skipped_dates env t) then apply_jitter env t fire
      else let nxt = cadence_next_fire env clock t (fire + 1) fire in
           if nxt \<le> fire then 0 else advance_past env clock z t left nxt)"

definition next_fire :: "clock_env \<Rightarrow> rat \<Rightarrow> trigger \<Rightarrow> rat \<Rightarrow> rat \<Rightarrow> rat" where
  "next_fire env clock t now0 last_fire =
     (let now = now_or clock now0 in
      case trigger_tz env t of
        None \<Rightarrow> 0
      | Some z \<Rightarrow>
          (let fire = cadence_next_fire env clock t now last_fire in
           if skipped_dates env t = [] \<or> fire \<le> 0 then apply_jitter env t fire
           else advance_past env clock z t MAX_SKIP_ADVANCE fire))"

text \<open>\<open>arm\<close>: the next fire as it is stored.\<close>

definition arm :: "clock_env \<Rightarrow> rat \<Rightarrow> trigger \<Rightarrow> rat \<Rightarrow> rat" where
  "arm env clock t now = stored_time (next_fire env clock t now 0)"

definition NON_CADENCE_SPEC_KEYS :: "string list" where "NON_CADENCE_SPEC_KEYS = [''strict'']"

definition cadence_fingerprint :: "config \<Rightarrow> config" where
  "cadence_fingerprint spec =
     filter (\<lambda>(key, v). key \<notin> set NON_CADENCE_SPEC_KEYS \<and> v \<noteq> JNull \<and> v \<noteq> JStr [] \<and> v \<noteq> JList []) spec"

definition needs_arming :: "trigger \<Rightarrow> bool" where
  "needs_arming t \<longleftrightarrow> tg_kind t = ''clock'' \<and> tg_enabled t \<and> tg_next_fire_at t = 0"

definition first_fire :: "clock_env \<Rightarrow> rat \<Rightarrow> trigger \<Rightarrow> rat \<Rightarrow> rat" where
  "first_fire env clock t now0 =
     (let now = now_or clock now0; fire = next_fire env clock t now 0;
          at_time = positive (ck_rt env) (cfg_get (tg_spec t) ''at'') in
      if 0 < fire then fire
      else if cadence_kind env t \<noteq> ''at'' then 0
      else if at_time \<le> 0 \<or> now < at_time then 0
      else next_fire env clock t (at_time - 1) 0)"

definition fire_passed :: "trigger \<Rightarrow> rat \<Rightarrow> bool" where
  "fire_passed t now \<longleftrightarrow> 0 < tg_next_fire_at t \<and> tg_next_fire_at t \<le> now"

definition switched_on :: "trigger \<Rightarrow> trigger \<Rightarrow> bool" where
  "switched_on before after \<longleftrightarrow> \<not> tg_enabled before \<and> tg_enabled after"

definition one_time_passed :: "clock_env \<Rightarrow> rat \<Rightarrow> trigger \<Rightarrow> rat \<Rightarrow> rat" where
  "one_time_passed env clock t now =
     (if cadence_kind env t \<noteq> ''at'' then 0
      else let at_time = positive (ck_rt env) (cfg_get (tg_spec t) ''at'') in
           if 0 < at_time \<and> at_time \<le> now_or clock now then at_time else 0)"

definition switch_on_refusal :: "clock_env \<Rightarrow> rat \<Rightarrow> trigger \<Rightarrow> trigger \<Rightarrow> rat \<Rightarrow> rat" where
  "switch_on_refusal env clock before after now =
     (if \<not> switched_on before after then 0 else one_time_passed env clock after now)"

text \<open>\<open>next_fire_after_edit\<close>: the instant an edited trigger carries, or \<open>None\<close> to keep the one it has.\<close>

definition next_fire_after_edit :: "clock_env \<Rightarrow> rat \<Rightarrow> trigger \<Rightarrow> trigger \<Rightarrow> rat \<Rightarrow> rat option" where
  "next_fire_after_edit env clock before after now0 =
     (let now = now_or clock now0 in
      if tg_restore_hold before \<noteq> [] \<and> tg_enabled after then Some (arm env clock after 0)
      else if switched_on before after \<and> fire_passed after now then Some (arm env clock after now)
      else if tg_kind after \<noteq> tg_kind before \<or>
              \<not> json_eq (JObj (cadence_fingerprint (tg_spec after))) (JObj (cadence_fingerprint (tg_spec before)))
           then Some (arm env clock after 0)
      else if needs_arming after then Some (arm env clock after 0)
      else None)"

end
