(* ===== verification/TriggerTick.thy ===== *)
theory TriggerTick
  imports TriggerClock
begin

text \<open>
  What the clock does with its schedules: \<^verbatim>\<open>triggers/missed.py\<close> (which slots did not run, and which are
  caught up), the cards of \<^verbatim>\<open>triggers/review.py\<close>, and the clock's half of \<^verbatim>\<open>triggers/service.py\<close> and of
  \<^verbatim>\<open>triggers/tools.py\<close>: the boot, the wake, one tick, and the owner's pause and resume.

  \<open>parses\<close> is a row without parse errors and \<open>armable\<close> one that is also the owner's; ids are distinct.
  A tick works on its own copies of the rows it may arm, read once, and on the store; the model has both,
  \<open>mem\<close> and the store of the world. Every write is the persisting one: the dry run is left out.
\<close>

section \<open>Slots that did not run\<close>

definition ENUMERATION_CAP :: int where "ENUMERATION_CAP = 480"
definition REVIEW_ROWS_PER_TRIGGER :: int where "REVIEW_ROWS_PER_TRIGGER = 20"
definition CRON_WALK_CAP :: nat where "CRON_WALK_CAP = 10080"
definition STEPPED_KINDS :: "string list" where "STEPPED_KINDS = [''cron'', ''at'']"
definition MISSED_FIRE_SUPERSEDED_PROVIDERS :: "string list" where
  "MISSED_FIRE_SUPERSEDED_PROVIDERS = [''heartbeat-tasks'']"

text \<open>What older slots of one trigger collapse into.\<close>

record missed_summary =
  ms_trigger_id :: string
  ms_count :: int
  ms_oldest :: rat
  ms_newest :: rat

record missed_review =
  mr_rows :: "(string \<times> rat) list"
  mr_summaries :: "missed_summary list"
  mr_truncated :: bool

definition enumerate_missed ::
    "string \<Rightarrow> rat \<Rightarrow> rat \<Rightarrow> rat \<Rightarrow> int \<Rightarrow> (string \<times> rat) list \<times> missed_summary option \<times> int" where
  "enumerate_missed tid last_fire_at interval_secs now budget =
     (if interval_secs \<le> 0 \<or> last_fire_at \<le> 0 \<or> now \<le> last_fire_at then ([], None, 0)
      else let total = \<lfloor>(now - last_fire_at) / interval_secs\<rfloor> in
        if total \<le> 0 then ([], None, 0)
        else let shown = min total (min (max 0 REVIEW_ROWS_PER_TRIGGER) (max 0 budget));
                 rows = map (\<lambda>i. (tid, last_fire_at + of_int (total - i + 1) * interval_secs)) (rev [1..shown]);
                 older = total - shown
             in (rows,
                 if 0 < older then Some \<lparr>ms_trigger_id = tid, ms_count = older, ms_oldest = last_fire_at + interval_secs,
                    ms_newest = last_fire_at + of_int (total - shown) * interval_secs\<rparr> else None,
                 shown))"

text \<open>\<open>stepped_slots\<close>: the slots from the armed fire through \<open>now\<close>, and whether the walk was cut short.\<close>

fun step_slots :: "clock_env \<Rightarrow> rat \<Rightarrow> trigger \<Rightarrow> rat \<Rightarrow> nat \<Rightarrow> rat \<Rightarrow> rat list \<times> bool" where
  "step_slots env clock t now 0 slot = ([], slot \<le> now)"
| "step_slots env clock t now (Suc left) slot =
     (if now < slot then ([], False)
      else let following = next_fire env clock t slot 0 in
        if following \<le> slot then ([slot], False)
        else case step_slots env clock t now left following of (slots, capped) \<Rightarrow> (slot # slots, capped))"

definition stepped_slots :: "clock_env \<Rightarrow> rat \<Rightarrow> trigger \<Rightarrow> rat \<Rightarrow> rat list \<times> bool" where
  "stepped_slots env clock t now =
     (let armed = tg_next_fire_at t in
      if armed \<le> 0 \<or> now < armed then ([], False)
      else step_slots env clock (t\<lparr>tg_enabled := True\<rparr>) now CRON_WALK_CAP armed)"

definition enumerate_slots ::
    "string \<Rightarrow> rat list \<Rightarrow> int \<Rightarrow> (string \<times> rat) list \<times> missed_summary option \<times> int" where
  "enumerate_slots tid slots budget =
     (let total = int (length slots) in
      if total \<le> 0 then ([], None, 0)
      else let shown = min total (min (max 0 REVIEW_ROWS_PER_TRIGGER) (max 0 budget));
               older = total - shown
           in (map (\<lambda>s. (tid, s)) (drop (nat (total - shown)) slots),
               if 0 < older then Some \<lparr>ms_trigger_id = tid, ms_count = older, ms_oldest = hd slots,
                  ms_newest = slots ! nat (older - 1)\<rparr> else None,
               shown))"

text \<open>\<open>missed_inputs\<close> of a row as the store keeps it, which has none of the keys it could read directly.\<close>

record missed_input =
  mi_interval_secs :: rat
  mi_last_fire_at :: rat
  mi_missed_last_slot :: bool
  mi_fires_automatically :: bool

definition missed_inputs :: "clock_env \<Rightarrow> trigger \<Rightarrow> rat \<Rightarrow> missed_input" where
  "missed_inputs env t now =
     (let interval = (case float_of_field (rt_float (ck_rt env)) (cfg_get (tg_spec t) ''interval_secs'') of
            Inl _ \<Rightarrow> 0 | Inr q \<Rightarrow> q);
          armed = tg_next_fire_at t
      in \<lparr>mi_interval_secs = interval,
          mi_last_fire_at = (if 0 < interval \<and> 0 < armed then armed - interval else 0),
          mi_missed_last_slot = (0 < now \<and> slot_missed armed now),
          mi_fires_automatically = (tg_enabled t \<and> tg_state t = TrigActive)\<rparr>)"

definition missed_fire_superseded :: "config \<Rightarrow> bool" where
  "missed_fire_superseded workflow =
     (let action = (case cfg_get workflow ''inline'' of JObj d \<Rightarrow> d | _ \<Rightarrow> workflow) in
      case cfg_get action ''provider'' of JStr p \<Rightarrow> p \<in> set MISSED_FIRE_SUPERSEDED_PROVIDERS | _ \<Rightarrow> False)"

text \<open>\<open>review_at_boot\<close>: every trigger in id order, under one budget of rows.\<close>

definition missed_of :: "clock_env \<Rightarrow> rat \<Rightarrow> trigger \<Rightarrow> rat \<Rightarrow> int \<Rightarrow>
    ((string \<times> rat) list \<times> missed_summary option \<times> int) \<times> bool" where
  "missed_of env clock t now budget =
     (if \<not> tg_enabled t \<or> tg_state t \<noteq> TrigActive \<or> missed_fire_superseded (tg_workflow t) then (([], None, 0), False)
      else if cadence_kind env t \<in> set STEPPED_KINDS then
        (if \<not> slot_missed (tg_next_fire_at t) now then (([], None, 0), False)
         else case stepped_slots env clock t now of
                (slots, capped) \<Rightarrow> (enumerate_slots (tg_id t) slots budget, capped))
      else
        (let d = missed_inputs env t now in
         if \<not> slot_missed (mi_last_fire_at d + mi_interval_secs d) now then (([], None, 0), False)
         else (enumerate_missed (tg_id t) (mi_last_fire_at d) (mi_interval_secs d) now budget, False)))"

fun review_walk :: "clock_env \<Rightarrow> rat \<Rightarrow> rat \<Rightarrow> trigger list \<Rightarrow> int \<Rightarrow> missed_review \<Rightarrow> missed_review" where
  "review_walk env clock now [] remaining review = review"
| "review_walk env clock now (t # ts) remaining review =
     (if remaining \<le> 0 then review\<lparr>mr_truncated := True\<rparr>
      else case missed_of env clock t now remaining of
        ((rows, summary, spent), capped) \<Rightarrow>
          review_walk env clock now ts (remaining - spent)
            \<lparr>mr_rows = mr_rows review @ rows,
             mr_summaries = mr_summaries review @ (case summary of None \<Rightarrow> [] | Some s \<Rightarrow> [s]),
             mr_truncated = (mr_truncated review \<or> capped)\<rparr>)"

definition review_at_boot :: "clock_env \<Rightarrow> rat \<Rightarrow> trigger list \<Rightarrow> rat \<Rightarrow> int \<Rightarrow> missed_review" where
  "review_at_boot env clock ts now budget =
     review_walk env clock now (sort_key tg_id ts) (max 0 budget)
       \<lparr>mr_rows = [], mr_summaries = [], mr_truncated = False\<rparr>"

text \<open>The outcome of a granted fire, refined when its slot was missed.\<close>

definition late_outcome :: "string \<Rightarrow> rat \<Rightarrow> rat \<Rightarrow> string \<times> bool" where
  "late_outcome outcome scheduled_for started_at =
     (if outcome \<noteq> ''ran'' then (outcome, False)
      else if scheduled_for \<le> 0 \<or> started_at \<le> 0 then (outcome, False)
      else if \<not> slot_missed scheduled_for started_at then (outcome, False)
      else (''ran_late'', True))"

definition resolve_missed :: "string \<Rightarrow> string" where
  "resolve_missed action =
     (if action = ''run_now'' then ''ran_late''
      else if action = ''dismiss'' then ''skipped_missed'' else ''refused'')"

datatype catch_up_reason = CatchUpOff | NothingMissed | CatchUpDisabled | CatchUpFires

definition catch_up_plan :: "clock_env \<Rightarrow> trigger list \<Rightarrow> rat \<Rightarrow> (string \<times> rat \<times> catch_up_reason) list" where
  "catch_up_plan env ts now =
     map (\<lambda>t. let d = missed_inputs env t now in
        if \<not> tg_catch_up t then (tg_id t, 0, CatchUpOff)
        else if \<not> mi_missed_last_slot d then (tg_id t, 0, NothingMissed)
        else if \<not> mi_fires_automatically d then (tg_id t, 0, CatchUpDisabled)
        else (tg_id t, now + BOOT_STAGGER_BASE_SECS + jitter_offset env (tg_id t) BOOT_STAGGER_WINDOW_SECS, CatchUpFires))
       (sort_key tg_id ts)"

definition roll_forward :: "rat \<Rightarrow> rat \<Rightarrow> rat \<Rightarrow> rat" where
  "roll_forward next_fire_at interval_secs now =
     (if interval_secs \<le> 0 then next_fire_at
      else if next_fire_at \<le> 0 then 0
      else if now < next_fire_at then next_fire_at
      else next_fire_at + of_int (\<lfloor>(now - next_fire_at) / interval_secs\<rfloor> + 1) * interval_secs)"

section \<open>The rows of a wake\<close>

definition MAX_SLEEP_SECS :: rat where "MAX_SLEEP_SECS = 30"
definition MIN_SLEEP_SECS :: rat where "MIN_SLEEP_SECS = 1 / 2"

definition interval_secs_of :: "clock_env \<Rightarrow> trigger \<Rightarrow> rat" where
  "interval_secs_of env t =
     (if spec_kind (ck_rt env) t \<noteq> ''interval'' then 0
      else case float_of_field (rt_float (ck_rt env)) (cfg_get (tg_spec t) ''interval_secs'') of
             Inl _ \<Rightarrow> 0 | Inr q \<Rightarrow> max 0 q)"

text \<open>\<open>_created_at\<close> of \<^verbatim>\<open>service.py\<close> asks the entity for a field it does not have.\<close>

definition created_at_of_entity :: "trigger \<Rightarrow> rat" where
  "created_at_of_entity t = 0"

definition next_after_completion :: "clock_env \<Rightarrow> rat \<Rightarrow> trigger \<Rightarrow> rat \<Rightarrow> rat \<Rightarrow> rat" where
  "next_after_completion env clock t completed_at now =
     (let interval = interval_secs_of env t; anchor = first_nonzero [created_at_of_entity t, now] in
      if 0 < interval then recompute_from_completion interval anchor completed_at
      else next_fire env clock t (max now completed_at) 0)"

definition plan_row :: "clock_env \<Rightarrow> rat \<Rightarrow> rat \<Rightarrow> trigger \<Rightarrow> (string \<times> rat \<times> recovery) option" where
  "plan_row env clock now t =
     (if \<not> tg_enabled t then None
      else if tg_next_fire_at t \<le> 0 then
        (let armed = next_fire env clock t now 0 in if armed \<le> 0 then None else Some (tg_id t, armed, ArmedFromSpec))
      else case boot_recovery env (tg_next_fire_at t) now (tg_id t) (tg_catch_up t) of
        (new_at, reason) \<Rightarrow>
          if reason = MissedDropped then
            (let on_grid = next_fire env clock t now 0 in
             if 0 < on_grid then Some (tg_id t, on_grid + jitter_offset env (tg_id t) BOOT_STAGGER_WINDOW_SECS, ResumedOnGrid)
             else Some (tg_id t, 0, SlotTaken))
          else Some (tg_id t, new_at, reason))"

definition plan_boot :: "clock_env \<Rightarrow> rat \<Rightarrow> trigger list \<Rightarrow> rat \<Rightarrow> (string \<times> rat \<times> recovery) list" where
  "plan_boot env clock ts now = List.map_filter (plan_row env clock now) ts"

definition due_ids :: "trigger list \<Rightarrow> rat \<Rightarrow> rat \<Rightarrow> string list" where
  "due_ids ts now window_secs =
     coalesce_wakes
       (fold (\<lambda>t candidates. if tg_enabled t \<and> 0 < tg_next_fire_at t \<and>
            fst (is_due (tg_next_fire_at t) now (fires_automatically t) (tg_expires_at t))
          then dict_set candidates (tg_id t) (tg_next_fire_at t) else candidates) ts []) now window_secs"

definition sleep_for :: "trigger list \<Rightarrow> rat \<Rightarrow> rat" where
  "sleep_for ts now =
     (let upcoming = filter (\<lambda>at_time. 0 < at_time) (map tg_next_fire_at (filter tg_enabled ts));
          delay = (if upcoming \<noteq> [] then next_wake_delay upcoming now else MAX_SLEEP_SECS)
      in max MIN_SLEEP_SECS (min MAX_SLEEP_SECS delay))"

text \<open>The tick's copy of a row, replaced in place, and the row it stands for.\<close>

definition put_mem :: "trigger \<Rightarrow> trigger list \<Rightarrow> trigger list" where
  "put_mem t mem = map (\<lambda>u. if tg_id u = tg_id t then t else u) mem"

definition write_row :: "trigger \<Rightarrow> trigger list \<times> fire_world \<Rightarrow> trigger list \<times> fire_world" where
  "write_row t st = (put_mem t (fst st), (snd st)\<lparr>fw_triggers := upsert t (fw_triggers (snd st))\<rparr>)"

section \<open>The boot and the wake\<close>

record catch_up_row =
  cu_id :: string
  cu_fire_at :: rat
  cu_reason :: catch_up_reason
  cu_slot :: rat

record recover_report =
  rp_rearmed :: "(string \<times> rat \<times> recovery) list"
  rp_review :: missed_review
  rp_catch_up :: "catch_up_row list"
  rp_next_sleep :: rat

definition catch_up_at_boot :: "clock_env \<Rightarrow> trigger list \<Rightarrow> rat \<Rightarrow> catch_up_row list" where
  "catch_up_at_boot env ts now =
     map (\<lambda>(tid, fire_at, reason). \<lparr>cu_id = tid, cu_fire_at = fire_at, cu_reason = reason,
            cu_slot = (case get_trigger ts tid of Some t \<Rightarrow> tg_next_fire_at t | None \<Rightarrow> 0)\<rparr>)
       (catch_up_plan env ts now)"

definition rearm_row :: "(string \<times> rat \<times> recovery) \<Rightarrow> trigger \<Rightarrow> trigger" where
  "rearm_row p t = (case p of (tid, new_at, reason) \<Rightarrow>
     t\<lparr>tg_next_fire_at := stored_time new_at, tg_enabled := (tg_enabled t \<and> reason \<noteq> SlotTaken)\<rparr>)"

definition recover_step :: "(string \<times> rat \<times> recovery) \<Rightarrow>
    (trigger list \<times> fire_world) \<times> (string \<times> rat \<times> recovery) list \<Rightarrow>
    (trigger list \<times> fire_world) \<times> (string \<times> rat \<times> recovery) list" where
  "recover_step p acc =
     (case acc of ((mem, w), rearmed) \<Rightarrow>
        (case get_trigger mem (fst p) of
           None \<Rightarrow> acc
         | Some t \<Rightarrow> if fst (snd p) = tg_next_fire_at t then acc
                     else (write_row (rearm_row p t) (mem, w), rearmed @ [p])))"

definition recover ::
    "clock_env \<Rightarrow> rat \<Rightarrow> trigger list \<Rightarrow> rat \<Rightarrow> trigger list \<times> fire_world \<Rightarrow> (trigger list \<times> fire_world) \<times> recover_report" where
  "recover env clock ts now st =
     (let review = review_at_boot env clock ts now ENUMERATION_CAP;
          caught_up = catch_up_at_boot env ts now;
          (st', rearmed) = fold recover_step (plan_boot env clock ts now) (st, [])
      in (st', \<lparr>rp_rearmed = rearmed, rp_review = review, rp_catch_up = caught_up,
               rp_next_sleep = sleep_for (filter (\<lambda>t. tg_id t \<in> tg_id ` set ts) (fst st')) now\<rparr>))"

definition boot :: "clock_env \<Rightarrow> (trigger \<Rightarrow> bool) \<Rightarrow> rat \<Rightarrow> rat \<Rightarrow> fire_world \<Rightarrow> fire_world \<times> recover_report" where
  "boot env armable clock now0 w =
     (let ts = filter armable (fw_triggers w);
          ((mem, w'), report) = recover env clock ts (now_or clock now0) (ts, w)
      in (w', report))"

text \<open>The cards a report owes, one per trigger; a trigger that catches up on its own gets none.\<close>

record review_card =
  cd_trigger_id :: string
  cd_count :: int
  cd_latest :: rat
  cd_oldest :: rat
  cd_count_is_floor :: bool

definition card_row :: "(string \<times> rat) \<Rightarrow> (string \<times> review_card) list \<Rightarrow> (string \<times> review_card) list" where
  "card_row row cards =
     (case row of (tid, slot) \<Rightarrow>
        if tid = [] \<or> slot \<le> 0 then cards
        else let card = (case map_of cards tid of Some c \<Rightarrow> c
               | None \<Rightarrow> \<lparr>cd_trigger_id = tid, cd_count = 0, cd_latest = slot, cd_oldest = slot, cd_count_is_floor = False\<rparr>)
             in dict_set cards tid (card\<lparr>cd_count := cd_count card + 1, cd_latest := max (cd_latest card) slot,
                  cd_oldest := min (cd_oldest card) slot\<rparr>))"

definition card_summary :: "missed_summary \<Rightarrow> (string \<times> review_card) list \<Rightarrow> (string \<times> review_card) list" where
  "card_summary s cards =
     (if ms_trigger_id s = [] \<or> ms_count s \<le> 0 then cards
      else let card = (case map_of cards (ms_trigger_id s) of Some c \<Rightarrow> c
             | None \<Rightarrow> \<lparr>cd_trigger_id = ms_trigger_id s, cd_count = 0, cd_latest = ms_newest s, cd_oldest = ms_oldest s,
                        cd_count_is_floor = False\<rparr>)
           in dict_set cards (ms_trigger_id s) (card\<lparr>cd_count := cd_count card + ms_count s,
                cd_oldest := (if ms_oldest s \<noteq> 0 then min (cd_oldest card) (ms_oldest s) else cd_oldest card),
                cd_latest := max (cd_latest card) (ms_newest s)\<rparr>))"

definition missed_by_trigger :: "recover_report \<Rightarrow> review_card list" where
  "missed_by_trigger report =
     (let review = rp_review report in
      sort_key cd_trigger_id
        (map (\<lambda>(tid, c). c\<lparr>cd_count_is_floor := mr_truncated review\<rparr>)
          (fold card_summary (mr_summaries review) (fold card_row (mr_rows review) []))))"

definition catching_up :: "recover_report \<Rightarrow> string list" where
  "catching_up report = map cu_id (filter (\<lambda>c. 0 < cu_fire_at c \<and> cu_id c \<noteq> []) (rp_catch_up report))"

definition cards_from_boot :: "recover_report \<Rightarrow> review_card list" where
  "cards_from_boot report = filter (\<lambda>c. cd_trigger_id c \<notin> set (catching_up report)) (missed_by_trigger report)"

definition newest_row :: "string \<Rightarrow> (string \<times> rat) list \<Rightarrow> rat" where
  "newest_row tid rows = foldr max (map snd (filter (\<lambda>r. fst r = tid) rows)) 0"

definition catch_up_slots :: "recover_report \<Rightarrow> (string \<times> rat \<times> rat) list" where
  "catch_up_slots report =
     fold (\<lambda>c out. let slot = first_nonzero [newest_row (cu_id c) (mr_rows (rp_review report)), cu_slot c] in
        if 0 < cu_fire_at c \<and> cu_id c \<noteq> [] \<and> 0 < slot then dict_set out (cu_id c) (slot, cu_fire_at c) else out)
       (rp_catch_up report) []"

section \<open>One tick\<close>

record tick_row =
  tr_trigger_id :: string
  tr_outcome :: string
  tr_gate :: "fire_gate option"
  tr_scheduled_for :: rat

record due_fire =
  df_trigger_id :: string
  df_claim :: "claim option"
  df_scheduled_for :: rat
  df_late :: bool

record wake_state =
  ts_mem :: "trigger list"
  ts_world :: fire_world
  ts_catching_up :: "(string \<times> rat \<times> rat) list"
  ts_fires :: "due_fire list"
  ts_rows :: "tick_row list"
  ts_rescheduled :: "string list"
  ts_retired :: "string list"
  ts_cards :: "review_card list"

definition unpark_mem :: "(trigger \<Rightarrow> bool) \<Rightarrow> rat \<Rightarrow> trigger list \<times> fire_world \<Rightarrow> trigger list \<times> fire_world" where
  "unpark_mem waits_on_absent_source now st =
     fold (\<lambda>t st. if unparks waits_on_absent_source now t then write_row (unparked t) st else st) (fst st) st"

definition arm_unarmed :: "clock_env \<Rightarrow> rat \<Rightarrow> rat \<Rightarrow> trigger list \<times> fire_world \<Rightarrow> (trigger list \<times> fire_world) \<times> string list" where
  "arm_unarmed env clock now st =
     fold (\<lambda>t (st, armed). if needs_arming t \<and> 0 < first_fire env clock t now
          then (write_row (t\<lparr>tg_next_fire_at := stored_time (first_fire env clock t now)\<rparr>) st, armed @ [tg_id t])
          else (st, armed)) (fst st) (st, [])"

definition rows_of :: "trigger list \<Rightarrow> string list \<Rightarrow> trigger list" where
  "rows_of mem tids = List.map_filter (get_trigger mem) tids"

definition recover_on_wake :: "clock_env \<Rightarrow> rat \<Rightarrow> rat \<Rightarrow> string list \<Rightarrow> wake_state \<Rightarrow> wake_state" where
  "recover_on_wake env clock now tids s =
     (if tids = [] then s
      else let ((mem, w), report) = recover env clock (rows_of (ts_mem s) tids) now (ts_mem s, ts_world s) in
        s\<lparr>ts_mem := mem, ts_world := w,
          ts_catching_up := fold (\<lambda>(k, v) d. dict_set d k v) (catch_up_slots report) (ts_catching_up s),
          ts_cards := ts_cards s @ cards_from_boot report\<rparr>)"

definition stands_in_for :: "(string \<times> rat \<times> rat) list \<Rightarrow> string \<Rightarrow> rat \<Rightarrow> rat" where
  "stands_in_for catching tid fire_at =
     (case map_of catching tid of
        None \<Rightarrow> 0
      | Some (slot, planned) \<Rightarrow> if \<bar>fire_at - planned\<bar> < 1 then slot else 0)"

definition advanced_row :: "clock_env \<Rightarrow> rat \<Rightarrow> rat \<Rightarrow> trigger \<Rightarrow> trigger \<times> bool" where
  "advanced_row env clock now t =
     (let advanced = next_after_completion env clock t now now in
      if advanced \<le> 0 then (t\<lparr>tg_next_fire_at := 0, tg_enabled := False\<rparr>, True)
      else (t\<lparr>tg_next_fire_at := stored_time advanced\<rparr>, False))"

definition tick_one :: "clock_env \<Rightarrow> fire_env \<Rightarrow> (trigger \<Rightarrow> bool) \<Rightarrow> rat \<Rightarrow> rat \<Rightarrow> bool \<Rightarrow>
    (string \<times> string) list \<Rightarrow> string \<Rightarrow> wake_state \<Rightarrow> wake_state" where
  "tick_one env fenv parses clock now user_active slot_map tid s =
     (case get_trigger (ts_mem s) tid of
        None \<Rightarrow> s
      | Some t \<Rightarrow>
          (let scheduled = first_nonzero [stands_in_for (ts_catching_up s) tid (tg_next_fire_at t), tg_next_fire_at t];
               (t1, spent) = advanced_row env clock now t;
               scheduled = (if spent then first_nonzero [own_time (ck_rt env) t1, scheduled] else scheduled);
               w1 = (if spent then ts_world s
                     else (ts_world s)\<lparr>fw_triggers := upsert t1 (fw_triggers (ts_world s))\<rparr>);
               (w2, d) = admit_fire fenv parses now (''tick:'' @ int_str (rat_trunc now)) user_active (Some slot_map) [] t1 w1;
               w3 = (if spent \<and> \<not> fd_allowed d then w2\<lparr>fw_triggers := upsert t1 (fw_triggers w2)\<rparr> else w2);
               (outcome, late) = late_outcome (fd_outcome d) scheduled now
           in s\<lparr>ts_mem := put_mem (if fd_allowed d then count_fire now t1 else t1) (ts_mem s), ts_world := w3,
                ts_catching_up := dict_del (ts_catching_up s) tid,
                ts_fires := ts_fires s @ (if fd_allowed d then [\<lparr>df_trigger_id = tid, df_claim = fd_claim d,
                   df_scheduled_for = scheduled, df_late = late\<rparr>] else []),
                ts_rows := ts_rows s @ [\<lparr>tr_trigger_id = tid, tr_outcome = outcome, tr_gate = fd_gate d, tr_scheduled_for = scheduled\<rparr>],
                ts_rescheduled := ts_rescheduled s @ (if spent then [] else [tid]),
                ts_retired := ts_retired s @ (if spent then [tid] else [])\<rparr>))"

definition missed_ids :: "trigger list \<Rightarrow> string list \<Rightarrow> rat \<Rightarrow> string list" where
  "missed_ids mem tids now =
     filter (\<lambda>tid. case get_trigger mem tid of Some t \<Rightarrow> slot_missed (tg_next_fire_at t) now | None \<Rightarrow> False) tids"

definition clock_tick :: "clock_env \<Rightarrow> fire_env \<Rightarrow> (trigger \<Rightarrow> bool) \<Rightarrow> (trigger \<Rightarrow> bool) \<Rightarrow> (trigger \<Rightarrow> bool) \<Rightarrow> rat \<Rightarrow> rat \<Rightarrow> bool \<Rightarrow>
    (string \<times> rat \<times> rat) list \<Rightarrow> fire_world \<Rightarrow> wake_state \<times> rat" where
  "clock_tick env fenv parses armable waits_on_absent_source clock now0 user_active catching w =
     (let now = now_or clock now0; ts = filter armable (fw_triggers w);
          slot_map = slot_holders fenv parses now (fw_claims w) (fw_triggers w);
          ((mem, w1), armed) = arm_unarmed env clock now (unpark_mem waits_on_absent_source now (ts, w));
          s0 = \<lparr>ts_mem = mem, ts_world = w1, ts_catching_up = catching, ts_fires = [], ts_rows = [],
                ts_rescheduled = [], ts_retired = [], ts_cards = []\<rparr>;
          s1 = recover_on_wake env clock now (missed_ids mem armed now) s0;
          s2 = recover_on_wake env clock now (missed_ids (ts_mem s1) (due_ids (ts_mem s1) now 1) now) s1;
          s3 = fold (tick_one env fenv parses clock now user_active slot_map) (due_ids (ts_mem s2) now 1) s2
      in (s3, sleep_for (ts_mem s3) now))"

section \<open>The owner's pause and resume\<close>

text \<open>
  \<open>set_paused\<close>; \<open>blocked\<close> is a trigger still waiting for review or for the owner's grant, \<open>parses\<close> a row with
  no parse error. The answer is whether it was done; a report mirrored by the trigger is left out.
\<close>

definition set_enabled :: "(trigger \<Rightarrow> bool) \<Rightarrow> string \<Rightarrow> bool \<Rightarrow> trigger list \<Rightarrow> trigger list \<times> trigger option" where
  "set_enabled parses tid on ts =
     (case get_trigger ts tid of
        None \<Rightarrow> (ts, None)
      | Some t \<Rightarrow>
          if on \<and> \<not> parses t then (ts, None)
          else let t1 = t\<lparr>tg_enabled := on, tg_restore_hold := []\<rparr> in (update_first (\<lambda>u. tg_id u = tid) (\<lambda>_. t1) ts, Some t1))"

definition set_paused :: "clock_env \<Rightarrow> (string \<Rightarrow> int option) \<Rightarrow> (trigger \<Rightarrow> bool) \<Rightarrow> (trigger \<Rightarrow> bool) \<Rightarrow> rat \<Rightarrow>
    string \<Rightarrow> bool \<Rightarrow> trigger list \<Rightarrow> trigger list \<times> bool" where
  "set_paused env int_text parses blocked clock tid paused ts =
     (case get_trigger ts tid of
        None \<Rightarrow> (ts, False)
      | Some t \<Rightarrow>
          if \<not> paused \<and> parses t \<and>
             (blocked t \<or> resume_state (tg_state t) = None \<or>
              switch_on_refusal env clock t (t\<lparr>tg_enabled := True\<rparr>) 0 \<noteq> 0)
          then (ts, False)
          else (case set_enabled parses tid (\<not> paused) ts of
                  (ts1, None) \<Rightarrow> (ts1, False)
                | (ts1, Some saved) \<Rightarrow>
                    if paused then (ts1, True)
                    else let resumed = (case resume_state (tg_state t) of Some s \<Rightarrow> s | None \<Rightarrow> tg_state t);
                             t1 = saved\<lparr>tg_run_count := (if budget_spent int_text saved then 0 else tg_run_count saved)\<rparr>;
                             t2 = (case next_fire_after_edit env clock t t1 0 of
                                     Some at_time \<Rightarrow> t1\<lparr>tg_next_fire_at := at_time\<rparr> | None \<Rightarrow> t1);
                             t3 = t2\<lparr>tg_state := resumed\<rparr>
                         in (if budget_spent int_text saved \<or> tg_next_fire_at t3 \<noteq> tg_next_fire_at saved \<or>
                                tg_state saved \<noteq> resumed
                             then upsert t3 ts1 else ts1, True)))"

end
