(* ===== verification/TriggerLifeFacts.thy ===== *)
theory TriggerLifeFacts
  imports TriggerLife
begin

text \<open>
  What holds of the life of an automation: the streak of failures its history gives and when it pauses,
  outages that cost nothing and end, the writes that leave a stopped trigger stopped, and the
  history that is the same whether work ends before or after its row is written.
\<close>

named_theorems row_facts \<open>what a row of the history is to the streak\<close>

section \<open>The streak\<close>

text \<open>The three things a row can be to the walk: it ends it, it counts, or it is passed over.\<close>

definition row_exit :: "run_row \<Rightarrow> string" where
  "row_exit r = (if rr_trigger r \<noteq> [] then rr_trigger r else rr_outcome r)"

definition walked :: "run_row \<Rightarrow> bool" where
  "walked r \<longleftrightarrow> \<not> yours (rr_source r) \<and> rr_status r \<notin> set UNSETTLED_STATUSES"

definition clean_row :: "run_row \<Rightarrow> bool" where
  "clean_row r \<longleftrightarrow> walked r \<and> (row_exit r \<in> {''ok'', ''ran'', ''ran_late''} \<or>
     row_exit r = [] \<and> rr_status r \<in> {''success'', ''ok''})"

definition failed_row :: "run_row \<Rightarrow> bool" where
  "failed_row r \<longleftrightarrow> walked r \<and> (row_exit r = ''failed'' \<or>
     row_exit r = [] \<and> rr_status r \<in> {''failure'', ''timeout'', ''error''})"

abbreviation passed_over :: "run_row \<Rightarrow> bool" where
  "passed_over r \<equiv> \<not> clean_row r \<and> \<not> failed_row r"

lemma streak_step:
  "consecutive_failures_from (r # rs) =
     (if clean_row r then 0 else if failed_row r then Suc (consecutive_failures_from rs)
      else consecutive_failures_from rs)"
  by (auto simp: Let_def clean_row_def failed_row_def walked_def row_exit_def counts_toward_autopause_def
      TRUE_FAILURE_OUTCOMES_def PARKING_EXITS_def)

lemmas streak_simps = consecutive_failures_from.simps(1) streak_step

declare consecutive_failures_from.simps(2) [simp del]

lemma not_both [simp]: "clean_row r \<Longrightarrow> \<not> failed_row r"
  by (auto simp: clean_row_def failed_row_def)

text \<open>The streak is the failures before the last clean exit.\<close>

lemma streak_counts:
  "consecutive_failures_from rs = length (filter failed_row (takeWhile (\<lambda>r. \<not> clean_row r) rs))"
  by (induction rs) (simp_all add: streak_simps)

lemma streak_bound: "consecutive_failures_from rs \<le> length rs"
  unfolding streak_counts by (rule le_trans [OF length_filter_le length_takeWhile_le])

lemma streak_passes_over: "passed_over r \<Longrightarrow> consecutive_failures_from (xs @ r # ys) = consecutive_failures_from (xs @ ys)"
  by (induction xs) (simp_all add: streak_simps)

lemma streak_grows:
  "list_all (\<lambda>r. \<not> clean_row r) xs \<Longrightarrow>
   consecutive_failures_from (xs @ ys) = length (filter failed_row xs) + consecutive_failures_from ys"
  by (induction xs) (simp_all add: streak_simps)

text \<open>The row an ending decides from, and what came after it.\<close>

lemma ending_decisionE:
  assumes "ending_decision rows run_id now budget q = Some d"
  obtains newer row older where "rows = newer @ row # older" "rr_run_id row = run_id"
    "\<forall>r \<in> set newer. rr_run_id r \<noteq> run_id" "deciding_exit row \<noteq> []"
    "\<forall>r \<in> set newer. deciding_exit r \<noteq> [] \<longrightarrow> deciding_exit row = ''failed'' \<and> deciding_exit r = ''failed''"
    "d = pause_evaluate (deciding_exit row) (consecutive_failures_from rows - 1) now budget q"
proof -
  let ?P = "\<lambda>r. rr_run_id r \<noteq> run_id"
  obtain row older where split: "dropWhile ?P rows = row # older"
    using assms by (auto simp: ending_decision_def split: list.splits)
  have rows: "rows = takeWhile ?P rows @ row # older" using takeWhile_dropWhile_id [of ?P rows] split by simp
  have id: "rr_run_id row = run_id" using hd_dropWhile [of ?P rows] split by simp
  show thesis
    by (rule that [OF rows id])
      (use assms split in \<open>auto simp: ending_decision_def Let_def filter_empty_conv list_all_iff
          dest: set_takeWhileD split: if_splits\<close>)
qed

text \<open>
  C24. A trigger pauses itself exactly when its recent history shows as many failed runs in a row as its budget.
  Of the \<open>STREAK_WINDOW\<close> (20) newest rows of the history, take the newest row of the run that ended, a failed
  one; if a newer row already decides otherwise, this ending decides nothing; else the count is the failed
  runs before the last clean exit among those rows, at least this one, whatever neither failed nor
  succeeded in between, and the trigger is paused if and only if the count reaches its own budget.
\<close>

theorem failure_pauses_at_the_budget:
  assumes "find (\<lambda>r. rr_run_id r = run_id) (list_for_job st job STREAK_WINDOW) = Some row"
    and "deciding_exit row = ''failed''" and "tg_state t \<noteq> TrigQuarantined"
  shows "let rows = list_for_job st job STREAK_WINDOW;
             newer = takeWhile (\<lambda>r. rr_run_id r \<noteq> run_id) rows;
             failures = max 1 (length (filter failed_row (takeWhile (\<lambda>r. \<not> clean_row r) rows)))
    in case autopause_decision int_text clock t rows run_id of
         None \<Rightarrow> \<exists>r \<in> set newer. deciding_exit r \<notin> {[], ''failed''}
       | Some d \<Rightarrow> deciding_exit ` set newer \<subseteq> {[], ''failed''} \<and> pd_failures d = failures \<and>
           pd_state d = (if max 1 (budget_for int_text t) \<le> int failures then TrigAutopaused else TrigActive)"
proof -
  let ?rows = "list_for_job st job STREAK_WINDOW"
  let ?P = "\<lambda>r. rr_run_id r \<noteq> run_id"
  have "\<exists>older. dropWhile ?P rows = row # older" if "find (\<lambda>r. rr_run_id r = run_id) rows = Some row" for rows
    using that by (induction rows) (auto split: if_splits)
  then obtain older where split: "dropWhile ?P ?rows = row # older" using assms(1) by blast
  have dec: "autopause_decision int_text clock t ?rows run_id =
      (if list_all (\<lambda>e. e = ''failed'') (filter (\<lambda>e. e \<noteq> []) (map deciding_exit (takeWhile ?P ?rows)))
       then Some (pause_evaluate ''failed'' (consecutive_failures_from ?rows - 1) clock (budget_for int_text t) False) else None)"
    using assms(2,3) by (auto simp: autopause_decision_def ending_decision_def split Let_def)
  show ?thesis
    unfolding Let_def dec streak_counts [symmetric]
    by (auto simp: list_all_iff pause_evaluate_def Let_def PARKING_EXITS_def IMMEDIATE_PAUSE_EXITS_def)
qed

definition fire_row :: "string \<Rightarrow> string \<Rightarrow> string \<Rightarrow> run_row" where
  "fire_row run_id tag status = \<lparr>rr_run_id = run_id, rr_trigger = tag, rr_outcome = [], rr_source = ''schedule'',
     rr_started = 1, rr_finished = 1, rr_status = status, rr_summary = [], rr_error = [], rr_work_id = []\<rparr>"

text \<open>A backup that declares it may fail thirty times, and has failed on every one of its fires.\<close>

definition backup :: trigger where
  "backup = \<lparr>tg_id = ''b'', tg_name = ''Backup'', tg_kind = ''clock'', tg_enabled = True, tg_spec = [], tg_gates = [],
     tg_capabilities = [], tg_workflow = [], tg_overlap = ''skip'',
     tg_failure_policy = [(''autopause_after'', JInt 30)], tg_yield_to_user = False, tg_resource_slots = [],
     tg_catch_up = False, tg_expires_at = 0, tg_next_fire_at = 0, tg_last_run_id = [], tg_run_count = 0,
     tg_last_success_at = 0, tg_last_failure_at = 0, tg_last_fired_at = 0, tg_last_waiting_at = 0,
     tg_health = HealthOk, tg_error = [], tg_state = TrigActive, tg_park_retry_after = 0, tg_restore_hold = []\<rparr>"

text \<open>Two failures, an outage between them, and before them a run that went well, newest first; and a backup that may fail twice.\<close>

definition mixed_rows :: "run_row list" where
  "mixed_rows = [(fire_row ''d'' ''failed'' ''failure'')\<lparr>rr_started := 5\<rparr>,
     (fire_row ''c'' ''transport_unavailable'' ''failure'')\<lparr>rr_started := 4\<rparr>, (fire_row ''b'' ''failed'' ''failure'')\<lparr>rr_started := 3\<rparr>,
     (fire_row ''a'' ''ok'' ''success'')\<lparr>rr_started := 2\<rparr>, fire_row ''0'' ''failed'' ''failure'']"

definition mixed_history :: run_store where
  "mixed_history = \<lparr>rs_rows = (\<lambda>_. rev mixed_rows), rs_early = []\<rparr>"

definition strict_backup :: trigger where
  "strict_backup = backup\<lparr>tg_failure_policy := [(''autopause_after'', JInt 2)]\<rparr>"

theorem failure_pauses_at_the_budget_witness:
  "map rr_run_id (list_for_job mixed_history ''b'' STREAK_WINDOW) = [''d'', ''c'', ''b'', ''a'', ''0''] \<and>
   (\<exists>d. autopause_decision (\<lambda>_. None) 9 strict_backup (list_for_job mixed_history ''b'' STREAK_WINDOW) ''d'' = Some d \<and>
     pd_failures d = 2 \<and> pd_state d = TrigAutopaused)"
proof -
  have rows: "list_for_job mixed_history ''b'' STREAK_WINDOW = mixed_rows" by code_simp
  have found: "find (\<lambda>r. rr_run_id r = ''d'') mixed_rows = Some ((fire_row ''d'' ''failed'' ''failure'')\<lparr>rr_started := 5\<rparr>)"
    "deciding_exit ((fire_row ''d'' ''failed'' ''failure'')\<lparr>rr_started := 5\<rparr>) = ''failed''"
    "takeWhile (\<lambda>r. rr_run_id r \<noteq> ''d'') mixed_rows = []" "map rr_run_id mixed_rows = [''d'', ''c'', ''b'', ''a'', ''0'']"
    by (simp_all add: mixed_rows_def fire_row_def deciding_exit_def yours_def UNSETTLED_STATUSES_def EXIT_TYPES_def)
  have count: "length (filter failed_row (takeWhile (\<lambda>r. \<not> clean_row r) mixed_rows)) = 2"
    by (simp add: mixed_rows_def fire_row_def failed_row_def clean_row_def walked_def row_exit_def yours_def
        UNSETTLED_STATUSES_def)
  have budget: "budget_for (\<lambda>_. None) strict_backup = 2" "tg_state strict_backup \<noteq> TrigQuarantined"
    by (simp_all add: strict_backup_def backup_def budget_for_def cfg_get_def int_of_field_def)
  show ?thesis
    using failure_pauses_at_the_budget [of "''d''" mixed_history "''b''", unfolded rows, OF found(1,2) budget(2), of "\<lambda>_. None" 9] found(3,4)
    by (simp add: Let_def count budget(1) rows split: option.splits)
qed

definition counter_step :: "rat \<Rightarrow> int \<Rightarrow> run_row \<Rightarrow> nat \<Rightarrow> nat" where
  "counter_step now budget r n = pd_failures (pause_evaluate (rr_trigger r) n now budget False)"

text \<open>
  The count the history gives is the counter the decision would keep: for the runs of a trigger in the
  order they ended, each a clean one, an outage or a failure, reading the streak back from the rows gives
  what stepping the decision's own count over the endings, one by one, gives.
\<close>

theorem streak_is_the_stepwise_counter:
  assumes "\<forall>r \<in> set rows. walked r \<and> rr_trigger r \<in> {''ok'', ''failed''} \<union> set PARKING_EXITS"
  shows "consecutive_failures_from (rev rows) = fold (counter_step now budget) rows 0"
  using assms
proof (induction rows rule: rev_induct)
  case (snoc r rows)
  then have "r \<in> set (rows @ [r])" and tag: "walked r" "rr_trigger r \<in> {''ok'', ''failed''} \<union> set PARKING_EXITS" by auto
  then show ?case using snoc
    by (auto simp: streak_simps counter_step_def pause_evaluate_def clean_row_def failed_row_def row_exit_def
        PARKING_EXITS_def IMMEDIATE_PAUSE_EXITS_def Let_def)
qed simp

theorem streak_is_the_stepwise_counter_witness:
  "consecutive_failures_from (rev [fire_row ''a'' ''failed'' ''failure'', fire_row ''b'' ''auth_unavailable'' ''failure'',
     fire_row ''c'' ''failed'' ''failure'']) = 2"
proof -
  have "consecutive_failures_from (rev [fire_row ''a'' ''failed'' ''failure'', fire_row ''b'' ''auth_unavailable'' ''failure'',
      fire_row ''c'' ''failed'' ''failure'']) = fold (counter_step 0 5) [fire_row ''a'' ''failed'' ''failure'',
      fire_row ''b'' ''auth_unavailable'' ''failure'', fire_row ''c'' ''failed'' ''failure''] 0"
    by (rule streak_is_the_stepwise_counter)
      (simp add: fire_row_def walked_def yours_def UNSETTLED_STATUSES_def PARKING_EXITS_def)
  then show ?thesis
    by (simp add: counter_step_def pause_evaluate_def fire_row_def PARKING_EXITS_def IMMEDIATE_PAUSE_EXITS_def Let_def)
qed

text \<open>The two exits the walk and the decision read differently.\<close>

theorem partial_run_does_not_end_the_streak:
  "pd_failures (pause_evaluate ''partial'' 4 now 5 False) = 0 \<and>
   consecutive_failures_from (fire_row ''e'' ''partial'' ''success'' # replicate 4 (fire_row ''d'' ''failed'' ''failure'')) = 4"
  by (simp add: pause_evaluate_def streak_simps clean_row_def failed_row_def walked_def row_exit_def fire_row_def
      yours_def UNSETTLED_STATUSES_def numeral_eq_Suc)

theorem config_error_counts_once_only:
  "pd_failures (pause_evaluate ''config_error'' 0 now 5 False) = 1 \<and>
   consecutive_failures_from [fire_row ''a'' ''config_error'' ''failure''] = 0"
  by (simp add: pause_evaluate_def streak_simps clean_row_def failed_row_def walked_def row_exit_def fire_row_def
      yours_def UNSETTLED_STATUSES_def PARKING_EXITS_def IMMEDIATE_PAUSE_EXITS_def)

text \<open>A park says it leaves the count as it was; what it reports is one less.\<close>

theorem park_reports_one_failure_less:
  "\<exists>d. ending_decision [fire_row ''c'' ''auth_unavailable'' ''failure'', fire_row ''b'' ''failed'' ''failure'',
     fire_row ''a'' ''failed'' ''failure''] ''c'' now 5 False = Some d \<and> pd_state d = TrigParked \<and> pd_failures d = 1"
  by (simp add: ending_decision_def deciding_exit_def fire_row_def streak_simps clean_row_def failed_row_def
      walked_def row_exit_def yours_def UNSETTLED_STATUSES_def EXIT_TYPES_def PARKING_EXITS_def
      pause_evaluate_def Let_def)

section \<open>The window the streak is read through\<close>

lemma list_for_job_length: "length (list_for_job st job limit) \<le> limit"
  by (simp add: list_for_job_def)

lemma pause_needs_budget:
  assumes "pd_state (pause_evaluate e n now budget False) = TrigAutopaused"
  shows "e = ''config_error'' \<or> max 1 budget \<le> int n + 1"
  using assms by (auto simp: pause_evaluate_def Let_def IMMEDIATE_PAUSE_EXITS_def split: if_splits)

text \<open>
  A run's ending reads no more than the \<open>STREAK_WINDOW\<close> newest rows of its trigger's history, so a
  trigger that declares a failure budget above it is never paused for failing, whatever its history holds;
  only a configuration error stops it.
\<close>

theorem budget_above_the_window_never_pauses:
  assumes "autopause_decision int_text clock t (list_for_job st job STREAK_WINDOW) run_id = Some d"
    and "int STREAK_WINDOW < budget_for int_text t" and "tg_state t \<noteq> TrigQuarantined"
    and "\<forall>r \<in> set (list_for_job st job STREAK_WINDOW). rr_run_id r = run_id \<longrightarrow> rr_trigger r \<noteq> ''config_error''"
  shows "pd_state d \<noteq> TrigAutopaused"
proof
  assume paused: "pd_state d = TrigAutopaused"
  let ?rows = "list_for_job st job STREAK_WINDOW"
  have "ending_decision ?rows run_id clock (budget_for int_text t) False = Some d"
    using assms(1,3) by (simp add: autopause_decision_def)
  then obtain newer row older where rows: "?rows = newer @ row # older" and id: "rr_run_id row = run_id"
    and e: "deciding_exit row \<noteq> []"
    and d: "d = pause_evaluate (deciding_exit row) (consecutive_failures_from ?rows - 1) clock (budget_for int_text t) False"
    by (rule ending_decisionE)
  have "deciding_exit row = rr_trigger row" using e by (auto simp: deciding_exit_def split: if_splits)
  moreover have "row \<in> set ?rows" using rows by simp
  ultimately have "max 1 (budget_for int_text t) \<le> int (consecutive_failures_from ?rows - 1) + 1"
    using pause_needs_budget paused assms(4) id unfolding d by metis
  moreover have "consecutive_failures_from ?rows \<le> STREAK_WINDOW"
    using streak_bound list_for_job_length by (rule le_trans)
  ultimately show False using assms(2) by (simp add: STREAK_WINDOW_def)
qed

definition always_failed :: run_store where
  "always_failed = \<lparr>rs_rows = (\<lambda>_. replicate 40 (fire_row ''x'' ''failed'' ''failure'')), rs_early = []\<rparr>"

lemma sort_key_same: "sort_key f (replicate n x) = replicate n x"
proof (induction n)
  case (Suc n)
  then show ?case by (cases n) simp_all
qed simp

lemma always_failed_rows: "list_for_job always_failed job STREAK_WINDOW = replicate 20 (fire_row ''x'' ''failed'' ''failure'')"
proof -
  have "filter (\<lambda>r. 0 < rr_started r) (replicate 40 (fire_row ''x'' ''failed'' ''failure'')) =
      replicate 40 (fire_row ''x'' ''failed'' ''failure'')"
    by (simp add: fire_row_def)
  moreover have "filter (\<lambda>r. \<not> 0 < rr_started r) (replicate 40 (fire_row ''x'' ''failed'' ''failure'')) = []"
    by (simp add: fire_row_def)
  ultimately show ?thesis
    by (simp only: list_for_job_def newest_first_def always_failed_def STREAK_WINDOW_def sort_key_same
        take_replicate run_store.select_convs) simp
qed

theorem budget_above_the_window_never_pauses_witness:
  "\<exists>d. autopause_decision (\<lambda>_. None) 0 backup (list_for_job always_failed ''b'' STREAK_WINDOW) ''x'' = Some d \<and>
     pd_state d \<noteq> TrigAutopaused"
proof -
  obtain d where d: "autopause_decision (\<lambda>_. None) 0 backup (list_for_job always_failed ''b'' STREAK_WINDOW) ''x'' = Some d"
    by (cases "autopause_decision (\<lambda>_. None) 0 backup (list_for_job always_failed ''b'' STREAK_WINDOW) ''x''")
      (simp_all add: always_failed_rows autopause_decision_def ending_decision_def deciding_exit_def fire_row_def
        yours_def UNSETTLED_STATUSES_def EXIT_TYPES_def Let_def numeral_eq_Suc)
  have "pd_state d \<noteq> TrigAutopaused"
  proof (rule budget_above_the_window_never_pauses [OF d])
    show "\<forall>r \<in> set (list_for_job always_failed ''b'' STREAK_WINDOW). rr_run_id r = ''x'' \<longrightarrow> rr_trigger r \<noteq> ''config_error''"
      by (simp add: always_failed_rows fire_row_def)
  qed (simp_all add: backup_def budget_for_def cfg_get_def int_of_field_def STREAK_WINDOW_def)
  then show ?thesis using d by blast
qed


text \<open>
  The suppressed fires of a trigger are rows of the same history, so they take up the window: an automation
  that fails on every one of its fires, with four fires held by its gate after each, never pauses.
\<close>

definition failing_block :: "run_row list" where
  "failing_block = fire_row ''x'' ''failed'' ''failure'' # replicate 4 (fire_row ''s'' ''skipped_gate'' ''skipped_gate'')"

lemma block_streak:
  "consecutive_failures_from (failing_block @ rows) = Suc (consecutive_failures_from rows)"
  by (simp add: failing_block_def numeral_eq_Suc streak_simps clean_row_def failed_row_def walked_def row_exit_def
      fire_row_def yours_def UNSETTLED_STATUSES_def)

lemma blocks_streak: "consecutive_failures_from (concat (replicate n failing_block)) = n"
  by (induction n) (simp_all add: block_streak)

lemma window_of_blocks: "take STREAK_WINDOW (concat (replicate n failing_block)) = concat (replicate (min n 4) failing_block)"
proof (cases "n \<le> 4")
  case True
  then have "length (concat (replicate n failing_block)) \<le> STREAK_WINDOW"
    by (simp add: length_concat sum_list_replicate failing_block_def STREAK_WINDOW_def)
  then show ?thesis using True by simp
next
  case False
  then have "replicate n failing_block = replicate 4 failing_block @ replicate (n - 4) failing_block"
    by (simp add: replicate_add [symmetric])
  moreover have "length (concat (replicate 4 failing_block)) = STREAK_WINDOW"
    by (simp add: failing_block_def STREAK_WINDOW_def numeral_eq_Suc)
  ultimately show ?thesis using False by simp
qed

theorem held_fires_hide_the_streak:
  "0 < n \<Longrightarrow> \<exists>d. ending_decision (take STREAK_WINDOW (concat (replicate n failing_block))) ''x'' now FAILURE_BUDGET False =
     Some d \<and> pd_state d = TrigActive"
proof -
  assume "0 < n"
  then obtain m where m: "min n 4 = Suc m" "m \<le> 3" by (cases "min n 4") auto
  have "deciding_exit (fire_row ''x'' ''failed'' ''failure'') = ''failed''"
    by (simp add: deciding_exit_def fire_row_def yours_def UNSETTLED_STATUSES_def EXIT_TYPES_def)
  then have "ending_decision (concat (replicate (Suc m) failing_block)) ''x'' now FAILURE_BUDGET False =
      Some (pause_evaluate ''failed'' (consecutive_failures_from (concat (replicate (Suc m) failing_block)) - 1) now FAILURE_BUDGET False)"
    unfolding ending_decision_def by (simp add: failing_block_def fire_row_def Let_def)
  then show ?thesis
    unfolding window_of_blocks m(1) blocks_streak using m(2)
    by (simp add: pause_evaluate_def Let_def FAILURE_BUDGET_def PARKING_EXITS_def IMMEDIATE_PAUSE_EXITS_def)
qed

section \<open>What an ending writes\<close>

lemma stamp_run_keeps [simp]:
  "tg_id (stamp_run clock status why rid fin t) = tg_id t"
  "tg_kind (stamp_run clock status why rid fin t) = tg_kind t"
  "tg_enabled (stamp_run clock status why rid fin t) = tg_enabled t"
  "tg_state (stamp_run clock status why rid fin t) = tg_state t"
  "tg_park_retry_after (stamp_run clock status why rid fin t) = tg_park_retry_after t"
  "tg_run_count (stamp_run clock status why rid fin t) = tg_run_count t"
  "tg_gates (stamp_run clock status why rid fin t) = tg_gates t"
  by (simp_all add: stamp_run_def Let_def)

lemma take_ending_keeps [simp]:
  "tg_id (fst (take_ending clock d status why rid fin t)) = tg_id t"
  "tg_kind (fst (take_ending clock d status why rid fin t)) = tg_kind t"
  "tg_run_count (fst (take_ending clock d status why rid fin t)) = tg_run_count t"
  "tg_gates (fst (take_ending clock d status why rid fin t)) = tg_gates t"
  by (simp_all add: take_ending_def Let_def split: option.split)

lemma take_ending_stopped:
  "needs_attention (tg_state t) \<Longrightarrow>
   tg_state (fst (take_ending clock d status why rid fin t)) = tg_state t \<and>
   tg_enabled (fst (take_ending clock d status why rid fin t)) = tg_enabled t \<and>
   \<not> snd (take_ending clock d status why rid fin t)"
  by (simp add: take_ending_def)

lemma take_ending_decides:
  "\<not> needs_attention (tg_state t) \<Longrightarrow>
   tg_state (fst (take_ending clock (Some d) status why rid fin t)) = pd_state d \<and>
   tg_enabled (fst (take_ending clock (Some d) status why rid fin t)) = (tg_enabled t \<and> \<not> needs_attention (pd_state d)) \<and>
   tg_park_retry_after (fst (take_ending clock (Some d) status why rid fin t)) =
     (if pd_state d = TrigParked then pd_retry_after d else 0) \<and>
   snd (take_ending clock (Some d) status why rid fin t) = needs_attention (pd_state d)"
  by (simp add: take_ending_def)

lemma take_ending_none:
  "tg_state (fst (take_ending clock None status why rid fin t)) = tg_state t \<and>
   tg_enabled (fst (take_ending clock None status why rid fin t)) = tg_enabled t"
  by (simp add: take_ending_def)

section \<open>Outages\<close>

text \<open>
  An outage costs nothing and ends by itself: a row whose run ended in one, wherever it stands in the
  history, leaves the streak as it is; the run that met it parks its trigger, still switched on, for one
  cooldown; and the first tick after the cooldown makes it active again, unless the trigger waits on a
  source that is gone, which a tick before then never does.
\<close>

theorem outage_parks_and_ends:
  assumes "rr_trigger r \<in> set PARKING_EXITS" and "\<not> needs_attention (tg_state t)" and "0 \<le> clock"
    and "take_ending clock (Some (pause_evaluate (rr_trigger r) n clock budget False)) status why rid fin t = (t', told)"
  shows "consecutive_failures_from (xs @ r # ys) = consecutive_failures_from (xs @ ys) \<and>
    tg_state t' = TrigParked \<and> tg_enabled t' = tg_enabled t \<and> \<not> told \<and>
    (\<forall>now. unparks absent now t' \<longleftrightarrow> clock + PARK_COOLDOWN_SECS \<le> now \<and> \<not> absent t') \<and>
    fires_automatically (unparked t') = (tg_enabled t \<and> tg_kind t \<noteq> ''manual'')"
proof -
  let ?d = "pause_evaluate (rr_trigger r) n clock budget False"
  have "passed_over r"
    using assms(1) by (auto simp: PARKING_EXITS_def clean_row_def failed_row_def row_exit_def)
  then have streak: "consecutive_failures_from (xs @ r # ys) = consecutive_failures_from (xs @ ys)"
    by (rule streak_passes_over)
  have d: "pd_state ?d = TrigParked" "pd_retry_after ?d = clock + PARK_COOLDOWN_SECS"
    using assms(1) by (auto simp: pause_evaluate_def PARKING_EXITS_def)
  have t': "tg_state t' = TrigParked" "tg_enabled t' = tg_enabled t" "tg_kind t' = tg_kind t"
    "tg_park_retry_after t' = clock + PARK_COOLDOWN_SECS" "\<not> told"
    using take_ending_decides [OF assms(2), of clock ?d status why rid fin]
      take_ending_keeps(2) [of clock "Some ?d" status why rid fin t] d
    by (simp_all add: assms(4) needs_attention_def)
  show ?thesis
    using streak t' assms(3)
    by (auto simp: unparks_def unpark_due_def fires_automatically_def unparked_def PARK_COOLDOWN_SECS_def)
qed

theorem outage_parks_and_ends_witness:
  "\<exists>t' told. take_ending 100 (Some (pause_evaluate ''transport_unavailable'' 3 100 5 False)) ''failure'' [] ''r'' 100 backup = (t', told) \<and>
     unparks (\<lambda>_. False) 400 t' \<and> \<not> unparks (\<lambda>_. False) 399 t'"
proof -
  obtain t' told where t': "take_ending 100 (Some (pause_evaluate (rr_trigger (fire_row ''r'' ''transport_unavailable'' ''failure'')) 3 100 5 False))
      ''failure'' [] ''r'' 100 backup = (t', told)"
    by fastforce
  have "unparks (\<lambda>_. False) now t' \<longleftrightarrow> 100 + PARK_COOLDOWN_SECS \<le> now \<and> \<not> False" for now
    using outage_parks_and_ends [OF _ _ _ t', of "[]" "[]" "\<lambda>_. False"]
    by (simp add: PARKING_EXITS_def fire_row_def needs_attention_def backup_def)
  then show ?thesis using t' by (auto simp: PARK_COOLDOWN_SECS_def fire_row_def)
qed

section \<open>Work that ends later\<close>

lemma filter_snoc_mine: "filter P (rev (xs @ [x])) = (if P x then x # filter P (rev xs) else filter P (rev xs))"
  by simp

lemma update_last_snoc: "P x \<Longrightarrow> update_last P f (xs @ [x]) = xs @ [f x]"
  by (simp add: update_last_def)

lemma dict_del_set: "k \<notin> set (map fst d) \<Longrightarrow> dict_del (dict_set d k v) k = d"
  by (induction d) (auto simp: dict_del_def)

lemma settle_row_keeps [simp]:
  "rr_work_id (settle_row e r) = rr_work_id r" "rr_started (settle_row e r) = rr_started r"
  "rr_source (settle_row e r) = rr_source r" "rr_run_id (settle_row e r) = rr_run_id r"
  by (simp_all add: settle_row_def)

lemma rotate_short: "length rows \<le> MAX_RECORDS_PER_JOB \<Longrightarrow> rotate_job rows = rows"
  by (simp add: rotate_job_def)

lemma insort_last: "f x \<le> f n \<Longrightarrow> insort_key f x (ys @ [n]) = insort_key f x ys @ [n]"
  by (induction ys) auto

lemma sort_last:
  assumes "\<forall>r \<in> set rows. f r \<le> f n"
  shows "sort_key f (rows @ [n]) = sort_key f rows @ [n]"
proof -
  have "foldr (insort_key f) rows [n] = foldr (insort_key f) rows [] @ [n]"
    using assms by (induction rows) (simp_all add: insort_last)
  then show ?thesis by (simp add: sort_key_def)
qed

lemma filter_positions_last:
  "filter (\<lambda>i. P ((ys @ [n]) ! i)) [0..<length (ys @ [n])] =
     filter (\<lambda>i. P (ys ! i)) [0..<length ys] @ (if P n then [length ys] else [])"
proof -
  have "filter (\<lambda>i. P ((ys @ [n]) ! i)) [0..<length ys] = filter (\<lambda>i. P (ys ! i)) [0..<length ys]"
    by (rule filter_cong) (simp_all add: nth_append)
  then show ?thesis by simp
qed

lemma newest_positions_last:
  "0 < k \<Longrightarrow> newest_positions k P (ys @ [n]) =
     (if P n then newest_positions (k - 1) P ys @ [length ys] else newest_positions k P ys)"
  unfolding newest_positions_def Let_def filter_positions_last by (simp add: Suc_diff_le)

lemma newest_positions_fit: "length (newest_positions k P ys) \<le> k" "set (newest_positions k P ys) \<subseteq> {..<length ys}"
  unfolding newest_positions_def Let_def by (auto dest: in_set_dropD)

text \<open>A row no older than the others is kept whatever the rotation drops, and what is dropped depends on its kind alone.\<close>

lemma rotate_keeps_newest:
  "\<exists>kept. set kept \<subseteq> set rows \<and> (length rows < MAX_RECORDS_PER_JOB \<longrightarrow> kept = rows) \<and>
     (\<forall>n. inert_row n = b \<longrightarrow> length rows < MAX_RECORDS_PER_JOB \<or> (\<forall>r \<in> set rows. rr_started r \<le> rr_started n) \<longrightarrow>
        rotate_job (rows @ [n]) = kept @ [n])"
proof (cases "length rows < MAX_RECORDS_PER_JOB")
  case True
  then show ?thesis by (intro exI [of _ rows]) (simp add: rotate_short)
next
  case False
  let ?S = MAX_SUPPRESSED_PER_JOB and ?M = MAX_RECORDS_PER_JOB
  define ys where "ys = sort_key rr_started rows"
  define ks where "ks = newest_positions (if b then ?S - 1 else ?S) inert_row ys"
  define ws where "ws = newest_positions (if b then ?M - Suc (length ks) else ?M - length ks - 1) (\<lambda>r. \<not> inert_row r) ys"
  define at_rows where "at_rows = filter (\<lambda>i. i \<in> set ks \<union> set ws) [0..<length ys]"
  have caps: "0 < ?S" "?S < ?M" by (simp_all add: MAX_SUPPRESSED_PER_JOB_def MAX_RECORDS_PER_JOB_def)
  have small: "length ks \<le> (if b then ?S - 1 else ?S)" unfolding ks_def by (rule newest_positions_fit)
  have below: "set ks \<union> set ws \<subseteq> {..<length ys}" using newest_positions_fit(2) by (simp add: ks_def ws_def)
  have rotated: "rotate_job (rows @ [n]) = map (nth ys) at_rows @ [n]"
    if n: "inert_row n = b" "\<forall>r \<in> set rows. rr_started r \<le> rr_started n" for n
  proof -
    let ?k = "newest_positions ?S inert_row (ys @ [n])"
    let ?w = "newest_positions (?M - length ?k) (\<lambda>r. \<not> inert_row r) (ys @ [n])"
    have long: "\<not> length (rows @ [n]) \<le> ?M" using False by simp
    have ordered: "sort_key rr_started (rows @ [n]) = ys @ [n]" unfolding ys_def by (rule sort_last [OF n(2)])
    have k: "?k = (if b then ks @ [length ys] else ks)"
      using newest_positions_last [OF caps(1), of inert_row ys n] n(1) by (simp add: ks_def)
    have room: "0 < ?M - length ?k" using small caps by (auto simp: k split: if_splits)
    have w: "?w = (if b then ws else ws @ [length ys])"
      using newest_positions_last [OF room, of "\<lambda>r. \<not> inert_row r" ys n] n(1) by (simp add: k ws_def)
    have all: "set ?k \<union> set ?w = insert (length ys) (set ks \<union> set ws)"
      using arg_cong [OF k, of set] arg_cong [OF w, of set] by (cases b) auto
    have "filter (\<lambda>i. i \<in> set ?k \<union> set ?w) [0..<length (ys @ [n])] = at_rows @ [length ys]"
      unfolding all at_rows_def using below by (auto intro!: filter_cong)
    moreover have "map (nth (ys @ [n])) at_rows = map (nth ys) at_rows"
      by (auto simp: at_rows_def nth_append)
    ultimately show ?thesis
      using long by (simp only: rotate_job_def ordered Let_def if_False map_append) simp
  qed
  have "set (map (nth ys) at_rows) \<subseteq> set ys" by (auto simp: at_rows_def)
  then have "set (map (nth ys) at_rows) \<subseteq> set rows" by (simp add: ys_def)
  then show ?thesis using rotated False by (intro exI [of _ "map (nth ys) at_rows"]) auto
qed

text \<open>
  C25. It makes no difference to the history whether the work a fire started ends before or after the fire's own
  row is written: for a row that names the work, which no other row and no waiting ending does, the history
  is the same in both orders, and its last row says how the work ended. This is said of a history with room
  (fewer than 100 rows) or, when it is full and the write drops rows, of a row no older than the others
  whose work does not end as a suppressed fire does. The other endings that wait for their rows are the
  same too, except that where 64 already wait, keeping this one drops the oldest of them.
\<close>

theorem early_ending_is_no_different:
  assumes "rr_status run \<in> set UNSETTLED_STATUSES" and "job \<noteq> []" and "rr_work_id run = work" and "work \<noteq> []"
    and "\<forall>r \<in> set (rs_rows st job). rr_work_id r \<noteq> work" and "(job, work) \<notin> set (map fst (rs_early st))"
    and "length (rs_rows st job) < MAX_RECORDS_PER_JOB \<or>
      (\<forall>r \<in> set (rs_rows st job). rr_started r \<le> rr_started run) \<and> en_status e \<notin> set INERT_OUTCOMES"
  shows "let row_first = fst (settle_sync redact clock job work e (fst (append_row redact job run st)));
             end_first = fst (append_row redact job run (fst (settle_sync redact clock job work e st)))
    in rs_rows row_first = rs_rows end_first \<and>
      rr_work_id (last (rs_rows row_first job)) = work \<and> rr_status (last (rs_rows row_first job)) = en_status e \<and>
      rs_early row_first = rs_early st \<and>
      rs_early end_first = drop (Suc (length (rs_early st)) - EARLY_ENDINGS_CAP) (rs_early st)"
proof -
  let ?run = "run\<lparr>rr_summary := take SUMMARY_CAP (redact (rr_summary run)), rr_error := redact (rr_error run)\<rparr>"
  let ?e = "e\<lparr>en_summary := take SUMMARY_CAP (redact (en_summary e)), en_error := redact (en_error e),
      en_finished := (if en_finished e \<noteq> 0 then en_finished e else clock)\<rparr>"
  let ?rows = "rs_rows st job"
  let ?n = "Suc (length (rs_early st)) - EARLY_ENDINGS_CAP"
  let ?waiting = "drop ?n (rs_early st)"
  have live: "\<not> inert_row ?run" using assms(1) by (auto simp: inert_row_def UNSETTLED_STATUSES_def INERT_OUTCOMES_def)
  obtain kept where kept: "length ?rows < MAX_RECORDS_PER_JOB \<longrightarrow> kept = ?rows"
    "\<And>n. \<not> inert_row n \<Longrightarrow> length ?rows < MAX_RECORDS_PER_JOB \<or> (\<forall>r \<in> set ?rows. rr_started r \<le> rr_started n) \<Longrightarrow>
       rotate_job (?rows @ [n]) = kept @ [n]"
    using rotate_keeps_newest [of ?rows False] by auto
  have row: "rotate_job (?rows @ [?run]) = kept @ [?run]"
    by (rule kept(2) [OF live]) (use assms(7) in auto)
  have settled: "rotate_job (?rows @ [settle_row ?e ?run]) = kept @ [settle_row ?e ?run]"
  proof (cases "length ?rows < MAX_RECORDS_PER_JOB")
    case True
    then show ?thesis using kept(1) by (simp add: rotate_short)
  next
    case False
    show ?thesis by (rule kept(2)) (use False assms(7) in \<open>auto simp: inert_row_def settle_row_def\<close>)
  qed
  have none: "map_of (rs_early st) (job, work) = None" using assms(6) by (simp add: map_of_eq_None_iff)
  have appended: "fst (append_row redact job run st) = st\<lparr>rs_rows := (rs_rows st)(job := kept @ [?run])\<rparr>"
    using assms(1,3,4) none row by (simp add: append_row_def Let_def)
  have row_first: "fst (settle_sync redact clock job work e (fst (append_row redact job run st))) =
      st\<lparr>rs_rows := (rs_rows st)(job := kept @ [settle_row ?e ?run])\<rparr>"
    unfolding appended using assms(1-4) by (simp add: settle_sync_def Let_def update_last_snoc)
  have no_row: "filter (\<lambda>r. rr_work_id r = work) (rev ?rows) = []" using assms(5) by (simp add: filter_empty_conv)
  have fresh: "(job, work) \<notin> set (map fst ?waiting)" using assms(6) by (auto dest: in_set_dropD)
  have early: "fst (settle_sync redact clock job work e st) = st\<lparr>rs_early := dict_set ?waiting (job, work) ?e\<rparr>"
    using assms(2,4) no_row dict_set_fresh [OF assms(6)] dict_set_fresh [OF fresh]
    by (simp add: settle_sync_def Let_def EARLY_ENDINGS_CAP_def)
  have end_first: "fst (append_row redact job run (fst (settle_sync redact clock job work e st))) =
      st\<lparr>rs_rows := (rs_rows st)(job := kept @ [settle_row ?e ?run]), rs_early := ?waiting\<rparr>"
    unfolding early using assms(1,3,4) settled dict_del_set [OF fresh]
    by (simp add: append_row_def Let_def)
  show ?thesis unfolding row_first end_first Let_def using assms(3) by simp (simp add: settle_row_def)
qed

definition launched_row :: run_row where
  "launched_row = (fire_row ''f'' ''ok'' ''launched'')\<lparr>rr_work_id := ''subagent:7''\<rparr>"

definition agent_failed :: run_end where
  "agent_failed = \<lparr>en_status = ''failure'', en_summary = ''it crashed'', en_error = ''it crashed'', en_finished = 5, en_exit = ''failed''\<rparr>"

definition no_runs :: run_store where
  "no_runs = \<lparr>rs_rows = (\<lambda>_. []), rs_early = []\<rparr>"

theorem early_ending_is_no_different_witness:
  "rs_rows (fst (append_row id ''b'' launched_row (fst (settle_sync id 9 ''b'' ''subagent:7'' agent_failed no_runs)))) ''b'' =
     [launched_row\<lparr>rr_status := ''failure'', rr_summary := ''it crashed'', rr_error := ''it crashed'', rr_finished := 5,
        rr_trigger := ''failed''\<rparr>]"
proof -
  have "rs_rows (fst (settle_sync id 9 ''b'' ''subagent:7'' agent_failed (fst (append_row id ''b'' launched_row no_runs)))) =
      rs_rows (fst (append_row id ''b'' launched_row (fst (settle_sync id 9 ''b'' ''subagent:7'' agent_failed no_runs))))"
    using early_ending_is_no_different [of launched_row "''b''" "''subagent:7''" no_runs agent_failed id 9]
    by (simp add: Let_def) (simp add: launched_row_def fire_row_def no_runs_def UNSETTLED_STATUSES_def MAX_RECORDS_PER_JOB_def)
  moreover have "rs_rows (fst (settle_sync id 9 ''b'' ''subagent:7'' agent_failed (fst (append_row id ''b'' launched_row no_runs)))) ''b'' =
     [launched_row\<lparr>rr_status := ''failure'', rr_summary := ''it crashed'', rr_error := ''it crashed'', rr_finished := 5,
        rr_trigger := ''failed''\<rparr>]"
    by (simp add: settle_sync_def append_row_def Let_def launched_row_def fire_row_def no_runs_def agent_failed_def
        UNSETTLED_STATUSES_def SUMMARY_CAP_def rotate_job_def MAX_RECORDS_PER_JOB_def update_last_def settle_row_def)
  ultimately show ?thesis by simp
qed


section \<open>A trigger that stopped itself stays stopped\<close>

lemma row_written_keeps [simp]:
  "tg_id (row_written t) = tg_id t" "tg_state (row_written t) = tg_state t" "tg_enabled (row_written t) = tg_enabled t"
  "tg_run_count (row_written t) = tg_run_count t" "tg_gates (row_written t) = tg_gates t"
  "tg_next_fire_at (row_written t) = tg_next_fire_at t" "tg_kind (row_written t) = tg_kind t"
  by (simp_all add: row_written_def)

lemma get_trigger_id: "get_trigger ts tid = Some t \<Longrightarrow> tg_id t = tid"
  by (auto simp: get_trigger_def find_Some_iff)

lemma get_upsert: "get_trigger (upsert t ts) tid = (if tid = tg_id t then Some (row_written t) else get_trigger ts tid)"
  unfolding get_trigger_def upsert_def by (induction ts) auto

lemma get_delete: "get_trigger (delete_trigger x ts) tid = (if tid = x then None else get_trigger ts tid)"
  unfolding get_trigger_def delete_trigger_def by (induction ts) auto

text \<open>
  What the endings of runs, a refusal before dispatch, a fire counted by a poll, unparking, and a spent budget do
  to a home's automations; admissions, ticks and boots join them in \<open>TriggerMachine\<close>.
\<close>

inductive life_step ::
    "(string \<Rightarrow> string) \<Rightarrow> (string \<Rightarrow> int option) \<Rightarrow> runtime \<Rightarrow> (trigger \<Rightarrow> bool) \<Rightarrow> life_world \<Rightarrow> life_world \<Rightarrow> bool"
  for redact :: "string \<Rightarrow> string" and int_text :: "string \<Rightarrow> int option" and rt :: runtime
    and absent :: "trigger \<Rightarrow> bool" where
  ran: "life_step redact int_text rt absent w
    (fst (record_run redact int_text rt clock tid started result exc error late source w))"
| refused: "life_step redact int_text rt absent w (fst (record_refusal redact clock tid why source w))"
| agent_ended: "life_step redact int_text rt absent w (fst (settle_agent_run redact int_text clock info w))"
| workflow_ended: "life_step redact int_text rt absent w
    (fst (settle_workflow_run redact int_text clock tid run_id ended error summary w))"
| unparked: "life_step redact int_text rt absent w (w\<lparr>lw_triggers := unpark_ready absent now tids (lw_triggers w)\<rparr>)"
| counted: "life_step redact int_text rt absent w (w\<lparr>lw_triggers := note_fire tid now (lw_triggers w)\<rparr>)"
| spent: "get_trigger (lw_triggers w) tid = Some t \<Longrightarrow>
    life_step redact int_text rt absent w (w\<lparr>lw_triggers := fst (retire_if_spent int_text t (lw_triggers w))\<rparr>)"

definition stopped :: "string \<Rightarrow> trigger_state \<Rightarrow> trigger \<Rightarrow> bool" where
  "stopped tid s t \<longleftrightarrow> needs_attention s \<and> (tg_id t = tid \<longrightarrow> tg_state t = s \<and> \<not> tg_enabled t)"

abbreviation stopped_in :: "string \<Rightarrow> trigger_state \<Rightarrow> trigger list \<Rightarrow> bool" where
  "stopped_in tid s ts \<equiv> list_all (stopped tid s) ts"

lemma got_is_stored: "get_trigger ts tid = Some t \<Longrightarrow> t \<in> set ts"
  by (auto simp: get_trigger_def find_Some_iff)

lemma stopped_row_written [simp]: "stopped x s (row_written t) = stopped x s t"
  by (simp add: stopped_def)

lemma stopped_upsert: "stopped_in x s ts \<Longrightarrow> stopped x s t \<Longrightarrow> stopped_in x s (upsert t ts)"
  unfolding upsert_def by (auto simp: list_all_iff)

text \<open>A write of a stored row that leaves a stopped trigger stopped.\<close>

lemma stopped_write:
  assumes "stopped_in x s ts" and "get_trigger ts tid = Some t" and "tg_id t' = tg_id t"
    and "needs_attention (tg_state t) \<Longrightarrow> \<not> tg_enabled t \<Longrightarrow> tg_state t' = tg_state t \<and> \<not> tg_enabled t'"
  shows "stopped_in x s (upsert t' ts)"
  using assms got_is_stored [OF assms(2)]
  by (intro stopped_upsert) (auto simp: list_all_iff stopped_def)

lemma stopped_take:
  "stopped_in x s ts \<Longrightarrow> get_trigger ts tid = Some t \<Longrightarrow>
   stopped_in x s (upsert (fst (take_ending clock d status why rid fin t)) ts)"
  by (rule stopped_write, assumption, assumption) (simp_all add: take_ending_stopped)

lemma stopped_retire: "stopped_in tid s ts \<Longrightarrow> stopped_in tid s (retire_after_run rt status review t ts)"
  by (auto simp: retire_after_run_def delete_trigger_def list_all_iff)

text \<open>What a recorded run leaves of the triggers.\<close>

lemma lw_writes: "lw_triggers (w\<lparr>lw_runs := r\<rparr>) = lw_triggers w" "lw_triggers (v\<lparr>lw_triggers := ts\<rparr>) = ts"
  by simp_all

lemma record_run_triggers:
  assumes "tid \<noteq> []" and "get_trigger (lw_triggers w) tid = Some t"
  shows "\<exists>d status why rid review.
    lw_triggers (fst (record_run redact int_text rt clock tid started result exc error late source w)) =
      retire_after_run rt status review (fst (take_ending clock d status why rid clock t))
        (upsert (fst (take_ending clock d status why rid clock t)) (lw_triggers w))"
  using assms(1)
  by (simp only: record_run_def Let_def split_beta assms(2) if_False option.case fst_conv lw_writes)
    (intro exI, rule refl)

lemma record_run_unknown:
  "tid = [] \<or> get_trigger (lw_triggers w) tid = None \<Longrightarrow>
   lw_triggers (fst (record_run redact int_text rt clock tid started result exc error late source w)) = lw_triggers w"
  by (cases "tid = []") (simp_all only: record_run_def Let_def split_beta if_True if_False simp_thms option.case
      fst_conv lw_writes)

lemma stopped_record_run:
  assumes "stopped_in x s (lw_triggers w)"
  shows "stopped_in x s (lw_triggers (fst (record_run redact int_text rt clock tid started result exc error late source w)))"
proof (cases "tid = [] \<or> get_trigger (lw_triggers w) tid = None")
  case True
  then show ?thesis using assms by (simp only: record_run_unknown)
next
  case False
  then obtain t where t: "tid \<noteq> []" "get_trigger (lw_triggers w) tid = Some t" by auto
  show ?thesis
    using record_run_triggers [OF t, of redact int_text rt clock started result exc error late source]
      stopped_retire [OF stopped_take [OF assms t(2)]] by (elim exE) (simp only:)
qed

lemma stopped_record_ending:
  assumes "stopped_in x s (lw_triggers w)"
  shows "stopped_in x s (lw_triggers (fst (record_ending int_text clock tid work status why w)))"
proof (cases "get_trigger (lw_triggers w) tid")
  case (Some t)
  then show ?thesis
    using stopped_take [OF assms Some] by (simp add: record_ending_def Let_def split_beta del: take_ending_keeps)
qed (use assms in \<open>simp add: record_ending_def\<close>)

lemma stopped_refusal:
  assumes "stopped_in x s (lw_triggers w)"
  shows "stopped_in x s (lw_triggers (fst (record_refusal redact clock tid why source w)))"
proof (cases "tid = [] \<or> get_trigger (lw_triggers w) tid = None")
  case True
  then show ?thesis using assms by (auto simp: record_refusal_def Let_def)
next
  case False
  then obtain t where t: "get_trigger (lw_triggers w) tid = Some t" "tid \<noteq> []" by auto
  then show ?thesis using stopped_write [OF assms t(1)] by (simp add: record_refusal_def Let_def)
qed

lemma stopped_unpark: "stopped_in x s ts \<Longrightarrow> stopped_in x s (unpark_ready absent now tids ts)"
  unfolding unpark_ready_def
proof (rule fold_preserves, assumption)
  fix tid us
  assume us: "stopped_in x s us"
  show "stopped_in x s (case get_trigger us tid of None \<Rightarrow> us
      | Some t \<Rightarrow> if unparks absent now t then upsert (unparked t) us else us)"
  proof (cases "get_trigger us tid")
    case (Some t)
    then show ?thesis
      using us stopped_write [OF us Some, of "unparked t"] by (auto simp: unparks_def needs_attention_def unparked_def)
  qed (use us in simp)
qed

lemma stopped_note_fire: "stopped_in x s ts \<Longrightarrow> stopped_in x s (note_fire tid now ts)"
  by (auto simp: note_fire_def count_fire_def split: option.split intro: stopped_write)

lemma stopped_spent:
  "stopped_in x s ts \<Longrightarrow> get_trigger ts tid = Some t \<Longrightarrow> stopped_in x s (fst (retire_if_spent int_text t ts))"
  by (auto simp: retire_if_spent_def intro: stopped_write)

lemma stopped_step: "life_step redact int_text rt absent w w' \<Longrightarrow> stopped_in x s (lw_triggers w) \<Longrightarrow> stopped_in x s (lw_triggers w')"
proof (induction rule: life_step.induct)
  case (agent_ended w clock info)
  then show ?case by (auto simp: settle_agent_run_def Let_def split_beta intro!: stopped_record_ending)
next
  case (workflow_ended w clock tid run_id ended error summary)
  then show ?case by (auto simp: settle_workflow_run_def Let_def split_beta intro!: stopped_record_ending)
qed (simp_all add: stopped_record_run stopped_refusal stopped_unpark stopped_note_fire stopped_spent)

definition paused_backup :: trigger where
  "paused_backup = backup\<lparr>tg_state := TrigAutopaused, tg_enabled := False\<rparr>"

definition bare_runtime :: runtime where
  "bare_runtime = \<lparr>rt_str = (\<lambda>_. []), rt_dumps = (\<lambda>_. []), rt_dumps_sorted = (\<lambda>_. []),
     rt_float = (\<lambda>_. None), rt_sha256 = id\<rparr>"

end
