(* ===== verification/FirePathFacts.thy ===== *)
theory FirePathFacts
  imports FirePath TriggerLifeFacts
begin

text \<open>
  What holds of the admission of a fire: the first gate that fails in the declared order decides it, a run in
  flight is seen by every later admission, budgets and slots and the capability fence hold, and what a
  refusal leaves in the history.
\<close>

section \<open>The gates\<close>

text \<open>When a gate lets the fire through, gate by gate and without the others.\<close>

fun gate_opens :: "fire_env \<Rightarrow> fire_context \<Rightarrow> fire_gate \<Rightarrow> bool" where
  "gate_opens env ctx GIncident = (\<not> fe_incident env)"
| "gate_opens env ctx GScreen = (fx_payload_text ctx = [] \<or> \<not> fe_screen_blocks env (fx_payload_text ctx))"
| "gate_opens env ctx GSpacing = (\<not> spacing_refuses (fe_rt env) ctx)"
| "gate_opens env ctx GRate = (\<not> rate_refuses (fe_int_text env) ctx)"
| "gate_opens env ctx GQuiet = cd_allowed (evaluate_quiet (fe_rt env) (fx_gates ctx) (fx_moment ctx))"
| "gate_opens env ctx GDuty = evaluate_duty env (fx_gates ctx) (fx_moment ctx)"
| "gate_opens env ctx GBudget = (\<forall>left. fx_budget_remaining ctx = Some left \<longrightarrow> 0 < left)"
| "gate_opens env ctx GClaim =
     (fx_overlap ctx = ''parallel'' \<or> (\<forall>c. fx_existing_claim ctx = Some c \<longrightarrow> claim_expired (fx_now ctx) c))"
| "gate_opens env ctx GSlot = (fx_busy_slot ctx = None)"
| "gate_opens env ctx GActive = (\<not> fx_target_active ctx)"
| "gate_opens env ctx GYield = (\<not> (fx_yield_to_user ctx \<and> fx_user_active ctx))"
| "gate_opens env ctx GCapability = (unfenced_actions env (fx_capabilities ctx) (needs_fence env ctx) = [])"

lemma claim_fire_None:
  "claim_fire env ex tid h now overlap = None \<longleftrightarrow>
     overlap \<noteq> ''parallel'' \<and> (\<exists>c. ex = Some c \<and> \<not> claim_expired now c)"
  by (auto simp: claim_fire_def Let_def split: option.splits)

lemma claim_fire_grants:
  "claim_fire env ex tid h now overlap = Some c \<Longrightarrow>
     cl_trigger_id c = tid \<and> cl_claimed_at c = now \<and> cl_max_secs c = CLAIM_MAX_DURATION_SECS"
  by (auto simp: claim_fire_def Let_def split: option.splits if_splits)

text \<open>The conditions of the walk, as the gates they are.\<close>

lemma gate_conditions:
  "fe_incident env \<longleftrightarrow> \<not> gate_opens env ctx GIncident"
  "(fx_payload_text ctx \<noteq> [] \<and> fe_screen_blocks env (fx_payload_text ctx)) \<longleftrightarrow> \<not> gate_opens env ctx GScreen"
  "spacing_refuses (fe_rt env) ctx \<longleftrightarrow> \<not> gate_opens env ctx GSpacing"
  "rate_refuses (fe_int_text env) ctx \<longleftrightarrow> \<not> gate_opens env ctx GRate"
  "cd_allowed (evaluate_quiet (fe_rt env) (fx_gates ctx) (fx_moment ctx)) \<longleftrightarrow> gate_opens env ctx GQuiet"
  "evaluate_duty env (fx_gates ctx) (fx_moment ctx) \<longleftrightarrow> gate_opens env ctx GDuty"
  "(case fx_budget_remaining ctx of Some left \<Rightarrow> left \<le> 0 | None \<Rightarrow> False) \<longleftrightarrow> \<not> gate_opens env ctx GBudget"
  "fx_busy_slot ctx \<noteq> None \<longleftrightarrow> \<not> gate_opens env ctx GSlot"
  "fx_target_active ctx \<longleftrightarrow> \<not> gate_opens env ctx GActive"
  "(fx_yield_to_user ctx \<and> fx_user_active ctx) \<longleftrightarrow> \<not> gate_opens env ctx GYield"
  "unfenced_actions env (fx_capabilities ctx) (needs_fence env ctx) \<noteq> [] \<longleftrightarrow> \<not> gate_opens env ctx GCapability"
  by (auto split: option.split)

lemma claim_gate:
  "claim_fire env (fx_existing_claim ctx) tid h (fx_now ctx) (fx_overlap ctx) = None \<longleftrightarrow> \<not> gate_opens env ctx GClaim"
  by (auto simp: claim_fire_None)

declare gate_opens.simps [simp del]

text \<open>What the walk reports, read off the list of gates: the first that fails, and those before it.\<close>

definition walked_gates :: "fire_env \<Rightarrow> fire_context \<Rightarrow> fire_gate list" where
  "walked_gates env ctx = takeWhile (gate_opens env ctx) GATE_ORDER"

lemma walk_verdict:
  "fd_allowed (fire_evaluate env ctx) = list_all (gate_opens env ctx) GATE_ORDER \<and>
   fd_passed (fire_evaluate env ctx) = walked_gates env ctx \<and>
   fd_gate (fire_evaluate env ctx) = find (\<lambda>g. \<not> gate_opens env ctx g) GATE_ORDER \<and>
   fd_outcome (fire_evaluate env ctx) =
     (case find (\<lambda>g. \<not> gate_opens env ctx g) GATE_ORDER of None \<Rightarrow> ''ran'' | Some g \<Rightarrow> GATE_OUTCOMES g)"
proof (cases "claim_fire env (fx_existing_claim ctx) (fx_trigger_id ctx)
    (if fx_holder ctx \<noteq> [] then fx_holder ctx else ''firepath'') (fx_now ctx) (fx_overlap ctx)")
  case None
  then have "\<not> gate_opens env ctx GClaim" by (rule claim_gate [THEN iffD1])
  then show ?thesis
    unfolding fire_evaluate_def Let_def None walked_gates_def GATE_ORDER_def gate_conditions [where env = env and ctx = ctx]
    by (simp add: refuse_at_def)
next
  case (Some c)
  then have "gate_opens env ctx GClaim" using claim_gate by (metis option.distinct(1))
  then show ?thesis
    unfolding fire_evaluate_def Let_def Some walked_gates_def GATE_ORDER_def gate_conditions [where env = env and ctx = ctx]
    by (simp add: refuse_at_def)
qed

text \<open>
  C19. A fire is decided by the first gate of the declared order that does not let it through, and by nothing
  after it: it goes ahead exactly when every gate does, otherwise it is refused there with that gate's
  outcome, and what it reports as passed is exactly the gates before it.
\<close>

theorem first_closed_gate_decides:
  "fd_allowed (fire_evaluate env ctx) = list_all (gate_opens env ctx) GATE_ORDER \<and>
   suppressed_at (fire_evaluate env ctx) = find (\<lambda>g. \<not> gate_opens env ctx g) GATE_ORDER \<and>
   fd_passed (fire_evaluate env ctx) = takeWhile (gate_opens env ctx) GATE_ORDER \<and>
   fd_outcome (fire_evaluate env ctx) =
     (case suppressed_at (fire_evaluate env ctx) of None \<Rightarrow> ''ran'' | Some g \<Rightarrow> GATE_OUTCOMES g)"
proof -
  have all: "find (\<lambda>g. \<not> gate_opens env ctx g) GATE_ORDER = None \<longleftrightarrow> list_all (gate_opens env ctx) GATE_ORDER"
    by (auto simp: find_None_iff list_all_iff)
  then show ?thesis
    using walk_verdict [of env ctx]
    by (cases "find (\<lambda>g. \<not> gate_opens env ctx g) GATE_ORDER") (auto simp: suppressed_at_def walked_gates_def)
qed

lemma allowed_opens: "fd_allowed (fire_evaluate env ctx) \<Longrightarrow> gate_opens env ctx g"
  using walk_verdict [of env ctx] by (cases g) (simp_all add: GATE_ORDER_def)

lemma closed_refuses: "\<not> gate_opens env ctx g \<Longrightarrow> \<not> fd_allowed (fire_evaluate env ctx)"
  using allowed_opens by blast

lemma allowed_claim:
  assumes "fd_allowed (fire_evaluate env ctx)"
  shows "\<exists>c. fd_claim (fire_evaluate env ctx) = Some c \<and> cl_trigger_id c = fx_trigger_id ctx \<and>
    cl_claimed_at c = fx_now ctx \<and> cl_max_secs c = CLAIM_MAX_DURATION_SECS"
proof -
  have opens: "\<And>g. gate_opens env ctx g" using allowed_opens [OF assms] .
  obtain c where c: "claim_fire env (fx_existing_claim ctx) (fx_trigger_id ctx)
      (if fx_holder ctx \<noteq> [] then fx_holder ctx else ''firepath'') (fx_now ctx) (fx_overlap ctx) = Some c"
    using opens [of GClaim] claim_gate by (metis option.exhaust)
  have "fd_claim (fire_evaluate env ctx) = Some c"
    unfolding fire_evaluate_def Let_def c gate_conditions [where env = env and ctx = ctx] by (simp add: opens)
  then show ?thesis using claim_fire_grants [OF c] by blast
qed


section \<open>Claims\<close>

lemma claim_reads_back:
  assumes "cl_trigger_id c \<noteq> []" and "0 < cl_claimed_at c" and "cl_max_secs c \<noteq> 0"
    and "now - cl_claimed_at c < cl_max_secs c"
  shows "read_claim env now (write_claim c files) (cl_trigger_id c) = Some c"
  using assms
  by (simp add: read_claim_def write_claim_def claim_payload_def cfg_get_def float_of_field_def int_of_field_def)

lemma stale_claim_is_none:
  assumes "cl_trigger_id c \<noteq> []" and "cl_max_secs c \<noteq> 0" and "cl_max_secs c \<le> now - cl_claimed_at c"
  shows "read_claim env now (write_claim c files) (cl_trigger_id c) = None"
  using assms
  by (simp add: read_claim_def write_claim_def claim_payload_def cfg_get_def float_of_field_def int_of_field_def Let_def)

lemma live_claim: "read_claim env now files tid = Some c \<Longrightarrow> \<not> claim_expired now c"
  by (auto simp: read_claim_def claim_expired_def Let_def split: option.splits json.splits sum.splits if_splits)

text \<open>What the walk of an admission sees.\<close>

lemma admit_gates:
  "gate_opens env (fire_context_of env now h ua slots w t) GClaim \<longleftrightarrow>
     tg_overlap t = ''parallel'' \<or> read_claim env now (fw_claims w) (tg_id t) = None"
  by (cases "read_claim env now (fw_claims w) (tg_id t)")
    (auto simp: gate_opens.simps fire_context_of_def dest: live_claim)

lemma admit_snd:
  "snd (admit_fire env parses now h ua sm src t w) = fire_evaluate env (fire_context_of env now h ua
     (case sm of Some m \<Rightarrow> m | None \<Rightarrow> slot_holders env parses now (fw_claims w) (fw_triggers w)) w t)"
  by (simp add: admit_fire_def Let_def)

lemma admit_allowed_world:
  assumes "fd_allowed (snd (admit_fire env parses now h ua sm src t w))"
  obtains c where "cl_trigger_id c = tg_id t" "cl_claimed_at c = now" "cl_max_secs c = CLAIM_MAX_DURATION_SECS"
    "fst (admit_fire env parses now h ua sm src t w) =
       w\<lparr>fw_claims := write_claim c (fw_claims w), fw_triggers := upsert (count_fire now t) (fw_triggers w)\<rparr>"
proof -
  let ?ctx = "fire_context_of env now h ua
     (case sm of Some m \<Rightarrow> m | None \<Rightarrow> slot_holders env parses now (fw_claims w) (fw_triggers w)) w t"
  have ok: "fd_allowed (fire_evaluate env ?ctx)" using assms by (simp only: admit_snd)
  obtain c where c: "fd_claim (fire_evaluate env ?ctx) = Some c" "cl_trigger_id c = tg_id t"
    "cl_claimed_at c = now" "cl_max_secs c = CLAIM_MAX_DURATION_SECS"
    using allowed_claim [OF ok] by (auto simp: fire_context_of_def)
  show thesis by (rule that [OF c(2-4)]) (simp only: admit_fire_def Let_def ok c(1) simp_thms if_False option.case fst_conv)
qed

text \<open>
  C5. A trigger that does not ask for parallel runs is not fired while a run of it is in flight: once a fire is
  admitted, every admission of the same trigger within the claim's hour is refused and finds it running, in
  this process or any other (its own id, image and surroundings), whatever happened in between, as long as
  the run's claim file is as the admission left it; and after the hour, or once the claim was given back, it
  stands in no fire's way.
\<close>

theorem run_in_flight_is_not_fired_again:
  assumes "admit_fire env parses now h ua sm src t w = (w1, d1)" and "fd_allowed d1"
    and "tg_id t \<noteq> []" and "0 < now"
    and "map_of (fw_claims w2) (claim_file (tg_id t)) = map_of (fw_claims w1) (claim_file (tg_id t))"
    and "tg_id t' = tg_id t" and "tg_overlap t' \<noteq> ''parallel''"
  shows "(now' < now + CLAIM_MAX_DURATION_SECS \<longrightarrow>
      \<not> fd_allowed (snd (admit_fire env' parses' now' h' ua' sm' src' t' w2)) \<and>
      is_running env' now' (fw_claims w2) (tg_id t)) \<and>
    (now + CLAIM_MAX_DURATION_SECS \<le> now' \<longrightarrow> \<not> is_running env' now' (fw_claims w2) (tg_id t)) \<and>
    \<not> is_running env' now' (fw_claims (settle_claim (tg_id t) w2)) (tg_id t)"
proof -
  obtain c where c: "cl_trigger_id c = tg_id t" "cl_claimed_at c = now" "cl_max_secs c = CLAIM_MAX_DURATION_SECS"
    and w1: "fst (admit_fire env parses now h ua sm src t w) =
       w\<lparr>fw_claims := write_claim c (fw_claims w), fw_triggers := upsert (count_fire now t) (fw_triggers w)\<rparr>"
    by (rule admit_allowed_world [of env parses now h ua sm src t w]) (use assms(1,2) in auto)
  have same_file: "map_of (fw_claims w2) (claim_file (tg_id t)) = map_of (write_claim c (fw_claims w)) (claim_file (tg_id t))"
    using w1 assms(1,5) by simp
  then have same: "read_claim env' u (fw_claims w2) (tg_id t) = read_claim env' u (write_claim c (fw_claims w)) (tg_id t)" for u
    by (simp add: read_claim_def)
  have running: "is_running env' now' (fw_claims w2) (tg_id t)" if "now' < now + CLAIM_MAX_DURATION_SECS"
    using claim_reads_back [of c now' env' "fw_claims w"] that assms(3,4) c
    by (simp add: is_running_def same CLAIM_MAX_DURATION_SECS_def)
  moreover have "\<not> fd_allowed (snd (admit_fire env' parses' now' h' ua' sm' src' t' w2))" if "now' < now + CLAIM_MAX_DURATION_SECS"
  proof -
    have "\<not> gate_opens env' (fire_context_of env' now' h' ua' slots w2 t') GClaim" for slots
      using running [OF that] assms(6,7) by (simp add: admit_gates is_running_def)
    then show ?thesis unfolding admit_snd by (rule closed_refuses)
  qed
  moreover have "\<not> is_running env' now' (fw_claims w2) (tg_id t)" if "now + CLAIM_MAX_DURATION_SECS \<le> now'"
    using stale_claim_is_none [of c now' env' "fw_claims w"] that assms(3) c
    by (simp add: is_running_def same CLAIM_MAX_DURATION_SECS_def)
  moreover have "\<not> is_running env' now' (fw_claims (settle_claim (tg_id t) w2)) (tg_id t)"
    by (simp add: is_running_def read_claim_def settle_claim_def release_claim_def)
  ultimately show ?thesis by blast
qed

text \<open>A machine at rest, and a trigger with no guard of its own.\<close>

definition quiet_machine :: fire_env where
  "quiet_machine = \<lparr>fe_rt = \<lparr>rt_str = (\<lambda>_. []), rt_dumps = (\<lambda>_. []), rt_dumps_sorted = (\<lambda>_. []), rt_float = (\<lambda>_. None), rt_sha256 = id\<rparr>,
     fe_int_text = (\<lambda>_. None), fe_incident = False, fe_screen_blocks = (\<lambda>_. False), fe_duty_gate = (\<lambda>_. None),
     fe_safe_effect = (\<lambda>_ _. False), fe_target_active = (\<lambda>_ _. False), fe_moment = (\<lambda>_. \<lparr>mo_weekday = 0, mo_secs = 0\<rparr>),
     fe_pid = 7, fe_image = ''i'', fe_alive = (\<lambda>_. True), fe_realpath = id, fe_sensitive = (\<lambda>_. False), fe_redact = id\<rparr>"

definition one_trigger :: "trigger \<Rightarrow> fire_world" where
  "one_trigger t = \<lparr>fw_triggers = [t], fw_runs = no_runs, fw_claims = []\<rparr>"

lemma one_trigger_rests [simp]: "fw_claims (one_trigger t) = []" "fw_triggers (one_trigger t) = [t]"
  "fw_runs (one_trigger t) = no_runs"
  by (simp_all add: one_trigger_def)

lemmas fire_eval = admit_fire_def fire_evaluate_def fire_context_of_def spacing_refuses_def rate_refuses_def
  evaluate_quiet_def evaluate_duty_def parse_windows_def in_quiet_window_def budget_remaining_def claim_fire_def
  busy_slot_def unfenced_actions_def needs_fence_def requested_capabilities_def action_block_def
  since_last_fire_def rate_caps_def RATE_KEYS_def cfg_get_def float_of_field_def int_of_field_def Let_def

lemma backup_id [simp]: "tg_id backup = ''b''"
  by (simp add: backup_def)

lemma backup_overlap: "tg_overlap backup \<noteq> ''parallel''"
  by (simp add: backup_def)

lemma backup_is_admitted:
  "fd_allowed (snd (admit_fire quiet_machine (\<lambda>_. True) 100 ''tick'' False None [] backup (one_trigger backup)))"
  by (simp add: fire_eval quiet_machine_def one_trigger_def backup_def read_claim_def slot_holders_def)

definition other_process :: fire_env where
  "other_process = quiet_machine\<lparr>fe_pid := 8, fe_image := ''j''\<rparr>"

theorem run_in_flight_is_not_fired_again_witness:
  "\<not> fd_allowed (snd (admit_fire other_process (\<lambda>_. True) 3699 ''tick'' False None [] backup
      (fst (admit_fire quiet_machine (\<lambda>_. True) 100 ''tick'' False None [] backup (one_trigger backup)))))"
proof -
  let ?w1 = "fst (admit_fire quiet_machine (\<lambda>_. True) 100 ''tick'' False None [] backup (one_trigger backup))"
  have "(3699 < 100 + CLAIM_MAX_DURATION_SECS \<longrightarrow>
      \<not> fd_allowed (snd (admit_fire other_process (\<lambda>_. True) 3699 ''tick'' False None [] backup ?w1)) \<and>
      is_running other_process 3699 (fw_claims ?w1) (tg_id backup)) \<and>
    (100 + CLAIM_MAX_DURATION_SECS \<le> 3699 \<longrightarrow> \<not> is_running other_process 3699 (fw_claims ?w1) (tg_id backup)) \<and>
    \<not> is_running other_process 3699 (fw_claims (settle_claim (tg_id backup) ?w1)) (tg_id backup)"
    by (rule run_in_flight_is_not_fired_again [OF prod.collapse [symmetric] backup_is_admitted _ _ refl refl])
      (simp_all add: backup_def)
  then show ?thesis by (simp add: CLAIM_MAX_DURATION_SECS_def)
qed

text \<open>
  Two wrong ways a claim ends. It is given back by name, not by holder: the end of a run that outlived its
  hour takes away the claim of the run that came after it, which is still in flight. And two ids that differ
  only in characters a file name cannot hold share one claim.
\<close>

definition run_again_late :: fire_world where
  "run_again_late = fst (admit_fire quiet_machine (\<lambda>_. True) 4000 ''tick'' False None [] backup
     (fst (admit_fire quiet_machine (\<lambda>_. True) 100 ''tick'' False None [] backup (one_trigger backup))))"

theorem late_end_frees_the_next_run:
  "fd_allowed (snd (admit_fire quiet_machine (\<lambda>_. True) 4000 ''tick'' False None [] backup
       (fst (admit_fire quiet_machine (\<lambda>_. True) 100 ''tick'' False None [] backup (one_trigger backup))))) \<and>
   is_running quiet_machine 4001 (fw_claims run_again_late) ''b'' \<and>
   \<not> is_running quiet_machine 4001 (fw_claims (settle_claim ''b'' run_again_late)) ''b''"
proof -
  let ?w1 = "fst (admit_fire quiet_machine (\<lambda>_. True) 100 ''tick'' False None [] backup (one_trigger backup))"
  obtain c1 where c1: "cl_trigger_id c1 = tg_id backup" "cl_claimed_at c1 = 100" "cl_max_secs c1 = CLAIM_MAX_DURATION_SECS"
    and w1: "?w1 = one_trigger backup\<lparr>fw_claims := write_claim c1 (fw_claims (one_trigger backup)),
       fw_triggers := upsert (count_fire 100 backup) (fw_triggers (one_trigger backup))\<rparr>"
    by (rule admit_allowed_world [OF backup_is_admitted])
  have "read_claim quiet_machine 4000 (write_claim c1 []) (cl_trigger_id c1) = None"
    by (rule stale_claim_is_none) (simp_all add: c1 CLAIM_MAX_DURATION_SECS_def)
  then have idle: "read_claim quiet_machine 4000 (fw_claims ?w1) ''b'' = None"
    using c1(1) by (simp add: w1)
  have ok: "fd_allowed (snd (admit_fire quiet_machine (\<lambda>_. True) 4000 ''tick'' False None [] backup ?w1))"
    unfolding admit_snd using idle
    by (simp add: fire_eval quiet_machine_def backup_def)
  obtain c where c: "cl_trigger_id c = tg_id backup" "cl_claimed_at c = 4000" "cl_max_secs c = CLAIM_MAX_DURATION_SECS"
    and w2: "run_again_late =
       ?w1\<lparr>fw_claims := write_claim c (fw_claims ?w1), fw_triggers := upsert (count_fire 4000 backup) (fw_triggers ?w1)\<rparr>"
    unfolding run_again_late_def by (rule admit_allowed_world [OF ok])
  have "read_claim quiet_machine 4001 (write_claim c (fw_claims ?w1)) (cl_trigger_id c) = Some c"
    by (rule claim_reads_back) (simp_all add: c CLAIM_MAX_DURATION_SECS_def)
  then have "is_running quiet_machine 4001 (fw_claims run_again_late) ''b''"
    using c(1) by (simp add: w2 is_running_def)
  moreover have "\<not> is_running quiet_machine 4001 (fw_claims (settle_claim ''b'' run_again_late)) ''b''"
    by (simp add: is_running_def read_claim_def settle_claim_def release_claim_def)
  ultimately show ?thesis using ok by blast
qed

theorem claims_of_two_triggers_collide:
  "claim_file ''clock:nightly'' = claim_file ''clock-nightly'' \<and>
   (cl_trigger_id c = ''clock:nightly'' \<longrightarrow> 0 < cl_claimed_at c \<longrightarrow> now - cl_claimed_at c < cl_max_secs c \<longrightarrow>
      is_running env now (write_claim c files) ''clock-nightly'')"
proof -
  have same_file: "claim_file ''clock:nightly'' = claim_file ''clock-nightly''" by code_simp
  have "is_running env now (write_claim c files) ''clock-nightly''"
    if "cl_trigger_id c = ''clock:nightly''" "0 < cl_claimed_at c" "now - cl_claimed_at c < cl_max_secs c"
    using that same_file
    by (simp add: is_running_def read_claim_def write_claim_def claim_payload_def cfg_get_def float_of_field_def
        int_of_field_def CLAIM_MAX_DURATION_SECS_def)
  then show ?thesis using same_file by blast
qed

end
