(* ===== verification/FireGuards.thy ===== *)
theory FireGuards
  imports FirePathFacts
begin

text \<open>
  The guards an admission holds, over the whole admission and over sequences of them: the cap on fires, the
  named resources, the frozen capability block and the owner's grant, the quiet windows, and the trace a
  refusal leaves.
\<close>

section \<open>What a refusal leaves\<close>

definition SKIP_GATES :: "fire_gate list" where
  "SKIP_GATES = [GSpacing, GRate, GQuiet, GDuty, GBudget, GClaim]"

lemma inert_gates: "GATE_OUTCOMES g \<in> set INERT_OUTCOMES \<longleftrightarrow> g \<in> set SKIP_GATES"
  by (cases g) (simp_all add: INERT_OUTCOMES_def SKIP_GATES_def)

lemma refused_gate:
  assumes "\<not> fd_allowed (fire_evaluate env ctx)"
  obtains g where "fd_gate (fire_evaluate env ctx) = Some g" "\<not> gate_opens env ctx g"
    "fd_outcome (fire_evaluate env ctx) = GATE_OUTCOMES g"
proof -
  have "\<exists>g \<in> set GATE_ORDER. \<not> gate_opens env ctx g"
    using assms walk_verdict [of env ctx] by (auto simp: list_all_iff)
  then obtain g where g: "find (\<lambda>g. \<not> gate_opens env ctx g) GATE_ORDER = Some g"
    by (metis (mono_tags, lifting) find_None_iff not_None_eq)
  moreover have "\<not> gate_opens env ctx g" using g by (auto simp: find_Some_iff)
  ultimately show thesis using that walk_verdict [of env ctx] by simp
qed

lemma untied_row:
  "rr_work_id r = [] \<Longrightarrow> fst (append_row redact job r st) =
     \<lparr>rs_rows = (rs_rows st)(job := rotate_job (rs_rows st job @
        [r\<lparr>rr_summary := take SUMMARY_CAP (redact (rr_summary r)), rr_error := redact (rr_error r)\<rparr>])), rs_early = rs_early st\<rparr>"
  by (simp add: append_row_def Let_def)

lemma suppression_row:
  assumes "outcome \<in> set INERT_OUTCOMES" and "tid \<noteq> []"
  obtains row where "rr_status row = outcome" "rr_started row = now" "inert_row row"
    "persist_suppression redact tid outcome now src st =
       st\<lparr>rs_rows := (rs_rows st)(tid := rotate_job (rs_rows st tid @ [row]))\<rparr>"
proof -
  obtain r where r: "rr_status r = outcome" "rr_started r = now" "rr_work_id r = []"
    "persist_suppression redact tid outcome now src st = fst (append_row redact tid r st)"
    using assms by (force simp: persist_suppression_def)
  show thesis
    by (rule that [of "r\<lparr>rr_summary := take SUMMARY_CAP (redact (rr_summary r)), rr_error := redact (rr_error r)\<rparr>"])
      (use r assms(1) in \<open>simp_all add: untied_row inert_row_def\<close>)
qed

lemma refusal_world:
  assumes "\<not> fd_allowed (snd (admit_fire env parses now h ua sm src t w))"
  obtains g source where "suppressed_at (snd (admit_fire env parses now h ua sm src t w)) = Some g"
    "fst (admit_fire env parses now h ua sm src t w) =
       w\<lparr>fw_runs := persist_suppression (fe_redact env) (tg_id t) (GATE_OUTCOMES g) now source (fw_runs w)\<rparr>"
proof -
  let ?slots = "case sm of Some m \<Rightarrow> m | None \<Rightarrow> slot_holders env parses now (fw_claims w) (fw_triggers w)"
  let ?ctx = "fire_context_of env now h ua ?slots w t"
  have no: "\<not> fd_allowed (fire_evaluate env ?ctx)" using assms unfolding admit_snd .
  obtain g where g: "fd_gate (fire_evaluate env ?ctx) = Some g" "fd_outcome (fire_evaluate env ?ctx) = GATE_OUTCOMES g"
    using refused_gate [OF no] by metis
  have "fst (admit_fire env parses now h ua sm src t w) =
      w\<lparr>fw_runs := persist_suppression (fe_redact env) (tg_id t) (GATE_OUTCOMES g) now
             (if src \<noteq> [] then src else fired_by_kind (tg_kind t)) (fw_runs w)\<rparr>"
    by (simp only: admit_fire_def Let_def no g(2) simp_thms if_True fst_conv)
  moreover have "suppressed_at (snd (admit_fire env parses now h ua sm src t w)) = Some g"
    using no g(1) by (simp add: suppressed_at_def admit_snd)
  ultimately show thesis by (rule that [rotated])
qed

text \<open>
  C28. A refused fire changes nothing but the trigger's own history: no claim is taken, no trigger is written, no
  fire is counted, and the history of every other trigger is as it was. And a fire refused at spacing, rate,
  quiet hours, duty, budget or overlap is on record: the history ends with a row of this instant whose status is
  that gate's outcome, after the rows it had (all of them while they are fewer than 100; else those its
  rotation keeps), provided none of them started later. A refusal at another gate adds no more than that.
\<close>

theorem refusal_leaves_only_its_row:
  assumes "\<not> fd_allowed (snd (admit_fire env parses now h ua sm src t w))" and "tg_id t \<noteq> []"
    and "\<forall>r \<in> set (rs_rows (fw_runs w) (tg_id t)). rr_started r \<le> now"
  shows "\<exists>g rows. suppressed_at (snd (admit_fire env parses now h ua sm src t w)) = Some g \<and>
    fst (admit_fire env parses now h ua sm src t w) =
      w\<lparr>fw_runs := (fw_runs w)\<lparr>rs_rows := (rs_rows (fw_runs w))(tg_id t := rows)\<rparr>\<rparr> \<and>
    (rows = rs_rows (fw_runs w) (tg_id t) \<and> g \<notin> set SKIP_GATES \<or>
     (\<exists>kept row. rows = kept @ [row] \<and> rr_status row = GATE_OUTCOMES g \<and> rr_started row = now \<and>
        set kept \<subseteq> set (rs_rows (fw_runs w) (tg_id t)) \<and>
        (length (rs_rows (fw_runs w) (tg_id t)) < MAX_RECORDS_PER_JOB \<longrightarrow> kept = rs_rows (fw_runs w) (tg_id t))))"
proof -
  let ?old = "rs_rows (fw_runs w) (tg_id t)"
  obtain g source where g: "suppressed_at (snd (admit_fire env parses now h ua sm src t w)) = Some g"
    "fst (admit_fire env parses now h ua sm src t w) =
       w\<lparr>fw_runs := persist_suppression (fe_redact env) (tg_id t) (GATE_OUTCOMES g) now source (fw_runs w)\<rparr>"
    by (rule refusal_world [OF assms(1)])
  show ?thesis
  proof (cases "g \<in> set SKIP_GATES")
    case True
    then have "GATE_OUTCOMES g \<in> set INERT_OUTCOMES" by (simp add: inert_gates)
    from suppression_row [OF this assms(2)] obtain row where row: "rr_status row = GATE_OUTCOMES g" "rr_started row = now"
      "inert_row row" "persist_suppression (fe_redact env) (tg_id t) (GATE_OUTCOMES g) now source (fw_runs w) =
         (fw_runs w)\<lparr>rs_rows := (rs_rows (fw_runs w))(tg_id t := rotate_job (?old @ [row]))\<rparr>"
      by metis
    obtain kept where "set kept \<subseteq> set ?old" "length ?old < MAX_RECORDS_PER_JOB \<longrightarrow> kept = ?old"
      "rotate_job (?old @ [row]) = kept @ [row]"
      using rotate_keeps_newest [of ?old True] row(2,3) assms(3) by blast
    then show ?thesis using g row by (intro exI [of _ g] exI [of _ "kept @ [row]"]) auto
  next
    case False
    then have "persist_suppression (fe_redact env) (tg_id t) (GATE_OUTCOMES g) now source (fw_runs w) = fw_runs w"
      by (simp add: persist_suppression_def inert_gates)
    then show ?thesis using g False by (intro exI [of _ g] exI [of _ ?old]) simp
  qed
qed

definition spaced_out :: trigger where
  "spaced_out = backup\<lparr>tg_gates := [(''cooldown_secs'', JInt 3600)], tg_last_fired_at := 90\<rparr>"

theorem refusal_leaves_only_its_row_witness:
  "map rr_status (rs_rows (fw_runs (fst (admit_fire quiet_machine (\<lambda>_. True) 100 ''tick'' False None [] spaced_out
      (one_trigger spaced_out)))) ''b'') = [''skipped_gate'']"
proof -
  let ?a = "admit_fire quiet_machine (\<lambda>_. True) 100 ''tick'' False None [] spaced_out (one_trigger spaced_out)"
  let ?ctx = "fire_context_of quiet_machine 100 ''tick'' False
      (slot_holders quiet_machine (\<lambda>_. True) 100 (fw_claims (one_trigger spaced_out)) (fw_triggers (one_trigger spaced_out)))
      (one_trigger spaced_out) spaced_out"
  have closed: "\<not> gate_opens quiet_machine ?ctx GSpacing"
    by (simp add: gate_opens.simps fire_context_of_def spacing_refuses_def since_last_fire_def cfg_get_def float_of_field_def
        spaced_out_def backup_def)
  have before: "gate_opens quiet_machine ?ctx GIncident" "gate_opens quiet_machine ?ctx GScreen"
    by (simp_all add: gate_opens.simps fire_context_of_def) (simp add: quiet_machine_def)
  have no: "\<not> fd_allowed (snd ?a)" unfolding admit_snd option.case by (rule closed_refuses [OF closed])
  have at_spacing: "suppressed_at (snd ?a) = Some GSpacing"
    unfolding admit_snd option.case suppressed_at_def using walk_verdict [of quiet_machine ?ctx] closed before
    by (simp add: GATE_ORDER_def)
  have rests: "tg_id spaced_out = ''b''" "rs_rows (fw_runs (one_trigger spaced_out)) ''b'' = []"
    by (simp_all add: spaced_out_def no_runs_def)
  show ?thesis
    using refusal_leaves_only_its_row [OF no] at_spacing rests
    by (auto simp: MAX_RECORDS_PER_JOB_def SKIP_GATES_def)
qed

text \<open>
  What the record lacks. A fire refused at any other gate leaves the world as it was: nothing says that it was
  asked for, though every suppressed fire is promised a row.
\<close>

theorem some_refusals_leave_no_row:
  assumes "suppressed_at (snd (admit_fire env parses now h ua sm src t w)) = Some g" and "g \<notin> set SKIP_GATES"
  shows "fst (admit_fire env parses now h ua sm src t w) = w"
proof -
  have "\<not> fd_allowed (snd (admit_fire env parses now h ua sm src t w))"
    using assms(1) by (auto simp: suppressed_at_def split: if_splits)
  then show ?thesis
    by (rule refusal_world) (use assms in \<open>simp add: persist_suppression_def inert_gates\<close>)
qed

theorem some_refusals_leave_no_row_witness:
  "fst (admit_fire (quiet_machine\<lparr>fe_incident := True\<rparr>) (\<lambda>_. True) 100 ''tick'' False None [] backup (one_trigger backup)) =
     one_trigger backup"
proof -
  have closed: "\<not> gate_opens (quiet_machine\<lparr>fe_incident := True\<rparr>) ctx GIncident" for ctx
    by (simp add: gate_opens.simps)
  have no: "\<not> fd_allowed (snd (admit_fire (quiet_machine\<lparr>fe_incident := True\<rparr>) (\<lambda>_. True) 100 ''tick'' False None [] backup (one_trigger backup)))"
    unfolding admit_snd by (rule closed_refuses [OF closed])
  have "suppressed_at (snd (admit_fire (quiet_machine\<lparr>fe_incident := True\<rparr>) (\<lambda>_. True) 100 ''tick'' False None [] backup (one_trigger backup))) = Some GIncident"
    unfolding admit_snd suppressed_at_def using walk_verdict [of "quiet_machine\<lparr>fe_incident := True\<rparr>"]
    by (simp add: GATE_ORDER_def closed)
  then show ?thesis by (rule some_refusals_leave_no_row) (simp add: SKIP_GATES_def)
qed

section \<open>Named resources\<close>

definition hold_slot :: "string \<Rightarrow> string \<Rightarrow> (string \<times> string) list \<Rightarrow> (string \<times> string) list" where
  "hold_slot tid slot held =
     (let name = strip slot in if name \<noteq> [] \<and> map_of held name = None then held @ [(name, tid)] else held)"

lemma slot_holders_fold:
  "slot_holders env parses now files ts = fold (\<lambda>t held.
     if parses t \<and> is_running env now files (tg_id t) then fold (hold_slot (tg_id t)) (tg_resource_slots t) held else held) ts []"
  unfolding slot_holders_def
  by (rule fold_cong) (simp_all add: hold_slot_def [abs_def] fun_eq_iff)

lemma hold_slot_of:
  "map_of (hold_slot tid slot held) n =
     (if map_of held n = None \<and> strip slot = n \<and> n \<noteq> [] then Some tid else map_of held n)"
  by (auto simp: hold_slot_def Let_def map_add_def split: option.splits)

lemma hold_slots_of:
  "map_of (fold (hold_slot tid) slots held) n =
     (if map_of held n = None \<and> n \<in> strip ` set slots \<and> n \<noteq> [] then Some tid else map_of held n)"
  by (induction slots arbitrary: held) (auto simp: hold_slot_of)

lemma holder_runs:
  assumes "map_of (fold (\<lambda>t held. if P t then fold (hold_slot (tg_id t)) (tg_resource_slots t) held else held) ts held) n = Some x"
  shows "map_of held n = Some x \<or> (\<exists>t \<in> set ts. P t \<and> x = tg_id t)"
  using assms
proof (induction ts arbitrary: held)
  case (Cons t ts)
  from Cons.IH [OF Cons.prems [unfolded fold.simps comp_apply]] show ?case
    by (auto simp: hold_slots_of split: if_splits)
qed simp

lemma held_stays:
  "map_of held n \<noteq> None \<Longrightarrow>
     map_of (fold (\<lambda>t held. if P t then fold (hold_slot (tg_id t)) (tg_resource_slots t) held else held) ts held) n \<noteq> None"
  by (induction ts arbitrary: held) (simp_all add: hold_slots_of)

lemma running_holds:
  assumes "u \<in> set ts" and "P u" and "n \<in> strip ` set (tg_resource_slots u)" and "n \<noteq> []"
  shows "map_of (fold (\<lambda>t held. if P t then fold (hold_slot (tg_id t)) (tg_resource_slots t) held else held) ts held) n \<noteq> None"
  using assms
proof (induction ts arbitrary: held)
  case (Cons t ts)
  show ?case
  proof (cases "u = t")
    case True
    have "map_of (fold (hold_slot (tg_id t)) (tg_resource_slots t) held) n \<noteq> None"
      using Cons.prems True by (simp add: hold_slots_of)
    then show ?thesis using Cons.prems(2) True held_stays by simp
  next
    case False
    then show ?thesis using Cons by simp
  qed
qed simp

lemma free_slots:
  "first_busy holders tid slots = None \<Longrightarrow> slot \<in> set slots \<Longrightarrow> strip slot \<noteq> [] \<Longrightarrow>
     map_of holders (strip slot) \<in> {None, Some [], Some tid}"
  by (induction slots) (auto simp: Let_def split: option.splits if_splits)

text \<open>
  C29. A named resource has one user: a fire admitted on a fresh reading of the claims shares no resource with
  any trigger that is running then, provided it does not ask to run in parallel with itself.
\<close>

theorem slot_has_one_user:
  assumes "fd_allowed (snd (admit_fire env parses now h ua None src t w))" and "tg_overlap t \<noteq> ''parallel''"
    and "\<forall>u \<in> set (fw_triggers w). tg_id u \<noteq> []"
    and "u \<in> set (fw_triggers w)" and "parses u" and "is_running env now (fw_claims w) (tg_id u)"
  shows "strip ` set (tg_resource_slots t) \<inter> strip ` set (tg_resource_slots u) \<subseteq> {[]}"
proof -
  let ?held = "slot_holders env parses now (fw_claims w) (fw_triggers w)"
  let ?ctx = "fire_context_of env now h ua ?held w t"
  have ok: "fd_allowed (fire_evaluate env ?ctx)" using assms(1) by (simp add: admit_snd)
  have free: "first_busy ?held (tg_id t) (tg_resource_slots t) = None"
    using allowed_opens [OF ok, of GSlot] by (simp add: gate_opens.simps fire_context_of_def busy_slot_def)
  have idle: "\<not> is_running env now (fw_claims w) (tg_id t)"
    using allowed_opens [OF ok, of GClaim] assms(2) by (simp add: admit_gates is_running_def)
  have "n = []" if n: "n \<in> strip ` set (tg_resource_slots t)" "n \<in> strip ` set (tg_resource_slots u)" for n
  proof (rule ccontr)
    assume some: "n \<noteq> []"
    obtain x where x: "map_of ?held n = Some x"
      using running_holds [of u "fw_triggers w" "\<lambda>t. parses t \<and> is_running env now (fw_claims w) (tg_id t)" n "[]"]
        assms(4-6) n(2) some by (auto simp: slot_holders_fold)
    then obtain v where v: "v \<in> set (fw_triggers w)" "x = tg_id v" "is_running env now (fw_claims w) (tg_id v)"
      using holder_runs [of "\<lambda>t. parses t \<and> is_running env now (fw_claims w) (tg_id t)" "fw_triggers w" "[]" n x]
      by (auto simp: slot_holders_fold)
    obtain slot where "slot \<in> set (tg_resource_slots t)" "n = strip slot" using n(1) by blast
    then have "x = tg_id t"
      using free_slots [OF free] x some v(1,2) assms(3) by fastforce
    then show False using idle v(2,3) by simp
  qed
  then show ?thesis by blast
qed

definition slot_user :: "string \<Rightarrow> string \<Rightarrow> trigger" where
  "slot_user tid slot = backup\<lparr>tg_id := tid, tg_resource_slots := [slot]\<rparr>"

lemma slot_user_fields [simp]:
  "tg_id (slot_user tid slot) = tid" "tg_resource_slots (slot_user tid slot) = [slot]"
  "tg_overlap (slot_user tid slot) \<noteq> ''parallel''"
  by (simp_all add: slot_user_def backup_overlap)

definition gpu_run :: claim where
  "gpu_run = \<lparr>cl_trigger_id = ''a'', cl_holder = ''tick'', cl_claimed_at = 90, cl_max_secs = 3600, cl_owner_pid = 7, cl_owner_image = ''i''\<rparr>"

definition gpu_is_used :: fire_world where
  "gpu_is_used = \<lparr>fw_triggers = [slot_user ''a'' ''gpu'', slot_user ''b'' ''mic''], fw_runs = no_runs, fw_claims = write_claim gpu_run []\<rparr>"

lemma gpu_user_runs: "is_running quiet_machine 100 (fw_claims gpu_is_used) ''a''"
  using claim_reads_back [of gpu_run 100 quiet_machine "[]"] by (simp add: gpu_is_used_def is_running_def gpu_run_def)

text \<open>On a machine at rest, a trigger with no guards of its own meets two gates: its claim and its resources.\<close>

lemma calm_gates:
  assumes "tg_gates t = []"
    and fence: "\<forall>(k, vs) \<in> set (requested_capabilities (fe_rt quiet_machine) t). \<forall>v \<in> set vs. capability_allows quiet_machine (tg_capabilities t) k v"
  shows "fd_allowed (snd (admit_fire quiet_machine parses now h False sm src t w)) \<longleftrightarrow>
    (tg_overlap t = ''parallel'' \<or> read_claim quiet_machine now (fw_claims w) (tg_id t) = None) \<and>
    busy_slot t (case sm of Some m \<Rightarrow> m | None \<Rightarrow> slot_holders quiet_machine parses now (fw_claims w) (fw_triggers w)) = None"
proof -
  let ?ctx = "fire_context_of quiet_machine now h False (case sm of Some m \<Rightarrow> m | None \<Rightarrow> slot_holders quiet_machine parses now (fw_claims w) (fw_triggers w)) w t"
  have "gate_opens quiet_machine ?ctx g" if "g \<noteq> GClaim" "g \<noteq> GSlot" "g \<noteq> GCapability" for g
    using that assms(1)
    by (cases g) (simp_all add: gate_opens.simps fire_context_of_def spacing_refuses_def rate_refuses_def rate_caps_def
        RATE_KEYS_def evaluate_quiet_def parse_windows_def in_quiet_window_def evaluate_duty_def budget_remaining_def
        cfg_get_def float_of_field_def int_of_field_def quiet_machine_def split: option.splits)
  moreover have "gate_opens quiet_machine ?ctx GCapability"
    using fence by (fastforce simp: gate_opens.simps fire_context_of_def unfenced_actions_def needs_fence_def
        concat_eq_Nil_conv filter_empty_conv)
  moreover have "gate_opens quiet_machine ?ctx GSlot \<longleftrightarrow>
      busy_slot t (case sm of Some m \<Rightarrow> m | None \<Rightarrow> slot_holders quiet_machine parses now (fw_claims w) (fw_triggers w)) = None"
    by (simp add: gate_opens.simps fire_context_of_def)
  ultimately show ?thesis
    using walk_verdict [of quiet_machine ?ctx] by (simp add: admit_snd GATE_ORDER_def admit_gates)
qed

lemma calm_admits:
  assumes "tg_gates t = []" and "tg_capabilities t = []" and "tg_workflow t = []"
  shows "fd_allowed (snd (admit_fire quiet_machine parses now h False sm src t w)) \<longleftrightarrow>
    (tg_overlap t = ''parallel'' \<or> read_claim quiet_machine now (fw_claims w) (tg_id t) = None) \<and>
    busy_slot t (case sm of Some m \<Rightarrow> m | None \<Rightarrow> slot_holders quiet_machine parses now (fw_claims w) (fw_triggers w)) = None"
  by (rule calm_gates) (use assms in \<open>simp_all add: requested_capabilities_def action_block_def cfg_get_def quiet_machine_def\<close>)

lemma mic_user_is_admitted:
  "fd_allowed (snd (admit_fire quiet_machine (\<lambda>_. True) 100 ''tick'' False None [] (slot_user ''b'' ''mic'') gpu_is_used))"
proof -
  have "map_of (write_claim gpu_run []) (claim_file ''b'') = None"
    by (simp add: write_claim_def gpu_run_def) code_simp
  then have idle: "read_claim quiet_machine 100 (fw_claims gpu_is_used) ''b'' = None"
    by (simp add: read_claim_def gpu_is_used_def)
  have "strip ''gpu'' = ''gpu'' \<and> strip ''mic'' = ''mic''" by code_simp
  then have "busy_slot (slot_user ''b'' ''mic'') (slot_holders quiet_machine (\<lambda>_. True) 100 (fw_claims gpu_is_used) (fw_triggers gpu_is_used)) = None"
    using idle by (simp add: slot_holders_def gpu_is_used_def is_running_def busy_slot_def Let_def)
  then show ?thesis
    by (subst calm_admits) (use idle in \<open>simp_all add: slot_user_def backup_def\<close>)
qed

theorem slot_has_one_user_witness:
  "strip ` set (tg_resource_slots (slot_user ''b'' ''mic'')) \<inter> strip ` set (tg_resource_slots (slot_user ''a'' ''gpu'')) \<subseteq> {[]}"
  by (rule slot_has_one_user [OF mic_user_is_admitted])
    (use gpu_user_runs in \<open>simp_all add: gpu_is_used_def\<close>)

text \<open>
  A wake reads the resources once, before its first fire, and judges every due trigger by that reading: two
  triggers due at the same wake both get the one resource they name.
\<close>

definition two_gpu_users :: fire_world where
  "two_gpu_users = \<lparr>fw_triggers = [slot_user ''a'' ''gpu'', slot_user ''b'' ''gpu''], fw_runs = no_runs, fw_claims = []\<rparr>"

theorem one_wake_grants_a_slot_twice:
  "let m = slot_holders quiet_machine (\<lambda>_. True) 100 (fw_claims two_gpu_users) (fw_triggers two_gpu_users);
       (w1, d1) = admit_fire quiet_machine (\<lambda>_. True) 100 ''tick'' False (Some m) [] (slot_user ''a'' ''gpu'') two_gpu_users;
       (w2, d2) = admit_fire quiet_machine (\<lambda>_. True) 100 ''tick'' False (Some m) [] (slot_user ''b'' ''gpu'') w1
   in fd_allowed d1 \<and> fd_allowed d2"
proof -
  have none: "slot_holders quiet_machine (\<lambda>_. True) 100 (fw_claims two_gpu_users) (fw_triggers two_gpu_users) = []"
    by (simp add: two_gpu_users_def slot_holders_def is_running_def read_claim_def)
  have first: "fd_allowed (snd (admit_fire quiet_machine (\<lambda>_. True) 100 ''tick'' False (Some []) [] (slot_user ''a'' ''gpu'') two_gpu_users))"
    by (subst calm_admits) (simp_all add: slot_user_def backup_def two_gpu_users_def read_claim_def busy_slot_def)
  obtain c where c: "cl_trigger_id c = ''a''"
    and w1: "fst (admit_fire quiet_machine (\<lambda>_. True) 100 ''tick'' False (Some []) [] (slot_user ''a'' ''gpu'') two_gpu_users) =
      two_gpu_users\<lparr>fw_claims := write_claim c (fw_claims two_gpu_users),
         fw_triggers := upsert (count_fire 100 (slot_user ''a'' ''gpu'')) (fw_triggers two_gpu_users)\<rparr>" (is "?w1 = _")
    by (rule admit_allowed_world [OF first]) simp
  have "claim_file ''b'' \<noteq> claim_file ''a''" by code_simp
  then have idle: "read_claim quiet_machine 100 (fw_claims ?w1) ''b'' = None"
    by (simp add: w1 c write_claim_def read_claim_def) (simp add: two_gpu_users_def)
  have "fd_allowed (snd (admit_fire quiet_machine (\<lambda>_. True) 100 ''tick'' False (Some []) [] (slot_user ''b'' ''gpu'') ?w1))"
    by (subst calm_admits) (use idle in \<open>simp_all add: busy_slot_def\<close>, simp_all add: slot_user_def backup_def)
  then show ?thesis using first by (simp add: none case_prod_beta Let_def)
qed

section \<open>The cap on fires\<close>

text \<open>Any order of fires asked for and runs ended: each fire reads the trigger as it is stored then.\<close>

datatype asked = Ask string rat string bool "(string \<times> string) list option" string | Ended string

fun admit_all ::
    "fire_env \<Rightarrow> (trigger \<Rightarrow> bool) \<Rightarrow> asked list \<Rightarrow> fire_world \<Rightarrow> fire_world \<times> string list" where
  "admit_all env parses [] w = (w, [])"
| "admit_all env parses (Ended tid # es) w = admit_all env parses es (settle_claim tid w)"
| "admit_all env parses (Ask tid now h ua sm src # es) w =
     (case get_trigger (fw_triggers w) tid of
        None \<Rightarrow> admit_all env parses es w
      | Some t \<Rightarrow>
          (let (w1, d) = admit_fire env parses now h ua sm src t w; (w2, fired) = admit_all env parses es w1
           in (w2, if fd_allowed d then tid # fired else fired)))"

lemma admit_refused_triggers:
  "\<not> fd_allowed (snd (admit_fire env parses now h ua sm src t w)) \<Longrightarrow>
     fw_triggers (fst (admit_fire env parses now h ua sm src t w)) = fw_triggers w"
  by (auto simp: admit_fire_def Let_def split: if_splits)

lemma count_fire_keeps [simp]:
  "tg_id (count_fire now t) = tg_id t" "tg_gates (count_fire now t) = tg_gates t"
  "tg_run_count (count_fire now t) = tg_run_count t + 1"
  by (simp_all add: count_fire_def)

lemma row_written_meters [simp]: "tg_gates (row_written t) = tg_gates t" "tg_run_count (row_written t) = tg_run_count t"
  by (simp_all add: row_written_def)

lemma capped_budget:
  "cfg_get (tg_gates t) ''max_fires'' = JInt cap \<Longrightarrow> 0 < cap \<Longrightarrow>
     budget_remaining int_text t = Some (max 0 (cap - tg_run_count t))"
  by (simp add: budget_remaining_def int_of_field_def)

text \<open>
  C9. A trigger with a cap of fires is admitted to fire at most that often, counting the fires behind it: over any
  sequence of fires asked of the fire path (\<open>admit_fire\<close>: by the clock, an event, a webhook, a view or a person) and
  of runs ended, on any triggers, the fires of it that are admitted are no more than the cap leaves, even
  where no run has ended yet. (The pollers of files and of pages, and the chain, do not ask the fire path:
  they count a fire themselves, past any cap, as \<open>polled_fires_pass_the_cap\<close> shows.)
\<close>

theorem cap_bounds_the_fires:
  assumes "get_trigger (fw_triggers w) tid = Some t" and "cfg_get (tg_gates t) ''max_fires'' = JInt cap" and "0 < cap"
  shows "int (count_list (snd (admit_all env parses es w)) tid) \<le> max 0 (cap - tg_run_count t)"
  using assms(1,2)
proof (induction env parses es w arbitrary: t rule: admit_all.induct)
  case (3 env parses x now h ua sm src es w)
  show ?case
  proof (cases "get_trigger (fw_triggers w) x")
    case None
    then show ?thesis using 3 by simp
  next
    case (Some u)
    let ?a = "admit_fire env parses now h ua sm src u w"
    have ux: "tg_id u = x" by (rule get_trigger_id [OF Some])
    note IH = "3.IH"(2) [OF Some refl prod.collapse]
    show ?thesis
    proof (cases "fd_allowed (snd ?a)")
      case False
      then have "get_trigger (fw_triggers (fst ?a)) tid = Some t" using "3.prems"(1) by (simp add: admit_refused_triggers)
      from IH [OF this "3.prems"(2)] show ?thesis using Some False by (simp add: case_prod_beta)
    next
      case True
      obtain c where w1: "fst ?a = w\<lparr>fw_claims := write_claim c (fw_claims w), fw_triggers := upsert (count_fire now u) (fw_triggers w)\<rparr>"
        by (rule admit_allowed_world [OF True]) simp
      have ts: "fw_triggers (fst ?a) = upsert (count_fire now u) (fw_triggers w)" by (simp add: w1)
      show ?thesis
      proof (cases "x = tid")
        case False
        then have "get_trigger (fw_triggers (fst ?a)) tid = Some t" using "3.prems"(1) ux by (simp add: ts get_upsert)
        from IH [OF this "3.prems"(2)] show ?thesis using Some True False by (simp add: case_prod_beta)
      next
        case same: True
        have ut: "u = t" using Some "3.prems"(1) same by simp
        have "0 < cap - tg_run_count t"
          using allowed_opens [OF True [unfolded admit_snd], of GBudget] "3.prems"(2) assms(3)
          by (simp add: gate_opens.simps fire_context_of_def ut capped_budget)
        moreover have "get_trigger (fw_triggers (fst ?a)) tid = Some (row_written (count_fire now t))"
          by (subst ts) (use ux same ut in \<open>simp add: get_upsert\<close>)
        note IH [OF this]
        ultimately show ?thesis using Some True same "3.prems"(2) by (simp add: case_prod_beta)
      qed
    qed
  qed
qed (simp_all add: settle_claim_def)

definition once_only :: trigger where
  "once_only = backup\<lparr>tg_gates := [(''max_fires'', JInt 1)], tg_overlap := ''parallel''\<rparr>"

theorem cap_bounds_the_fires_witness:
  "count_list (snd (admit_all quiet_machine (\<lambda>_. True) [Ask ''b'' 100 ''tick'' False None [], Ask ''b'' 101 ''hand:'' False None ''you'']
      (one_trigger once_only))) ''b'' \<le> 1"
proof -
  have "get_trigger (fw_triggers (one_trigger once_only)) ''b'' = Some once_only"
    by (simp add: get_trigger_def once_only_def)
  from cap_bounds_the_fires [OF this, of 1 quiet_machine "\<lambda>_. True"
      "[Ask ''b'' 100 ''tick'' False None [], Ask ''b'' 101 ''hand:'' False None ''you'']"]
  have "int (count_list (snd (admit_all quiet_machine (\<lambda>_. True) [Ask ''b'' 100 ''tick'' False None [], Ask ''b'' 101 ''hand:'' False None ''you'']
      (one_trigger once_only))) ''b'') \<le> max 0 (1 - tg_run_count once_only)"
    by (simp add: once_only_def cfg_get_def)
  moreover have "tg_run_count once_only = 0" by (simp add: once_only_def backup_def)
  ultimately show ?thesis by linarith
qed

text \<open>
  A fire that a poll of files or pages or the chain decides is counted by \<open>note_fire\<close> alone, which asks no gate:
  a trigger capped at one fire counts as many as are decided, and stays switched on.
\<close>

lemma noted_fire:
  "get_trigger ts tid = Some t \<Longrightarrow> get_trigger (note_fire tid now ts) tid = Some (row_written (count_fire now t))"
  by (frule get_trigger_id) (simp add: note_fire_def get_upsert)

theorem polled_fires_pass_the_cap:
  "\<exists>t. get_trigger ((note_fire ''b'' 100 ^^ n) [once_only]) ''b'' = Some t \<and> tg_run_count t = int n \<and>
     tg_gates t = [(''max_fires'', JInt 1)] \<and> tg_enabled t"
proof (induction n)
  case 0
  show ?case by (simp add: get_trigger_def once_only_def backup_def)
next
  case (Suc n)
  then obtain t where t: "get_trigger ((note_fire ''b'' 100 ^^ n) [once_only]) ''b'' = Some t" "tg_run_count t = int n"
      "tg_gates t = [(''max_fires'', JInt 1)]" "tg_enabled t" by blast
  then show ?case using noted_fire [OF t(1), of 100] by (simp add: count_fire_def row_written_def)
qed

section \<open>The capability fence\<close>

lemma no_unfenced:
  assumes "unfenced_actions env caps requested = []" and "(key, vs) \<in> set requested" and "v \<in> set vs"
  shows "capability_allows env caps key v"
  using assms by (fastforce simp: unfenced_actions_def concat_eq_Nil_conv filter_empty_conv)

lemma text_entry: "(case e of JStr s \<Rightarrow> P s | _ \<Rightarrow> False) \<longleftrightarrow> (\<exists>s. e = JStr s \<and> P s)"
  by (cases e) simp_all

lemma provider_grant:
  "capability_allows env caps ''providers'' v \<longleftrightarrow>
     (\<exists>es. cfg_get caps ''providers'' = JList es \<and> (\<exists>s. JStr s \<in> set es \<and> matches_entry v s))"
proof (cases "cfg_get caps ''providers''")
  case (JList es)
  then have "caps \<noteq> []" by (auto simp: cfg_get_def)
  then show ?thesis using JList by (auto simp: capability_allows_def CAPABILITY_KEYS_def text_entry)
qed (simp_all add: capability_allows_def CAPABILITY_KEYS_def)

text \<open>
  C13. Deny by default: a fire that is admitted runs no action outside what the owner froze. Where its action's
  provider is neither read-only by name nor declared free of effects by its route, the trigger's block lists
  providers, and one entry of that list is the provider's name, a prefix of it with a star, or the star.
\<close>

theorem unlisted_provider_never_fires:
  assumes "fd_allowed (snd (admit_fire env parses now h ua sm src t w))"
    and "requested_capabilities (fe_rt env) t = [(''providers'', [p])]"
    and "\<not> provider_is_read_only env p (Some (action_config t))"
  shows "\<exists>es s. cfg_get (tg_capabilities t) ''providers'' = JList es \<and> JStr s \<in> set es \<and> matches_entry p s"
proof -
  let ?ctx = "fire_context_of env now h ua
     (case sm of Some m \<Rightarrow> m | None \<Rightarrow> slot_holders env parses now (fw_claims w) (fw_triggers w)) w t"
  have "unfenced_actions env (tg_capabilities t) (needs_fence env ?ctx) = []"
    using allowed_opens [OF assms(1) [unfolded admit_snd], of GCapability] by (simp add: gate_opens.simps fire_context_of_def)
  moreover have "(''providers'', [p]) \<in> set (needs_fence env ?ctx)"
    using assms(2,3) by (simp add: needs_fence_def fire_context_of_def)
  ultimately have "capability_allows env (tg_capabilities t) ''providers'' p" by (rule no_unfenced) simp
  then show ?thesis by (auto simp: provider_grant)
qed

definition runs_bash :: trigger where
  "runs_bash = backup\<lparr>tg_workflow := [(''provider'', JStr ''bash-command'')],
     tg_capabilities := [(''providers'', JList [JStr ''bash*''])]\<rparr>"

lemma runs_bash_asks: "requested_capabilities (fe_rt quiet_machine) runs_bash = [(''providers'', [''bash-command''])]"
proof -
  have "strip ''bash-command'' = ''bash-command''" by code_simp
  then show ?thesis by (simp add: requested_capabilities_def runs_bash_def action_block_def cfg_get_def)
qed

theorem unlisted_provider_never_fires_witness:
  "\<exists>es s. cfg_get (tg_capabilities runs_bash) ''providers'' = JList es \<and> JStr s \<in> set es \<and> matches_entry ''bash-command'' s"
proof (rule unlisted_provider_never_fires [OF _ runs_bash_asks])
  have "matches_entry ''bash-command'' ''bash*''" by code_simp
  then have "capability_allows quiet_machine (tg_capabilities runs_bash) ''providers'' ''bash-command''"
    by (simp add: provider_grant) (simp add: runs_bash_def cfg_get_def)
  then show "fd_allowed (snd (admit_fire quiet_machine (\<lambda>_. True) 100 ''tick'' False (Some []) [] runs_bash (one_trigger runs_bash)))"
    by (subst calm_gates) (simp_all add: runs_bash_asks, simp_all add: runs_bash_def backup_def busy_slot_def read_claim_def)
  have "strip ''bash-command'' = ''bash-command''" by code_simp
  then show "\<not> provider_is_read_only quiet_machine ''bash-command'' (Some (action_config runs_bash))"
    by (simp add: provider_is_read_only_def READ_ONLY_PROVIDERS_def READ_ONLY_WHEN_DECLARED_def)
qed

text \<open>What the owner's yes adds to the block.\<close>

lemma text_entries_of: "JStr s \<in> set (text_entries e) \<longleftrightarrow> (\<exists>es. e = JList es \<and> JStr s \<in> set es)"
  by (cases e) auto

lemma dict_set_get: "cfg_get (dict_set d k v) k' = (if k' = k then v else cfg_get d k')"
  by (simp add: cfg_get_def)

lemma exact_entry: "v \<noteq> [] \<Longrightarrow> last v \<noteq> CHR ''*'' \<Longrightarrow> matches_entry x v \<longleftrightarrow> x = v"
  by (auto simp: matches_entry_def)

lemma same_action:
  assumes "tg_workflow t' = tg_workflow t"
  shows "requested_capabilities rt t' = requested_capabilities rt t" "action_config t' = action_config t"
proof -
  have "action_block t' = action_block t" unfolding action_block_def assms ..
  then show "requested_capabilities rt t' = requested_capabilities rt t" "action_config t' = action_config t"
    unfolding requested_capabilities_def action_config_def by (simp_all only:)
qed

lemma granted_entries:
  assumes "grant_action env t = (t', granted)" and "granted \<noteq> []"
  shows "capability_allows env (tg_capabilities t') ''providers'' v \<longleftrightarrow>
    capability_allows env (tg_capabilities t) ''providers'' v \<or> (\<exists>p \<in> set granted. matches_entry v p)"
proof -
  let ?held = "text_entries (cfg_get (tg_capabilities t) ''providers'')"
  have t': "tg_capabilities t' = dict_set (tg_capabilities t) ''providers''
       (JList (?held @ filter (\<lambda>e. e \<notin> set ?held) (map JStr granted)))"
    using assms by (auto simp: grant_action_def Let_def split: if_splits)
  have "capability_allows env (tg_capabilities t') ''providers'' v \<longleftrightarrow>
      (\<exists>s. (JStr s \<in> set ?held \<or> s \<in> set granted) \<and> matches_entry v s)"
    unfolding provider_grant t' dict_set_get by auto
  then show ?thesis by (auto simp: provider_grant text_entries_of)
qed

text \<open>
  The owner's yes is frozen exactly: after it, the trigger's own action may run, and of all providers
  only those the yes named are new; every other kind of capability is as it was. Nothing granted leaves the
  trigger as it was.
\<close>

theorem grant_freezes_the_action_only:
  assumes "grant_action env t = (t', granted)" and "\<forall>p \<in> set granted. p \<noteq> [] \<and> last p \<noteq> CHR ''*''"
  shows "ungranted_providers env t' = [] \<and>
    (\<forall>v. capability_allows env (tg_capabilities t') ''providers'' v \<longleftrightarrow>
       capability_allows env (tg_capabilities t) ''providers'' v \<or> v \<in> set granted) \<and>
    (\<forall>key v. key \<noteq> ''providers'' \<longrightarrow>
       capability_allows env (tg_capabilities t') key v = capability_allows env (tg_capabilities t) key v)"
proof (cases "granted = []")
  case True
  then have "t' = t" "ungranted_providers env t = []"
    using assms(1) by (auto simp: grant_action_def Let_def split: if_splits)
  then show ?thesis using True by simp
next
  case False
  have own: "granted = ungranted_providers env t" and block: "tg_workflow t' = tg_workflow t"
    and caps: "\<exists>es. tg_capabilities t' = dict_set (tg_capabilities t) ''providers'' (JList es)"
    using assms(1) False by (auto simp: grant_action_def Let_def split: if_splits)
  have providers: "capability_allows env (tg_capabilities t') ''providers'' v \<longleftrightarrow>
       capability_allows env (tg_capabilities t) ''providers'' v \<or> v \<in> set granted" for v
    using granted_entries [OF assms(1) False] assms(2) by (auto simp: exact_entry)
  have same: "capabilities_for_action env t' = capabilities_for_action env t"
    unfolding capabilities_for_action_def same_action [OF block] ..
  have "ungranted_providers env t' = []"
    using own by (auto simp: ungranted_providers_def same providers filter_empty_conv)
  moreover have "capability_allows env (tg_capabilities t') key v = capability_allows env (tg_capabilities t) key v"
    if "key \<noteq> ''providers''" for key v
  proof -
    obtain es where es: "tg_capabilities t' = dict_set (tg_capabilities t) ''providers'' (JList es)" using caps by blast
    have "tg_capabilities t' \<noteq> []" unfolding es by (cases "tg_capabilities t") (auto split: if_splits)
    then show ?thesis using that
      by (cases "tg_capabilities t = []") (auto simp: capability_allows_def es dict_set_get cfg_get_def)
  qed
  ultimately show ?thesis using providers by blast
qed

definition wants_bash :: trigger where
  "wants_bash = runs_bash\<lparr>tg_capabilities := []\<rparr>"

theorem grant_freezes_the_action_only_witness:
  "ungranted_providers quiet_machine (fst (grant_action quiet_machine wants_bash)) = []"
proof -
  have "strip ''bash-command'' = ''bash-command''" by code_simp
  then have "\<not> provider_is_read_only quiet_machine ''bash-command'' c" for c
    by (simp add: provider_is_read_only_def READ_ONLY_PROVIDERS_def READ_ONLY_WHEN_DECLARED_def)
  moreover have "requested_capabilities (fe_rt quiet_machine) wants_bash = [(''providers'', [''bash-command''])]"
    using same_action(1) [of wants_bash runs_bash] runs_bash_asks by (simp add: wants_bash_def)
  ultimately have "snd (grant_action quiet_machine wants_bash) = [''bash-command'']"
    by (simp add: grant_action_def ungranted_providers_def capabilities_for_action_def Let_def)
      (simp add: wants_bash_def capability_allows_def)
  then show ?thesis using grant_freezes_the_action_only [OF prod.collapse [symmetric], of quiet_machine wants_bash] by simp
qed

end
