(* ===== verification/QuietFacts.thy ===== *)
theory QuietFacts
  imports FireGuards
begin

text \<open>
  The quiet windows as bands of a week: a window that closes the next day is one band, it belongs to the day
  it opens on, and it silences a moment exactly where the moment lies in the band of a day it names.
\<close>

definition MINUTES_OF_DAY :: nat where "MINUTES_OF_DAY = 1440"
definition MINUTES_OF_WEEK :: nat where "MINUTES_OF_WEEK = 10080"

text \<open>How long a window is, and how long ago a minute of the week was, the week read as a ring.\<close>

definition window_minutes :: "nat \<Rightarrow> nat \<Rightarrow> nat" where
  "window_minutes start stop = (stop + MINUTES_OF_DAY - start) mod MINUTES_OF_DAY"

definition minutes_since :: "nat \<Rightarrow> nat \<Rightarrow> nat" where
  "minutes_since now opened = (now + MINUTES_OF_WEEK - opened) mod MINUTES_OF_WEEK"

definition week_minute :: "moment \<Rightarrow> nat" where
  "week_minute m = mo_weekday m * MINUTES_OF_DAY + mo_minutes m"

lemma digit_bound: "is_digit c \<Longrightarrow> digits_val [c] < 10"
proof -
  assume "is_digit c"
  then have "(of_char c :: nat) \<le> of_char (CHR ''9'')" by (simp add: is_digit_def less_eq_char_def)
  then show ?thesis by (simp add: digits_val_def)
qed

lemma parse_hhmm_bound: "parse_hhmm v = Some x \<Longrightarrow> x < MINUTES_OF_DAY"
proof -
  assume "parse_hhmm v = Some x"
  then obtain h m where hm: "hour_text h" "minute_text m" "x = digits_val h * 60 + digits_val m"
    by (auto simp: parse_hhmm_def split: list.splits if_splits)
  have "digits_val h < 24"
  proof (cases "length h = 1")
    case True
    then obtain c where "h = [c]" by (cases h) auto
    then show ?thesis using hm(1) digit_bound [of c] by (simp add: hour_text_def)
  next
    case False
    then show ?thesis using hm(1) by (simp add: hour_text_def)
  qed
  moreover have "digits_val m < 60" using hm(2) by (simp add: minute_text_def)
  ultimately show ?thesis using hm(3) by (simp add: MINUTES_OF_DAY_def)
qed

lemma mo_minutes_bound: "mo_secs m < 86400 \<Longrightarrow> mo_minutes m < MINUTES_OF_DAY"
  by (simp add: mo_minutes_def MINUTES_OF_DAY_def) linarith

text \<open>Which band of the week a minute is in, day by day: today's and yesterday's are the only ones.\<close>

lemma day_band:
  assumes "k < 7" "d < 7" "start < MINUTES_OF_DAY" "stop < MINUTES_OF_DAY" "start \<noteq> stop" "mn < MINUTES_OF_DAY"
  shows "minutes_since (k * MINUTES_OF_DAY + mn) (d * MINUTES_OF_DAY + start) < window_minutes start stop \<longleftrightarrow>
    (d = k \<and> start \<le> mn \<and> (start < stop \<longrightarrow> mn < stop)) \<or> (d = (k + 6) mod 7 \<and> stop < start \<and> mn < stop)"
proof -
  define j where "j = (if d \<le> k then k - d else k + 7 - d)"
  note small = assms(3,4,6) [unfolded MINUTES_OF_DAY_def]
  have j7: "j < 7" and today: "j = 0 \<longleftrightarrow> d = k" and yesterday: "j = 1 \<longleftrightarrow> d = (k + 6) mod 7"
    using assms(1,2) by (auto simp: j_def mod_if)
  have long_ago: "k * 1440 + mn + 10080 - (d * 1440 + start) = j * 1440 + mn + (if d \<le> k then 10080 else 0) - start"
    using assms(1,2) small by (auto simp: j_def diff_mult_distrib add_mult_distrib)
  have since: "minutes_since (k * MINUTES_OF_DAY + mn) (d * MINUTES_OF_DAY + start) =
      (if j = 0 \<and> mn < start then mn + 10080 - start else j * 1440 + mn - start)"
  proof (cases "d \<le> k \<and> (j \<noteq> 0 \<or> start \<le> mn)")
    case True
    then have "j * 1440 + mn + 10080 - start = (j * 1440 + mn - start) + 10080" using small by (cases "j = 0") auto
    moreover have "j * 1440 + mn - start < 10080" using j7 small by linarith
    ultimately have "(k * 1440 + mn + 10080 - (d * 1440 + start)) mod 10080 = j * 1440 + mn - start"
      unfolding long_ago using True by (simp only: simp_thms if_True mod_add_self2 mod_less)
    then show ?thesis
      unfolding minutes_since_def MINUTES_OF_WEEK_def MINUTES_OF_DAY_def using True today by auto
  next
    case False
    then have "j * 1440 + mn + (if d \<le> k then 10080 else 0) - start < 10080"
      using j7 small today by (cases "d \<le> k") (simp_all, linarith)
    then have "(k * 1440 + mn + 10080 - (d * 1440 + start)) mod 10080 = j * 1440 + mn + (if d \<le> k then 10080 else 0) - start"
      unfolding long_ago by (rule mod_less)
    then show ?thesis
      unfolding minutes_since_def MINUTES_OF_WEEK_def MINUTES_OF_DAY_def using False today by auto
  qed
  have len: "window_minutes start stop = (if start < stop then stop - start else stop + 1440 - start)"
    using small assms(5) by (auto simp: window_minutes_def MINUTES_OF_DAY_def mod_if)
  show ?thesis
    unfolding since len today [symmetric] yesterday [symmetric]
    using small assms(5) by (cases "j = 0"; cases "j = 1") auto
qed

text \<open>
  C34. A quiet window is a band of the week, wound around its end: it silences a moment exactly when, on one of
  the days it names, it opened less than its own length ago. So a window that closes after midnight covers the
  small hours of the day after, whether or not that day is named, and nothing of the small hours of its own.
\<close>

theorem quiet_window_is_a_week_band:
  assumes "parse_hhmm (qw_start win) = Some start" and "parse_hhmm (qw_end win) = Some stop" and "start \<noteq> stop"
    and "mo_weekday m < 7" and "mo_secs m < 86400"
  shows "suppresses win m \<longleftrightarrow>
    (\<exists>d < 7. DAYS ! d \<in> set (qw_days win) \<and>
       minutes_since (week_minute m) (d * MINUTES_OF_DAY + start) < window_minutes start stop)"
proof -
  note band = day_band [OF assms(4) _ parse_hhmm_bound [OF assms(1)] parse_hhmm_bound [OF assms(2)] assms(3)
      mo_minutes_bound [OF assms(5)]]
  have "(mo_weekday m + 6) mod 7 < 7" by simp
  then have "(\<exists>d < 7. DAYS ! d \<in> set (qw_days win) \<and>
       minutes_since (week_minute m) (d * MINUTES_OF_DAY + start) < window_minutes start stop) \<longleftrightarrow>
    (DAYS ! mo_weekday m \<in> set (qw_days win) \<and> start \<le> mo_minutes m \<and> (start < stop \<longrightarrow> mo_minutes m < stop)) \<or>
    (DAYS ! ((mo_weekday m + 6) mod 7) \<in> set (qw_days win) \<and> stop < start \<and> mo_minutes m < stop)"
    using band assms(4) unfolding week_minute_def by blast
  then show ?thesis
    using assms(1-3) by (auto simp: suppresses_def Let_def)
qed

definition friday_night :: quiet_window where
  "friday_night = \<lparr>qw_start = ''22:00'', qw_end = ''07:30'', qw_days = [''fri'']\<rparr>"

theorem quiet_window_is_a_week_band_witness:
  "suppresses friday_night \<lparr>mo_weekday = 5, mo_secs = 3600\<rparr> \<and> \<not> suppresses friday_night \<lparr>mo_weekday = 4, mo_secs = 3600\<rparr>"
proof -
  have start: "parse_hhmm (qw_start friday_night) = Some 1320" and stop: "parse_hhmm (qw_end friday_night) = Some 450"
    by code_simp+
  note band = quiet_window_is_a_week_band [OF start stop]
  have days: "DAYS ! d \<in> set (qw_days friday_night) \<longleftrightarrow> d = 4" if "d < 7" for d
    using that by (auto simp: friday_night_def DAYS_def less_Suc_eq numeral_nat)
  show ?thesis
    by (auto simp: band days minutes_since_def week_minute_def window_minutes_def mo_minutes_def
        MINUTES_OF_DAY_def MINUTES_OF_WEEK_def intro!: exI [of _ 4])
qed

end
