(* ===== verification/ClockFacts.thy ===== *)
theory ClockFacts
  imports TriggerTick QuietFacts
begin

text \<open>
  What holds of the clock: where a schedule's next fire may land, where a wall time a zone skips is placed,
  that an interval keeps its phase while it is armed, and where the tick lets go of it.
\<close>

section \<open>The next fire of a schedule\<close>

lemma grid_slot:
  fixes secs :: rat
  assumes "0 < secs"
  shows "now < anchor + of_int (\<lfloor>(now - anchor) / secs\<rfloor> + 1) * secs"
    "anchor + of_int (\<lfloor>(now - anchor) / secs\<rfloor> + 1) * secs \<le> now + secs"
proof -
  let ?n = "\<lfloor>(now - anchor) / secs\<rfloor>"
  have "(now - anchor) / secs < of_int ?n + 1" and le: "of_int ?n \<le> (now - anchor) / secs" by linarith+
  then have "now - anchor < (of_int ?n + 1) * secs" using assms by (simp add: pos_divide_less_eq)
  moreover have "of_int ?n * secs \<le> now - anchor" using pos_le_divide_eq [OF assms] le by blast
  ultimately show "now < anchor + of_int (?n + 1) * secs" "anchor + of_int (?n + 1) * secs \<le> now + secs"
    by (simp_all add: distrib_right)
qed

lemma positive_ge: "0 \<le> positive rt v"
  by (simp add: positive_def split: sum.split)

lemma first_placed_ahead: "first_placed step z now k n = Some f \<Longrightarrow> 0 < f \<Longrightarrow> now < f"
  by (induction step z now k n rule: first_placed.induct) (auto split: option.splits if_splits)

lemma cadence_ahead:
  assumes "0 < cadence_next_fire env clock t now last_fire"
  shows "now_or clock now < cadence_next_fire env clock t now last_fire"
proof -
  let ?now = "now_or clock now"
  have interval: "?now < anchor + of_int (\<lfloor>max 0 (?now - anchor) / secs\<rfloor> + 1) * secs" if "0 < secs" for anchor secs
  proof (cases "anchor \<le> ?now")
    case True
    then show ?thesis using grid_slot(1) [OF that, of ?now anchor] by (simp add: max_def)
  next
    case False
    then show ?thesis using that by (simp add: max_def)
  qed
  have on: "tg_kind t = ''clock''" "tg_enabled t"
    using assms by (auto simp: cadence_next_fire_def Let_def split: if_splits)
  note body = cadence_next_fire_def [of env clock t now last_fire, unfolded Let_def]
  consider "cadence_kind env t = ''cron''" | "cadence_kind env t \<noteq> ''cron''" "cadence_kind env t \<in> {''interval'', ''sequence''}"
    | "cadence_kind env t = ''adaptive''" | "cadence_kind env t = ''at''"
    using assms on unfolding body by (auto split: if_splits)
  then show ?thesis
  proof cases
    case 1
    then obtain expr z f where "cron_next_fire env expr ?now z = Some f" "cadence_next_fire env clock t now last_fire = f"
      using assms on unfolding body by (simp split: if_splits option.splits)
    then show ?thesis using assms first_placed_ahead unfolding cron_next_fire_def by metis
  next
    case 2
    define secs where "secs = positive (ck_rt env) (cfg_get (tg_spec t) ''interval_secs'')"
    have "0 < secs" using assms on 2 unfolding body secs_def by (auto split: if_splits)
    then show ?thesis using interval on 2 unfolding body secs_def [symmetric] by simp
  next
    case 3
    then show ?thesis using assms on unfolding body by (simp split: if_splits)
  next
    case 4
    then show ?thesis using assms on unfolding body by (simp split: if_splits)
  qed
qed

lemma jitter_forward:
  assumes "\<And>tid. 0 \<le> ck_fraction env tid"
  shows "fire \<le> apply_jitter env t fire"
  using assms by (simp add: apply_jitter_def jitter_offset_def Let_def)

lemma jitter_keeps_the_day:
  assumes "trigger_tz env t = Some z" and "skipped_dates env t = [] \<or> date_text z fire \<notin> set (skipped_dates env t)"
  shows "date_text z (apply_jitter env t fire) \<notin> set (skipped_dates env t)"
  using assms by (auto simp: apply_jitter_def Let_def)

lemma advance_lands:
  assumes "trigger_tz env t = Some z" and "\<And>tid. 0 \<le> ck_fraction env tid"
    and "0 < advance_past env clock z t left fire"
  shows "fire \<le> advance_past env clock z t left fire \<and>
    date_text z (advance_past env clock z t left fire) \<notin> set (skipped_dates env t)"
  using assms(3)
proof (induction left arbitrary: fire)
  case (Suc left)
  then show ?case
    using jitter_forward [of env fire t] jitter_keeps_the_day [OF assms(1), of fire] assms(2)
    by (auto simp: Let_def split: if_splits) (meson less_le_trans not_le order_less_imp_le)
qed simp

lemma next_fire_lands:
  assumes fwd: "\<And>tid. 0 \<le> ck_fraction env tid" and pos: "0 < next_fire env clock t now last_fire"
  shows "now_or clock now < next_fire env clock t now last_fire \<and>
    (\<exists>z. trigger_tz env t = Some z \<and> date_text z (next_fire env clock t now last_fire) \<notin> set (skipped_dates env t))"
proof -
  obtain z where z: "trigger_tz env t = Some z"
    using pos by (auto simp: next_fire_def Let_def split: option.splits)
  let ?f = "cadence_next_fire env clock t (now_or clock now) last_fire"
  have twice: "now_or clock (now_or clock now) = now_or clock now" by (simp add: now_or_def)
  show ?thesis
  proof (cases "skipped_dates env t = [] \<or> ?f \<le> 0")
    case True
    then have nf: "next_fire env clock t now last_fire = apply_jitter env t ?f" by (simp add: next_fire_def z Let_def)
    then have some: "0 < ?f" using pos by (cases "?f \<le> 0") (simp_all add: apply_jitter_def)
    then have skips: "skipped_dates env t = []" using True by simp
    have "now_or clock now < ?f" using cadence_ahead [OF some] twice by simp
    then show ?thesis using jitter_forward [of env ?f t] fwd nf skips z by fastforce
  next
    case False
    then have nf: "next_fire env clock t now last_fire = advance_past env clock z t MAX_SKIP_ADVANCE ?f"
      by (simp add: next_fire_def z Let_def)
    have "now_or clock now < ?f" using cadence_ahead [of env clock t "now_or clock now" last_fire] False twice by simp
    then show ?thesis
      using advance_lands [OF z fwd, of clock MAX_SKIP_ADVANCE ?f] pos nf z by fastforce
  qed
qed

lemmas next_fire_ahead = next_fire_lands [THEN conjunct1]

text \<open>
  C14. What the arming computes as the next fire of a schedule (\<open>next_fire\<close> of \<^verbatim>\<open>arm.py\<close>) lies ahead, and never
  on a day its owner excluded: whatever the cadence, the jitter or the zone, the instant it returns is later
  than now and its date in the trigger's own zone is none of the skipped dates, jitter across midnight
  included; where that cannot be had it returns none. This is said of that function only: the tick recomputes
  an interval without it (\<open>interval_fires_on_a_skipped_date\<close>) and a boot adds a spread to it
  (\<open>boot_spread_lands_on_a_skipped_date\<close>), and either may land on an excluded day.
\<close>

theorem next_fire_is_ahead_on_an_allowed_day:
  assumes "\<forall>tid. 0 \<le> ck_fraction env tid" and "0 < next_fire env clock t now last_fire"
  shows "now_or clock now < next_fire env clock t now last_fire \<and>
    (\<exists>z. trigger_tz env t = Some z \<and> date_text z (next_fire env clock t now last_fire) \<notin> set (skipped_dates env t))"
  using next_fire_lands [OF _ assms(2)] assms(1) by blast

text \<open>A clock at Greenwich, and a report every hour, spread by up to ten minutes, skipping one day.\<close>

definition greenwich :: zone where
  "greenwich = \<lparr>zn_offset = (\<lambda>_. 0), zn_fold0 = (\<lambda>_. 0), zn_fold1 = (\<lambda>_. 0)\<rparr>"

definition utc_clock :: clock_env where
  "utc_clock = \<lparr>ck_rt = fe_rt quiet_machine, ck_zone = (\<lambda>_. Some greenwich), ck_cron_valid = (\<lambda>_. False),
     ck_cron_step = (\<lambda>_ _ _. None), ck_fraction = (\<lambda>_. 1 / 2)\<rparr>"

definition hourly :: trigger where
  "hourly = backup\<lparr>tg_spec := [(''kind'', JStr ''interval''), (''interval_secs'', JInt 3600), (''jitter_secs'', JInt 600)]\<rparr>"

lemma kinds [simp]: "lower ''interval'' = ''interval''" "strip ''interval'' = ''interval''" "strip [] = []"
  by code_simp+

lemma hourly_fires: "next_fire utc_clock 0 hourly 100 0 = 4000"
  by (simp add: next_fire_def now_or_def trigger_tz_def utc_clock_def hourly_def backup_def quiet_machine_def cfg_get_def
      skipped_dates_def cadence_next_fire_def cadence_kind_def spec_kind_def positive_def float_of_field_def
      first_nonzero_def created_at_of_spec_def apply_jitter_def jitter_offset_def Let_def)

theorem next_fire_is_ahead_on_an_allowed_day_witness:
  "now_or 0 100 < next_fire utc_clock 0 hourly 100 0"
  using next_fire_is_ahead_on_an_allowed_day [of utc_clock 0 hourly 100 0]
  by (simp add: hourly_fires) (simp add: utc_clock_def)

section \<open>A wall time the zone skips\<close>

declare jump_between.simps [simp del]

lemma jump_between_finds:
  assumes "low < T" and "T \<le> high" and "\<forall>i. low \<le> i \<and> i \<le> high \<longrightarrow> (zn_offset z (of_int i) = offset_after \<longleftrightarrow> T \<le> i)"
  shows "jump_between z offset_after low high = T"
  using assms
proof (induction z offset_after low high rule: jump_between.induct)
  case (1 z offset_after low high)
  show ?case
  proof (cases "1 < high - low")
    case True
    define mid where "mid = (low + high) div 2"
    have mid: "low < mid" "mid < high" using True by (auto simp: mid_def)
    have step: "jump_between z offset_after low high = (if T \<le> mid then jump_between z offset_after low mid
        else jump_between z offset_after mid high)"
      using True mid 1(5) by (subst jump_between.simps) (simp add: mid_def [symmetric] Let_def)
    have here: "zn_offset z (of_int mid) = offset_after \<longleftrightarrow> T \<le> mid" using 1(5) mid by simp
    show ?thesis
    proof (cases "T \<le> mid")
      case left: True
      then show ?thesis
        using 1(1) [OF True mid_def] here 1(3,5) mid by (simp add: step)
    next
      case right: False
      then show ?thesis
        using 1(2) [OF True mid_def] here 1(4,5) mid by (simp add: step)
    qed
  next
    case False
    then have "high = T" using 1(3,4) by linarith
    then show ?thesis using False by (subst jump_between.simps) simp
  qed
qed

text \<open>
  A cron time the clocks jump over is not lost: where a zone goes forward at an instant \<open>T\<close> and so never
  shows a wall time, that wall time fires at \<open>T\<close> itself, the search for it ending whatever the size of the
  gap; and a wall time the zone shows fires at its first instant.
\<close>

theorem skipped_wall_time_fires_at_the_jump:
  assumes "zn_fold0 z wall = of_int before" and "zn_fold1 z wall = of_int after" and "wall = of_int w"
    and "w - after < T" and "T \<le> w - before"
    and "\<forall>i. w - after \<le> i \<and> i \<le> w - before \<longrightarrow> zn_offset z (of_int i) = of_int (if T \<le> i then after else before)"
    and "before < after"
  shows "placed_at z wall = of_int T \<and> (\<forall>wall'. wall_at z (wall' - zn_fold0 z wall') = wall' \<longrightarrow> placed_at z wall' = wall' - zn_fold0 z wall')"
proof -
  have "zn_offset z (of_int (w - before)) = of_int (if T \<le> w - before then after else before)"
    by (rule assms(6) [rule_format]) (use assms(4,5) in linarith)
  then have "zn_offset z (of_int (w - before)) = of_int after" by (simp only: assms(5) if_True)
  then have gap: "wall_at z (wall - zn_fold0 z wall) \<noteq> wall"
    using assms(1,3,7) by (simp add: wall_at_def)
  have "rat_trunc (of_int i) = i" for i :: int by simp
  then have ends: "rat_trunc (wall - zn_fold1 z wall) = w - after" "rat_trunc (wall - zn_fold0 z wall) = w - before"
    using assms(1-3) by (metis of_int_diff)+
  have "jump_between z (of_int after) (w - after) (w - before) = T"
    by (rule jump_between_finds [OF assms(4,5)]) (use assms(6,7) in auto)
  then show ?thesis using gap ends assms(2) by (simp add: placed_at_def Let_def)
qed

definition spring_zone :: zone where
  "spring_zone = \<lparr>zn_offset = (\<lambda>t. if t < 1000 then 0 else 3600), zn_fold0 = (\<lambda>w. if w < 4600 then 0 else 3600),
     zn_fold1 = (\<lambda>w. if w < 1000 then 0 else 3600)\<rparr>"

theorem skipped_wall_time_fires_at_the_jump_witness: "placed_at spring_zone 2000 = 1000"
proof -
  have "\<forall>i. 2000 - 3600 \<le> i \<and> i \<le> 2000 - 0 \<longrightarrow> zn_offset spring_zone (of_int i) = of_int (if (1000::int) \<le> i then 3600 else 0)"
    by (auto simp: spring_zone_def not_le)
  then have "placed_at spring_zone 2000 = of_int 1000"
    by (rule skipped_wall_time_fires_at_the_jump [THEN conjunct1, rotated 5]) (simp_all add: spring_zone_def)
  then show ?thesis by simp
qed

section \<open>Intervals\<close>

text \<open>
  An interval keeps its phase: its next fire after a run is the first slot of the grid its creation
  laid down that lies after the run's end, so a run that overruns neither fires again at once nor moves the
  schedule.
\<close>

theorem interval_keeps_its_phase:
  assumes "0 < secs" and "0 < created"
  shows "\<exists>k. recompute_from_completion secs created completed = created + of_int k * secs \<and>
    completed < created + of_int k * secs \<and> created + of_int (k - 1) * secs \<le> completed"
proof -
  let ?k = "\<lfloor>(completed - created) / secs\<rfloor> + 1"
  have "recompute_from_completion secs created completed = created + of_int ?k * secs"
    using assms by (simp add: recompute_from_completion_def Let_def)
  moreover have "created + of_int (?k - 1) * secs \<le> completed"
    using grid_slot(2) [OF assms(1), of created completed] by (simp add: distrib_right)
  ultimately show ?thesis using grid_slot(1) [OF assms(1), of completed created] by blast
qed

theorem interval_keeps_its_phase_witness: "recompute_from_completion 60 1000 1095 = 1120"
proof -
  obtain k where k: "recompute_from_completion 60 1000 1095 = 1000 + of_int k * 60" "1095 < 1000 + of_int k * (60 :: rat)"
    "1000 + of_int (k - 1) * (60 :: rat) \<le> 1095"
    using interval_keeps_its_phase [of 60 1000 1095] by auto
  then have "of_int k < (3 :: rat)" "(1 :: rat) < of_int k" by simp_all
  then have "k = 2" by simp
  then show ?thesis using k(1) by simp
qed

lemma recompute_ahead: "0 < secs \<Longrightarrow> completed < recompute_from_completion secs created completed"
  using grid_slot(1) [of secs completed] by (simp add: recompute_from_completion_def Let_def)

text \<open>
  The tick asks the entity for the instant it was created, which it does not keep: the grid an interval is
  recomputed on is laid down anew at every fire, and neither its skipped dates nor its jitter are asked.
\<close>

theorem tick_rephases_an_interval:
  "0 < interval_secs_of env t \<Longrightarrow> 0 < now \<Longrightarrow>
     next_after_completion env clock t now now = now + interval_secs_of env t"
  by (simp add: next_after_completion_def created_at_of_entity_def first_nonzero_def recompute_from_completion_def Let_def)

definition hourly_off_on_day_two :: trigger where
  "hourly_off_on_day_two = hourly\<lparr>tg_spec := tg_spec hourly @ [(''skip_dates'', JList [JStr ''1970-01-02''])]\<rparr>"

lemma second_day: "date_text greenwich 86500 = ''1970-01-02''"
  by code_simp

theorem interval_fires_on_a_skipped_date:
  "(let fire = next_after_completion utc_clock 0 hourly_off_on_day_two 82900 82900
    in 0 < fire \<and> date_text greenwich fire \<in> set (skipped_dates utc_clock hourly_off_on_day_two))"
proof -
  have secs: "interval_secs_of utc_clock hourly_off_on_day_two = 3600"
    by (simp add: interval_secs_of_def hourly_off_on_day_two_def hourly_def spec_kind_def cfg_get_def float_of_field_def)
  have "strip ''1970-01-02'' = ''1970-01-02''" by code_simp
  then have "skipped_dates utc_clock hourly_off_on_day_two = [''1970-01-02'']"
    by (simp add: skipped_dates_def hourly_off_on_day_two_def hourly_def backup_def cfg_get_def py_str_def)
  then show ?thesis
    using tick_rephases_an_interval [of utc_clock hourly_off_on_day_two 82900 0] secs second_day by (simp add: Let_def)
qed

end
