(* ===== verification/TickFacts.thy ===== *)
theory TickFacts
  imports ClockFacts
begin

text \<open>
  What holds of the boot, the wake and the tick: each trigger has one fire ahead, missed slots are counted
  and bounded, the loop wakes in time, and a tick leaves nothing due, its copies of the rows and the store
  agreeing throughout.
\<close>

section \<open>The plan of a boot\<close>







definition late_hourly :: trigger where
  "late_hourly = hourly\<lparr>tg_next_fire_at := 100\<rparr>"



text \<open>
  The spread a dropped slot comes back with is not held against the skipped dates, as the schedule's own
  jitter is: it carries a fire over midnight onto a day its owner excluded.
\<close>

definition night_watch :: trigger where
  "night_watch = backup\<lparr>tg_spec := [(''kind'', JStr ''adaptive''), (''interval_secs_healthy'', JInt 3570),
     (''skip_dates'', JList [JStr ''1970-01-02''])], tg_next_fire_at := 1000\<rparr>"

theorem boot_spread_lands_on_a_skipped_date:
  "\<exists>at_time. plan_boot utc_clock 0 [night_watch] 82800 = [(''b'', at_time, ResumedOnGrid)] \<and>
     date_text greenwich at_time \<in> set (skipped_dates utc_clock night_watch) \<and>
     date_text greenwich (next_fire utc_clock 0 night_watch 82800 0) \<notin> set (skipped_dates utc_clock night_watch)"
proof -
  have strs: "strip ''1970-01-02'' = ''1970-01-02''" "lower (strip ''adaptive'') = ''adaptive''" "lower [] \<noteq> ''degraded''"
    by code_simp+
  have skips: "skipped_dates utc_clock night_watch = [''1970-01-02'']"
    using strs(1) by (simp add: skipped_dates_def night_watch_def backup_def cfg_get_def py_str_def)
  have days: "date_text greenwich 86370 = ''1970-01-01''" "date_text greenwich 86430 = ''1970-01-02''" by code_simp+
  have tz: "trigger_tz utc_clock night_watch = Some greenwich" by (simp add: trigger_tz_def utc_clock_def)
  have cadence: "cadence_next_fire utc_clock 0 night_watch 82800 0 = 86370"
    using strs(2,3) by (simp add: cadence_next_fire_def now_or_def cadence_kind_def spec_kind_def night_watch_def backup_def
        cfg_get_def positive_def float_of_field_def Let_def)
  have jitter: "apply_jitter utc_clock night_watch 86370 = 86370"
    by (simp add: apply_jitter_def night_watch_def backup_def cfg_get_def positive_def float_of_field_def Let_def)
  have steps: "MAX_SKIP_ADVANCE = Suc 399" by (simp add: MAX_SKIP_ADVANCE_def)
  have fire: "next_fire utc_clock 0 night_watch 82800 0 = 86370"
    unfolding next_fire_def steps advance_past.simps by (simp add: now_or_def tz cadence skips days jitter)
  have fields: "tg_id night_watch = ''b''" "tg_enabled night_watch" "tg_next_fire_at night_watch = 1000" "\<not> tg_catch_up night_watch"
    "ck_fraction utc_clock tid = 1 / 2" for tid
    by (simp_all add: night_watch_def backup_def utc_clock_def)
  have "plan_boot utc_clock 0 [night_watch] 82800 = [(''b'', 86430, ResumedOnGrid)]"
    by (simp add: plan_boot_def List.map_filter_def plan_row_def fire fields boot_recovery_def slot_missed_def
        jitter_offset_def LATE_THRESHOLD_SECS_def BOOT_STAGGER_BASE_SECS_def BOOT_STAGGER_WINDOW_SECS_def
        POLL_CEILING_SECS_def Let_def)
  then show ?thesis using skips days fire by simp
qed

section \<open>Slots that did not run\<close>

lemma upto_length: "length [1..n] = nat n"
  by simp

text \<open>
  C33. The review of one automation's interval loses no missed slot and counts none twice: with whatever
  budget of rows it is handed, the slots of its grid after the last fire and up to now are exactly the rows
  built and those the summary counts, and the rows are the newest of them, in order. (What is left out of
  the review of several automations once their common budget is spent is the fact
  \<open>spent_budget_leaves_automations_out\<close>.)
\<close>

theorem missed_slots_are_all_accounted_for:
  assumes "0 < secs" and "0 < last_fire" and "enumerate_missed tid last_fire secs now budget = (rows, summary, spent)"
  shows "(let total = nat \<lfloor>(now - last_fire) / secs\<rfloor>; shown = length rows in
    rows = map (\<lambda>k. (tid, last_fire + of_nat k * secs)) [total - shown + 1 ..< total + 1] \<and>
    (case summary of None \<Rightarrow> 0 | Some s \<Rightarrow> ms_count s) = int (total - shown) \<and> shown \<le> total \<and>
    (\<forall>k. 1 \<le> k \<longrightarrow> (last_fire + of_nat k * secs \<le> now \<longleftrightarrow> k \<le> total)))"
proof -
  define total where "total = \<lfloor>(now - last_fire) / secs\<rfloor>"
  have counted: "last_fire + of_nat k * secs \<le> now \<longleftrightarrow> k \<le> nat total" if "1 \<le> k" for k
  proof -
    have "last_fire + of_nat k * secs \<le> now \<longleftrightarrow> of_nat k \<le> (now - last_fire) / secs"
      using assms(1) by (simp add: pos_le_divide_eq algebra_simps)
    also have "\<dots> \<longleftrightarrow> int k \<le> total" by (simp add: total_def le_floor_iff)
    finally show ?thesis using that by linarith
  qed
  show ?thesis
  proof (cases "total \<le> 0")
    case True
    then have "rows = []" "summary = None"
      using assms by (auto simp: enumerate_missed_def total_def Let_def split: if_splits)
    then show ?thesis using True counted by (simp add: total_def [symmetric])
  next
    case False
    then have "last_fire < now"
      using assms(1) by (auto simp: total_def not_le)
    define shown where "shown = min total (min (max 0 REVIEW_ROWS_PER_TRIGGER) (max 0 budget))"
    have shown: "0 \<le> shown" "shown \<le> total" using False by (auto simp: shown_def)
    have rows: "rows = map (\<lambda>i. (tid, last_fire + of_int (total - i + 1) * secs)) (rev [1..shown])"
      and count: "(case summary of None \<Rightarrow> 0 | Some s \<Rightarrow> ms_count s) = total - shown"
      using assms False \<open>last_fire < now\<close> shown
      by (auto simp: enumerate_missed_def total_def [symmetric] shown_def [symmetric] Let_def)
    have len: "length rows = nat shown" using rows by simp
    define ks where "ks = [nat total - nat shown + 1 ..< nat total + 1]"
    have ks: "length ks = nat shown" using shown by (simp add: ks_def)
    have "rows = map (\<lambda>k. (tid, last_fire + of_nat k * secs)) ks"
    proof (rule nth_equalityI)
      fix i assume "i < length rows"
      then have i: "i < nat shown" using len by simp
      then have "[1..shown] ! (nat shown - Suc i) = 1 + int (nat shown - Suc i)" by (intro nth_upto) linarith
      then have "rev [1..shown] ! i = shown - int i" using i by (simp add: rev_nth)
      moreover have "ks ! i = nat total - nat shown + 1 + i"
        unfolding ks_def using i shown by (intro nth_upt) linarith
      then have "ks ! i = nat (total - (shown - int i) + 1)" using i shown by linarith
      then have "of_nat (ks ! i) = (of_int (total - (shown - int i) + 1) :: rat)" using i shown by simp
      ultimately show "rows ! i = map (\<lambda>k. (tid, last_fire + of_nat k * secs)) ks ! i"
        using i ks by (simp add: rows)
    qed (use len ks in simp)
    moreover have "total - shown = int (nat total - nat shown)" "nat shown \<le> nat total" using shown by linarith+
    ultimately show ?thesis
      using count len counted by (simp add: Let_def total_def [symmetric] ks_def)
  qed
qed

theorem missed_slots_are_all_accounted_for_witness:
  "length (fst (enumerate_missed ''b'' 100 60 1000 480)) \<le> 15"
proof -
  obtain rows summary spent where e: "enumerate_missed ''b'' 100 60 1000 480 = (rows, summary, spent)"
    by (cases "enumerate_missed ''b'' 100 60 1000 480")
  have "\<lfloor>(1000 - 100) / (60 :: rat)\<rfloor> = 15" by simp
  then have "length rows \<le> 15"
    using missed_slots_are_all_accounted_for [OF _ _ e] by (simp only: Let_def) simp
  then show ?thesis by (simp add: e)
qed

lemma missed_of_spends:
  assumes "missed_of env clock t now budget = ((rows, summary, spent), capped)" and "0 < budget"
  shows "int (length rows) = spent" "0 \<le> spent" "spent \<le> budget" "spent \<le> REVIEW_ROWS_PER_TRIGGER"
  using assms
  by (auto simp: missed_of_def enumerate_missed_def enumerate_slots_def REVIEW_ROWS_PER_TRIGGER_def Let_def
      split: if_splits prod.splits)

lemma review_walk_fits:
  assumes "0 \<le> remaining"
  shows "int (length (mr_rows (review_walk env clock now ts remaining review))) \<le> int (length (mr_rows review)) + remaining"
  using assms
proof (induction ts arbitrary: remaining review)
  case (Cons t ts)
  show ?case
  proof (cases "remaining \<le> 0")
    case False
    obtain rows summary spent capped where m: "missed_of env clock t now remaining = ((rows, summary, spent), capped)"
      by (metis prod.exhaust)
    note spends = missed_of_spends [OF m]
    show ?thesis
      using Cons.IH [of "remaining - spent" "\<lparr>mr_rows = mr_rows review @ rows,
             mr_summaries = mr_summaries review @ (case summary of None \<Rightarrow> [] | Some s \<Rightarrow> [s]),
             mr_truncated = (mr_truncated review \<or> capped)\<rparr>"] spends False
      by (simp add: m)
  qed (use Cons.prems in simp)
qed simp

text \<open>
  However many automations missed however many slots, the review a restart builds has no more rows than
  its budget: 480, whatever the week was like.
\<close>

theorem review_fits_its_budget:
  "int (length (mr_rows (review_at_boot env clock ts now budget))) \<le> max 0 budget"
  using review_walk_fits [of "max 0 budget" env clock now "sort_key tg_id ts" "\<lparr>mr_rows = [], mr_summaries = [], mr_truncated = False\<rparr>"]
  by (simp add: review_at_boot_def)

text \<open>
  Once the common budget is spent the walk stops: an automation further down the alphabet that missed as
  much has neither a row nor a summary, so its owner gets no card; the review only says that it was cut short.
\<close>

definition every_minute :: "string \<Rightarrow> trigger" where
  "every_minute tid = backup\<lparr>tg_id := tid, tg_spec := [(''kind'', JStr ''interval''), (''interval_secs'', JInt 60)],
     tg_next_fire_at := 1000\<rparr>"

theorem spent_budget_leaves_automations_out:
  "(let review = review_at_boot utc_clock 0 [every_minute ''a'', every_minute ''b''] 4000 20 in
    length (mr_rows review) = 20 \<and> set (map fst (mr_rows review)) = {''a''} \<and>
    map ms_trigger_id (mr_summaries review) = [''a''] \<and> mr_truncated review) \<and>
   fst (fst (missed_of utc_clock 0 (every_minute ''b'') 4000 20)) \<noteq> []"
  by code_simp

section \<open>What is due\<close>

definition due_now :: "rat \<Rightarrow> trigger \<Rightarrow> bool" where
  "due_now now t \<longleftrightarrow> tg_enabled t \<and> 0 < tg_next_fire_at t \<and>
     fst (is_due (tg_next_fire_at t) now (fires_automatically t) (tg_expires_at t))"

lemma due_now_time: "due_now now t \<Longrightarrow> 0 < tg_next_fire_at t \<and> tg_next_fire_at t \<le> now"
  by (auto simp: due_now_def is_due_def split: if_splits)

lemma dict_set_within: "set (dict_set d k v) \<subseteq> insert (k, v) (set d)"
  by (induction d) (auto split: if_splits)

lemma dict_set_names: "fst ` set (dict_set d k v) = insert k (fst ` set d)"
proof -
  have "set (map fst (dict_set d k v)) = insert k (set (map fst d))"
    unfolding dict_set_keys by (auto simp: push_new_def)
  then show ?thesis by simp
qed

lemma due_candidates:
  assumes "\<And>k v. (k, v) \<in> set d \<Longrightarrow> 0 < v \<and> v \<le> now"
  shows "fst ` set (fold (\<lambda>t d. if due_now now t then dict_set d (tg_id t) (tg_next_fire_at t) else d) ts d) =
      fst ` set d \<union> tg_id ` {t \<in> set ts. due_now now t} \<and>
    (\<forall>(k, v) \<in> set (fold (\<lambda>t d. if due_now now t then dict_set d (tg_id t) (tg_next_fire_at t) else d) ts d). 0 < v \<and> v \<le> now)"
  using assms
proof (induction ts arbitrary: d)
  case (Cons t ts)
  show ?case
  proof (cases "due_now now t")
    case True
    have vals: "\<And>k v. (k, v) \<in> set (dict_set d (tg_id t) (tg_next_fire_at t)) \<Longrightarrow> 0 < v \<and> v \<le> now"
      using Cons.prems due_now_time [OF True] dict_set_within [of d "tg_id t" "tg_next_fire_at t"] by blast
    show ?thesis using Cons.IH [OF vals] True dict_set_names [of d "tg_id t"] by auto
  next
    case False
    then show ?thesis using Cons.IH [OF Cons.prems] by auto
  qed
qed auto

lemma due_ids_fold:
  "due_ids ts now window = coalesce_wakes
     (fold (\<lambda>t d. if due_now now t then dict_set d (tg_id t) (tg_next_fire_at t) else d) ts []) now window"
  by (simp add: due_ids_def due_now_def conj_assoc)

lemma due_ids_set: "0 \<le> window \<Longrightarrow> set (due_ids ts now window) = tg_id ` {t \<in> set ts. due_now now t}"
  using due_candidates [of "[]" now ts]
  by (fastforce simp: due_ids_fold coalesce_wakes_def image_iff)

text \<open>
  The second a wake coalesces over coalesces nothing: what is handed to it is already due, so the ids of a
  wake are those of a window of no width.
\<close>

theorem coalescing_window_is_idle: "0 \<le> window \<Longrightarrow> due_ids ts now window = due_ids ts now 0"
proof -
  assume w: "0 \<le> window"
  let ?d = "fold (\<lambda>t d. if due_now now t then dict_set d (tg_id t) (tg_next_fire_at t) else d) ts []"
  have "filter (\<lambda>(tid, t). 0 < t \<and> t \<le> now + window) ?d = filter (\<lambda>(tid, t). 0 < t \<and> t \<le> now + 0) ?d"
    using due_candidates [of "[]" now ts] w by (intro filter_cong) fastforce+
  then show ?thesis by (simp only: due_ids_fold coalesce_wakes_def)
qed

text \<open>
  The loop wakes in time and never spins: it sleeps between half a second and thirty, and no longer than
  to the earliest fire of any trigger that is on, unless that is less than half a second away.
\<close>

theorem sleep_reaches_the_next_fire:
  assumes "t \<in> set ts" and "tg_enabled t" and "0 < tg_next_fire_at t"
  shows "1 / 2 \<le> sleep_for ts now \<and> sleep_for ts now \<le> 30 \<and>
    now + sleep_for ts now \<le> max (tg_next_fire_at t) (now + 1 / 2)"
proof -
  define ups where "ups = filter (\<lambda>a. 0 < a) (map tg_next_fire_at (filter tg_enabled ts))"
  have mem: "tg_next_fire_at t \<in> set ups" using assms by (auto simp: ups_def)
  have same: "filter (\<lambda>a. 0 < a) ups = ups" by (simp add: ups_def)
  have least: "foldr min xs x \<le> y" if "y \<in> set xs" for xs :: "rat list" and x y
    using that by (induction xs) (auto simp: min_le_iff_disj)
  then have "foldr min ups (hd ups) \<le> tg_next_fire_at t" using mem by blast
  then have "next_wake_delay ups now \<le> max 0 (tg_next_fire_at t - now)" "0 \<le> next_wake_delay ups now"
    using mem by (auto simp: next_wake_delay_def same Let_def)
  moreover have "sleep_for ts now = max (1 / 2) (min 30 (next_wake_delay ups now))"
    using mem unfolding sleep_for_def ups_def [symmetric] Let_def MIN_SLEEP_SECS_def MAX_SLEEP_SECS_def by auto
  ultimately show ?thesis by linarith
qed

theorem sleep_reaches_the_next_fire_witness:
  "90 + sleep_for [late_hourly] 90 \<le> 100"
proof -
  have "late_hourly \<in> set [late_hourly]" "tg_enabled late_hourly" "tg_next_fire_at late_hourly = 100"
    by (simp_all add: late_hourly_def hourly_def backup_def)
  then show ?thesis using sleep_reaches_the_next_fire [of late_hourly "[late_hourly]" 90] by simp
qed

section \<open>One tick\<close>

text \<open>The tick's copies and the store tell the same of every row it works on, up to what a write normalises.\<close>

definition agrees :: "string list \<Rightarrow> trigger list \<Rightarrow> fire_world \<Rightarrow> bool" where
  "agrees ids mem w \<longleftrightarrow> map tg_id mem = ids \<and> distinct ids \<and>
     (\<forall>t \<in> set mem. \<exists>u. get_trigger (fw_triggers w) (tg_id t) = Some u \<and> row_written u = row_written t)"

lemma row_written_twice [simp]: "row_written (row_written t) = row_written t"
  by (simp add: row_written_def)

lemma due_now_row: "row_written u = row_written t \<Longrightarrow> due_now now u = due_now now t"
proof -
  have "due_now now (row_written v) = due_now now v" for v
    by (simp add: row_written_def due_now_def fires_automatically_def)
  then show "row_written u = row_written t \<Longrightarrow> due_now now u = due_now now t" by metis
qed

lemma put_mem_ids [simp]: "map tg_id (put_mem r mem) = map tg_id mem"
  by (simp add: put_mem_def)

lemma put_mem_agrees:
  assumes "agrees ids mem w"
    and "\<And>x. get_trigger (fw_triggers w') x = (if x = tg_id r then Some (row_written r) else get_trigger (fw_triggers w) x)"
  shows "agrees ids (put_mem r mem) w'"
  using assms by (auto simp: agrees_def put_mem_def)

lemma write_row_agrees: "agrees ids (fst st) (snd st) \<Longrightarrow> agrees ids (fst (write_row r st)) (snd (write_row r st))"
  unfolding write_row_def fst_conv snd_conv by (rule put_mem_agrees) (simp_all add: get_upsert)

lemma unpark_agrees: "agrees ids (fst st) (snd st) \<Longrightarrow> agrees ids (fst (unpark_mem absent now st)) (snd (unpark_mem absent now st))"
  unfolding unpark_mem_def
  by (rule fold_invariant [where Q = "\<lambda>_. True" and P = "\<lambda>st. agrees ids (fst st) (snd st)"]) (simp_all add: write_row_agrees)

lemma arm_agrees:
  "agrees ids (fst st) (snd st) \<Longrightarrow>
     agrees ids (fst (fst (arm_unarmed env clock now st))) (snd (fst (arm_unarmed env clock now st)))"
  unfolding arm_unarmed_def
  by (rule fold_invariant [where Q = "\<lambda>_. True" and P = "\<lambda>a. agrees ids (fst (fst a)) (snd (fst a))"])
    (auto simp: write_row_agrees split: prod.splits)

lemma recover_agrees:
  assumes "agrees ids (fst st) (snd st)"
  shows "agrees ids (fst (fst (recover env clock ts now st))) (snd (fst (recover env clock ts now st)))"
proof -
  have step: "agrees ids (fst (fst (recover_step p a))) (snd (fst (recover_step p a)))" if "agrees ids (fst (fst a)) (snd (fst a))" for p a
    using that write_row_agrees [of ids "fst a"] by (auto simp: recover_step_def split: prod.splits option.splits)
  have "agrees ids (fst (fst (fold recover_step ps (st, [])))) (snd (fst (fold recover_step ps (st, []))))" for ps
    by (rule fold_invariant [where Q = "\<lambda>_. True" and P = "\<lambda>a. agrees ids (fst (fst a)) (snd (fst a))"]) (simp_all add: assms step)
  then show ?thesis by (simp add: recover_def Let_def split: prod.splits) (metis fst_conv snd_conv)
qed

lemma wake_agrees:
  "agrees ids (ts_mem s) (ts_world s) \<Longrightarrow>
     agrees ids (ts_mem (recover_on_wake env clock now tids s)) (ts_world (recover_on_wake env clock now tids s))"
  using recover_agrees [of ids "(ts_mem s, ts_world s)" env clock "rows_of (ts_mem s) tids" now]
  by (auto simp: recover_on_wake_def Let_def split: prod.splits)

lemma get_of_distinct: "v \<in> set ts \<Longrightarrow> distinct (map tg_id ts) \<Longrightarrow> get_trigger ts (tg_id v) = Some v"
  unfolding get_trigger_def by (induction ts) (auto simp: image_iff)

text \<open>What one due row becomes, and that its stored row is the same.\<close>

lemma advanced_row_is_done:
  assumes "\<forall>tid. 0 \<le> ck_fraction env tid" and "now_or clock now = now"
  shows "\<not> due_now now (fst (advanced_row env clock now t))" "tg_id (fst (advanced_row env clock now t)) = tg_id t"
proof -
  have "now < next_after_completion env clock t now now" if "0 < next_after_completion env clock t now now"
    using that assms recompute_ahead next_fire_ahead [of env clock t now 0]
    by (simp add: next_after_completion_def Let_def split: if_splits)
  then show "\<not> due_now now (fst (advanced_row env clock now t))"
    by (auto simp: advanced_row_def Let_def due_now_def is_due_def stored_time_def)
  show "tg_id (fst (advanced_row env clock now t)) = tg_id t" by (simp add: advanced_row_def Let_def)
qed

lemma due_count_fire [simp]: "due_now now (count_fire now' t) = due_now now t"
  by (simp add: count_fire_def due_now_def fires_automatically_def)

lemma admitted_store:
  "get_trigger (fw_triggers (fst (admit_fire fenv parses now h ua sm src t w))) x =
    (if fd_allowed (snd (admit_fire fenv parses now h ua sm src t w)) \<and> x = tg_id t
     then Some (row_written (count_fire now t)) else get_trigger (fw_triggers w) x)"
proof (cases "fd_allowed (snd (admit_fire fenv parses now h ua sm src t w))")
  case True
  then show ?thesis by (rule admit_allowed_world) (simp add: True get_upsert)
qed (simp add: admit_refused_triggers)

lemma tick_one_shape:
  assumes "get_trigger (ts_mem s) tid = Some t"
  shows "\<exists>r. (r = fst (advanced_row env clock now t) \<or> r = count_fire now (fst (advanced_row env clock now t))) \<and>
    ts_mem (tick_one env fenv parses clock now ua slots tid s) = put_mem r (ts_mem s) \<and>
    (\<forall>x. get_trigger (fw_triggers (ts_world (tick_one env fenv parses clock now ua slots tid s))) x =
       (if x = tid then Some (row_written r) else get_trigger (fw_triggers (ts_world s)) x))"
proof -
  obtain t1 spent where adv: "advanced_row env clock now t = (t1, spent)" by fastforce
  have id: "tg_id t1 = tid" "tg_id t = tid"
    using adv assms by (auto simp: advanced_row_def Let_def get_trigger_def find_Some_iff split: if_splits)
  let ?w1 = "if spent then ts_world s else (ts_world s)\<lparr>fw_triggers := upsert t1 (fw_triggers (ts_world s))\<rparr>"
  obtain h where h: "''tick:'' @ int_str (rat_trunc now) = h" by blast
  obtain w2 d where adm: "admit_fire fenv parses now h ua (Some slots) [] t1 ?w1 = (w2, d)" by fastforce
  let ?s = "tick_one env fenv parses clock now ua slots tid s"
  have one: "ts_mem ?s = put_mem (if fd_allowed d then count_fire now t1 else t1) (ts_mem s)"
    "ts_world ?s = (if spent \<and> \<not> fd_allowed d then w2\<lparr>fw_triggers := upsert t1 (fw_triggers w2)\<rparr> else w2)"
    unfolding tick_one_def assms option.case Let_def adv prod.case h adm by (simp_all split: prod.split)
  have "get_trigger (fw_triggers w2) x = (if fd_allowed d \<and> x = tid then Some (row_written (count_fire now t1))
      else get_trigger (fw_triggers ?w1) x)" for x
    using admitted_store [of fenv parses now h ua "Some slots" "[]" t1 ?w1 x] unfolding adm fst_conv snd_conv id .
  then show ?thesis
    using id by (intro exI [of _ "if fd_allowed d then count_fire now t1 else t1"]) (simp add: one adv get_upsert)
qed

lemma get_in_mem: "agrees ids mem w \<Longrightarrow> tid \<in> set ids \<Longrightarrow> \<exists>t. get_trigger mem tid = Some t \<and> tg_id t = tid"
  unfolding get_trigger_def agrees_def by (cases "find (\<lambda>t. tg_id t = tid) mem") (auto simp: find_None_iff find_Some_iff)

definition due_set :: "rat \<Rightarrow> trigger list \<Rightarrow> string set" where
  "due_set now mem = tg_id ` {t \<in> set mem. due_now now t}"

lemma tick_one_clears:
  assumes "\<forall>tid. 0 \<le> ck_fraction env tid" and "now_or clock now = now"
    and "agrees ids (ts_mem s) (ts_world s)" and "tid \<in> set ids"
  shows "agrees ids (ts_mem (tick_one env fenv parses clock now ua slots tid s)) (ts_world (tick_one env fenv parses clock now ua slots tid s))"
    "due_set now (ts_mem (tick_one env fenv parses clock now ua slots tid s)) \<subseteq> due_set now (ts_mem s) - {tid}"
proof -
  let ?s = "tick_one env fenv parses clock now ua slots tid s"
  obtain t where t: "get_trigger (ts_mem s) tid = Some t" "tg_id t = tid" using get_in_mem [OF assms(3,4)] by blast
  obtain r where r: "r = fst (advanced_row env clock now t) \<or> r = count_fire now (fst (advanced_row env clock now t))"
    and mem: "ts_mem ?s = put_mem r (ts_mem s)"
    and store: "\<And>x. get_trigger (fw_triggers (ts_world ?s)) x =
       (if x = tid then Some (row_written r) else get_trigger (fw_triggers (ts_world s)) x)"
    using tick_one_shape [OF t(1)] by metis
  have done_row: "\<not> due_now now r" "tg_id r = tid"
    using r advanced_row_is_done [OF assms(1,2), of t] t(2) by auto
  show "agrees ids (ts_mem ?s) (ts_world ?s)"
    unfolding mem by (rule put_mem_agrees [OF assms(3)]) (simp add: store done_row)
  show "due_set now (ts_mem ?s) \<subseteq> due_set now (ts_mem s) - {tid}"
    using done_row by (auto simp: mem due_set_def put_mem_def)
qed

lemma ticks_clear:
  assumes "\<forall>tid. 0 \<le> ck_fraction env tid" and "now_or clock now = now"
    and "agrees ids (ts_mem s) (ts_world s)" and "set ds \<subseteq> set ids"
  shows "agrees ids (ts_mem (fold (tick_one env fenv parses clock now ua slots) ds s))
      (ts_world (fold (tick_one env fenv parses clock now ua slots) ds s)) \<and>
    due_set now (ts_mem (fold (tick_one env fenv parses clock now ua slots) ds s)) \<subseteq> due_set now (ts_mem s) - set ds"
  using assms(3,4)
proof (induction ds arbitrary: s)
  case (Cons d ds)
  have "d \<in> set ids" using Cons.prems(2) by simp
  note one = tick_one_clears [OF assms(1,2) Cons.prems(1) this, of fenv parses ua slots]
  show ?case using Cons.IH [OF one(1)] Cons.prems(2) one(2) by auto
qed simp

text \<open>
  C7. A tick leaves nothing due: whatever the gates let through, refuse or find spent, and whatever the wake
  before it caught up, every row the tick was to work on is still stored and, as it is stored, is not
  due at that instant any more, so the loop does not spin on it.
\<close>

theorem tick_leaves_nothing_due:
  assumes "\<forall>tid. 0 \<le> ck_fraction env tid" and "distinct (map tg_id (fw_triggers w))"
    and "t \<in> set (fw_triggers w)" and "armable t"
  shows "\<exists>u. get_trigger (fw_triggers (ts_world (fst (clock_tick env fenv parses armable absent clock now user_active catching w))))
      (tg_id t) = Some u \<and> \<not> (tg_enabled u \<and>
      fst (is_due (tg_next_fire_at u) (now_or clock now) (fires_automatically u) (tg_expires_at u)))"
proof -
  let ?now = "now_or clock now"
  define ts where "ts = filter armable (fw_triggers w)"
  define ids where "ids = map tg_id ts"
  obtain mem w1 armed where arm: "arm_unarmed env clock ?now (unpark_mem absent ?now (ts, w)) = ((mem, w1), armed)"
    by (metis prod.exhaust)
  define s0 where "s0 = \<lparr>ts_mem = mem, ts_world = w1, ts_catching_up = catching, ts_fires = [], ts_rows = [],
    ts_rescheduled = [], ts_retired = [], ts_cards = []\<rparr>"
  define s1 where "s1 = recover_on_wake env clock ?now (missed_ids mem armed ?now) s0"
  define s2 where "s2 = recover_on_wake env clock ?now (missed_ids (ts_mem s1) (due_ids (ts_mem s1) ?now 1) ?now) s1"
  define s3 where "s3 = fold (tick_one env fenv parses clock ?now user_active
    (slot_holders fenv parses ?now (fw_claims w) (fw_triggers w))) (due_ids (ts_mem s2) ?now 1) s2"
  have res: "fst (clock_tick env fenv parses armable absent clock now user_active catching w) = s3"
    by (simp add: clock_tick_def Let_def arm [unfolded ts_def] s3_def s2_def s1_def s0_def)
  have stored: "get_trigger (fw_triggers w) (tg_id v) = Some v" if "v \<in> set (fw_triggers w)" for v
    using that assms(2) by (rule get_of_distinct)
  have "agrees ids ts w"
    using stored assms(2) by (auto simp: agrees_def ids_def ts_def distinct_map_filter)
  then have "agrees ids mem w1"
    using unpark_agrees [of ids "(ts, w)" absent ?now]
      arm_agrees [of ids "unpark_mem absent ?now (ts, w)" env clock ?now] by (simp add: arm)
  then have s2: "agrees ids (ts_mem s2) (ts_world s2)"
    unfolding s2_def s1_def by (intro wake_agrees) (simp add: s0_def)
  have due: "set (due_ids (ts_mem s2) ?now 1) = due_set ?now (ts_mem s2)"
    by (simp add: due_ids_set due_set_def)
  have sub: "set (due_ids (ts_mem s2) ?now 1) \<subseteq> set ids"
    using s2 unfolding due by (auto simp: due_set_def agrees_def)
  have "now_or clock ?now = ?now" by (simp add: now_or_def)
  from ticks_clear [OF assms(1) this s2 sub]
  have s3: "agrees ids (ts_mem s3) (ts_world s3)" and none: "due_set ?now (ts_mem s3) = {}"
    unfolding s3_def due by auto
  have "tg_id t \<in> set ids" using assms(3,4) by (simp add: ids_def ts_def)
  then obtain v where v: "v \<in> set (ts_mem s3)" "tg_id v = tg_id t"
    using s3 by (metis agrees_def imageE list.set_map)
  then obtain u where u: "get_trigger (fw_triggers (ts_world s3)) (tg_id t) = Some u" "row_written u = row_written v"
    using s3 by (metis agrees_def)
  have "\<not> due_now ?now u" using due_now_row [OF u(2)] none v(1) by (auto simp: due_set_def)
  then show ?thesis using u(1) unfolding res by (auto simp: due_now_def is_due_def split: if_splits)
qed

text \<open>The hourly report of above, due fifty seconds ago and stored so.\<close>

definition report_due :: trigger where
  "report_due = hourly\<lparr>tg_next_fire_at := 50\<rparr>"

theorem tick_leaves_nothing_due_witness:
  "due_ids [report_due] 100 1 = [''b''] \<and>
   (\<exists>u. get_trigger (fw_triggers (ts_world (fst (clock_tick utc_clock quiet_machine (\<lambda>_. True) (\<lambda>_. True) (\<lambda>_. False)
      100 100 False [] (one_trigger report_due))))) (tg_id report_due) = Some u \<and> \<not> (tg_enabled u \<and>
      fst (is_due (tg_next_fire_at u) (now_or 100 100) (fires_automatically u) (tg_expires_at u))))"
proof (rule conjI)
  show "due_ids [report_due] 100 1 = [''b'']"
    by (simp add: due_ids_def coalesce_wakes_def report_due_def hourly_def backup_def is_due_def
        fires_automatically_def)
qed (rule tick_leaves_nothing_due, simp_all add: utc_clock_def one_trigger_def)

end
