(* ===== verification/TriggerMachine.thy ===== *)
theory TriggerMachine
  imports TickFacts
begin

text \<open>
  Everything the modelled machine does to a home's automations, as one step relation over the trigger store, the
  history and the claims: the endings of runs, polled fires, unparking, admissions, whole ticks of the
  clock and boots. Under all of it a trigger that stopped itself stays stopped.
\<close>

section \<open>The steps of the machine\<close>

definition life_of :: "fire_world \<Rightarrow> life_world" where
  "life_of w = \<lparr>lw_triggers = fw_triggers w, lw_runs = fw_runs w\<rparr>"

inductive machine_step :: "clock_env \<Rightarrow> fire_env \<Rightarrow> (trigger \<Rightarrow> bool) \<Rightarrow> (trigger \<Rightarrow> bool) \<Rightarrow> fire_world \<Rightarrow> fire_world \<Rightarrow> bool"
  for env :: clock_env and fenv :: fire_env and parses armable :: "trigger \<Rightarrow> bool" where
  lived: "life_step (fe_redact fenv) int_text (fe_rt fenv) absent (life_of w) v \<Longrightarrow>
    machine_step env fenv parses armable w (w\<lparr>fw_triggers := lw_triggers v, fw_runs := lw_runs v\<rparr>)"
| claims: "machine_step env fenv parses armable w (w\<lparr>fw_claims := files\<rparr>)"
| asked: "get_trigger (fw_triggers w) tid = Some t \<Longrightarrow>
    machine_step env fenv parses armable w (fst (admit_fire fenv parses now h ua sm src t w))"
| ticked: "machine_step env fenv parses armable w
    (ts_world (fst (clock_tick env fenv parses armable absent clock now ua catching w)))"
| booted: "machine_step env fenv parses armable w (fst (boot env armable clock now w))"

section \<open>A trigger that stopped itself stays stopped\<close>

lemma stopped_count [simp]: "stopped x s (count_fire now t) = stopped x s t"
  by (simp add: stopped_def count_fire_def)

lemma stopped_admit:
  assumes "stopped_in x s (fw_triggers w)" and "stopped x s t"
  shows "stopped_in x s (fw_triggers (fst (admit_fire fenv parses now h ua sm src t w)))"
proof (cases "fd_allowed (snd (admit_fire fenv parses now h ua sm src t w))")
  case True
  then show ?thesis
    by (rule admit_allowed_world) (use assms in \<open>simp add: stopped_upsert\<close>)
qed (use assms in \<open>simp add: admit_refused_triggers\<close>)

text \<open>The tick's copies and the store together.\<close>

definition both_stopped :: "string \<Rightarrow> trigger_state \<Rightarrow> trigger list \<times> fire_world \<Rightarrow> bool" where
  "both_stopped x s st \<longleftrightarrow> stopped_in x s (fst st) \<and> stopped_in x s (fw_triggers (snd st))"

lemma stopped_put_mem: "stopped_in x s mem \<Longrightarrow> stopped x s t \<Longrightarrow> stopped_in x s (put_mem t mem)"
  by (auto simp: put_mem_def list_all_iff)

lemma both_write: "both_stopped x s st \<Longrightarrow> stopped x s t \<Longrightarrow> both_stopped x s (write_row t st)"
  by (simp add: both_stopped_def write_row_def stopped_put_mem stopped_upsert)

lemma both_unpark:
  assumes "both_stopped x s st"
  shows "both_stopped x s (unpark_mem absent now st)"
proof -
  have step: "both_stopped x s (if unparks absent now t then write_row (unparked t) a else a)"
    if "t \<in> set (fst st)" "both_stopped x s a" for t a
  proof -
    have "stopped x s t" using assms that(1) by (simp add: both_stopped_def list_all_iff)
    then have "unparks absent now t \<Longrightarrow> stopped x s (unparked t)"
      by (auto simp: stopped_def unparks_def unparked_def needs_attention_def)
    then show ?thesis using that(2) both_write by simp
  qed
  show ?thesis unfolding unpark_mem_def
    by (rule fold_invariant [where Q = "\<lambda>t. t \<in> set (fst st)" and P = "both_stopped x s"]) (rule assms step | assumption)+
qed

lemma both_arm:
  assumes "both_stopped x s st"
  shows "both_stopped x s (fst (arm_unarmed env clock now st))"
proof -
  have row: "stopped x s (t\<lparr>tg_next_fire_at := u\<rparr>)" if "t \<in> set (fst st)" for t u
    using assms that by (simp add: both_stopped_def list_all_iff stopped_def)
  show ?thesis unfolding arm_unarmed_def
    by (rule fold_invariant [where Q = "\<lambda>t. t \<in> set (fst st)" and P = "\<lambda>a. both_stopped x s (fst a)"])
      (auto simp: assms row both_write split: prod.splits)
qed

lemma both_recover:
  assumes "both_stopped x s st"
  shows "both_stopped x s (fst (recover env clock ts now st))"
proof -
  have step: "both_stopped x s (fst (recover_step p a))" if "both_stopped x s (fst a)" for p a
  proof -
    obtain mem w rearmed where a: "a = ((mem, w), rearmed)" by (metis prod.exhaust)
    show ?thesis
    proof (cases "get_trigger mem (fst p)")
      case (Some t)
      have "stopped x s t" using that got_is_stored [OF Some] by (simp add: a both_stopped_def list_all_iff)
      then have "stopped x s (rearm_row p t)" by (cases p) (simp add: rearm_row_def stopped_def)
      then show ?thesis using that by (simp add: a recover_step_def Some both_write)
    qed (use that in \<open>simp add: a recover_step_def\<close>)
  qed
  have "both_stopped x s (fst (fold recover_step ps (st, [])))" for ps
    by (rule fold_invariant [where Q = "\<lambda>_. True" and P = "\<lambda>a. both_stopped x s (fst a)"]) (simp_all add: assms step)
  then show ?thesis by (simp add: recover_def Let_def split: prod.splits) (metis fst_conv)
qed

lemma both_wake:
  "both_stopped x s (ts_mem a, ts_world a) \<Longrightarrow>
     both_stopped x s (ts_mem (recover_on_wake env clock now tids a), ts_world (recover_on_wake env clock now tids a))"
  using both_recover [of x s "(ts_mem a, ts_world a)" env clock "rows_of (ts_mem a) tids" now]
  by (auto simp: recover_on_wake_def Let_def split: prod.splits)

lemma stopped_advanced: "stopped x s t \<Longrightarrow> stopped x s (fst (advanced_row env clock now t))"
  by (simp add: advanced_row_def Let_def stopped_def)

lemma both_tick_one:
  assumes "both_stopped x s (ts_mem a, ts_world a)"
  shows "both_stopped x s (ts_mem (tick_one env fenv parses clock now ua slots tid a),
    ts_world (tick_one env fenv parses clock now ua slots tid a))"
proof (cases "get_trigger (ts_mem a) tid")
  case (Some t)
  obtain t1 spent where adv: "advanced_row env clock now t = (t1, spent)" by fastforce
  let ?w1 = "if spent then ts_world a else (ts_world a)\<lparr>fw_triggers := upsert t1 (fw_triggers (ts_world a))\<rparr>"
  obtain h where h: "''tick:'' @ int_str (rat_trunc now) = h" by blast
  obtain w2 d where adm: "admit_fire fenv parses now h ua (Some slots) [] t1 ?w1 = (w2, d)" by fastforce
  let ?a = "tick_one env fenv parses clock now ua slots tid a"
  have one: "ts_mem ?a = put_mem (if fd_allowed d then count_fire now t1 else t1) (ts_mem a)"
    "ts_world ?a = (if spent \<and> \<not> fd_allowed d then w2\<lparr>fw_triggers := upsert t1 (fw_triggers w2)\<rparr> else w2)"
    unfolding tick_one_def Some option.case Let_def adv prod.case h adm by (simp_all split: prod.split)
  have "stopped x s t" using assms got_is_stored [OF Some] by (simp add: both_stopped_def list_all_iff)
  then have t1: "stopped x s t1" using stopped_advanced [of x s t env clock now] by (simp add: adv)
  have "stopped_in x s (fw_triggers ?w1)" using assms t1 by (simp add: both_stopped_def stopped_upsert)
  then have "stopped_in x s (fw_triggers w2)"
    using stopped_admit [of x s ?w1 t1 fenv parses now h ua "Some slots" "[]"] t1 by (simp add: adm)
  then show ?thesis using assms t1 by (simp add: both_stopped_def one stopped_put_mem stopped_upsert)
qed (use assms in \<open>simp add: tick_one_def\<close>)

lemma stopped_tick:
  assumes "stopped_in x s (fw_triggers w)"
  shows "stopped_in x s (fw_triggers (ts_world (fst (clock_tick env fenv parses armable absent clock now ua catching w))))"
proof -
  let ?now = "now_or clock now" and ?b = "\<lambda>a. both_stopped x s (ts_mem a, ts_world a)"
  let ?slots = "slot_holders fenv parses ?now (fw_claims w) (fw_triggers w)"
  obtain mem w1 armed where arm: "arm_unarmed env clock ?now (unpark_mem absent ?now (filter armable (fw_triggers w), w)) = ((mem, w1), armed)"
    by (metis prod.exhaust)
  define s0 where "s0 = \<lparr>ts_mem = mem, ts_world = w1, ts_catching_up = catching, ts_fires = [], ts_rows = [],
    ts_rescheduled = [], ts_retired = [], ts_cards = []\<rparr>"
  define s1 where "s1 = recover_on_wake env clock ?now (missed_ids mem armed ?now) s0"
  define s2 where "s2 = recover_on_wake env clock ?now (missed_ids (ts_mem s1) (due_ids (ts_mem s1) ?now 1) ?now) s1"
  have "both_stopped x s (filter armable (fw_triggers w), w)" using assms by (simp add: both_stopped_def list_all_iff)
  from both_arm [OF both_unpark [OF this], of env clock ?now absent ?now]
  have "?b s0" by (simp add: arm s0_def)
  then have "?b s2" unfolding s2_def s1_def by (intro both_wake)
  then have "?b (fold (tick_one env fenv parses clock ?now ua ?slots) ds s2)" for ds
    by (rule fold_invariant [where Q = "\<lambda>_. True" and P = ?b, rotated]) (simp_all add: both_tick_one)
  then show ?thesis
    by (simp add: clock_tick_def Let_def arm both_stopped_def s2_def s1_def s0_def)
qed

lemma stopped_boot:
  assumes "stopped_in x s (fw_triggers w)"
  shows "stopped_in x s (fw_triggers (fst (boot env armable clock now w)))"
proof -
  have "both_stopped x s (filter armable (fw_triggers w), w)" using assms by (simp add: both_stopped_def list_all_iff)
  moreover obtain mem w' report where "recover env clock (filter armable (fw_triggers w)) (now_or clock now)
      (filter armable (fw_triggers w), w) = ((mem, w'), report)" by (metis prod.exhaust)
  ultimately show ?thesis
    using both_recover [of x s "(filter armable (fw_triggers w), w)" env clock "filter armable (fw_triggers w)" "now_or clock now"]
    by (simp add: boot_def both_stopped_def Let_def)
qed

lemma stopped_machine_step:
  "machine_step env fenv parses armable w w' \<Longrightarrow> stopped_in x s (fw_triggers w) \<Longrightarrow> stopped_in x s (fw_triggers w')"
proof (induction rule: machine_step.induct)
  case (lived int_text absent w v)
  then show ?case using stopped_step [OF lived.hyps, of x s] by (simp add: life_of_def)
next
  case (asked w tid t now h ua sm src)
  then show ?case using got_is_stored by (intro stopped_admit) (auto simp: list_all_iff)
qed (simp_all add: stopped_tick stopped_boot)

text \<open>
  C4. A trigger that stopped itself, autopaused or quarantined, and is switched off, stays so and fires nothing of
  itself whatever the modelled machine does next: runs of it that end late, well or badly, the endings of
  agents and workflows, refusals, fires asked of the fire path and fires counted by a poll, claims taken
  and lost, unparking, whole ticks of the clock with the wake before them, and boots, in any order and
  number, each operation from its reading of the stored rows to its last write. What brings it back is an
  act of its owner, and for a quarantined one the Resume switch is not.
\<close>

theorem stopped_trigger_stays_stopped:
  assumes "(machine_step env fenv parses armable)\<^sup>*\<^sup>* w w'" and "needs_attention s"
    and "\<forall>t \<in> set (fw_triggers w). tg_id t = tid \<longrightarrow> tg_state t = s \<and> \<not> tg_enabled t"
  shows "(\<forall>t \<in> set (fw_triggers w'). tg_id t = tid \<longrightarrow>
      tg_state t = s \<and> \<not> tg_enabled t \<and> \<not> fires_automatically t) \<and>
    resume_state TrigQuarantined = None"
proof -
  have "stopped_in tid s (fw_triggers w)" using assms(2,3) by (simp add: list_all_iff stopped_def)
  with assms(1) have "stopped_in tid s (fw_triggers w')"
    by (induction rule: rtranclp_induct) (auto dest: stopped_machine_step)
  then show ?thesis by (auto simp: list_all_iff stopped_def resume_state_def fires_automatically_def)
qed

definition late_ending :: life_world where
  "late_ending = fst (record_run id (\<lambda>_. None) bare_runtime 50 ''b'' 40 None None [] [] ''schedule''
     \<lparr>lw_triggers = [paused_backup], lw_runs = no_runs\<rparr>)"

lemma late_ending_keeps_the_row: "get_trigger (lw_triggers late_ending) ''b'' \<noteq> None"
proof -
  let ?w = "\<lparr>lw_triggers = [paused_backup], lw_runs = no_runs\<rparr>"
  have "get_trigger (lw_triggers ?w) ''b'' = Some paused_backup"
    by (simp add: get_trigger_def paused_backup_def backup_def)
  from record_run_triggers [OF _ this, of id "\<lambda>_. None" bare_runtime 50 40 None None "[]" "[]" "''schedule''"]
  obtain d status why rid review where late: "lw_triggers late_ending =
      retire_after_run bare_runtime status review (fst (take_ending 50 d status why rid 50 paused_backup))
        (upsert (fst (take_ending 50 d status why rid 50 paused_backup)) [paused_backup])"
    unfolding late_ending_def by auto
  have "tg_spec (fst (take_ending 50 d status why rid 50 paused_backup)) = []"
    by (simp add: take_ending_def stamp_run_def Let_def paused_backup_def backup_def split: option.split)
  then show ?thesis
    by (simp add: late retire_after_run_def retires_after_def own_time_def spec_kind_def cfg_get_def get_upsert)
      (simp add: paused_backup_def backup_def)
qed

definition after_late_ending :: fire_world where
  "after_late_ending = (one_trigger paused_backup)\<lparr>fw_triggers := lw_triggers late_ending, fw_runs := lw_runs late_ending\<rparr>"

theorem stopped_trigger_stays_stopped_witness:
  "\<exists>t u. get_trigger (fw_triggers after_late_ending) ''b'' = Some t \<and>
     get_trigger (fw_triggers (fst (admit_fire quiet_machine (\<lambda>_. True) 100 ''hand:'' False None [] t after_late_ending))) ''b'' = Some u \<and>
     tg_state u = TrigAutopaused \<and> \<not> tg_enabled u"
proof -
  let ?step = "machine_step utc_clock quiet_machine (\<lambda>_. True) (\<lambda>_. True)"
  obtain t where t: "get_trigger (fw_triggers after_late_ending) ''b'' = Some t"
    using late_ending_keeps_the_row by (auto simp: after_late_ending_def)
  let ?w = "fst (admit_fire quiet_machine (\<lambda>_. True) 100 ''hand:'' False None [] t after_late_ending)"
  have "life_step (fe_redact quiet_machine) (\<lambda>_. None) (fe_rt quiet_machine) (\<lambda>_. False) (life_of (one_trigger paused_backup)) late_ending"
    unfolding late_ending_def life_of_def by (simp add: one_trigger_def quiet_machine_def bare_runtime_def [symmetric]) (rule life_step.ran)
  then have "?step (one_trigger paused_backup) after_late_ending"
    unfolding after_late_ending_def by (rule machine_step.lived)
  moreover have "?step after_late_ending ?w" by (rule machine_step.asked [OF t])
  ultimately have "?step\<^sup>*\<^sup>* (one_trigger paused_backup) ?w" by (meson converse_rtranclp_into_rtranclp r_into_rtranclp)
  from stopped_trigger_stays_stopped [OF this, of TrigAutopaused "''b''"]
  have all: "\<forall>u \<in> set (fw_triggers ?w). tg_id u = ''b'' \<longrightarrow> tg_state u = TrigAutopaused \<and> \<not> tg_enabled u"
    by (simp add: one_trigger_def paused_backup_def needs_attention_def)
  obtain u where u: "get_trigger (fw_triggers ?w) ''b'' = Some u"
    unfolding admitted_store using t by (cases "fd_allowed (snd (admit_fire quiet_machine (\<lambda>_. True) 100 ''hand:'' False None [] t after_late_ending)) \<and> ''b'' = tg_id t") simp_all
  then have "tg_state u = TrigAutopaused \<and> \<not> tg_enabled u" using all got_is_stored [OF u] get_trigger_id [OF u] by blast
  then show ?thesis using t u by blast
qed

section \<open>Operations that are not whole\<close>

text \<open>
  A tick reads the rows once and awaits each admission, and both the tick and an admission write the copy they
  hold. Where a run of the trigger ended in between and stopped it, that write puts the old row back:
  the trigger is switched on and active again, and its owner was told that it paused.
\<close>

theorem stale_copy_revives_a_stopped_trigger:
  "\<exists>u. get_trigger (fw_triggers (fst (admit_fire quiet_machine (\<lambda>_. True) 100 ''tick'' False (Some []) [] backup
       (one_trigger paused_backup)))) ''b'' = Some u \<and> tg_state u = TrigActive \<and> tg_enabled u"
proof -
  let ?a = "admit_fire quiet_machine (\<lambda>_. True) 100 ''tick'' False (Some []) [] backup (one_trigger paused_backup)"
  have "fd_allowed (snd ?a)"
    by (subst calm_admits) (simp_all add: backup_def busy_slot_def one_trigger_def read_claim_def)
  then show ?thesis by (simp add: admitted_store) (simp add: count_fire_def row_written_def backup_def)
qed

end
