(* ===== verification/Spec2Isabelle.thy ===== *)
theory Spec2Isabelle
  imports LoopTickFacts RoomFacts RoomArbiter WfPaths WfTree PoolFacts AdmissionFacts FrontierFacts
    TaskGraphFacts Breaker LocalQueue SyncFacts ConditionFacts TriggerMachine
begin

text \<open>
  A model of the deterministic core of PersonalClaw (\<^verbatim>\<open>src/src/personalclaw\<close>): the parts of the
  assistant that decide, without a model call, what runs next, who speaks next, who holds what, and when
  a person is asked. The program around them is I/O: providers, an HTTP server, a database, processes.

  The parts and how they meet.

  A workflow is a tree of nodes (\<^verbatim>\<open>workflows/models.py\<close>, theory \<open>WfModels\<close>). At every step its controller
  asks the frontier (\<^verbatim>\<open>workflows/tick.py\<close>, \<open>Frontier\<close>) what may run, from the tree and the states of its
  instances alone; the frontier asks the admission policies (\<^verbatim>\<open>workflows/admission.py\<close>, \<open>Admission\<close>) for
  room in a lane (the caps are the workflows section of \<^verbatim>\<open>config/loader.py\<close>), in a fan-out, and for one step. What a step reads of the run is written as expressions
  (\<^verbatim>\<open>workflows/bindings.py\<close>; \<open>BindingPipes\<close> the pipes, \<open>Bindings\<close> contexts, paths, secrets and templates),
  and what it asks of it as conditions over them (\<^verbatim>\<open>workflows/conditions.py\<close>, \<open>Conditions\<close>). A watcher that
  loops for months keeps a seen-set, a bounded view of its siblings and a buffer
  (\<^verbatim>\<open>workflows/longrun.py\<close> and the waits of \<^verbatim>\<open>workflows/engine.py\<close>, \<open>LongRun\<close>). A loop node whose
  cycles stall is driven by the convergence core (\<^verbatim>\<open>loop/tick.py\<close>, \<open>LoopTick\<close>) over the classes, rungs and queue of
  \<^verbatim>\<open>workflows/loop_middleware.py\<close> (\<open>LoopMiddleware\<close>), which ends in a rung that asks a person. Sessions
  claim tasks from the pool by a lease (\<^verbatim>\<open>workflows/pool.py\<close>, \<open>TaskPool\<close>), and finished tasks unblock
  others there. A room (\<^verbatim>\<open>rooms/store.py\<close>, \<open>RoomStore\<close>; \<^verbatim>\<open>rooms/arbiter.py\<close>, \<open>RoomArbiter\<close>) is the second
  scheduler of the program: a queue of members that owe a turn, kept on disk, drained under a budget that
  only a human message refills. Under both run the guards of a model call: a circuit breaker per provider
  (\<^verbatim>\<open>guardrails/breaker.py\<close>, \<open>Breaker\<close>) and, before a model on this machine, a queue of one turn
  (\<^verbatim>\<open>guardrails/local_queue.py\<close>, \<open>LocalQueue\<close>). Tasks wait for one another along a dependency graph
  (\<^verbatim>\<open>tasks/reconcile.py\<close>, \<open>TaskGraph\<close>) that every write keeps acyclic. What a home stores is kept in step
  with its peers by the merge of rows (\<^verbatim>\<open>durability/merge.py\<close>, \<open>Merge\<close>) and the three-way reconcile over
  what two homes last agreed on, published and deleted (\<^verbatim>\<open>durability/reconcile.py\<close>, \<^verbatim>\<open>conflicts.py\<close> and
  \<^verbatim>\<open>ancestors.py\<close>, \<open>Sync\<close>).

  What starts work without a person is a trigger. Its life is theory \<open>TriggerLife\<close> (\<^verbatim>\<open>triggers/autopause.py\<close>,
  \<^verbatim>\<open>run_record.py\<close>, \<^verbatim>\<open>settle.py\<close>, the history of \<^verbatim>\<open>schedule_history.py\<close>): what the ending of a run makes of
  the trigger that started it, and the streak of failures that pauses it. A fire passes the gates of
  \<^verbatim>\<open>triggers/firepath.py\<close>, takes a claim (\<^verbatim>\<open>claims.py\<close>) and is held to what its owner froze (\<^verbatim>\<open>screen.py\<close>,
  \<^verbatim>\<open>pathguard.py\<close>) and to his quiet hours (\<^verbatim>\<open>calendar.py\<close>): \<open>FirePath\<close>. When it fires is \<open>TriggerClock\<close>
  (\<^verbatim>\<open>triggers/scheduling.py\<close>, \<^verbatim>\<open>arm.py\<close>, \<^verbatim>\<open>cron_clock.py\<close>), and \<open>TriggerTick\<close> is the service around both
  (\<^verbatim>\<open>triggers/service.py\<close>, \<^verbatim>\<open>missed.py\<close>, \<^verbatim>\<open>review.py\<close>, \<^verbatim>\<open>tools.py\<close>): the boot, the wake, and the tick, which
  admits what is due through \<open>admit_fire\<close> of \<open>FirePath\<close> and stores each row's next time.

  How state and operations correspond. A dataclass is a record and a string enumeration a datatype; a
  dict whose order matters is an association list. A handler that mutates a file is a function from the
  world to an error or a new world, with every check before the write, as in the code. An exception is a
  constructor: \<open>room_error\<close>, \<open>lease_error\<close>, \<open>decode_error\<close>, \<open>claim_result\<close>. JSON is the datatype \<open>json\<close>
  of \<open>Prelude\<close>, floats are rationals (no fact rests on rounding), text is a list of 8-bit characters.

  What is an argument. The frontier takes the readers of bindings and conditions as arguments, so its facts
  hold for any; \<open>Bindings\<close> and \<open>Conditions\<close> model them. Arguments everywhere are the ordering edges of
  \<^verbatim>\<open>workflows/validator.py\<close>, a member's turn (a provider call), redaction, the fence of \<^verbatim>\<open>security.py\<close> and
  the citation functions the pipes call, \<open>str\<close> and \<open>float\<close> of text, \<open>json.dumps\<close>, the canonical JSON of a row and its sha256, a store's own rule for what of a
  row is one home's, and the hash of a call. Of the triggers they are \<open>fire_env\<close> (the incident switch, the verdict
  of the injection screen, duty gates, the processes alive, the file system) and \<open>clock_env\<close> (the time zones
  as the offsets they show, croniter, the fraction a trigger's id spreads it by). No fact assumes more of them than it names.

  What the facts show. \<open>LoopTickFacts\<close>: a stalled loop reaches a human in a bounded number of ticks, a
  recoverable failure costs no rung, replans are bounded. \<open>RoomFacts\<close>: the index keeps its shape under
  every operation, is never rewritten when unreadable, reads back what was written, and the queue is first
  come first served and survives a crash; \<open>RoomArbiter\<close> adds that a round ends and never passes a closed
  gate. \<open>WfPaths\<close> and \<open>WfTree\<close>: instance paths and the node codec read back. \<open>PoolFacts\<close>: at most one live
  holder under any sequence of locked operations. \<open>AdmissionFacts\<close>: the policies compose to the tightest,
  and more policies never widen. \<open>FrontierFacts\<close>: no reader before the
  producers it has instances of, no cap passed by what it admits, no slot
  wasted, joins wait for exactly their legs, capped loops end. \<open>TaskGraphFacts\<close>: the cycle search is exact,
  a cascade settles exactly what is reachable from the change, the writes keep the board consistent.
  \<open>Breaker\<close> and \<open>LocalQueue\<close> hold their facts: a breaker trips exactly at its threshold; one call at a time
  has a model, no turn is lost, and the number of calls ahead is exact. \<open>MergeFacts\<close>: no record is lost, the
  newest version wins, a second merge is a no-op, two homes converge. \<open>SyncFacts\<close>: the three-way rule for
  every record, deletes that stay made, edits a delete did not see that are kept for a person. \<open>LongRunFacts\<close>: a bounded seen-set that
  does not forget within its capacity, bounded views and waits. \<open>PipeFacts\<close> and \<open>BindingsFacts\<close>: an expression
  runs as written, an item of a fan-out reads its own data, a secret reaches only its readers and the mask.
  \<open>ConditionFacts\<close>: a condition means its syntax tree and skips no leaf. \<open>TriggerLifeFacts\<close>: a trigger pauses
  at its budget of failures as far as the rows read back show them, an outage costs nothing, and an ending that
  comes before its row is written, while it is kept, makes the same history as one that comes after. \<open>TriggerMachine\<close>: what stopped itself stays stopped under every operation. \<open>FirePathFacts\<close>, \<open>FireGuards\<close>, \<open>QuietFacts\<close>: the
  first closed gate decides, a run in flight is not fired again, caps and slots hold, no provider runs
  unlisted, a refusal leaves at most its row, a quiet window is a band of the week. \<open>ClockFacts\<close>, \<open>TickFacts\<close>: a
  schedule's next fire, as \<open>arm\<close> computes it, lies ahead and on no skipped date, a boot floods nothing, the slots missed by one trigger are
  counted once, the loop wakes in time, a tick leaves nothing due. This theory adds what spans the
  frontier and admission. Facts without a hypothesis that show a wrong behaviour stand beside the others and are
  named for it (for example \<open>halted_fan_out_hides_its_running_item\<close>).

  Fuel. \<open>drain\<close> of the arbiter takes the number of passes; \<open>round_ends_within_budget\<close> gives a bound that
  is always enough. \<open>collapse_from\<close> takes the code's own bound. The cycles of a loop are a partial
  function: a loop that never ends is \<open>None\<close>. The searches of the clock run under the code's
  own bounds (\<open>MAX_STEPS\<close> wall times of a cron expression, \<open>MAX_SKIP_ADVANCE\<close> skipped days, \<open>CRON_WALK_CAP\<close>
  missed slots), and the bisection for a jump of the clocks by the seconds left. Every other recursion is structural or has a size measure.

  Interfaces. \<open>turn_queue\<close> (\<open>RoomFacts\<close>) and \<open>claim_rule\<close> (\<open>PoolFacts\<close>) are the contracts a client of the
  room queue and of the lease relies on, \<open>newest_wins\<close> (\<open>MergeFacts\<close>) the one the union of two stores puts on
  its pairwise choice, \<open>novelty_filter\<close> (\<open>PipeFacts\<close>) what the \<open>unseen\<close> pipe asks of the filter the engine hands
  it; each is interpreted on the code's own operations.

  Not modelled: the controller and engine (an asyncio loop over the decisions above), the journal and the
  stores (file and database I/O), the files and the transport of a sync, providers, the dashboard, memory
  and knowledge (SQLite and embeddings), auth, the validator and the money budgets. Of the triggers: parsing
  and validating a row, the patterns of the screen, the sources that poll (web pages, files, events), the
  dispatch of an admitted fire to its action, and how its result is delivered.
\<close>

section \<open>The frontier under the limits of the configuration\<close>

lemma lane_rules_only:
  "capacity pf pint p \<lparr>rq_scope = ScopeLane, rq_key = k, rq_node = None\<rparr> = Some c \<Longrightarrow>
   p \<in> set (default_policies lims sf None) \<Longrightarrow> c = lane_cap lims k"
  by (auto simp: default_policies_def)

lemma empty_lane_admits:
  "admits (lane_verdict (default_policies (lane_limits (map_option (load_workflows pint) file_read)) sf None) l) 0"
proof -
  let ?ps = "default_policies (lane_limits (map_option (load_workflows pint) file_read)) sf None"
  have "1 \<le> c" if "ad_capacity (lane_verdict ?ps l) = Some c" for c
    using that unfolding lane_verdict_def
    by (rule compose_Some) (use limits_never_stop_a_lane lane_rules_only in metis)
  then show ?thesis by (cases "ad_capacity (lane_verdict ?ps l)") (force simp: admits_def)+
qed

lemma admit_lanes_head:
  "rs \<noteq> [] \<Longrightarrow> admits (lane_verdict ps (rn_lane (hd rs))) (int (used (rn_lane (hd rs)))) \<Longrightarrow>
   fst (admit_lanes ps used rs) \<noteq> []"
  by (cases rs) (auto split: prod.splits)

text \<open>
  C40. No configuration starves a run: whatever the workflows section of the configuration file holds (flags,
  text, zero or less, infinity, no section), under the lane limits the gateway reads from it, and under the
  default ones of services built without a configuration, when nothing occupies a lane and the walk finds
  any work at all, the frontier admits some of it.
\<close>

theorem idle_run_starts_its_work:
  assumes "fr_deferred (frontier_of w es (lane_limits (map_option (load_workflows pint) file_read)) sf
      (\<lambda>_. 0) ctx tree) \<noteq> []"
  shows "fr_ready (frontier_of w es (lane_limits (map_option (load_workflows pint) file_read)) sf
      (\<lambda>_. 0) ctx tree) \<noteq> []"
proof -
  let ?ps = "default_policies (lane_limits (map_option (load_workflows pint) file_read)) sf None"
  define rs where "rs = sort_key rn_path
    (fr_ready (visit w (ordering_for es tree) ?ps [] ctx no_item tree ''root'' ''root'' empty_frontier))"
  obtain adm df where split: "admit_lanes ?ps (\<lambda>_. 0) rs = (adm, df)" by fastforce
  have "df \<noteq> []" using assms by (simp add: frontier_of_def Let_def split rs_def [symmetric])
  then have "rs \<noteq> []" using admit_lanes_set [OF split] by auto
  then have "adm \<noteq> []"
    using admit_lanes_head [of rs ?ps "\<lambda>_. 0"] empty_lane_admits [of pint file_read sf] by (simp add: split)
  then show ?thesis by (simp add: frontier_of_def Let_def split rs_def [symmetric])
qed

definition two_stages :: node where
  "two_stages = Node PARALLEL ''both'' [] [stage_leaf ''a'', stage_leaf ''b''] None [] None [] [] []"

text \<open>A file whose cap for model calls is zero: one of the two stages goes ahead, the other waits.\<close>

definition zero_cap_file :: "(string \<times> setting) list" where
  "zero_cap_file = [(''max_concurrent_llm_nodes'', Setting (JInt 0)), (''max_concurrent_io_nodes'', NonFinite)]"

lemma second_stage_deferred:
  "map rn_path (fr_deferred (frontier_of (plain_world []) []
     (lane_limits (map_option (load_workflows (\<lambda>_. None)) (Some (Some zero_cap_file))))
     False (\<lambda>_. 0) () two_stages)) = [''root.children[1]'']"
  by code_simp

theorem idle_run_starts_its_work_witness:
  "fr_ready (frontier_of (plain_world []) []
     (lane_limits (map_option (load_workflows (\<lambda>_. None)) (Some (Some zero_cap_file))))
     False (\<lambda>_. 0) () two_stages) \<noteq> []"
  by (rule idle_run_starts_its_work) (use second_stage_deferred in auto)

section \<open>A loop under its condition\<close>

text \<open>The reader of conditions the frontier is handed: \<open>conditions.evaluate\<close>, a raised error read as such.\<close>

definition read_condition :: "host \<Rightarrow> string \<Rightarrow> binding_context \<Rightarrow> bool option" where
  "read_condition h expr ctx = (case fst (eval_condition h ctx expr) of Inl e \<Rightarrow> None | Inr b \<Rightarrow> Some b)"

text \<open>
  C21. An \<open>until\<close> loop follows its condition as it is written: below its cap it goes on exactly while the
  condition's tree means false, ends when it means true, and stops as unresolvable when any operand cannot
  be read, even one the answer would not depend on.
\<close>

theorem until_loop_follows_its_condition:
  assumes "cfg_get (nd_config n) ''mode'' = JStr ''until''"
    and "cfg_get (nd_config n) ''condition'' = JStr (show_cond 0 c)" and "wf_cond c"
    and "\<forall>cap. positive_int (cfg_get (nd_config n) ''max_iterations'') = Some cap \<longrightarrow> iteration < cap"
  shows "loop_should_continue str (read_condition h) n dry iteration ctx =
    (if \<forall>t \<in> set (operands_of c). \<exists>v. fst (operand h ctx t) = Inr v
     then if fst (meaning h ctx c) = Inr True then ConditionMet else LoopGoesOn
     else ConditionUnresolvable)"
proof -
  have shown: "show_cond 0 c \<noteq> []" using good_show [OF assms(3), of 0] by (simp add: good_text_def)
  have "read_condition h (show_cond 0 c) ctx =
      (case fst (meaning h ctx c) of Inl e \<Rightarrow> None | Inr b \<Rightarrow> Some b)"
    by (simp add: read_condition_def eval_shown [OF assms(3)])
  moreover have "str_or str (nd_config n) ''mode'' ''counted'' = ''until''"
    "str_or str (nd_config n) ''condition'' [] = show_cond 0 c"
    using assms(1,2) shown by (simp_all add: str_or_def cfg_get_def split: option.splits)
  ultimately have test: "loop_exit_test str (read_condition h) n dry iteration ctx =
      (case fst (meaning h ctx c) of Inl e \<Rightarrow> ConditionUnresolvable
       | Inr b \<Rightarrow> if b then ConditionMet else LoopGoesOn)"
    using shown by (simp add: loop_exit_test_def Let_def split: sum.split)
  show ?thesis
  proof (cases "fst (meaning h ctx c)")
    case (Inl e)
    then have "\<not> (\<forall>t \<in> set (operands_of c). \<exists>v. fst (operand h ctx t) = Inr v)"
      using meaning_ok [of h ctx c] by auto
    then show ?thesis using Inl test by (simp add: loop_should_continue_def)
  next
    case (Inr b)
    then have "\<forall>t \<in> set (operands_of c). \<exists>v. fst (operand h ctx t) = Inr v"
      using meaning_ok [of h ctx c] by auto
    then show ?thesis
      using Inr test assms(4) by (auto simp: loop_should_continue_def split: option.split)
  qed
qed

definition until_node :: node where
  "until_node = Node LOOP ''l'' [] [] None [] None
     [(''mode'', JStr ''until''), (''condition'', JStr ''true || {{inputs.typo}}'')] [] []"

theorem until_loop_follows_its_condition_witness:
  "loop_should_continue (\<lambda>_. []) (read_condition plain_host) until_node 0 1 fix_context = ConditionUnresolvable"
proof -
  let ?c = "Any [Test ''true'', Test ''{{inputs.typo}}'']"
  have "wf_cond ?c" and shown: "show_cond 0 ?c = ''true || {{inputs.typo}}''" by code_simp+
  moreover have "cfg_get (nd_config until_node) ''mode'' = JStr ''until''"
    "cfg_get (nd_config until_node) ''condition'' = JStr (show_cond 0 ?c)"
    "positive_int (cfg_get (nd_config until_node) ''max_iterations'') = None"
    unfolding shown by (simp_all add: until_node_def cfg_get_def positive_int_def)
  moreover have "fst (operand plain_host fix_context ''{{inputs.typo}}'') = Inl (Unresolved ''typo'' True)" by code_simp
  ultimately show ?thesis
    using until_loop_follows_its_condition [of until_node ?c 1 "\<lambda>_. []" plain_host 0 fix_context] by simp
qed

end
